(* ===== verification/Prelude.thy ===== *)
theory Prelude
  imports
    Main
    "HOL-Library.Word"
    "HOL-Library.Multiset"
    "HOL-Library.List_Lexorder"
    "HOL-Library.Char_ord"
begin

text \<open>
  Shared vocabulary of the development: the Rust machine types, the arithmetic of the Rust
  standard library that the node uses (\<open>saturating_add\<close>, \<open>checked_add\<close>, \<open>to_le_bytes\<close>, \<dots>),
  the \<open>Result\<close> type, the ordered containers (\<open>BTreeMap\<close> as a key-sorted association list,
  \<open>HashMap\<close> as an association list whose order is unspecified), and \<open>Vec::dedup\<close>.

  A Rust \<open>String\<close> is the list of its UTF-8 bytes, as Isabelle's \<open>string\<close> (a \<open>char\<close> is a
  byte); its order is then Rust's bytewise order. A \<open>[u8; n]\<close> is a byte list of length \<open>n\<close>.
\<close>

unbundle bit_operations_syntax

named_theorems codec_iffs \<open>what a reader accepts: exactly the encodings of its values\<close>
named_theorems codec_sizes \<open>the declared size of an encoding is its length\<close>

section \<open>Machine types\<close>

type_synonym byte = "8 word"
type_synonym u16 = "16 word"
type_synonym u32 = "32 word"
type_synonym u64 = "64 word"
type_synonym i64 = "64 word"
type_synonym usize = "64 word"
type_synonym bytes = "byte list"
type_synonym Hash = "byte list"
type_synonym ProducerId = string

type_synonym ('e, 'a) result = "'e + 'a"

section \<open>Integer operations of the standard library\<close>

definition saturating_add :: "'a::len word \<Rightarrow> 'a word \<Rightarrow> 'a word" where
  "saturating_add a b = (if unat a + unat b < 2 ^ LENGTH('a) then a + b else - 1)"

definition saturating_sub :: "'a::len word \<Rightarrow> 'a word \<Rightarrow> 'a word" where
  "saturating_sub a b = (if b \<le> a then a - b else 0)"

definition saturating_mul :: "'a::len word \<Rightarrow> 'a word \<Rightarrow> 'a word" where
  "saturating_mul a b = (if unat a * unat b < 2 ^ LENGTH('a) then a * b else - 1)"

definition i64_of_int :: "int \<Rightarrow> i64" where
  "i64_of_int i = word_of_int i"

definition i64_min :: int where "i64_min = - (2 ^ 63)"
definition i64_max :: int where "i64_max = 2 ^ 63 - 1"

definition saturating_add_i64 :: "i64 \<Rightarrow> i64 \<Rightarrow> i64" where
  "saturating_add_i64 a b = i64_of_int (max i64_min (min i64_max (sint a + sint b)))"

fun le_bytes :: "nat \<Rightarrow> nat \<Rightarrow> bytes" where
  "le_bytes 0 x = []"
| "le_bytes (Suc n) x = of_nat x # le_bytes n (x div 256)"

fun le_nat :: "bytes \<Rightarrow> nat" where
  "le_nat [] = 0"
| "le_nat (b # bs) = unat b + 256 * le_nat bs"

definition to_le_bytes :: "'a::len word \<Rightarrow> bytes" where
  "to_le_bytes w = le_bytes (LENGTH('a) div 8) (unat w)"

definition from_le_bytes :: "bytes \<Rightarrow> 'a::len word" where
  "from_le_bytes bs = of_nat (le_nat bs)"

definition to_be_bytes :: "'a::len word \<Rightarrow> bytes" where
  "to_be_bytes w = rev (to_le_bytes w)"

definition from_be_bytes :: "bytes \<Rightarrow> 'a::len word" where
  "from_be_bytes bs = from_le_bytes (rev bs)"

definition as_bytes :: "string \<Rightarrow> bytes" where
  "as_bytes s = map (\<lambda>c. of_nat (of_char c)) s"

definition string_of_bytes :: "bytes \<Rightarrow> string" where
  "string_of_bytes bs = map (\<lambda>b. char_of (unat b)) bs"

text \<open>Decimal rendering, for the numbers interpolated into error texts.\<close>

fun show_nat :: "nat \<Rightarrow> string" where
  "show_nat n = (if n < 10 then [char_of (48 + n)] else show_nat (n div 10) @ [char_of (48 + n mod 10)])"

declare show_nat.simps [simp del]

section \<open>Containers\<close>

text \<open>\<open>Vec::dedup\<close> removes consecutive repeats.\<close>

fun dedup :: "'a list \<Rightarrow> 'a list" where
  "dedup [] = []"
| "dedup [x] = [x]"
| "dedup (x # y # zs) = (if x = y then dedup (y # zs) else x # dedup (y # zs))"

definition sort_dedup :: "'a::linorder list \<Rightarrow> 'a list" where
  "sort_dedup xs = dedup (sort xs)"

text \<open>
  \<open>HashMap::insert\<close> on an association list: an existing key keeps its place and gets the new
  value, a new key is added. The order of the list stands for the unspecified iteration order.
\<close>

fun hm_insert :: "'k \<Rightarrow> 'v \<Rightarrow> ('k \<times> 'v) list \<Rightarrow> ('k \<times> 'v) list" where
  "hm_insert k v [] = [(k, v)]"
| "hm_insert k v ((k', v') # m) = (if k = k' then (k, v) # m else (k', v') # hm_insert k v m)"

text \<open>\<open>BTreeMap::insert\<close> on a key-sorted association list.\<close>

fun bt_insert :: "'k::linorder \<Rightarrow> 'v \<Rightarrow> ('k \<times> 'v) list \<Rightarrow> ('k \<times> 'v) list" where
  "bt_insert k v [] = [(k, v)]"
| "bt_insert k v ((k', v') # m) =
     (if k < k' then (k, v) # (k', v') # m
      else if k = k' then (k, v) # m
      else (k', v') # bt_insert k v m)"

section \<open>Lemmas on machine integers\<close>

lemma unat_lt256 [simp]: "unat (b :: byte) < 256"
  using unsigned_less[of b, where ?'a = nat] by simp

lemma unat_lt64: "unat (b :: u64) < 18446744073709551616"
  using unsigned_less[of b, where ?'a = nat] by simp

lemma unat_max_word: "unat (- 1 :: 'a::len word) = 2 ^ LENGTH('a) - 1"
  by (simp add: unsigned_minus_1_eq_mask mask_eq_exp_minus_1)

lemma unat_saturating_add:
  "unat (saturating_add a b) = min (2 ^ LENGTH('a) - 1) (unat a + unat (b :: 'a::len word))"
  by (auto simp: saturating_add_def unat_word_ariths unat_max_word)

lemma unat_saturating_sub: "unat (saturating_sub a b) = unat a - unat b"
  by (auto simp: saturating_sub_def unat_sub word_le_nat_alt)

lemma unat_saturating_mul:
  "unat (saturating_mul a b) = min (2 ^ LENGTH('a) - 1) (unat a * unat (b :: 'a::len word))"
  by (auto simp: saturating_mul_def unat_word_ariths unat_max_word)

lemma saturating_add_0 [simp]: "saturating_add a 0 = a"
  using unsigned_less[of a, where ?'a = nat] by (simp add: saturating_add_def)

lemmas saturating_unats = unat_saturating_add unat_saturating_sub unat_saturating_mul

text \<open>Signed 64-bit values are their integers, and saturating addition clamps the integer sum.\<close>

lemma i64_range: "i64_min \<le> sint (x :: i64)" "sint (x :: i64) \<le> i64_max"
  using sint_ge[of x] sint_lt[of x] by (simp_all add: i64_min_def i64_max_def)

lemma sint_i64_of_int: "i64_min \<le> i \<Longrightarrow> i \<le> i64_max \<Longrightarrow> sint (i64_of_int i) = i"
  by (simp add: i64_of_int_def i64_min_def i64_max_def sint_sbintrunc' signed_take_bit_int_eq_self)

lemma sint_saturating_add_i64: "sint (saturating_add_i64 a b) = max i64_min (min i64_max (sint a + sint b))"
  unfolding saturating_add_i64_def by (rule sint_i64_of_int) (auto simp: i64_min_def i64_max_def)

lemma sint_minus_i64: "0 \<le> sint (a :: i64) \<Longrightarrow> sint (- a) = - sint a"
  using i64_range[of a] by (simp add: sint_word_minus signed_take_bit_int_eq_self i64_min_def i64_max_def)

lemma sint_small: "unat (a :: i64) < 2 ^ 63 \<Longrightarrow> sint a = int (unat a)"
proof -
  assume a: "unat a < 2 ^ 63"
  then have "int (unat a) < 2 ^ 63" using of_nat_less_iff[of "unat a" "2 ^ 63", where ?'a = int] by (simp only: of_nat_power of_nat_numeral)
  then have "sint (word_of_int (int (unat a)) :: i64) = int (unat a)"
    unfolding sint_sbintrunc' by (intro signed_take_bit_int_eq_self) (use uint_ge_0[of a] in \<open>simp_all add: order.trans[of _ 0]\<close>)
  then show ?thesis by simp
qed

lemma length_le_bytes [simp]: "length (le_bytes n x) = n"
  by (induction n arbitrary: x) auto

lemma le_nat_le_bytes: "le_nat (le_bytes n x) = x mod 256 ^ n"
proof (induction n arbitrary: x)
  case 0
  then show ?case by simp
next
  case (Suc n)
  have "x mod (256 * 256 ^ n) = 256 * (x div 256 mod 256 ^ n) + x mod 256"
    by (rule mod_mult2_eq)
  with Suc show ?case by (simp add: unat_of_nat)
qed

lemma le_bytes_le_nat: "le_bytes (length bs) (le_nat bs) = bs"
proof (induction bs)
  case Nil
  then show ?case by simp
next
  case (Cons b bs)
  have "unat (of_nat (unat b + 256 * le_nat bs) :: byte) = unat b"
    by (subst unat_of_nat) simp
  then have "(of_nat (unat b + 256 * le_nat bs) :: byte) = b"
    by (simp only: word_unat_eq_iff)
  with Cons show ?case by (simp del: of_nat_add of_nat_mult)
qed

lemma le_nat_less: "le_nat bs < 256 ^ length bs"
proof (induction bs)
  case (Cons b bs)
  have "unat b < 256" by simp
  with Cons have "unat b + 256 * le_nat bs < 256 * (le_nat bs + 1)" by simp
  also have "\<dots> \<le> 256 * 256 ^ length bs" using Cons by (intro mult_le_mono2) simp
  finally show ?case by simp
qed simp

lemma length_to_le_bytes [simp]: "length (to_le_bytes (w :: 'a::len word)) = LENGTH('a) div 8"
  by (simp add: to_le_bytes_def)

lemma from_to_le_bytes:
  assumes "8 dvd LENGTH('a)"
  shows "from_le_bytes (to_le_bytes (w :: 'a::len word)) = w"
proof -
  have "(256 :: nat) ^ (LENGTH('a) div 8) = (2 ^ 8) ^ (LENGTH('a) div 8)" by simp
  also have "\<dots> = 2 ^ LENGTH('a)"
    using assms by (metis dvd_mult_div_cancel power_mult)
  finally show ?thesis
    by (simp add: from_le_bytes_def to_le_bytes_def le_nat_le_bytes)
qed

lemma to_from_le_bytes:
  assumes "8 dvd LENGTH('a)" and "length bs = LENGTH('a) div 8"
  shows "to_le_bytes (from_le_bytes bs :: 'a::len word) = bs"
proof -
  have "(256 :: nat) ^ length bs = (2 ^ 8) ^ (LENGTH('a) div 8)" by (simp add: assms(2))
  also have "\<dots> = 2 ^ LENGTH('a)"
    using assms(1) by (metis dvd_mult_div_cancel power_mult)
  finally have "le_nat bs < 2 ^ LENGTH('a)" using le_nat_less[of bs] by simp
  then have "unat (of_nat (le_nat bs) :: 'a word) = le_nat bs"
    by (simp add: unat_of_nat)
  then show ?thesis
    using assms(2) le_bytes_le_nat[of bs] by (simp add: from_le_bytes_def to_le_bytes_def)
qed

lemma from_to_le_bytes_u [simp]:
  "from_le_bytes (to_le_bytes (v :: u32)) = v" "from_le_bytes (to_le_bytes (w :: u64)) = w"
  by (rule from_to_le_bytes, simp)+

lemma to_from_le_bytes_u [simp]:
  "length bs = 4 \<Longrightarrow> to_le_bytes (from_le_bytes bs :: u32) = bs"
  "length bs = 8 \<Longrightarrow> to_le_bytes (from_le_bytes bs :: u64) = bs"
  by (rule to_from_le_bytes, simp_all)+

lemma to_le_bytes_inject:
  assumes "8 dvd LENGTH('a)"
  shows "to_le_bytes (v :: 'a::len word) = to_le_bytes w \<longleftrightarrow> v = w"
  using assms by (metis from_to_le_bytes)

lemma as_bytes_string_of_bytes [simp]: "as_bytes (string_of_bytes bs) = bs"
  by (simp add: as_bytes_def string_of_bytes_def o_def map_idI)

lemma string_of_bytes_as_bytes [simp]: "string_of_bytes (as_bytes s) = s"
  by (simp add: as_bytes_def string_of_bytes_def o_def map_idI unat_of_nat)

lemma length_as_bytes [simp]: "length (as_bytes s) = length s"
  by (simp add: as_bytes_def)

lemma as_bytes_inject [simp]: "as_bytes s = as_bytes t \<longleftrightarrow> s = t"
  by (metis string_of_bytes_as_bytes)

section \<open>Lemmas on sorting and removing repeats\<close>

lemma set_dedup [simp]: "set (dedup xs) = set xs"
  by (induction xs rule: dedup.induct) auto

lemma sorted_dedup: "sorted xs \<Longrightarrow> sorted (dedup xs)"
  by (induction xs rule: dedup.induct) auto

lemma distinct_dedup: "sorted xs \<Longrightarrow> distinct (dedup xs)"
proof (induction xs rule: dedup.induct)
  case (3 x y zs)
  then show ?case by (auto simp: less_le_not_le)
qed auto

lemma sort_dedup_eq: "sort_dedup xs = sorted_list_of_set (set xs)"
  unfolding sort_dedup_def
  by (rule sorted_distinct_set_unique) (auto simp: sorted_dedup distinct_dedup)

lemma set_sort_dedup [simp]: "set (sort_dedup xs) = set xs"
  by (simp add: sort_dedup_eq)

lemma distinct_sort_dedup [simp]: "distinct (sort_dedup xs)"
  by (simp add: sort_dedup_eq)

lemma sorted_sort_dedup [simp]: "sorted (sort_dedup xs)"
  by (simp add: sort_dedup_eq)

lemma length_sort_dedup: "length (sort_dedup xs) = card (set xs)"
  by (simp add: sort_dedup_eq)

lemma sort_dedup_cong: "set xs = set ys \<Longrightarrow> sort_dedup xs = sort_dedup ys"
  by (simp add: sort_dedup_eq)

lemma sort_dedup_idem [simp]: "sort_dedup (sort_dedup xs) = sort_dedup xs"
  by (rule sort_dedup_cong) simp

lemma sort_dedup_Nil_iff [simp]: "sort_dedup xs = [] \<longleftrightarrow> xs = []"
  by (metis set_sort_dedup set_empty)

section \<open>The map interface\<close>

text \<open>
  What the node relies on of a standard-library map, whatever its iteration order: a lookup
  after an insert, and an invariant on the entries (no key twice) that the insert keeps.
\<close>

locale kv_map =
  fixes insert_kv :: "'k \<Rightarrow> 'v \<Rightarrow> ('k \<times> 'v) list \<Rightarrow> ('k \<times> 'v) list"
    and wf :: "('k \<times> 'v) list \<Rightarrow> bool"
  assumes wf_Nil: "wf []"
    and wf_insert: "wf m \<Longrightarrow> wf (insert_kv k v m)"
    and wf_distinct: "wf m \<Longrightarrow> distinct (map fst m)"
    and lookup_insert: "wf m \<Longrightarrow> map_of (insert_kv k v m) = (map_of m)(k \<mapsto> v)"
begin

text \<open>Inserting a sequence of values under a key of each: the last value of a key wins.\<close>

definition collect :: "('v \<Rightarrow> 'k) \<Rightarrow> 'v list \<Rightarrow> ('k \<times> 'v) list \<Rightarrow> ('k \<times> 'v) list" where
  "collect key vs m = fold (\<lambda>v. insert_kv (key v) v) vs m"

lemma wf_collect: "wf m \<Longrightarrow> wf (collect key vs m)"
  by (induction vs arbitrary: m) (auto simp: collect_def wf_insert)

lemma lookup_collect:
  "wf m \<Longrightarrow> map_of (collect key vs m) = map_of m ++ map_of (rev (map (\<lambda>v. (key v, v)) vs))"
proof (induction vs arbitrary: m)
  case (Cons v vs)
  have "map_of (collect key (v # vs) m) = map_of (collect key vs (insert_kv (key v) v m))"
    by (simp add: collect_def)
  also have "\<dots> = map_of (insert_kv (key v) v m) ++ map_of (rev (map (\<lambda>v. (key v, v)) vs))"
    using Cons by (simp add: wf_insert)
  finally show ?case using Cons.prems by (simp add: lookup_insert map_add_def fun_eq_iff
        split: option.splits)
qed (simp add: collect_def)

lemma keys_collect: "wf m \<Longrightarrow> set (map fst (collect key vs m)) = set (map fst m) \<union> key ` set vs"
proof -
  assume "wf m"
  then have "dom (map_of (collect key vs m)) = dom (map_of m) \<union> key ` set vs"
    by (auto simp: lookup_collect dom_map_of_conv_image_fst image_image)
  then show ?thesis by (simp add: dom_map_of_conv_image_fst)
qed

lemma entries_collect:
  assumes "wf m" and "(k, v) \<in> set (collect key vs m)" and "\<forall>(k, v) \<in> set m. key v = k"
  shows "key v = k"
proof -
  have "map_of (collect key vs m) k = Some v"
    using assms(1,2) by (simp add: wf_collect wf_distinct)
  then have "map_of m k = Some v \<or> map_of (rev (map (\<lambda>v. (key v, v)) vs)) k = Some v"
    using assms(1) by (auto simp: lookup_collect map_add_Some_iff)
  then show ?thesis
    using assms(3) by (auto dest!: map_of_SomeD)
qed

end

lemma set_keys_hm_insert: "fst ` set (hm_insert k v m) = insert k (fst ` set m)"
  by (induction k v m rule: hm_insert.induct) (simp_all add: insert_commute)

lemma set_keys_bt_insert: "fst ` set (bt_insert k v m) = insert k (fst ` set m)"
  by (induction k v m rule: bt_insert.induct) (simp_all add: insert_commute)

interpretation hm: kv_map hm_insert "\<lambda>m. distinct (map fst m)"
proof unfold_locales
  show "distinct (map fst (hm_insert k v m))" if "distinct (map fst m)" for k :: 'a and v :: 'b and m
    using that by (induction k v m rule: hm_insert.induct) (auto simp: set_keys_hm_insert)
  show "map_of (hm_insert k v m) = (map_of m)(k \<mapsto> v)" for k :: 'a and v :: 'b and m
    by (induction m) auto
qed auto

lemma map_of_hm_insert: "map_of (hm_insert k v m) = (map_of m)(k \<mapsto> v)"
  by (induction m) auto

abbreviation bt_wf :: "('k::linorder \<times> 'v) list \<Rightarrow> bool" where
  "bt_wf m \<equiv> sorted_wrt (<) (map fst m)"

interpretation bt: kv_map "bt_insert :: 'k::linorder \<Rightarrow> 'v \<Rightarrow> _" bt_wf
proof unfold_locales
  show "bt_wf (bt_insert k v m)" if "bt_wf m" for k :: 'k and v :: 'v and m
    using that
  proof (induction k v m rule: bt_insert.induct)
    case (2 k v k' v' m)
    then have "\<forall>x \<in> fst ` set m. k' < x" by simp
    with 2 have "k' < k \<Longrightarrow> \<forall>x \<in> fst ` set (bt_insert k v m). k' < x"
      by (simp add: set_keys_bt_insert)
    with 2 show ?case by (auto intro: less_trans)
  qed simp
  show "distinct (map fst m)" if "bt_wf m" for m :: "('k \<times> 'v) list"
    using that by (simp add: strict_sorted_iff)
  show "map_of (bt_insert k v m) = (map_of m)(k \<mapsto> v)" if "bt_wf m" for k :: 'k and v :: 'v and m
    using that by (induction m) (auto simp: fun_eq_iff)
qed auto

text \<open>A sorted association list is determined by the map it represents.\<close>

lemma map_of_keys_eq:
  "distinct (map fst m) \<Longrightarrow> map fst m = map fst n \<Longrightarrow> map_of m = map_of n \<Longrightarrow> m = n"
proof (rule nth_equalityI)
  assume d: "distinct (map fst m)" and k: "map fst m = map fst n" and eq: "map_of m = map_of n"
  show len: "length m = length n" using k by (metis length_map)
  fix i assume i: "i < length m"
  then have fst_eq: "fst (m ! i) = fst (n ! i)" using k len by (metis nth_map)
  have "map_of m (fst (m ! i)) = Some (snd (m ! i))"
    using d i by (simp add: map_of_eq_Some_iff)
  moreover have "map_of n (fst (n ! i)) = Some (snd (n ! i))"
    using d k i len by (simp add: map_of_eq_Some_iff)
  ultimately have "snd (m ! i) = snd (n ! i)" using eq fst_eq by simp
  with fst_eq show "m ! i = n ! i" by (rule prod_eqI)
qed

lemma bt_wf_ext:
  assumes "bt_wf m" and "bt_wf n" and "map_of m = map_of n"
  shows "m = n"
proof -
  have "set (map fst m) = set (map fst n)"
    using assms(3) by (metis dom_map_of_conv_image_fst list.set_map)
  with assms(1,2) have keys: "map fst m = map fst n"
    by (intro strict_sorted_equal) auto
  have "distinct (map fst m)" using assms(1) by (rule bt.wf_distinct)
  from this keys assms(3) show ?thesis by (rule map_of_keys_eq)
qed

section \<open>Quorums\<close>

text \<open>
  What a threshold over a committee buys: two sets of members that both reach it overlap. The
  phases use it with a simple majority, the finality certificates with two thirds.
\<close>

locale majority_quorum =
  fixes committee :: "'a set" and need :: nat
  assumes finite_committee: "finite committee"
    and majority: "card committee < 2 * need"
begin

definition quorum :: "'a set \<Rightarrow> bool" where
  "quorum A \<longleftrightarrow> A \<subseteq> committee \<and> need \<le> card A"

lemma overlap_card: "quorum A \<Longrightarrow> quorum B \<Longrightarrow> 2 * need \<le> card committee + card (A \<inter> B)"
proof -
  assume q: "quorum A" "quorum B"
  then have fin: "finite A" "finite B" and sub: "A \<union> B \<subseteq> committee"
    using finite_committee by (auto simp: quorum_def intro: finite_subset)
  have "card A + card B = card (A \<union> B) + card (A \<inter> B)" by (rule card_Un_Int[OF fin])
  moreover have "card (A \<union> B) \<le> card committee" by (rule card_mono[OF finite_committee sub])
  ultimately show ?thesis using q by (simp add: quorum_def)
qed

lemma overlap: "quorum A \<Longrightarrow> quorum B \<Longrightarrow> A \<inter> B \<noteq> {}"
  using overlap_card[of A B] majority by auto

end

end
