(* ===== verification/Codec.thy ===== *)
theory Codec
  imports Prelude
begin

text \<open>
  The wire codec of \<open>catalyst-utils/src/serialization.rs\<close>: the primitive instances of
  \<open>CatalystSerialize\<close>/\<open>CatalystDeserialize\<close>, the \<open>Vec\<close>, \<open>Option\<close> and \<open>String\<close> instances,
  and the sequencing that the macro \<open>impl_catalyst_serialize!\<close> generates for a struct.

  A writer is a byte vector, so a write never fails and \<open>serialize_to\<close> is the list of bytes
  it appends. A reader is a cursor over a slice: a function from the unread bytes to the value
  and the bytes left, or to the error that aborts the parse. Error texts are kept up to the
  text of a foreign error that the source interpolates at the end.

  The interface of a codec is the locale \<open>codec\<close>: a value that is encodable decodes to itself
  and leaves the bytes behind it untouched; whatever decodes was the encoding of its value
  (no second encoding of a value is accepted); \<open>serialized_size\<close> is the length. Its lemmas
  give injectivity and prefix freedom, and that vectors, options and pairs of codecs are codecs.
\<close>

datatype UtilError = Io string | Parse string | UtilTimeout | RateLimited | InvalidInput string

datatype CatalystError =
    Crypto string
  | Network string
  | Storage string
  | Consensus string string
  | Runtime string
  | Config string
  | Serialization string
  | Invalid string
  | NotFound string
  | Timeout u64 string
  | Internal string
  | Util UtilError

text \<open>The \<open>Display\<close> text of an error, as the derived implementation prints it.\<close>

definition display_util :: "UtilError \<Rightarrow> string" where
  "display_util e = (case e of
       Io m \<Rightarrow> ''IO error: '' @ m
     | Parse m \<Rightarrow> ''Parse error: '' @ m
     | UtilTimeout \<Rightarrow> ''Operation timed out''
     | RateLimited \<Rightarrow> ''Rate limited''
     | InvalidInput m \<Rightarrow> ''Invalid input: '' @ m)"

definition display_error :: "CatalystError \<Rightarrow> string" where
  "display_error e = (case e of
       Crypto m \<Rightarrow> ''Cryptographic error: '' @ m
     | Network m \<Rightarrow> ''Network error: '' @ m
     | Storage m \<Rightarrow> ''Storage error: '' @ m
     | Consensus phase m \<Rightarrow> ''Consensus error: '' @ phase @ '': '' @ m
     | Runtime m \<Rightarrow> ''Runtime error: '' @ m
     | Config m \<Rightarrow> ''Configuration error: '' @ m
     | Serialization m \<Rightarrow> ''Serialization error: '' @ m
     | Invalid m \<Rightarrow> ''Invalid: '' @ m
     | NotFound m \<Rightarrow> ''Not found: '' @ m
     | Timeout ms op \<Rightarrow> ''Timeout after '' @ show_nat (unat ms) @ ''ms: '' @ op
     | Internal m \<Rightarrow> ''Internal error: '' @ m
     | Util u \<Rightarrow> ''Utility error: '' @ display_util u)"

type_synonym 'a reader = "bytes \<Rightarrow> (CatalystError, 'a \<times> bytes) result"

section \<open>Readers\<close>

definition read_exact :: "string \<Rightarrow> nat \<Rightarrow> bytes reader" where
  "read_exact msg n bs =
     (if n \<le> length bs then Inr (take n bs, drop n bs) else Inl (Serialization msg))"

definition pbind :: "'a reader \<Rightarrow> ('a \<Rightarrow> 'b reader) \<Rightarrow> 'b reader" where
  "pbind p f bs = (case p bs of Inl e \<Rightarrow> Inl e | Inr (x, rest) \<Rightarrow> f x rest)"

definition preturn :: "'a \<Rightarrow> 'a reader" where
  "preturn x bs = Inr (x, bs)"

definition pfail :: "CatalystError \<Rightarrow> 'a reader" where
  "pfail e bs = Inl e"

text \<open>\<open>deserialize\<close> of a compound type: run the reader on the slice, ignore what it leaves.\<close>

definition run_reader :: "'a reader \<Rightarrow> bytes \<Rightarrow> (CatalystError, 'a) result" where
  "run_reader p bs = (case p bs of Inl e \<Rightarrow> Inl e | Inr (x, rest) \<Rightarrow> Inr x)"

text \<open>\<open>String::from_utf8\<close> accepts the well-formed sequences of Unicode Table 3-7.\<close>

definition utf8_cont :: "byte \<Rightarrow> bool" where
  "utf8_cont b \<longleftrightarrow> 0x80 \<le> b \<and> b \<le> 0xBF"

fun utf8_valid :: "bytes \<Rightarrow> bool" where
  "utf8_valid [] = True"
| "utf8_valid (b # bs) =
     (if b < 0x80 then utf8_valid bs
      else if 0xC2 \<le> b \<and> b \<le> 0xDF then
        (case bs of c # r \<Rightarrow> utf8_cont c \<and> utf8_valid r | _ \<Rightarrow> False)
      else if 0xE0 \<le> b \<and> b \<le> 0xEF then
        (case bs of c # d # r \<Rightarrow>
           utf8_cont c \<and> (b = 0xE0 \<longrightarrow> 0xA0 \<le> c) \<and> (b = 0xED \<longrightarrow> c \<le> 0x9F)
           \<and> utf8_cont d \<and> utf8_valid r
         | _ \<Rightarrow> False)
      else if 0xF0 \<le> b \<and> b \<le> 0xF4 then
        (case bs of c # d # e # r \<Rightarrow>
           utf8_cont c \<and> (b = 0xF0 \<longrightarrow> 0x90 \<le> c) \<and> (b = 0xF4 \<longrightarrow> c \<le> 0x8F)
           \<and> utf8_cont d \<and> utf8_cont e \<and> utf8_valid r
         | _ \<Rightarrow> False)
      else False)"

section \<open>Length-prefixed bytes, strings and vectors\<close>

definition serialize_bytes :: "bytes \<Rightarrow> bytes" where
  "serialize_bytes data = to_le_bytes (of_nat (length data) :: u32) @ data"

definition deserialize_bytes :: "bytes reader" where
  "deserialize_bytes =
     pbind (read_exact ''Failed to read length: '' 4) (\<lambda>len_bytes.
       let len = unat (from_le_bytes len_bytes :: u32) in
       if len > 100000000
       then pfail (Serialization (''Data length '' @ show_nat len @ '' exceeds maximum allowed size''))
       else read_exact ''Failed to read data: '' len)"

definition serialize_string :: "string \<Rightarrow> bytes" where
  "serialize_string s = serialize_bytes (as_bytes s)"

definition deserialize_string :: "string reader" where
  "deserialize_string =
     pbind deserialize_bytes (\<lambda>bs.
       if utf8_valid bs then preturn (string_of_bytes bs) else pfail (Serialization ''Invalid UTF-8: ''))"

definition serialize_vec :: "('a \<Rightarrow> bytes) \<Rightarrow> 'a list \<Rightarrow> bytes" where
  "serialize_vec enc items = to_le_bytes (of_nat (length items) :: u32) @ concat (map enc items)"

fun read_items :: "'a reader \<Rightarrow> nat \<Rightarrow> 'a list reader" where
  "read_items dec 0 = preturn []"
| "read_items dec (Suc n) = pbind dec (\<lambda>x. pbind (read_items dec n) (\<lambda>xs. preturn (x # xs)))"

definition deserialize_vec :: "'a reader \<Rightarrow> 'a list reader" where
  "deserialize_vec dec =
     pbind (read_exact ''Failed to read vec length: '' 4) (\<lambda>len_bytes.
       let len = unat (from_le_bytes len_bytes :: u32) in
       if len > 1000000
       then pfail (Serialization (''Vector length '' @ show_nat len @ '' exceeds maximum allowed size''))
       else read_items dec len)"

definition vec_size :: "('a \<Rightarrow> nat) \<Rightarrow> 'a list \<Rightarrow> nat" where
  "vec_size sz xs = 4 + sum_list (map sz xs)"

definition string_size :: "string \<Rightarrow> nat" where
  "string_size s = 4 + length s"

section \<open>Primitive instances\<close>

definition ser_u8 :: "byte \<Rightarrow> bytes" where "ser_u8 b = [b]"

definition size_u8 :: "byte \<Rightarrow> nat" where "size_u8 b = 1"

definition de_u8 :: "byte reader" where
  "de_u8 = pbind (read_exact ''Failed to read u8: '' 1) (\<lambda>bs. preturn (bs ! 0))"

definition deserialize_u8 :: "bytes \<Rightarrow> (CatalystError, byte) result" where
  "deserialize_u8 data =
     (if length data < 1 then Inl (Serialization ''Insufficient data for u8'') else Inr (data ! 0))"

definition ser_u32 :: "u32 \<Rightarrow> bytes" where "ser_u32 w = to_le_bytes w"

definition de_u32 :: "u32 reader" where
  "de_u32 = pbind (read_exact ''Failed to read u32: '' 4) (\<lambda>bs. preturn (from_le_bytes bs))"

definition deserialize_u32 :: "bytes \<Rightarrow> (CatalystError, u32) result" where
  "deserialize_u32 data =
     (if length data < 4 then Inl (Serialization ''Insufficient data for u32'')
      else Inr (from_le_bytes (take 4 data)))"

definition ser_u64 :: "u64 \<Rightarrow> bytes" where "ser_u64 w = to_le_bytes w"

definition de_u64 :: "u64 reader" where
  "de_u64 = pbind (read_exact ''Failed to read u64: '' 8) (\<lambda>bs. preturn (from_le_bytes bs))"

definition deserialize_u64 :: "bytes \<Rightarrow> (CatalystError, u64) result" where
  "deserialize_u64 data =
     (if length data < 8 then Inl (Serialization ''Insufficient data for u64'')
      else Inr (from_le_bytes (take 8 data)))"

definition ser_i64 :: "i64 \<Rightarrow> bytes" where "ser_i64 w = to_le_bytes w"

definition de_i64 :: "i64 reader" where
  "de_i64 = pbind (read_exact ''Failed to read i64: '' 8) (\<lambda>bs. preturn (from_le_bytes bs))"

definition deserialize_i64 :: "bytes \<Rightarrow> (CatalystError, i64) result" where
  "deserialize_i64 data =
     (if length data < 8 then Inl (Serialization ''Insufficient data for i64'')
      else Inr (from_le_bytes (take 8 data)))"

text \<open>The instances for \<open>[u8; 32]\<close>, \<open>[u8; 21]\<close> and \<open>[u8; 64]\<close> differ in the length only.\<close>

definition ser_arr :: "bytes \<Rightarrow> bytes" where "ser_arr bs = bs"

definition de_arr :: "nat \<Rightarrow> bytes reader" where
  "de_arr n = read_exact (''Failed to read [u8;'' @ show_nat n @ '']: '') n"

definition deserialize_arr :: "nat \<Rightarrow> bytes \<Rightarrow> (CatalystError, bytes) result" where
  "deserialize_arr n data =
     (if length data < n then Inl (Serialization (''Insufficient data for [u8;'' @ show_nat n @ '']''))
      else Inr (take n data))"

definition ser_opt :: "('a \<Rightarrow> bytes) \<Rightarrow> 'a option \<Rightarrow> bytes" where
  "ser_opt enc x = (case x of None \<Rightarrow> ser_u8 0 | Some v \<Rightarrow> ser_u8 1 @ enc v)"

definition de_opt :: "'a reader \<Rightarrow> 'a option reader" where
  "de_opt dec =
     pbind de_u8 (\<lambda>tag.
       if tag = 0 then preturn None
       else if tag = 1 then pbind dec (\<lambda>v. preturn (Some v))
       else pfail (Serialization (''invalid Option tag: '' @ show_nat (unat tag))))"

definition opt_size :: "('a \<Rightarrow> nat) \<Rightarrow> 'a option \<Rightarrow> nat" where
  "opt_size sz x = (case x of None \<Rightarrow> 1 | Some v \<Rightarrow> 1 + sz v)"

section \<open>The codec interface\<close>

lemma pbind_Inr_iff [simp]:
  "pbind p f bs = Inr r \<longleftrightarrow> (\<exists>x rest. p bs = Inr (x, rest) \<and> f x rest = Inr r)"
  by (auto simp: pbind_def split: sum.splits prod.splits)

lemma preturn_Inr_iff [simp]: "preturn x bs = Inr (y, rest) \<longleftrightarrow> y = x \<and> rest = bs"
  by (auto simp: preturn_def)

lemma pfail_not_Inr [simp]: "pfail e bs \<noteq> Inr r"
  by (simp add: pfail_def)

lemma read_exact_Inr_iff:
  "read_exact msg n bs = Inr (x, rest) \<longleftrightarrow> bs = x @ rest \<and> length x = n"
  by (auto simp: read_exact_def)

lemma pbind_run: "p bs = Inr (x, rest) \<Longrightarrow> pbind p f bs = f x rest"
  by (simp add: pbind_def)

abbreviation vec_ok :: "('a \<Rightarrow> bool) \<Rightarrow> 'a list \<Rightarrow> bool" where
  "vec_ok ok xs \<equiv> length xs \<le> 1000000 \<and> (\<forall>x \<in> set xs. ok x)"

abbreviation str_ok :: "string \<Rightarrow> bool" where
  "str_ok s \<equiv> length s \<le> 100000000 \<and> utf8_valid (as_bytes s)"

locale codec =
  fixes enc :: "'a \<Rightarrow> bytes"
    and dec :: "'a reader"
    and sz :: "'a \<Rightarrow> nat"
    and ok :: "'a \<Rightarrow> bool"
  assumes dec_enc: "ok x \<Longrightarrow> dec (enc x @ rest) = Inr (x, rest)"
    and canonical: "dec bs = Inr (x, rest) \<Longrightarrow> bs = enc x @ rest \<and> ok x"
    and size: "ok x \<Longrightarrow> sz x = length (enc x)"
begin

lemma prefix_free: "ok x \<Longrightarrow> ok y \<Longrightarrow> enc x @ r = enc y @ s \<Longrightarrow> x = y \<and> r = s"
  by (metis dec_enc sum.inject(2) prod.inject)

lemma enc_inject: "ok x \<Longrightarrow> ok y \<Longrightarrow> enc x = enc y \<longleftrightarrow> x = y"
  by (metis prefix_free)

lemma dec_iff: "dec bs = Inr (x, rest) \<longleftrightarrow> bs = enc x @ rest \<and> ok x"
  using dec_enc canonical by blast

lemma run_reader_enc: "ok x \<Longrightarrow> run_reader dec (enc x @ junk) = Inr x"
  by (simp add: run_reader_def dec_enc)

lemma read_items_iff:
  "read_items dec n bs = Inr (xs, rest) \<longleftrightarrow>
     length xs = n \<and> (\<forall>x \<in> set xs. ok x) \<and> bs = concat (map enc xs) @ rest"
proof (induction n arbitrary: bs xs rest)
  case (Suc n)
  show ?case
    by (cases xs) (auto simp: dec_iff Suc.IH)
qed auto

lemma size_items: "\<forall>x \<in> set xs. ok x \<Longrightarrow> sum_list (map sz xs) = length (concat (map enc xs))"
  by (induction xs) (auto simp: size)

lemma codec_vec:
  "codec (serialize_vec enc) (deserialize_vec dec) (vec_size sz)
     (vec_ok ok)"
proof unfold_locales
  fix xs rest
  assume ok_xs: "length xs \<le> 1000000 \<and> (\<forall>x \<in> set xs. ok x)"
  then have n: "unat (of_nat (length xs) :: u32) = length xs" by (simp add: unat_of_nat)
  have "read_exact ''Failed to read vec length: '' 4
          (to_le_bytes (of_nat (length xs) :: u32) @ concat (map enc xs) @ rest)
        = Inr (to_le_bytes (of_nat (length xs) :: u32), concat (map enc xs) @ rest)"
    by (simp add: read_exact_Inr_iff)
  then show "deserialize_vec dec (serialize_vec enc xs @ rest) = Inr (xs, rest)"
    using ok_xs
    by (simp add: deserialize_vec_def serialize_vec_def pbind_run from_to_le_bytes n read_items_iff)
  show "vec_size sz xs = length (serialize_vec enc xs)"
    using ok_xs by (simp add: vec_size_def serialize_vec_def size_items)
next
  fix bs xs rest
  assume "deserialize_vec dec bs = Inr (xs, rest)"
  then obtain l rest' where l: "bs = l @ rest'" "length l = 4"
    and le: "unat (from_le_bytes l :: u32) \<le> 1000000"
    and items: "read_items dec (unat (from_le_bytes l :: u32)) rest' = Inr (xs, rest)"
    by (auto simp: deserialize_vec_def read_exact_Inr_iff Let_def split: if_splits)
  from items have xs: "length xs = unat (from_le_bytes l :: u32)" "\<forall>x \<in> set xs. ok x"
    "rest' = concat (map enc xs) @ rest" by (auto simp: read_items_iff)
  have "to_le_bytes (of_nat (length xs) :: u32) = l"
    using l(2) by (simp add: xs(1) to_from_le_bytes)
  with l xs le show "bs = serialize_vec enc xs @ rest \<and> length xs \<le> 1000000 \<and> (\<forall>x \<in> set xs. ok x)"
    by (simp add: serialize_vec_def)
qed

lemma codec_opt: "codec (ser_opt enc) (de_opt dec) (opt_size sz) (pred_option ok)"
proof unfold_locales
  fix x rest
  assume "pred_option ok x"
  then show "de_opt dec (ser_opt enc x @ rest) = Inr (x, rest)"
    and "opt_size sz x = length (ser_opt enc x)"
    by (auto simp: de_opt_def ser_opt_def opt_size_def de_u8_def ser_u8_def pbind_def read_exact_def
        preturn_def dec_enc size split: option.splits)
next
  fix bs x rest
  assume "de_opt dec bs = Inr (x, rest)"
  then show "bs = ser_opt enc x @ rest \<and> pred_option ok x"
    by (auto simp: de_opt_def ser_opt_def de_u8_def ser_u8_def read_exact_Inr_iff dec_iff
        length_Suc_conv split: if_splits)
qed

end

section \<open>The primitive codecs\<close>

interpretation u8c: codec ser_u8 de_u8 size_u8 "\<lambda>_. True"
  by unfold_locales
    (auto simp: ser_u8_def size_u8_def de_u8_def pbind_def preturn_def read_exact_Inr_iff length_Suc_conv
      split: sum.splits, simp add: read_exact_def)

lemma le_word_codec:
  assumes "8 dvd LENGTH('a)"
  shows "codec to_le_bytes
           (pbind (read_exact msg (LENGTH('a) div 8)) (\<lambda>bs. preturn (from_le_bytes bs :: 'a::len word)))
           (\<lambda>_. LENGTH('a) div 8) (\<lambda>_. True)"
proof unfold_locales
  fix w :: "'a word" and rest
  show "pbind (read_exact msg (LENGTH('a) div 8)) (\<lambda>bs. preturn (from_le_bytes bs)) (to_le_bytes w @ rest)
      = Inr (w, rest)"
    using assms by (simp add: read_exact_Inr_iff from_to_le_bytes)
next
  fix bs rest and w :: "'a word"
  assume "pbind (read_exact msg (LENGTH('a) div 8)) (\<lambda>bs. preturn (from_le_bytes bs)) bs = Inr (w, rest)"
  then show "bs = to_le_bytes w @ rest \<and> True"
    using assms by (auto simp: read_exact_Inr_iff to_from_le_bytes)
qed simp

interpretation u32c: codec ser_u32 de_u32 "\<lambda>_. 4" "\<lambda>_. True"
  using le_word_codec[where 'a = 32] by (simp add: ser_u32_def[abs_def] de_u32_def)

interpretation u64c: codec ser_u64 de_u64 "\<lambda>_. 8" "\<lambda>_. True"
  using le_word_codec[where 'a = 64] by (simp add: ser_u64_def[abs_def] de_u64_def)

interpretation i64c: codec ser_i64 de_i64 "\<lambda>_. 8" "\<lambda>_. True"
  using le_word_codec[where 'a = 64] by (simp add: ser_i64_def[abs_def] de_i64_def)

lemma arr_codec: "codec ser_arr (de_arr n) (\<lambda>_. n) (\<lambda>bs. length bs = n)"
  by unfold_locales (auto simp: ser_arr_def de_arr_def read_exact_Inr_iff)

interpretation arr32: codec ser_arr "de_arr 32" "\<lambda>_. 32" "\<lambda>bs. length bs = 32"
  by (rule arr_codec)

interpretation arr21: codec ser_arr "de_arr 21" "\<lambda>_. 21" "\<lambda>bs. length bs = 21"
  by (rule arr_codec)

interpretation arr64: codec ser_arr "de_arr 64" "\<lambda>_. 64" "\<lambda>bs. length bs = 64"
  by (rule arr_codec)

lemma deserialize_bytes_iff:
  "deserialize_bytes bs = Inr (x, rest) \<longleftrightarrow> length x \<le> 100000000 \<and> bs = serialize_bytes x @ rest"
proof
  assume "deserialize_bytes bs = Inr (x, rest)"
  then obtain l where "bs = l @ x @ rest" "length l = 4"
    and le: "unat (from_le_bytes l :: u32) \<le> 100000000" "length x = unat (from_le_bytes l :: u32)"
    by (auto simp: deserialize_bytes_def read_exact_Inr_iff Let_def split: if_splits)
  moreover from this have "to_le_bytes (of_nat (length x) :: u32) = l"
    by (simp add: to_from_le_bytes)
  ultimately show "length x \<le> 100000000 \<and> bs = serialize_bytes x @ rest"
    by (simp add: serialize_bytes_def)
next
  assume asm: "length x \<le> 100000000 \<and> bs = serialize_bytes x @ rest"
  then have "unat (of_nat (length x) :: u32) = length x" by (simp add: unat_of_nat)
  moreover have "read_exact ''Failed to read data: '' (length x) (x @ rest) = Inr (x, rest)"
    by (simp add: read_exact_Inr_iff)
  moreover have "read_exact ''Failed to read length: '' 4 bs
      = Inr (to_le_bytes (of_nat (length x) :: u32), x @ rest)"
    using asm by (simp add: read_exact_Inr_iff serialize_bytes_def)
  ultimately show "deserialize_bytes bs = Inr (x, rest)"
    using asm by (simp add: deserialize_bytes_def pbind_run[of "read_exact _ _"] Let_def del: pbind_Inr_iff)
qed

interpretation strc: codec serialize_string deserialize_string string_size str_ok
proof unfold_locales
  fix s rest
  assume ok: "str_ok s"
  then have "deserialize_bytes (serialize_string s @ rest) = Inr (as_bytes s, rest)"
    by (simp add: deserialize_bytes_iff serialize_string_def)
  then show "deserialize_string (serialize_string s @ rest) = Inr (s, rest)"
    using ok by (simp add: deserialize_string_def pbind_run del: pbind_Inr_iff)
  show "string_size s = length (serialize_string s)"
    by (simp add: serialize_string_def string_size_def serialize_bytes_def)
next
  fix bs s rest
  assume "deserialize_string bs = Inr (s, rest)"
  then show "bs = serialize_string s @ rest \<and> str_ok s"
    by (auto simp: deserialize_string_def serialize_string_def deserialize_bytes_iff split: if_splits)
      (simp_all add: string_of_bytes_def)
qed

interpretation vec_u8: codec "serialize_vec ser_u8" "deserialize_vec de_u8" "vec_size size_u8" "vec_ok (\<lambda>_. True)"
  by (rule u8c.codec_vec)

interpretation vec_str: codec "serialize_vec serialize_string" "deserialize_vec deserialize_string"
  "vec_size string_size" "vec_ok str_ok"
  by (rule strc.codec_vec)

interpretation opt_vec_u8: codec "ser_opt (serialize_vec ser_u8)" "de_opt (deserialize_vec de_u8)"
  "opt_size (vec_size size_u8)" "pred_option (vec_ok (\<lambda>_. True))"
  by (rule vec_u8.codec_opt)

lemmas prim_codec_iffs [codec_iffs] = u8c.dec_iff u32c.dec_iff u64c.dec_iff i64c.dec_iff arr32.dec_iff arr21.dec_iff
  arr64.dec_iff strc.dec_iff vec_u8.dec_iff vec_str.dec_iff opt_vec_u8.dec_iff

lemmas prim_codec_sizes [codec_sizes] = u8c.size u32c.size u64c.size i64c.size arr32.size arr21.size
  arr64.size strc.size vec_u8.size vec_str.size opt_vec_u8.size

lemma pbind_de_u8 [simp]:
  "pbind de_u8 f (b # bs) = f b bs"
  "pbind de_u8 f [] = Inl (Serialization ''Failed to read u8: '')"
  by (simp_all add: pbind_def de_u8_def read_exact_def preturn_def)

lemma ser_lengths:
  "length (ser_u8 b) = 1" "length (ser_u32 w) = 4" "length (ser_u64 v) = 8" "length (ser_i64 i) = 8"
  "length (ser_arr a) = length a"
  by (simp_all add: ser_u8_def ser_u32_def ser_u64_def ser_i64_def ser_arr_def)

end
