(* ===== verification/Envelope.thy ===== *)
theory Envelope
  imports Codec
begin

text \<open>
  The message envelope of \<open>catalyst-utils/src/network.rs\<close>: message types and priorities, the
  envelope and its versioned wire frame, expiry, signing, loop-free routing and the router that
  dispatches an envelope to the handler of its type.

  \<open>bincode\<close> and \<open>serde_json\<close> are third-party code and arguments of the definitions that call
  them, as are the clock and the random message id.
\<close>

section \<open>Data\<close>

definition PROTOCOL_VERSION :: u32 where "PROTOCOL_VERSION = 1"
definition ENVELOPE_WIRE_MAGIC :: bytes where "ENVELOPE_WIRE_MAGIC = as_bytes ''CENV''"

datatype MessageType =
    ProducerQuantity | ProducerCandidate | ProducerVote | ProducerOutput | ConsensusSync
  | Transaction | TransactionBatch | TransactionRequest
  | PeerDiscovery | PeerHandshake | PeerHeartbeat | PeerDisconnect
  | StateRequest | StateResponse | StorageSync | FileRequest | FileResponse
  | EventNotification | EventSubscription | EventUnsubscription
  | WorkerRegistration | WorkerSelection | ProducerSelection | NodeStatus
  | HealthCheck | ConfigUpdate | NetworkInfo | MetricsReport
  | ErrorResponse
  | LsuFinalityAttestation | LsuFinalityCid | StateRootAttestation | StateRootFinalityCid
  | Custom u16

datatype MessagePriority = Low | Normal | High | Critical

record RoutingInfo =
  visited_nodes :: "string list"
  max_hops :: byte
  hop_count :: byte
  preferred_path :: "string list option"
  ordered_delivery :: bool

record MessageEnvelope =
  env_id :: string
  message_type :: MessageType
  env_version :: u32
  env_sender :: string
  env_target :: "string option"
  env_timestamp :: u64
  env_priority :: byte
  env_ttl :: u32
  payload :: bytes
  env_signature :: "bytes option"
  routing_info :: "RoutingInfo option"

section \<open>Message types\<close>

definition is_consensus_critical :: "MessageType \<Rightarrow> bool" where
  "is_consensus_critical t = (t \<in> {ProducerQuantity, ProducerCandidate, ProducerVote, ProducerOutput,
     ConsensusSync, LsuFinalityAttestation, LsuFinalityCid, StateRootAttestation, StateRootFinalityCid})"

definition is_transaction_related :: "MessageType \<Rightarrow> bool" where
  "is_transaction_related t = (t \<in> {Transaction, TransactionBatch, TransactionRequest})"

definition default_priority :: "MessageType \<Rightarrow> MessagePriority" where
  "default_priority t =
     (if t \<in> {ProducerQuantity, ProducerCandidate, ProducerVote, ProducerOutput} then Critical
      else if t \<in> {Transaction, TransactionBatch} then High
      else if t \<in> {PeerDiscovery, PeerHandshake, PeerHeartbeat} then Normal
      else Normal)"

definition priority_u8 :: "MessagePriority \<Rightarrow> byte" where
  "priority_u8 p = (case p of Low \<Rightarrow> 0 | Normal \<Rightarrow> 1 | High \<Rightarrow> 2 | Critical \<Rightarrow> 3)"

definition display_message_type :: "MessageType \<Rightarrow> string" where
  "display_message_type t = (case t of
       ProducerQuantity \<Rightarrow> ''producer_quantity''
     | ProducerCandidate \<Rightarrow> ''producer_candidate''
     | ProducerVote \<Rightarrow> ''producer_vote''
     | ProducerOutput \<Rightarrow> ''producer_output''
     | ConsensusSync \<Rightarrow> ''consensus_sync''
     | Transaction \<Rightarrow> ''transaction''
     | TransactionBatch \<Rightarrow> ''transaction_batch''
     | TransactionRequest \<Rightarrow> ''transaction_request''
     | PeerDiscovery \<Rightarrow> ''peer_discovery''
     | PeerHandshake \<Rightarrow> ''peer_handshake''
     | PeerHeartbeat \<Rightarrow> ''peer_heartbeat''
     | PeerDisconnect \<Rightarrow> ''peer_disconnect''
     | StateRequest \<Rightarrow> ''state_request''
     | StateResponse \<Rightarrow> ''state_response''
     | StorageSync \<Rightarrow> ''storage_sync''
     | FileRequest \<Rightarrow> ''file_request''
     | FileResponse \<Rightarrow> ''file_response''
     | EventNotification \<Rightarrow> ''event_notification''
     | EventSubscription \<Rightarrow> ''event_subscription''
     | EventUnsubscription \<Rightarrow> ''event_unsubscription''
     | WorkerRegistration \<Rightarrow> ''worker_registration''
     | WorkerSelection \<Rightarrow> ''worker_selection''
     | ProducerSelection \<Rightarrow> ''producer_selection''
     | NodeStatus \<Rightarrow> ''node_status''
     | HealthCheck \<Rightarrow> ''health_check''
     | ConfigUpdate \<Rightarrow> ''config_update''
     | NetworkInfo \<Rightarrow> ''network_info''
     | MetricsReport \<Rightarrow> ''metrics_report''
     | ErrorResponse \<Rightarrow> ''error_response''
     | LsuFinalityAttestation \<Rightarrow> ''lsu_finality_attestation''
     | LsuFinalityCid \<Rightarrow> ''lsu_finality_cid''
     | StateRootAttestation \<Rightarrow> ''state_root_attestation''
     | StateRootFinalityCid \<Rightarrow> ''state_root_finality_cid''
     | Custom i \<Rightarrow> ''custom_'' @ show_nat (unat i))"

section \<open>Envelopes\<close>

text \<open>The message id is drawn from the clock and a random number: \<open>mid\<close> stands for it.\<close>

definition new_envelope :: "string \<Rightarrow> u64 \<Rightarrow> MessageType \<Rightarrow> string \<Rightarrow> string option \<Rightarrow> bytes \<Rightarrow> MessageEnvelope" where
  "new_envelope mid now t sndr tgt pl = \<lparr>env_id = mid, message_type = t, env_version = PROTOCOL_VERSION,
     env_sender = sndr, env_target = tgt, env_timestamp = now, env_priority = priority_u8 (default_priority t),
     env_ttl = 300, payload = pl, env_signature = None, routing_info = None\<rparr>"

text \<open>
  A \<open>NetworkMessage\<close> is given by its serialiser, type and priority; time-to-live and protocol
  version are the trait's defaults for every message of the consensus engine.
\<close>

definition from_message ::
  "('m \<Rightarrow> bytes) \<Rightarrow> MessageType \<Rightarrow> MessagePriority \<Rightarrow> string \<Rightarrow> u64 \<Rightarrow> 'm \<Rightarrow> string \<Rightarrow> string option \<Rightarrow> MessageEnvelope" where
  "from_message ser t prio mid now m sndr tgt =
     (new_envelope mid now t sndr tgt (ser m))
       \<lparr>env_priority := priority_u8 prio, env_ttl := 300, env_version := PROTOCOL_VERSION\<rparr>"

definition extract_message :: "'m reader \<Rightarrow> MessageEnvelope \<Rightarrow> (CatalystError, 'm) result" where
  "extract_message de e = run_reader de (payload e)"

definition is_expired :: "u64 \<Rightarrow> MessageEnvelope \<Rightarrow> bool" where
  "is_expired now e = (let expiry = env_timestamp e + ucast (env_ttl e) * 1000 in now > expiry)"

definition signing_data ::
  "(MessageEnvelope \<Rightarrow> (string, bytes) result) \<Rightarrow> MessageEnvelope \<Rightarrow> (CatalystError, bytes) result" where
  "signing_data to_json e =
     (case to_json (e\<lparr>env_signature := None\<rparr>) of
        Inl err \<Rightarrow> Inl (Serialization (''Failed to serialize envelope for signing: '' @ err))
      | Inr bs \<Rightarrow> Inr bs)"

definition sign_envelope ::
  "(MessageEnvelope \<Rightarrow> (string, bytes) result) \<Rightarrow> (bytes \<Rightarrow> (CatalystError, bytes) result)
   \<Rightarrow> MessageEnvelope \<Rightarrow> (CatalystError, MessageEnvelope) result" where
  "sign_envelope to_json sign_fn e =
     (case signing_data to_json e of
        Inl err \<Rightarrow> Inl err
      | Inr d \<Rightarrow> (case sign_fn d of
          Inl err \<Rightarrow> Inl err
        | Inr s \<Rightarrow> Inr (e\<lparr>env_signature := Some s\<rparr>)))"

definition verify_envelope ::
  "(MessageEnvelope \<Rightarrow> (string, bytes) result) \<Rightarrow> (bytes \<Rightarrow> bytes \<Rightarrow> (CatalystError, bool) result)
   \<Rightarrow> MessageEnvelope \<Rightarrow> (CatalystError, bool) result" where
  "verify_envelope to_json verify_fn e =
     (case env_signature e of
        Some s \<Rightarrow> (case signing_data to_json e of Inl err \<Rightarrow> Inl err | Inr d \<Rightarrow> verify_fn d s)
      | None \<Rightarrow> Inr False)"

definition with_routing_info :: "MessageEnvelope \<Rightarrow> RoutingInfo \<Rightarrow> MessageEnvelope" where
  "with_routing_info e r = e\<lparr>routing_info := Some r\<rparr>"

section \<open>The wire frame\<close>

datatype EnvelopeWireError =
    TooShort nat
  | BadMagic
  | UnsupportedVersion u32 u32
  | DecodeFailed string

definition encode_envelope_wire ::
  "(MessageEnvelope \<Rightarrow> (string, bytes) result) \<Rightarrow> MessageEnvelope \<Rightarrow> (CatalystError, bytes) result" where
  "encode_envelope_wire bincode e =
     (case bincode e of
        Inl err \<Rightarrow> Inl (Serialization (''envelope encode failed: '' @ err))
      | Inr pl \<Rightarrow> Inr (ENVELOPE_WIRE_MAGIC @ to_le_bytes PROTOCOL_VERSION @ pl))"

definition decode_envelope_wire ::
  "(bytes \<Rightarrow> (string, MessageEnvelope) result) \<Rightarrow> bytes \<Rightarrow> (EnvelopeWireError, MessageEnvelope) result" where
  "decode_envelope_wire bincode_de bs =
     (if length bs < 8 then Inl (TooShort (length bs))
      else if take 4 bs \<noteq> ENVELOPE_WIRE_MAGIC then Inl BadMagic
      else let got = from_le_bytes (take 4 (drop 4 bs)) :: u32 in
        if got \<noteq> PROTOCOL_VERSION then Inl (UnsupportedVersion got PROTOCOL_VERSION)
        else (case bincode_de (drop 8 bs) of
                Inl err \<Rightarrow> Inl (DecodeFailed err)
              | Inr e \<Rightarrow> Inr e))"

section \<open>Routing\<close>

definition new_routing :: "byte \<Rightarrow> RoutingInfo" where
  "new_routing mh = \<lparr>visited_nodes = [], max_hops = mh, hop_count = 0, preferred_path = None,
     ordered_delivery = False\<rparr>"

definition can_hop :: "RoutingInfo \<Rightarrow> bool" where
  "can_hop r \<longleftrightarrow> hop_count r < max_hops r"

definition has_visited :: "RoutingInfo \<Rightarrow> string \<Rightarrow> bool" where
  "has_visited r n \<longleftrightarrow> n \<in> set (visited_nodes r)"

definition add_hop :: "RoutingInfo \<Rightarrow> string \<Rightarrow> (CatalystError, RoutingInfo) result" where
  "add_hop r n =
     (if hop_count r \<ge> max_hops r then Inl (Network ''Maximum hops exceeded'')
      else if n \<in> set (visited_nodes r) then Inl (Network ''Routing loop detected'')
      else Inr (r\<lparr>visited_nodes := visited_nodes r @ [n], hop_count := hop_count r + 1\<rparr>))"

text \<open>A handler returns an error, nothing, or an answer envelope.\<close>

type_synonym handler = "MessageEnvelope \<Rightarrow> (CatalystError, MessageEnvelope option) result"

definition register_handler ::
  "(MessageType \<rightharpoonup> handler) \<Rightarrow> MessageType list \<Rightarrow> handler \<Rightarrow> (MessageType \<rightharpoonup> handler)" where
  "register_handler hs supported h = fold (\<lambda>t m. m(t \<mapsto> h)) supported hs"

definition route_message ::
  "(MessageType \<rightharpoonup> handler) \<Rightarrow> MessageEnvelope \<Rightarrow> (CatalystError, MessageEnvelope option) result" where
  "route_message hs e =
     (case hs (message_type e) of
        Some h \<Rightarrow> h e
      | None \<Rightarrow> Inl (Network (''No handler for message type: '' @ display_message_type (message_type e))))"

section \<open>Properties\<close>

text \<open>
  The envelope frame round trips: what \<open>encode_envelope_wire\<close> writes, \<open>decode_envelope_wire\<close>
  reads back, whenever \<open>bincode\<close> decodes its own output for that envelope.
\<close>

theorem envelope_wire_roundtrip:
  assumes "bincode e = Inr pl" and "bincode_de pl = Inr e"
  shows "\<exists>bs. encode_envelope_wire bincode e = Inr bs \<and> decode_envelope_wire bincode_de bs = Inr e"
  using assms by (simp add: encode_envelope_wire_def decode_envelope_wire_def ENVELOPE_WIRE_MAGIC_def as_bytes_def)

definition envelope_example :: MessageEnvelope where
  "envelope_example = new_envelope ''id'' 1 ProducerVote ''a'' None [1, 2, 3]"

theorem envelope_wire_roundtrip_witness:
  "\<exists>bs. encode_envelope_wire (\<lambda>e. Inr (payload e)) envelope_example = Inr bs
      \<and> decode_envelope_wire (\<lambda>pl. Inr (new_envelope ''id'' 1 ProducerVote ''a'' None pl)) bs
        = Inr envelope_example"
  by (rule envelope_wire_roundtrip) (simp_all add: envelope_example_def new_envelope_def)

text \<open>Expiry as the arithmetic means it, when the sum does not leave 64 bits.\<close>

lemma is_expired_exact:
  assumes "unat (env_timestamp e) + unat (env_ttl e) * 1000 < 2 ^ 64"
  shows "is_expired now e \<longleftrightarrow> unat (env_timestamp e) + unat (env_ttl e) * 1000 < unat now"
proof -
  have "unat (ucast (env_ttl e) :: u64) = unat (env_ttl e)"
    using unsigned_less[of "env_ttl e", where ?'a = nat] by (simp add: unsigned_ucast_eq take_bit_nat_eq_self)
  then have "unat (env_timestamp e + ucast (env_ttl e) * 1000) = unat (env_timestamp e) + unat (env_ttl e) * 1000"
    using assms by (simp add: unat_word_ariths)
  then show ?thesis by (simp add: is_expired_def word_less_nat_alt)
qed

text \<open>The hops a message can make, one \<open>add_hop\<close> each.\<close>

inductive routed :: "byte \<Rightarrow> RoutingInfo \<Rightarrow> bool" for mh where
  start: "routed mh (new_routing mh)"
| hop: "routed mh r \<Longrightarrow> add_hop r n = Inr r' \<Longrightarrow> routed mh r'"

lemma add_hop_Inr_iff:
  "add_hop r n = Inr r' \<longleftrightarrow> can_hop r \<and> \<not> has_visited r n
     \<and> r' = r\<lparr>visited_nodes := visited_nodes r @ [n], hop_count := hop_count r + 1\<rparr>"
  by (auto simp: add_hop_def can_hop_def has_visited_def)

text \<open>
  Routing is loop free and bounded: along every sequence of successful hops no node is
  visited twice, the hop count is the number of visited nodes, it never exceeds the limit the
  message was created with, and the 8-bit counter does not wrap.
\<close>

theorem routing_loop_free:
  assumes "routed mh r"
  shows "distinct (visited_nodes r) \<and> unat (hop_count r) = length (visited_nodes r)
    \<and> hop_count r \<le> mh \<and> max_hops r = mh"
  using assms
proof induction
  case start
  then show ?case by (simp add: new_routing_def)
next
  case (hop r n r')
  then have lt: "hop_count r < mh" and new: "n \<notin> set (visited_nodes r)"
    and r': "r' = r\<lparr>visited_nodes := visited_nodes r @ [n], hop_count := hop_count r + 1\<rparr>"
    by (auto simp: add_hop_Inr_iff can_hop_def has_visited_def)
  have "unat (hop_count r) < unat mh" using lt by (simp add: word_less_nat_alt)
  then have "Suc (unat (hop_count r)) < 256" using unat_lt256[of mh] by linarith
  then have "unat (hop_count r + 1) = unat (hop_count r) + 1" by (simp add: unat_word_ariths)
  with lt new r' hop.IH show ?case by (simp add: word_le_nat_alt word_less_nat_alt)
qed

theorem routing_loop_free_witness:
  "routed 2 (new_routing 2) \<and> distinct (visited_nodes (new_routing 2)) \<and> hop_count (new_routing 2) \<le> 2"
  using routing_loop_free[OF routed.start[of 2]] routed.start[of 2] by blast

end
