(* ===== verification/Consensus_Types.thy ===== *)
theory Consensus_Types
  imports Envelope
begin

text \<open>
  The messages and ledger updates of the consensus engine (\<open>catalyst-consensus/src/types.rs\<close> and
  \<open>error.rs\<close>): one record per struct, in field order, with the codec that
  \<open>impl_catalyst_serialize!\<close> generates for it, and \<open>hash_data\<close> over the serialisation.

  Each codec interprets the interface \<open>codec\<close>, so that every message round trips, no two
  values share an encoding, and \<open>serialized_size\<close> is exact; \<open>\<dots>_ok\<close> collects the lengths that
  the Rust types fix and the caps that the decoder enforces.
\<close>

section \<open>Errors\<close>

datatype ConsensusError =
    InsufficientData nat nat
  | NoMajority nat nat string
  | PhaseTimeout string u64
  | InvalidProducer string
  | ConsensusFailed string
  | InvalidPartialUpdate string
  | ConsensusStorage string
  | ConsensusNetwork string
  | ConsensusSerialization string

definition display_consensus_error :: "ConsensusError \<Rightarrow> string" where
  "display_consensus_error e = (case e of
       InsufficientData got required \<Rightarrow>
         ''Insufficient data collected: got '' @ show_nat got @ '', required '' @ show_nat required
     | NoMajority highest threshold details \<Rightarrow>
         ''No majority found: highest count '' @ show_nat highest @ '' below threshold ''
           @ show_nat threshold @ details
     | PhaseTimeout phase ms \<Rightarrow> ''Phase timeout: '' @ phase @ '' phase exceeded '' @ show_nat (unat ms) @ ''ms''
     | InvalidProducer p \<Rightarrow> ''Invalid producer: '' @ p @ '' not in selected set''
     | ConsensusFailed r \<Rightarrow> ''Consensus failed: '' @ r
     | InvalidPartialUpdate r \<Rightarrow> ''Invalid partial ledger state update: '' @ r
     | ConsensusStorage m \<Rightarrow> ''Storage error: '' @ m
     | ConsensusNetwork m \<Rightarrow> ''Network error: '' @ m
     | ConsensusSerialization m \<Rightarrow> ''Serialization error: '' @ m)"

definition into_catalyst :: "ConsensusError \<Rightarrow> CatalystError" where
  "into_catalyst e = Consensus ''unknown'' (display_consensus_error e)"

section \<open>Data\<close>

record ConsensusConfig =
  cycle_duration_ms :: u64
  construction_phase_ms :: u64
  campaigning_phase_ms :: u64
  voting_phase_ms :: u64
  synchronization_phase_ms :: u64
  freeze_window_ms :: u64
  min_producers :: nat

text \<open>The field \<open>confidence_threshold\<close> is read by no code of the engine and is left out.\<close>

definition default_config :: ConsensusConfig where
  "default_config = \<lparr>cycle_duration_ms = 60000, construction_phase_ms = 15000, campaigning_phase_ms = 15000,
     voting_phase_ms = 15000, synchronization_phase_ms = 15000, freeze_window_ms = 5000, min_producers = 3\<rparr>"

record TransactionEntry =
  te_public_key :: bytes
  te_amount :: i64
  te_signature :: bytes

record PartialLedgerStateUpdate =
  pu_transaction_entries :: "TransactionEntry list"
  pu_transaction_signatures_hash :: bytes
  pu_total_fees :: u64
  pu_timestamp :: u64

record CompensationEntry =
  ce_producer_id :: string
  ce_public_key :: bytes
  ce_amount :: u64

record LedgerStateUpdate =
  lsu_partial_update :: PartialLedgerStateUpdate
  lsu_compensation_entries :: "CompensationEntry list"
  lsu_cycle_number :: u64
  lsu_producer_list :: "string list"
  lsu_vote_list :: "string list"

record ProducerQuantity =
  q_first_hash :: bytes
  q_cycle_number :: u64
  q_producer_id :: string
  q_timestamp :: u64

record ProducerCandidate =
  c_majority_hash :: bytes
  c_producer_list_hash :: bytes
  c_cycle_number :: u64
  c_producer_id :: string
  c_timestamp :: u64

record ProducerVote =
  v_ledger_state_hash :: bytes
  v_vote_list_hash :: bytes
  v_cycle_number :: u64
  v_producer_id :: string
  v_timestamp :: u64

record ProducerOutput =
  o_dfs_address :: bytes
  o_vote_list_hash :: bytes
  o_cycle_number :: u64
  o_producer_id :: string
  o_timestamp :: u64

record LedgerStateUpdateBroadcast =
  b_lsu :: LedgerStateUpdate
  b_cycle_number :: u64
  b_producer_id :: string

section \<open>Codecs\<close>

definition ser_tentry :: "TransactionEntry \<Rightarrow> bytes" where
  "ser_tentry x = ser_arr (te_public_key x)
     @ ser_i64 (te_amount x)
     @ serialize_vec ser_u8 (te_signature x)"

definition size_tentry :: "TransactionEntry \<Rightarrow> nat" where
  "size_tentry x = 0 + 32 + 8 + vec_size size_u8 (te_signature x)"

definition de_tentry :: "TransactionEntry reader" where
  "de_tentry =
     pbind (de_arr 32) (\<lambda>p0.
     pbind de_i64 (\<lambda>a1.
     pbind (deserialize_vec de_u8) (\<lambda>s2.
     preturn \<lparr>te_public_key = p0, te_amount = a1, te_signature = s2\<rparr>)))"

definition ser_partial :: "PartialLedgerStateUpdate \<Rightarrow> bytes" where
  "ser_partial x = serialize_vec ser_tentry (pu_transaction_entries x)
     @ ser_arr (pu_transaction_signatures_hash x)
     @ ser_u64 (pu_total_fees x)
     @ ser_u64 (pu_timestamp x)"

definition size_partial :: "PartialLedgerStateUpdate \<Rightarrow> nat" where
  "size_partial x = 0 + vec_size size_tentry (pu_transaction_entries x) + 32 + 8 + 8"

definition de_partial :: "PartialLedgerStateUpdate reader" where
  "de_partial =
     pbind (deserialize_vec de_tentry) (\<lambda>t0.
     pbind (de_arr 32) (\<lambda>t1.
     pbind de_u64 (\<lambda>t2.
     pbind de_u64 (\<lambda>t3.
     preturn \<lparr>pu_transaction_entries = t0, pu_transaction_signatures_hash = t1, pu_total_fees = t2, pu_timestamp = t3\<rparr>))))"

definition ser_comp :: "CompensationEntry \<Rightarrow> bytes" where
  "ser_comp x = serialize_string (ce_producer_id x)
     @ ser_arr (ce_public_key x)
     @ ser_u64 (ce_amount x)"

definition size_comp :: "CompensationEntry \<Rightarrow> nat" where
  "size_comp x = 0 + string_size (ce_producer_id x) + 32 + 8"

definition de_comp :: "CompensationEntry reader" where
  "de_comp =
     pbind deserialize_string (\<lambda>p0.
     pbind (de_arr 32) (\<lambda>p1.
     pbind de_u64 (\<lambda>a2.
     preturn \<lparr>ce_producer_id = p0, ce_public_key = p1, ce_amount = a2\<rparr>)))"

definition ser_lsu :: "LedgerStateUpdate \<Rightarrow> bytes" where
  "ser_lsu x = ser_partial (lsu_partial_update x)
     @ serialize_vec ser_comp (lsu_compensation_entries x)
     @ ser_u64 (lsu_cycle_number x)
     @ serialize_vec serialize_string (lsu_producer_list x)
     @ serialize_vec serialize_string (lsu_vote_list x)"

definition size_lsu :: "LedgerStateUpdate \<Rightarrow> nat" where
  "size_lsu x = 0 + size_partial (lsu_partial_update x) + vec_size size_comp (lsu_compensation_entries x) + 8 + vec_size string_size (lsu_producer_list x) + vec_size string_size (lsu_vote_list x)"

definition de_lsu :: "LedgerStateUpdate reader" where
  "de_lsu =
     pbind de_partial (\<lambda>p0.
     pbind (deserialize_vec de_comp) (\<lambda>c1.
     pbind de_u64 (\<lambda>c2.
     pbind (deserialize_vec deserialize_string) (\<lambda>p3.
     pbind (deserialize_vec deserialize_string) (\<lambda>v4.
     preturn \<lparr>lsu_partial_update = p0, lsu_compensation_entries = c1, lsu_cycle_number = c2, lsu_producer_list = p3, lsu_vote_list = v4\<rparr>)))))"

definition ser_quantity :: "ProducerQuantity \<Rightarrow> bytes" where
  "ser_quantity x = ser_arr (q_first_hash x)
     @ ser_u64 (q_cycle_number x)
     @ serialize_string (q_producer_id x)
     @ ser_u64 (q_timestamp x)"

definition size_quantity :: "ProducerQuantity \<Rightarrow> nat" where
  "size_quantity x = 0 + 32 + 8 + string_size (q_producer_id x) + 8"

definition de_quantity :: "ProducerQuantity reader" where
  "de_quantity =
     pbind (de_arr 32) (\<lambda>f0.
     pbind de_u64 (\<lambda>c1.
     pbind deserialize_string (\<lambda>p2.
     pbind de_u64 (\<lambda>t3.
     preturn \<lparr>q_first_hash = f0, q_cycle_number = c1, q_producer_id = p2, q_timestamp = t3\<rparr>))))"

definition ser_candidate :: "ProducerCandidate \<Rightarrow> bytes" where
  "ser_candidate x = ser_arr (c_majority_hash x)
     @ ser_arr (c_producer_list_hash x)
     @ ser_u64 (c_cycle_number x)
     @ serialize_string (c_producer_id x)
     @ ser_u64 (c_timestamp x)"

definition size_candidate :: "ProducerCandidate \<Rightarrow> nat" where
  "size_candidate x = 0 + 32 + 32 + 8 + string_size (c_producer_id x) + 8"

definition de_candidate :: "ProducerCandidate reader" where
  "de_candidate =
     pbind (de_arr 32) (\<lambda>m0.
     pbind (de_arr 32) (\<lambda>p1.
     pbind de_u64 (\<lambda>c2.
     pbind deserialize_string (\<lambda>p3.
     pbind de_u64 (\<lambda>t4.
     preturn \<lparr>c_majority_hash = m0, c_producer_list_hash = p1, c_cycle_number = c2, c_producer_id = p3, c_timestamp = t4\<rparr>)))))"

definition ser_vote :: "ProducerVote \<Rightarrow> bytes" where
  "ser_vote x = ser_arr (v_ledger_state_hash x)
     @ ser_arr (v_vote_list_hash x)
     @ ser_u64 (v_cycle_number x)
     @ serialize_string (v_producer_id x)
     @ ser_u64 (v_timestamp x)"

definition size_vote :: "ProducerVote \<Rightarrow> nat" where
  "size_vote x = 0 + 32 + 32 + 8 + string_size (v_producer_id x) + 8"

definition de_vote :: "ProducerVote reader" where
  "de_vote =
     pbind (de_arr 32) (\<lambda>l0.
     pbind (de_arr 32) (\<lambda>v1.
     pbind de_u64 (\<lambda>c2.
     pbind deserialize_string (\<lambda>p3.
     pbind de_u64 (\<lambda>t4.
     preturn \<lparr>v_ledger_state_hash = l0, v_vote_list_hash = v1, v_cycle_number = c2, v_producer_id = p3, v_timestamp = t4\<rparr>)))))"

definition ser_output :: "ProducerOutput \<Rightarrow> bytes" where
  "ser_output x = ser_arr (o_dfs_address x)
     @ ser_arr (o_vote_list_hash x)
     @ ser_u64 (o_cycle_number x)
     @ serialize_string (o_producer_id x)
     @ ser_u64 (o_timestamp x)"

definition size_output :: "ProducerOutput \<Rightarrow> nat" where
  "size_output x = 0 + 21 + 32 + 8 + string_size (o_producer_id x) + 8"

definition de_output :: "ProducerOutput reader" where
  "de_output =
     pbind (de_arr 21) (\<lambda>d0.
     pbind (de_arr 32) (\<lambda>v1.
     pbind de_u64 (\<lambda>c2.
     pbind deserialize_string (\<lambda>p3.
     pbind de_u64 (\<lambda>t4.
     preturn \<lparr>o_dfs_address = d0, o_vote_list_hash = v1, o_cycle_number = c2, o_producer_id = p3, o_timestamp = t4\<rparr>)))))"

definition ser_broadcast :: "LedgerStateUpdateBroadcast \<Rightarrow> bytes" where
  "ser_broadcast x = ser_lsu (b_lsu x)
     @ ser_u64 (b_cycle_number x)
     @ serialize_string (b_producer_id x)"

definition size_broadcast :: "LedgerStateUpdateBroadcast \<Rightarrow> nat" where
  "size_broadcast x = 0 + size_lsu (b_lsu x) + 8 + string_size (b_producer_id x)"

definition de_broadcast :: "LedgerStateUpdateBroadcast reader" where
  "de_broadcast =
     pbind de_lsu (\<lambda>l0.
     pbind de_u64 (\<lambda>c1.
     pbind deserialize_string (\<lambda>p2.
     preturn \<lparr>b_lsu = l0, b_cycle_number = c1, b_producer_id = p2\<rparr>)))"

text \<open>The first 32 bytes of the Blake2b-512 digest, and \<open>hash_data\<close> of an update.\<close>

definition blake32 :: "(bytes \<Rightarrow> bytes) \<Rightarrow> bytes \<Rightarrow> Hash" where
  "blake32 blake2b512 bs = take 32 (blake2b512 bs)"

definition hash_data :: "(bytes \<Rightarrow> bytes) \<Rightarrow> ('a \<Rightarrow> bytes) \<Rightarrow> 'a \<Rightarrow> Hash" where
  "hash_data blake2b512 ser x = blake32 blake2b512 (ser x)"

section \<open>The codecs are codecs\<close>

definition tentry_ok :: "TransactionEntry \<Rightarrow> bool" where
  "tentry_ok x \<longleftrightarrow> length (te_public_key x) = 32
     \<and> vec_ok (\<lambda>_. True) (te_signature x)"

definition partial_ok :: "PartialLedgerStateUpdate \<Rightarrow> bool" where
  "partial_ok x \<longleftrightarrow> vec_ok tentry_ok (pu_transaction_entries x)
     \<and> length (pu_transaction_signatures_hash x) = 32"

definition comp_ok :: "CompensationEntry \<Rightarrow> bool" where
  "comp_ok x \<longleftrightarrow> str_ok (ce_producer_id x)
     \<and> length (ce_public_key x) = 32"

definition lsu_ok :: "LedgerStateUpdate \<Rightarrow> bool" where
  "lsu_ok x \<longleftrightarrow> partial_ok (lsu_partial_update x)
     \<and> vec_ok comp_ok (lsu_compensation_entries x)
     \<and> vec_ok str_ok (lsu_producer_list x)
     \<and> vec_ok str_ok (lsu_vote_list x)"

definition quantity_ok :: "ProducerQuantity \<Rightarrow> bool" where
  "quantity_ok x \<longleftrightarrow> length (q_first_hash x) = 32
     \<and> str_ok (q_producer_id x)"

definition candidate_ok :: "ProducerCandidate \<Rightarrow> bool" where
  "candidate_ok x \<longleftrightarrow> length (c_majority_hash x) = 32
     \<and> length (c_producer_list_hash x) = 32
     \<and> str_ok (c_producer_id x)"

definition vote_ok :: "ProducerVote \<Rightarrow> bool" where
  "vote_ok x \<longleftrightarrow> length (v_ledger_state_hash x) = 32
     \<and> length (v_vote_list_hash x) = 32
     \<and> str_ok (v_producer_id x)"

definition output_ok :: "ProducerOutput \<Rightarrow> bool" where
  "output_ok x \<longleftrightarrow> length (o_dfs_address x) = 21
     \<and> length (o_vote_list_hash x) = 32
     \<and> str_ok (o_producer_id x)"

definition broadcast_ok :: "LedgerStateUpdateBroadcast \<Rightarrow> bool" where
  "broadcast_ok x \<longleftrightarrow> lsu_ok (b_lsu x)
     \<and> str_ok (b_producer_id x)"

lemma de_tentry_iff: "de_tentry bs = Inr (x, rest) \<longleftrightarrow> bs = ser_tentry x @ rest \<and> tentry_ok x"
  by (cases x) (auto simp: de_tentry_def ser_tentry_def tentry_ok_def codec_iffs)

interpretation tentryc: codec ser_tentry de_tentry size_tentry tentry_ok
  by unfold_locales
    (auto simp: de_tentry_iff size_tentry_def ser_tentry_def tentry_ok_def codec_sizes ser_lengths)

declare tentryc.dec_iff [codec_iffs] tentryc.size [codec_sizes]

interpretation vec_tentry: codec "serialize_vec ser_tentry" "deserialize_vec de_tentry" "vec_size size_tentry"
  "vec_ok tentry_ok"
  by (rule tentryc.codec_vec)

declare vec_tentry.dec_iff [codec_iffs] vec_tentry.size [codec_sizes]

lemma de_partial_iff: "de_partial bs = Inr (x, rest) \<longleftrightarrow> bs = ser_partial x @ rest \<and> partial_ok x"
  by (cases x) (auto simp: de_partial_def ser_partial_def partial_ok_def codec_iffs)

interpretation partialc: codec ser_partial de_partial size_partial partial_ok
  by unfold_locales
    (auto simp: de_partial_iff size_partial_def ser_partial_def partial_ok_def codec_sizes ser_lengths)

declare partialc.dec_iff [codec_iffs] partialc.size [codec_sizes]

lemma de_comp_iff: "de_comp bs = Inr (x, rest) \<longleftrightarrow> bs = ser_comp x @ rest \<and> comp_ok x"
  by (cases x) (auto simp: de_comp_def ser_comp_def comp_ok_def codec_iffs)

interpretation compc: codec ser_comp de_comp size_comp comp_ok
  by unfold_locales
    (auto simp: de_comp_iff size_comp_def ser_comp_def comp_ok_def codec_sizes ser_lengths)

declare compc.dec_iff [codec_iffs] compc.size [codec_sizes]

interpretation vec_comp: codec "serialize_vec ser_comp" "deserialize_vec de_comp" "vec_size size_comp"
  "vec_ok comp_ok"
  by (rule compc.codec_vec)

declare vec_comp.dec_iff [codec_iffs] vec_comp.size [codec_sizes]

lemma de_lsu_iff: "de_lsu bs = Inr (x, rest) \<longleftrightarrow> bs = ser_lsu x @ rest \<and> lsu_ok x"
  by (cases x) (auto simp: de_lsu_def ser_lsu_def lsu_ok_def codec_iffs)

interpretation lsuc: codec ser_lsu de_lsu size_lsu lsu_ok
  by unfold_locales
    (auto simp: de_lsu_iff size_lsu_def ser_lsu_def lsu_ok_def codec_sizes ser_lengths)

declare lsuc.dec_iff [codec_iffs] lsuc.size [codec_sizes]

lemma de_quantity_iff: "de_quantity bs = Inr (x, rest) \<longleftrightarrow> bs = ser_quantity x @ rest \<and> quantity_ok x"
  by (cases x) (auto simp: de_quantity_def ser_quantity_def quantity_ok_def codec_iffs)

interpretation quantityc: codec ser_quantity de_quantity size_quantity quantity_ok
  by unfold_locales
    (auto simp: de_quantity_iff size_quantity_def ser_quantity_def quantity_ok_def codec_sizes ser_lengths)

declare quantityc.dec_iff [codec_iffs] quantityc.size [codec_sizes]

lemma de_candidate_iff: "de_candidate bs = Inr (x, rest) \<longleftrightarrow> bs = ser_candidate x @ rest \<and> candidate_ok x"
  by (cases x) (auto simp: de_candidate_def ser_candidate_def candidate_ok_def codec_iffs)

interpretation candidatec: codec ser_candidate de_candidate size_candidate candidate_ok
  by unfold_locales
    (auto simp: de_candidate_iff size_candidate_def ser_candidate_def candidate_ok_def codec_sizes ser_lengths)

declare candidatec.dec_iff [codec_iffs] candidatec.size [codec_sizes]

lemma de_vote_iff: "de_vote bs = Inr (x, rest) \<longleftrightarrow> bs = ser_vote x @ rest \<and> vote_ok x"
  by (cases x) (auto simp: de_vote_def ser_vote_def vote_ok_def codec_iffs)

interpretation votec: codec ser_vote de_vote size_vote vote_ok
  by unfold_locales
    (auto simp: de_vote_iff size_vote_def ser_vote_def vote_ok_def codec_sizes ser_lengths)

declare votec.dec_iff [codec_iffs] votec.size [codec_sizes]

lemma de_output_iff: "de_output bs = Inr (x, rest) \<longleftrightarrow> bs = ser_output x @ rest \<and> output_ok x"
  by (cases x) (auto simp: de_output_def ser_output_def output_ok_def codec_iffs)

interpretation outputc: codec ser_output de_output size_output output_ok
  by unfold_locales
    (auto simp: de_output_iff size_output_def ser_output_def output_ok_def codec_sizes ser_lengths)

declare outputc.dec_iff [codec_iffs] outputc.size [codec_sizes]

lemma de_broadcast_iff: "de_broadcast bs = Inr (x, rest) \<longleftrightarrow> bs = ser_broadcast x @ rest \<and> broadcast_ok x"
  by (cases x) (auto simp: de_broadcast_def ser_broadcast_def broadcast_ok_def codec_iffs)

interpretation broadcastc: codec ser_broadcast de_broadcast size_broadcast broadcast_ok
  by unfold_locales
    (auto simp: de_broadcast_iff size_broadcast_def ser_broadcast_def broadcast_ok_def codec_sizes ser_lengths)

declare broadcastc.dec_iff [codec_iffs] broadcastc.size [codec_sizes]

section \<open>Properties\<close>

text \<open>
  Every consensus message that a producer sends decodes to itself from the payload of its
  envelope, whatever bytes follow: quantities, candidates, votes, outputs and LSU broadcasts.
\<close>

theorem consensus_messages_roundtrip:
  "(quantity_ok q \<longrightarrow> run_reader de_quantity (ser_quantity q @ junk) = Inr q)
   \<and> (candidate_ok c \<longrightarrow> run_reader de_candidate (ser_candidate c @ junk) = Inr c)
   \<and> (vote_ok v \<longrightarrow> run_reader de_vote (ser_vote v @ junk) = Inr v)
   \<and> (output_ok out \<longrightarrow> run_reader de_output (ser_output out @ junk) = Inr out)
   \<and> (broadcast_ok b \<longrightarrow> run_reader de_broadcast (ser_broadcast b @ junk) = Inr b)"
  by (simp add: quantityc.run_reader_enc candidatec.run_reader_enc votec.run_reader_enc
      outputc.run_reader_enc broadcastc.run_reader_enc)

theorem consensus_messages_roundtrip_witness:
  "let q = \<lparr>q_first_hash = replicate 32 1, q_cycle_number = 5, q_producer_id = ''p1'', q_timestamp = 9\<rparr>
   in quantity_ok q \<and> run_reader de_quantity (ser_quantity q) = Inr q"
  using consensus_messages_roundtrip[of
      "\<lparr>q_first_hash = replicate 32 1, q_cycle_number = 5, q_producer_id = ''p1'', q_timestamp = 9\<rparr>" "[]"]
  by (simp add: quantity_ok_def as_bytes_def)

text \<open>
  Two ledger state updates with the same hash are the same update, as far as the digest
  has no collision on their serialisations: agreement on \<open>hash_data\<close> is agreement on content.
\<close>

lemma lsu_hash_binding:
  assumes "lsu_ok a" and "lsu_ok b"
    and "inj_on (blake32 blake2b512) {ser_lsu a, ser_lsu b}"
    and "hash_data blake2b512 ser_lsu a = hash_data blake2b512 ser_lsu b"
  shows "a = b"
proof -
  have "ser_lsu a = ser_lsu b"
    by (rule inj_onD[OF assms(3)]) (use assms(4) in \<open>simp_all add: hash_data_def\<close>)
  then show ?thesis using lsuc.enc_inject[OF assms(1,2)] by simp
qed

definition lsu_example :: LedgerStateUpdate where
  "lsu_example = \<lparr>lsu_partial_update = \<lparr>pu_transaction_entries = [],
       pu_transaction_signatures_hash = replicate 32 0, pu_total_fees = 0, pu_timestamp = 7\<rparr>,
     lsu_compensation_entries = [], lsu_cycle_number = 7,
     lsu_producer_list = [''a''], lsu_vote_list = [''a'']\<rparr>"

end
