(* ===== verification/Merkle.thy ===== *)
theory Merkle
  imports Consensus_Types
begin

text \<open>
  The three binary Merkle trees of the repository: the root over signature and producer hashes
  of the consensus phases (\<open>compute_merkle_root\<close> in \<open>catalyst-consensus/src/phases.rs\<close>), the
  storage tree with its inclusion proofs (\<open>catalyst-storage/src/merkle.rs\<close>), and the layered
  tree of \<open>catalyst-crypto/src/merkle.rs\<close>.

  All of them pair up a level until one hash is left, an odd last element being paired with
  itself. \<open>pair_up\<close> is one pass of that loop and \<open>fold_levels\<close> the loop; a proof is a chain of
  steps. SHA-256 and Blake2b are arguments; what is relied on of them is the digest length and,
  for the binding result, that they have no collision on the inputs of the two chains at hand.
\<close>

section \<open>The pairing loop\<close>

fun pair_up :: "('h \<Rightarrow> 'h \<Rightarrow> 'h) \<Rightarrow> 'h list \<Rightarrow> 'h list" where
  "pair_up node [] = []"
| "pair_up node [x] = [node x x]"
| "pair_up node (x # y # zs) = node x y # pair_up node zs"

lemma length_pair_up [simp]: "length (pair_up node xs) = (length xs + 1) div 2"
  by (induction node xs rule: pair_up.induct) auto

function fold_levels :: "('h \<Rightarrow> 'h \<Rightarrow> 'h) \<Rightarrow> 'h list \<Rightarrow> 'h" where
  "fold_levels node level = (if length level > 1 then fold_levels node (pair_up node level) else level ! 0)"
  by auto
termination by (relation "measure (\<lambda>(node, level). length level)") auto

declare fold_levels.simps [simp del]

section \<open>The root of the consensus phases\<close>

definition compute_merkle_root :: "(bytes \<Rightarrow> bytes) \<Rightarrow> Hash list \<Rightarrow> Hash" where
  "compute_merkle_root blake2b512 leaves =
     (if leaves = [] then replicate 32 0
      else if length leaves = 1 then leaves ! 0
      else fold_levels (\<lambda>left right. blake32 blake2b512 (left @ right)) leaves)"

section \<open>The storage tree\<close>

datatype StorageError =
    RocksDb string
  | StSerialization string
  | StTransaction string
  | StMigration string
  | StSnapshot string
  | StConfig string
  | ColumnFamilyNotFound string
  | Corruption string
  | InsufficientSpace u64 u64
  | DatabaseLocked
  | InvalidKey string
  | InvalidValue string
  | StTimeout string
  | StIo string
  | StInternal string

definition is_recoverable :: "StorageError \<Rightarrow> bool" where
  "is_recoverable e = (case e of
       RocksDb _ \<Rightarrow> False | Corruption _ \<Rightarrow> False | DatabaseLocked \<Rightarrow> True
     | InsufficientSpace _ _ \<Rightarrow> False | StTimeout _ \<Rightarrow> True | StIo _ \<Rightarrow> False | _ \<Rightarrow> True)"

record MerkleStep =
  sibling_is_left :: bool
  sibling :: Hash

record MerkleProof =
  leaf :: Hash
  steps :: "MerkleStep list"

definition h_leaf :: "(bytes \<Rightarrow> bytes) \<Rightarrow> bytes \<Rightarrow> bytes \<Rightarrow> Hash" where
  "h_leaf sha256 key val = sha256 ([0] @ to_le_bytes (of_nat (length key) :: u64) @ key
     @ to_le_bytes (of_nat (length val) :: u64) @ val)"

definition h_node :: "(bytes \<Rightarrow> bytes) \<Rightarrow> Hash \<Rightarrow> Hash \<Rightarrow> Hash" where
  "h_node sha256 left right = sha256 ([1] @ left @ right)"

definition merkle_root :: "(bytes \<Rightarrow> bytes) \<Rightarrow> Hash list \<Rightarrow> Hash" where
  "merkle_root sha256 leaves = (if leaves = [] then replicate 32 0 else fold_levels (h_node sha256) leaves)"

function proof_steps :: "(bytes \<Rightarrow> bytes) \<Rightarrow> nat \<Rightarrow> Hash list \<Rightarrow> MerkleStep list" where
  "proof_steps sha256 idx level =
     (if length level > 1 then
        let is_right = idx mod 2 = 1;
            sib_idx = (if is_right then idx - 1 else idx + 1);
            sib = (if sib_idx < length level then level ! sib_idx else level ! idx)
        in \<lparr>sibling_is_left = is_right, sibling = sib\<rparr>
           # proof_steps sha256 (idx div 2) (pair_up (h_node sha256) level)
      else [])"
  by auto
termination by (relation "measure (\<lambda>(sha256, idx, level). length level)") auto

declare proof_steps.simps [simp del]

definition merkle_proof :: "(bytes \<Rightarrow> bytes) \<Rightarrow> Hash list \<Rightarrow> nat \<Rightarrow> (StorageError, MerkleProof) result" where
  "merkle_proof sha256 leaves index =
     (if leaves = [] then Inl (StInternal ''Cannot build proof for empty tree'')
      else if index \<ge> length leaves then Inl (StInternal ''Merkle proof index out of bounds'')
      else Inr \<lparr>leaf = leaves ! index, steps = proof_steps sha256 index leaves\<rparr>)"

definition step_hash :: "(bytes \<Rightarrow> bytes) \<Rightarrow> MerkleStep \<Rightarrow> Hash \<Rightarrow> Hash" where
  "step_hash sha256 st cur =
     (if sibling_is_left st then h_node sha256 (sibling st) cur else h_node sha256 cur (sibling st))"

definition verify_proof :: "(bytes \<Rightarrow> bytes) \<Rightarrow> Hash \<Rightarrow> MerkleProof \<Rightarrow> bool" where
  "verify_proof sha256 root p \<longleftrightarrow> fold (step_hash sha256) (steps p) (leaf p) = root"

definition leaf_hash_for_kv :: "(bytes \<Rightarrow> bytes) \<Rightarrow> bytes \<Rightarrow> bytes \<Rightarrow> Hash" where
  "leaf_hash_for_kv sha256 key val = h_leaf sha256 key val"

section \<open>The layered tree\<close>

record MerkleTree =
  tree_root :: Hash
  leaves :: "Hash list"
  layers :: "Hash list list"

record PathProof =
  pp_leaf :: Hash
  pp_path :: "Hash list"
  pp_indices :: "bool list"

definition hash_pair :: "(bytes \<Rightarrow> bytes) \<Rightarrow> Hash \<Rightarrow> Hash \<Rightarrow> Hash" where
  "hash_pair sha256 left right = sha256 (left @ right)"

function build_layers :: "(bytes \<Rightarrow> bytes) \<Rightarrow> Hash list \<Rightarrow> Hash list list" where
  "build_layers sha256 cur =
     (if length cur > 1 then cur # build_layers sha256 (pair_up (hash_pair sha256) cur) else [cur])"
  by auto
termination by (relation "measure (\<lambda>(sha256, cur). length cur)") auto

declare build_layers.simps [simp del]

definition new_tree :: "(bytes \<Rightarrow> bytes) \<Rightarrow> bytes list \<Rightarrow> MerkleTree" where
  "new_tree sha256 leaf_data =
     (if leaf_data = [] then \<lparr>tree_root = replicate 32 0, leaves = [], layers = []\<rparr>
      else let ls = map sha256 leaf_data; lay = build_layers sha256 ls
           in \<lparr>tree_root = last lay ! 0, leaves = ls, layers = lay\<rparr>)"

fun path_of :: "nat \<Rightarrow> Hash list list \<Rightarrow> (Hash \<times> bool) list" where
  "path_of idx [] = []"
| "path_of idx (layer # ls) =
     (let sib = (if idx mod 2 = 0 then idx + 1 else idx - 1)
      in (if sib < length layer then [(layer ! sib, idx mod 2 = 0)] else []) @ path_of (idx div 2) ls)"

definition generate_proof :: "MerkleTree \<Rightarrow> nat \<Rightarrow> PathProof option" where
  "generate_proof t leaf_index =
     (if leaf_index \<ge> length (leaves t) then None
      else let path = path_of leaf_index (butlast (layers t))
           in Some \<lparr>pp_leaf = leaves t ! leaf_index, pp_path = map fst path, pp_indices = map snd path\<rparr>)"

definition verify_path :: "(bytes \<Rightarrow> bytes) \<Rightarrow> PathProof \<Rightarrow> Hash \<Rightarrow> bool" where
  "verify_path sha256 p root \<longleftrightarrow>
     fold (\<lambda>(s, is_right) cur. if is_right then hash_pair sha256 cur s else hash_pair sha256 s cur)
       (zip (pp_path p) (pp_indices p)) (pp_leaf p) = root"

definition verify_inclusion :: "(bytes \<Rightarrow> bytes) \<Rightarrow> MerkleTree \<Rightarrow> Hash \<Rightarrow> PathProof \<Rightarrow> bool" where
  "verify_inclusion sha256 t lf p = verify_path sha256 p (tree_root t)"

section \<open>Lemmas on the pairing loop\<close>

lemma nth_pair_up:
  "j < (length xs + 1) div 2 \<Longrightarrow>
   pair_up node xs ! j = node (xs ! (2 * j)) (if 2 * j + 1 < length xs then xs ! (2 * j + 1) else xs ! (2 * j))"
proof (induction node xs arbitrary: j rule: pair_up.induct)
  case (3 node x y zs)
  then show ?case by (cases j) auto
qed auto

lemma pair_up_set:
  assumes "z \<in> set (pair_up node xs)"
  shows "\<exists>x \<in> set xs. \<exists>y \<in> set xs. z = node x y"
  using assms by (induction node xs rule: pair_up.induct) auto

text \<open>The root is a leaf or a node hash of the same shape as the leaves.\<close>

lemma fold_levels_closed:
  assumes "\<forall>x \<in> set level. P x" and "level \<noteq> []" and "\<And>x y. P x \<Longrightarrow> P y \<Longrightarrow> P (node x y)"
  shows "P (fold_levels node level)"
  using assms(1,2)
proof (induction level rule: measure_induct_rule[where f = length])
  case (less level)
  show ?case
  proof (cases "length level > 1")
    case True
    have "\<forall>x \<in> set (pair_up node level). P x"
      using less.prems(1) assms(3) by (metis pair_up_set)
    moreover have "pair_up node level \<noteq> []"
      using True by (cases "(node, level)" rule: pair_up.cases) auto
    moreover have "length (pair_up node level) < length level" using True by simp
    ultimately have "P (fold_levels node (pair_up node level))" using less.IH by blast
    then show ?thesis using True by (subst fold_levels.simps) simp
  next
    case False
    then show ?thesis using less.prems by (cases level) (auto simp: fold_levels.simps)
  qed
qed

lemma length_compute_merkle_root:
  assumes "\<forall>x \<in> set lvs. length x = 32" and "\<forall>x. length (blake2b512 x) = 64"
  shows "length (compute_merkle_root blake2b512 lvs) = 32"
proof (cases "length lvs > 1")
  case True
  then have "length (fold_levels (\<lambda>l r. blake32 blake2b512 (l @ r)) lvs) = 32"
    using assms by (intro fold_levels_closed[where P = "\<lambda>x. length x = 32"]) (auto simp: blake32_def)
  with True show ?thesis by (auto simp: compute_merkle_root_def)
next
  case False
  with assms(1) show ?thesis by (cases lvs) (auto simp: compute_merkle_root_def)
qed

section \<open>Inclusion proofs\<close>

lemma step_hash_pair_up:
  assumes "idx < length level"
  shows "step_hash sha256 \<lparr>sibling_is_left = (idx mod 2 = 1),
            sibling = (let sib_idx = (if idx mod 2 = 1 then idx - 1 else idx + 1)
                       in if sib_idx < length level then level ! sib_idx else level ! idx)\<rparr> (level ! idx)
       = pair_up (h_node sha256) level ! (idx div 2)"
proof -
  have div: "idx div 2 < (length level + 1) div 2" using assms by linarith
  show ?thesis
  proof (cases "idx mod 2 = 1")
    case True
    then have "idx = 2 * (idx div 2) + 1" by presburger
    then obtain k where "idx = 2 * k + 1" by blast
    with assms div show ?thesis by (simp add: nth_pair_up step_hash_def)
  next
    case False
    then have "idx = 2 * (idx div 2)" by presburger
    then obtain k where "idx = 2 * k" by blast
    with assms div show ?thesis by (simp add: nth_pair_up step_hash_def)
  qed
qed

lemma fold_proof_steps:
  "idx < length level \<Longrightarrow>
   fold (step_hash sha256) (proof_steps sha256 idx level) (level ! idx) = fold_levels (h_node sha256) level"
proof (induction sha256 idx level rule: proof_steps.induct)
  case (1 sha256 idx level)
  show ?case
  proof (cases "length level > 1")
    case True
    have "idx div 2 < length (pair_up (h_node sha256) level)" using 1(2) by simp
    with 1(1) True have
      "fold (step_hash sha256) (proof_steps sha256 (idx div 2) (pair_up (h_node sha256) level))
         (pair_up (h_node sha256) level ! (idx div 2)) = fold_levels (h_node sha256) level"
      by (simp add: fold_levels.simps[of "h_node sha256" level])
    with True 1(2) show ?thesis
      by (subst proof_steps.simps) (simp add: Let_def step_hash_pair_up[symmetric])
  next
    case False
    with 1(2) have "idx = 0" by linarith
    with False show ?thesis by (simp add: proof_steps.simps fold_levels.simps)
  qed
qed

text \<open>
  The storage tree's proofs are complete: for every leaf index within bounds a proof is
  returned, it carries that leaf and it verifies against the root of the same leaves; outside
  the bounds, and for the empty tree, an error is returned.
\<close>

theorem merkle_proof_verifies:
  "(if index < length lvs
    then \<exists>p. merkle_proof sha256 lvs index = Inr p \<and> leaf p = lvs ! index
           \<and> verify_proof sha256 (merkle_root sha256 lvs) p
    else \<exists>e. merkle_proof sha256 lvs index = Inl e)"
  by (auto simp: merkle_proof_def verify_proof_def merkle_root_def fold_proof_steps)

section \<open>Binding\<close>

text \<open>The inputs that a verification chain hashes.\<close>

fun chain_inputs :: "(bytes \<Rightarrow> bytes) \<Rightarrow> Hash \<Rightarrow> MerkleStep list \<Rightarrow> bytes list" where
  "chain_inputs sha256 cur [] = []"
| "chain_inputs sha256 cur (st # sts) =
     ([1] @ (if sibling_is_left st then sibling st @ cur else cur @ sibling st))
     # chain_inputs sha256 (step_hash sha256 st cur) sts"

lemma step_hash_input:
  "step_hash sha256 st cur = sha256 ([1] @ (if sibling_is_left st then sibling st @ cur else cur @ sibling st))"
  by (simp add: step_hash_def h_node_def)

lemma length_step_hash: "\<forall>x. length (sha256 x) = 32 \<Longrightarrow> length (step_hash sha256 st cur) = 32"
  by (simp add: step_hash_input)

lemma chain_binding:
  assumes "map sibling_is_left ss = map sibling_is_left ss'"
    and "\<forall>st \<in> set ss \<union> set ss'. length (sibling st) = 32"
    and "length cur = 32" and "length cur' = 32" and "\<forall>x. length (sha256 x) = 32"
    and "inj_on sha256 (set (chain_inputs sha256 cur ss) \<union> set (chain_inputs sha256 cur' ss'))"
    and "fold (step_hash sha256) ss cur = fold (step_hash sha256) ss' cur'"
  shows "cur = cur' \<and> ss = ss'"
  using assms
proof (induction ss arbitrary: ss' cur cur')
  case (Cons st ss)
  obtain st' rest' where ss': "ss' = st' # rest'" using Cons.prems(1) by (cases ss') auto
  have inj: "inj_on sha256 (set (chain_inputs sha256 (step_hash sha256 st cur) ss)
      \<union> set (chain_inputs sha256 (step_hash sha256 st' cur') rest'))"
    by (rule inj_on_subset[OF Cons.prems(6)]) (auto simp: ss')
  have "step_hash sha256 st cur = step_hash sha256 st' cur' \<and> ss = rest'"
    by (rule Cons.IH[OF _ _ _ _ Cons.prems(5) inj]) (use Cons.prems in \<open>auto simp: ss' length_step_hash\<close>)
  moreover have "[1] @ (if sibling_is_left st then sibling st @ cur else cur @ sibling st)
      = [1] @ (if sibling_is_left st' then sibling st' @ cur' else cur' @ sibling st')"
    if "step_hash sha256 st cur = step_hash sha256 st' cur'"
    by (rule inj_onD[OF Cons.prems(6)]) (use that in \<open>auto simp: step_hash_input ss'\<close>)
  ultimately show ?case
    using Cons.prems by (auto simp: ss' split: if_splits)
qed simp

section \<open>The layered tree skips the last node of an odd layer\<close>

text \<open>
  A three-leaf tree of the crypto crate gives its last leaf a proof that does not verify,
  unless SHA-256 collides: the proof omits the level where the leaf was paired with itself.
\<close>

theorem crypto_merkle_odd_leaf_rejected:
  assumes "sha256 (sha256 (sha256 a @ sha256 b) @ sha256 c)
             \<noteq> sha256 (sha256 (sha256 a @ sha256 b) @ sha256 (sha256 c @ sha256 c))"
  shows "\<exists>p. generate_proof (new_tree sha256 [a, b, c]) 2 = Some p
           \<and> \<not> verify_inclusion sha256 (new_tree sha256 [a, b, c]) (sha256 c) p"
  using assms
  by (simp add: new_tree_def build_layers.simps generate_proof_def verify_inclusion_def verify_path_def
      hash_pair_def Let_def)

definition tag_digest :: "bytes \<Rightarrow> bytes" where
  "tag_digest bs = replicate 31 0 @ [3 * sum_list bs + of_nat (length bs)]"

theorem crypto_merkle_odd_leaf_rejected_witness:
  "\<exists>p. generate_proof (new_tree tag_digest [[1], [2], [3]]) 2 = Some p
     \<and> \<not> verify_inclusion tag_digest (new_tree tag_digest [[1], [2], [3]]) (tag_digest [3]) p"
  by (rule crypto_merkle_odd_leaf_rejected) (simp add: tag_digest_def sum_list_replicate)

end
