(* ===== verification/Phases.thy ===== *)
theory Phases
  imports Merkle "HOL-Library.Product_Lexorder"
begin

text \<open>
  The four phases of a consensus cycle (\<open>catalyst-consensus/src/phases.rs\<close>) and the producer
  state that they work on (\<open>producer.rs\<close>).

  A phase works on a copy of the producer and either fails or returns its message with the copy
  updated; the manager then writes back the fields that the phase produced. The messages a phase
  has collected sit in a \<open>HashMap\<close>, here an association list of unspecified order: the results
  below show that no outcome depends on that order. Blake2b, the \<open>hex\<close> crate and the clock are
  arguments. Logging and metrics are not modelled.
\<close>

section \<open>Producer state\<close>

record Producer =
  p_id :: ProducerId
  p_public_key :: bytes
  p_cycle_number :: u64
  expected_producers :: nat
  p_partial_update :: "PartialLedgerStateUpdate option"
  p_ledger_update :: "LedgerStateUpdate option"
  p_first_hash :: "Hash option"
  p_producer_list :: "ProducerId list option"
  p_vote_list :: "ProducerId list option"
  selected_producers :: "ProducerId list"

definition new_producer :: "ProducerId \<Rightarrow> bytes \<Rightarrow> u64 \<Rightarrow> Producer" where
  "new_producer pid pk cyc = \<lparr>p_id = pid, p_public_key = pk, p_cycle_number = cyc, expected_producers = 1,
     p_partial_update = None, p_ledger_update = None, p_first_hash = None, p_producer_list = None,
     p_vote_list = None, selected_producers = []\<rparr>"

definition reset_for_cycle :: "Producer \<Rightarrow> u64 \<Rightarrow> ProducerId list \<Rightarrow> Producer" where
  "reset_for_cycle p cyc selected =
     (let canonical = sort_dedup selected
      in p\<lparr>p_cycle_number := cyc, expected_producers := max (length canonical) 1,
           selected_producers := canonical, p_partial_update := None, p_ledger_update := None,
           p_first_hash := None, p_producer_list := None, p_vote_list := None\<rparr>)"

section \<open>Construction\<close>

definition signature_leaf_hash :: "(bytes \<Rightarrow> bytes) \<Rightarrow> bytes \<Rightarrow> Hash" where
  "signature_leaf_hash blake2b512 sig = blake32 blake2b512 sig"

definition entry_order :: "(bytes \<Rightarrow> bytes) \<Rightarrow> TransactionEntry \<Rightarrow> Hash \<times> bytes \<times> int \<times> nat" where
  "entry_order blake2b512 e =
     (signature_leaf_hash blake2b512 (te_signature e), te_public_key e, sint (te_amount e), length (te_signature e))"

definition fees_of_entries :: "TransactionEntry list \<Rightarrow> u64" where
  "fees_of_entries es =
     (let net = sum_list (map (\<lambda>e. sint (te_amount e)) es)
      in if net < 0 then word_of_int (min (- net) (2 ^ 64 - 1)) else 0)"

definition build_partial_update ::
  "(bytes \<Rightarrow> bytes) \<Rightarrow> u64 \<Rightarrow> Producer \<Rightarrow> TransactionEntry list
   \<Rightarrow> (CatalystError, ProducerQuantity \<times> Producer) result" where
  "build_partial_update blake2b512 now p transactions =
     (let sorted_entries = sort_key (entry_order blake2b512) transactions;
          signature_leaves = map (\<lambda>e. signature_leaf_hash blake2b512 (te_signature e)) sorted_entries;
          pu = \<lparr>pu_transaction_entries = sorted_entries,
                pu_transaction_signatures_hash = compute_merkle_root blake2b512 signature_leaves,
                pu_total_fees = fees_of_entries sorted_entries,
                pu_timestamp = p_cycle_number p\<rparr>;
          fh = hash_data blake2b512 ser_partial pu
      in Inr (\<lparr>q_first_hash = fh, q_cycle_number = p_cycle_number p, q_producer_id = p_id p, q_timestamp = now\<rparr>,
              p\<lparr>p_partial_update := Some pu, p_first_hash := Some fh\<rparr>))"

section \<open>Tallying hashes\<close>

text \<open>
  Campaigning, voting and synchronisation count the collected messages by hash in the same way:
  a \<open>BTreeMap\<close> from hash to the producers that sent it, each list sorted and deduplicated, and
  then the first entry with the most producers.
\<close>

definition bt_push :: "'k::linorder \<Rightarrow> 'v \<Rightarrow> ('k \<times> 'v list) list \<Rightarrow> ('k \<times> 'v list) list" where
  "bt_push k v m = bt_insert k ((case map_of m k of Some vs \<Rightarrow> vs | None \<Rightarrow> []) @ [v]) m"

definition count_hashes :: "('m \<Rightarrow> Hash) \<Rightarrow> (ProducerId \<times> 'm) list \<Rightarrow> (Hash \<times> ProducerId list) list" where
  "count_hashes hash_of collected =
     map (\<lambda>(h, v). (h, sort_dedup v)) (fold (\<lambda>(pid, msg) m. bt_push (hash_of msg) pid m) collected [])"

definition best_step ::
  "Hash \<times> ProducerId list \<Rightarrow> Hash option \<times> ProducerId list \<Rightarrow> Hash option \<times> ProducerId list" where
  "best_step entry best =
     (case (entry, best) of ((h, producers), (best_hash, best_list)) \<Rightarrow>
        if length producers > length best_list then (Some h, producers)
        else if length producers = length best_list
               \<and> (case best_hash of Some bh \<Rightarrow> h < bh | None \<Rightarrow> True) then (Some h, producers)
        else (best_hash, best_list))"

definition best_entry :: "(Hash \<times> ProducerId list) list \<Rightarrow> Hash option \<times> ProducerId list" where
  "best_entry counts = fold best_step counts (None, [])"

section \<open>Campaigning\<close>

definition add_quantity ::
  "(ProducerId \<times> ProducerQuantity) list \<Rightarrow> ProducerQuantity \<Rightarrow> (ProducerId \<times> ProducerQuantity) list" where
  "add_quantity m q = hm_insert (q_producer_id q) q m"

definition producer_leaf_hash :: "(bytes \<Rightarrow> bytes) \<Rightarrow> ProducerId \<Rightarrow> Hash" where
  "producer_leaf_hash blake2b512 pid = blake32 blake2b512 (as_bytes pid)"

definition hash_producer_list_merkle :: "(bytes \<Rightarrow> bytes) \<Rightarrow> ProducerId list \<Rightarrow> Hash" where
  "hash_producer_list_merkle blake2b512 plist =
     compute_merkle_root blake2b512 (map (producer_leaf_hash blake2b512) (sort_dedup plist))"

definition hash_producer_list :: "(bytes \<Rightarrow> bytes) \<Rightarrow> ProducerId list \<Rightarrow> Hash" where
  "hash_producer_list blake2b512 plist = blake32 blake2b512 (concat (map as_bytes (sort plist)))"

fun comma_separated :: "string list \<Rightarrow> string" where
  "comma_separated [] = []"
| "comma_separated [x] = x"
| "comma_separated (x # y # zs) = x @ '', '' @ comma_separated (y # zs)"

definition debug_counts :: "(bytes \<Rightarrow> string) \<Rightarrow> (Hash \<times> ProducerId list) list \<Rightarrow> string" where
  "debug_counts hex_encode counts =
     ''['' @ comma_separated (map (\<lambda>(h, ps).
        ''('' @ [CHR 0x22] @ hex_encode h @ [CHR 0x22] @ '', '' @ show_nat (length ps) @ '')'') counts) @ '']''"

definition find_majority_candidate ::
  "(bytes \<Rightarrow> bytes) \<Rightarrow> (bytes \<Rightarrow> string) \<Rightarrow> u64 \<Rightarrow> Producer \<Rightarrow> (ProducerId \<times> ProducerQuantity) list \<Rightarrow> nat
   \<Rightarrow> (CatalystError, ProducerCandidate \<times> Producer) result" where
  "find_majority_candidate blake2b512 hex_encode now p collected required_majority =
     (if length collected < required_majority
      then Inl (into_catalyst (InsufficientData (length collected) required_majority))
      else
        let hash_counts = count_hashes q_first_hash collected
        in case best_entry hash_counts of
             (None, _) \<Rightarrow> Inl (into_catalyst (NoMajority 0 required_majority
                 ('' (phase=campaigning cycle='' @ show_nat (unat (p_cycle_number p)) @ '')'')))
           | (Some majority_hash, plist) \<Rightarrow>
             if length plist < required_majority
             then Inl (into_catalyst (NoMajority (length plist) required_majority
                 ('' (phase=campaigning cycle='' @ show_nat (unat (p_cycle_number p))
                  @ '' first_hash_counts='' @ debug_counts hex_encode hash_counts @ '')'')))
             else
               let with_self = (case p_first_hash p of
                     Some our_hash \<Rightarrow>
                       if our_hash = majority_hash \<and> p_id p \<notin> set plist then plist @ [p_id p] else plist
                   | None \<Rightarrow> plist);
                   final_producer_list = sort_dedup with_self
               in Inr (\<lparr>c_majority_hash = majority_hash,
                        c_producer_list_hash = hash_producer_list_merkle blake2b512 final_producer_list,
                        c_cycle_number = p_cycle_number p, c_producer_id = p_id p, c_timestamp = now\<rparr>,
                       p\<lparr>p_producer_list := Some final_producer_list\<rparr>))"

section \<open>Rewards\<close>

record RewardConfig =
  block_reward :: u64
  fee_to_reward_pool_bps :: u16
  producer_set_reward_bps :: u16
  waiting_pool_reward_bps :: u16

definition default_reward_config :: RewardConfig where
  "default_reward_config = \<lparr>block_reward = 1000000000, fee_to_reward_pool_bps = 3000,
     producer_set_reward_bps = 7000, waiting_pool_reward_bps = 3000\<rparr>"

text \<open>The UTF-8 encodings of the characters that \<open>str::trim\<close> removes (Unicode \<open>White_Space\<close>).\<close>

definition white_space :: "bytes list" where
  "white_space = map (\<lambda>b. [b]) [0x09, 0x0A, 0x0B, 0x0C, 0x0D, 0x20] @
     [[0xC2, 0x85], [0xC2, 0xA0], [0xE1, 0x9A, 0x80],
      [0xE2, 0x80, 0x80], [0xE2, 0x80, 0x81], [0xE2, 0x80, 0x82], [0xE2, 0x80, 0x83], [0xE2, 0x80, 0x84],
      [0xE2, 0x80, 0x85], [0xE2, 0x80, 0x86], [0xE2, 0x80, 0x87], [0xE2, 0x80, 0x88], [0xE2, 0x80, 0x89],
      [0xE2, 0x80, 0x8A], [0xE2, 0x80, 0xA8], [0xE2, 0x80, 0xA9], [0xE2, 0x80, 0xAF], [0xE2, 0x81, 0x9F],
      [0xE3, 0x80, 0x80]]"

fun trim_front :: "bytes list \<Rightarrow> nat \<Rightarrow> bytes \<Rightarrow> bytes" where
  "trim_front ws 0 bs = bs"
| "trim_front ws (Suc n) bs =
     (case find (\<lambda>w. take (length w) bs = w) ws of
        Some w \<Rightarrow> trim_front ws n (drop (length w) bs)
      | None \<Rightarrow> bs)"

definition str_trim :: "string \<Rightarrow> string" where
  "str_trim s =
     (let bs = as_bytes s;
          front = trim_front white_space (length bs) bs
      in string_of_bytes (rev (trim_front (map rev white_space) (length front) (rev front))))"

definition strip_0x :: "string \<Rightarrow> string" where
  "strip_0x s = (if take 2 s = ''0x'' then drop 2 s else s)"

definition parse_hex_32 :: "(string \<Rightarrow> bytes option) \<Rightarrow> string \<Rightarrow> bytes option" where
  "parse_hex_32 hex_decode s =
     (case hex_decode (strip_0x (str_trim s)) of
        None \<Rightarrow> None
      | Some bs \<Rightarrow> if length bs \<noteq> 32 then None else Some bs)"

fun reward_entries ::
  "(string \<Rightarrow> bytes option) \<Rightarrow> u64 \<Rightarrow> u64 \<Rightarrow> ProducerId list \<Rightarrow> CompensationEntry list" where
  "reward_entries hex_decode reward_per_producer remainder [] = []"
| "reward_entries hex_decode reward_per_producer remainder (pid # ps) =
     (let pk = (case parse_hex_32 hex_decode pid of Some k \<Rightarrow> k | None \<Rightarrow> replicate 32 0);
          (bonus, remainder') = (if remainder > 0 then (1, remainder - 1) else (0, remainder))
      in \<lparr>ce_producer_id = pid, ce_public_key = pk, ce_amount = saturating_add reward_per_producer bonus\<rparr>
         # reward_entries hex_decode reward_per_producer remainder' ps)"

definition producer_reward_pool :: "RewardConfig \<Rightarrow> u64 \<Rightarrow> u64" where
  "producer_reward_pool rc fees =
     (let reward_from_fees = saturating_mul fees (ucast (fee_to_reward_pool_bps rc)) div 10000;
          total_reward_pool = saturating_add (block_reward rc) reward_from_fees
      in saturating_mul total_reward_pool (ucast (producer_set_reward_bps rc)) div 10000)"

definition create_compensation_entries ::
  "(string \<Rightarrow> bytes option) \<Rightarrow> Producer \<Rightarrow> ProducerId list \<Rightarrow> RewardConfig \<Rightarrow> CompensationEntry list" where
  "create_compensation_entries hex_decode p plist rc =
     (if plist = [] then []
      else
        let fees = (case p_partial_update p of Some pu \<Rightarrow> pu_total_fees pu | None \<Rightarrow> 0);
            pool = producer_reward_pool rc fees;
            reward_per_producer = pool div of_nat (length plist);
            remainder = pool mod of_nat (length plist)
        in sort_key ce_producer_id (reward_entries hex_decode reward_per_producer remainder (sort plist)))"

section \<open>Voting\<close>

definition add_candidate ::
  "(ProducerId \<times> ProducerCandidate) list \<Rightarrow> ProducerCandidate \<Rightarrow> (ProducerId \<times> ProducerCandidate) list" where
  "add_candidate m c = hm_insert (c_producer_id c) c m"

definition canonical_committee :: "Producer \<Rightarrow> ProducerId list \<Rightarrow> ProducerId list" where
  "canonical_committee p observed =
     (let canonical = sort_dedup (selected_producers p)
      in if canonical = []
         then sort_dedup (if p_id p \<in> set observed then observed else observed @ [p_id p])
         else canonical)"

definition create_final_ledger_update ::
  "(bytes \<Rightarrow> bytes) \<Rightarrow> (string \<Rightarrow> bytes option) \<Rightarrow> u64 \<Rightarrow> Producer \<Rightarrow> (ProducerId \<times> ProducerCandidate) list
   \<Rightarrow> nat \<Rightarrow> RewardConfig \<Rightarrow> (CatalystError, ProducerVote \<times> Producer) result" where
  "create_final_ledger_update blake2b512 hex_decode now p collected required_majority rc =
     (case p_first_hash p of
        None \<Rightarrow> Inl (into_catalyst (ConsensusFailed ''No first hash available for voting''))
      | Some our_hash \<Rightarrow>
        if length collected < required_majority
        then Inl (into_catalyst (InsufficientData (length collected) required_majority))
        else case best_entry (count_hashes c_majority_hash collected) of
          (None, _) \<Rightarrow> Inl (into_catalyst (NoMajority 0 required_majority
              ('' (phase=voting cycle='' @ show_nat (unat (p_cycle_number p)) @ '')'')))
        | (Some majority_hash, voting_producers) \<Rightarrow>
          if length voting_producers < required_majority
          then Inl (into_catalyst (NoMajority (length voting_producers) required_majority
              ('' (phase=voting cycle='' @ show_nat (unat (p_cycle_number p))
               @ '' candidate_majority_hash_counts=ambiguous)'')))
          else if our_hash \<noteq> majority_hash
          then Inl (into_catalyst (ConsensusFailed ''Our hash doesn't match majority, cannot vote''))
          else
            let final_producer_list = canonical_committee p voting_producers;
                comp = create_compensation_entries hex_decode p final_producer_list rc
            in case p_partial_update p of
                 None \<Rightarrow> Inl (into_catalyst (ConsensusFailed ''No partial update available''))
               | Some pu \<Rightarrow>
                 let upd = \<lparr>lsu_partial_update = pu, lsu_compensation_entries = comp,
                       lsu_cycle_number = p_cycle_number p, lsu_producer_list = final_producer_list,
                       lsu_vote_list = final_producer_list\<rparr>
                 in Inr (\<lparr>v_ledger_state_hash = hash_data blake2b512 ser_lsu upd,
                          v_vote_list_hash = hash_producer_list_merkle blake2b512 final_producer_list,
                          v_cycle_number = p_cycle_number p, v_producer_id = p_id p, v_timestamp = now\<rparr>,
                         p\<lparr>p_ledger_update := Some upd, p_vote_list := Some final_producer_list\<rparr>))"

definition create_final_producer_list ::
  "(ProducerId \<times> ProducerCandidate) list \<Rightarrow> Hash \<Rightarrow> ProducerId list" where
  "create_final_producer_list collected majority_hash =
     (let matching = filter (\<lambda>c. c_majority_hash c = majority_hash) (map snd collected);
          producer_counts = fold (\<lambda>c m. bt_insert (c_producer_id c)
              ((case map_of m (c_producer_id c) of Some n \<Rightarrow> n | None \<Rightarrow> 0) + 1) m) matching [];
          threshold = (length matching + 1) div 2
      in sort (map fst (filter (\<lambda>(_, n). n \<ge> threshold) producer_counts)))"

section \<open>Synchronisation\<close>

definition add_vote :: "(ProducerId \<times> ProducerVote) list \<Rightarrow> ProducerVote \<Rightarrow> (ProducerId \<times> ProducerVote) list" where
  "add_vote m v = hm_insert (v_producer_id v) v m"

definition store_to_dfs :: "Hash \<Rightarrow> bytes" where
  "store_to_dfs ledger_state_hash = [0x01] @ take 20 ledger_state_hash"

definition final_vote_list :: "Producer \<Rightarrow> ProducerId list \<Rightarrow> ProducerId list" where
  "final_vote_list p observed =
     (if selected_producers p = []
      then sort_dedup (if p_id p \<in> set observed then observed else observed @ [p_id p])
      else selected_producers p)"

definition finalize_ledger_update ::
  "(bytes \<Rightarrow> bytes) \<Rightarrow> u64 \<Rightarrow> Producer \<Rightarrow> (ProducerId \<times> ProducerVote) list \<Rightarrow> nat
   \<Rightarrow> (CatalystError, ProducerOutput) result" where
  "finalize_ledger_update blake2b512 now p collected required_majority =
     (if length collected < required_majority
      then Inl (into_catalyst (InsufficientData (length collected) required_majority))
      else case best_entry (count_hashes v_ledger_state_hash collected) of
        (None, _) \<Rightarrow> Inl (into_catalyst (NoMajority 0 required_majority
            ('' (phase=synchronization cycle='' @ show_nat (unat (p_cycle_number p)) @ '')'')))
      | (Some final_hash, vote_producers) \<Rightarrow>
        if length vote_producers < required_majority
        then Inl (into_catalyst (NoMajority (length vote_producers) required_majority
            ('' (phase=synchronization cycle='' @ show_nat (unat (p_cycle_number p))
             @ '' ledger_state_hash_counts=ambiguous)'')))
        else case p_ledger_update p of
          None \<Rightarrow> Inl (into_catalyst (ConsensusFailed ''No ledger update available''))
        | Some upd \<Rightarrow>
          if hash_data blake2b512 ser_lsu upd \<noteq> final_hash
          then Inl (into_catalyst (ConsensusFailed ''Our ledger update doesn't match majority''))
          else Inr \<lparr>o_dfs_address = store_to_dfs final_hash,
                    o_vote_list_hash = hash_producer_list_merkle blake2b512 (final_vote_list p vote_producers),
                    o_cycle_number = p_cycle_number p, o_producer_id = p_id p, o_timestamp = now\<rparr>)"

section \<open>The producer manager\<close>

text \<open>Each phase on the manager's producer: the result, and the producer after it.\<close>

definition required_majority :: "Producer \<Rightarrow> nat" where
  "required_majority p = expected_producers p div 2 + 1"

definition execute_construction_phase ::
  "(bytes \<Rightarrow> bytes) \<Rightarrow> u64 \<Rightarrow> TransactionEntry list \<Rightarrow> Producer
   \<Rightarrow> (CatalystError, ProducerQuantity) result \<times> Producer" where
  "execute_construction_phase blake2b512 now txs p =
     (case build_partial_update blake2b512 now p txs of
        Inl e \<Rightarrow> (Inl e, p)
      | Inr (q, p') \<Rightarrow>
          (Inr q, p\<lparr>p_partial_update := p_partial_update p', p_first_hash := p_first_hash p'\<rparr>))"

definition execute_campaigning_phase ::
  "(bytes \<Rightarrow> bytes) \<Rightarrow> (bytes \<Rightarrow> string) \<Rightarrow> u64 \<Rightarrow> ProducerQuantity list \<Rightarrow> Producer
   \<Rightarrow> (CatalystError, ProducerCandidate) result \<times> Producer" where
  "execute_campaigning_phase blake2b512 hex_encode now quantities p =
     (case find_majority_candidate blake2b512 hex_encode now p
             (fold (\<lambda>q m. add_quantity m q) quantities []) (required_majority p) of
        Inl e \<Rightarrow> (Inl e, p)
      | Inr (c, p') \<Rightarrow> (Inr c, p\<lparr>p_producer_list := p_producer_list p'\<rparr>))"

definition execute_voting_phase ::
  "(bytes \<Rightarrow> bytes) \<Rightarrow> (string \<Rightarrow> bytes option) \<Rightarrow> RewardConfig \<Rightarrow> u64 \<Rightarrow> ProducerCandidate list \<Rightarrow> Producer
   \<Rightarrow> (CatalystError, ProducerVote) result \<times> Producer" where
  "execute_voting_phase blake2b512 hex_decode rc now candidates p =
     (case create_final_ledger_update blake2b512 hex_decode now p
             (fold (\<lambda>c m. add_candidate m c) candidates []) (required_majority p) rc of
        Inl e \<Rightarrow> (Inl e, p)
      | Inr (v, p') \<Rightarrow>
          (Inr v, p\<lparr>p_ledger_update := p_ledger_update p', p_vote_list := p_vote_list p'\<rparr>))"

definition execute_synchronization_phase ::
  "(bytes \<Rightarrow> bytes) \<Rightarrow> u64 \<Rightarrow> ProducerVote list \<Rightarrow> Producer
   \<Rightarrow> (CatalystError, ProducerOutput) result \<times> Producer" where
  "execute_synchronization_phase blake2b512 now votes p =
     (finalize_ledger_update blake2b512 now p (fold (\<lambda>v m. add_vote m v) votes []) (required_majority p), p)"

definition validate_producer_eligibility :: "ProducerId \<Rightarrow> ProducerId list \<Rightarrow> (CatalystError, unit) result" where
  "validate_producer_eligibility pid selected =
     (if pid \<notin> set selected then Inl (into_catalyst (InvalidProducer pid)) else Inr ())"

record ConsensusStats =
  cs_cycle_number :: u64
  cs_producer_id :: ProducerId
  has_partial_update :: bool
  has_ledger_update :: bool
  producer_list_size :: nat
  vote_list_size :: nat

definition get_consensus_stats :: "Producer \<Rightarrow> ConsensusStats" where
  "get_consensus_stats p = \<lparr>cs_cycle_number = p_cycle_number p, cs_producer_id = p_id p,
     has_partial_update = p_partial_update p \<noteq> None, has_ledger_update = p_ledger_update p \<noteq> None,
     producer_list_size = (case p_producer_list p of Some l \<Rightarrow> length l | None \<Rightarrow> 0),
     vote_list_size = (case p_vote_list p of Some l \<Rightarrow> length l | None \<Rightarrow> 0)\<rparr>"

section \<open>Lemmas on the tally\<close>

definition supporters :: "('m \<Rightarrow> Hash) \<Rightarrow> (ProducerId \<times> 'm) list \<Rightarrow> Hash \<Rightarrow> ProducerId set" where
  "supporters hash_of collected h = {pid. \<exists>msg. (pid, msg) \<in> set collected \<and> hash_of msg = h}"

lemma supporters_image:
  "supporters hash_of collected h = fst ` {x \<in> set collected. hash_of (snd x) = h}"
  by (force simp: supporters_def)

lemma finite_supporters [simp]: "finite (supporters hash_of collected h)"
  by (simp add: supporters_image)

definition the_default :: "'a \<Rightarrow> 'a option \<Rightarrow> 'a" where
  "the_default d x = (case x of Some v \<Rightarrow> v | None \<Rightarrow> d)"

lemma the_default_simps [simp]: "the_default d None = d" "the_default d (Some v) = v"
  by (simp_all add: the_default_def)

lemma fold_bt_push:
  assumes "bt_wf m"
  shows "bt_wf (fold (\<lambda>(pid, msg) m. bt_push (hash_of msg) pid m) collected m)
    \<and> (\<forall>h. set (the_default [] (map_of (fold (\<lambda>(pid, msg) m. bt_push (hash_of msg) pid m) collected m) h))
          = set (the_default [] (map_of m h)) \<union> supporters hash_of collected h)
    \<and> dom (map_of (fold (\<lambda>(pid, msg) m. bt_push (hash_of msg) pid m) collected m))
        = dom (map_of m) \<union> hash_of ` snd ` set collected"
  using assms
proof (induction collected arbitrary: m)
  case Nil
  then show ?case by (simp add: supporters_def)
next
  case (Cons x xs)
  obtain pid msg where x: "x = (pid, msg)" by fastforce
  have wf: "bt_wf (bt_push (hash_of msg) pid m)"
    unfolding bt_push_def using Cons.prems by (rule bt.wf_insert)
  have look: "map_of (bt_push (hash_of msg) pid m)
      = (map_of m)(hash_of msg \<mapsto> the_default [] (map_of m (hash_of msg)) @ [pid])"
    unfolding bt_push_def using Cons.prems by (simp add: bt.lookup_insert the_default_def)
  have sup: "supporters hash_of ((pid, msg) # xs) h
      = (if hash_of msg = h then {pid} else {}) \<union> supporters hash_of xs h" for h
    by (auto simp: supporters_def)
  show ?case using Cons.IH[OF wf] unfolding x list.simps fold_simps prod.case look sup by auto
qed

lemma count_hashes_eq:
  "count_hashes hash_of collected =
     map (\<lambda>h. (h, sorted_list_of_set (supporters hash_of collected h)))
       (sorted_list_of_set (hash_of ` snd ` set collected))"
proof -
  define m where "m = fold (\<lambda>(pid, msg) m. bt_push (hash_of msg) pid m) collected []"
  have wf: "bt_wf m" and dom: "dom (map_of m) = hash_of ` snd ` set collected"
    and sup: "\<And>h. set (the_default [] (map_of m h)) = supporters hash_of collected h"
    using fold_bt_push[of "[]" hash_of collected] by (simp_all add: m_def the_default_def)
  have "map fst m = sorted_list_of_set (hash_of ` snd ` set collected)"
  proof (rule sorted_distinct_set_unique)
    show "set (map fst m) = set (sorted_list_of_set (hash_of ` snd ` set collected))"
      using dom by (simp add: dom_map_of_conv_image_fst)
  qed (use wf in \<open>auto simp: strict_sorted_iff\<close>)
  moreover have "map (\<lambda>(h, v). (h, sort_dedup v)) m
      = map (\<lambda>h. (h, sorted_list_of_set (supporters hash_of collected h))) (map fst m)"
  proof -
    have "sort_dedup v = sorted_list_of_set (supporters hash_of collected h)" if "(h, v) \<in> set m" for h v
    proof -
      have "map_of m h = Some v" using that wf by (simp add: bt.wf_distinct)
      then show ?thesis using sup[of h] by (simp add: sort_dedup_eq the_default_def)
    qed
    then show ?thesis by auto
  qed
  ultimately show ?thesis by (simp add: count_hashes_def m_def)
qed

text \<open>The hash that wins: the most supporters, and the smallest hash among ties.\<close>

definition wins :: "('m \<Rightarrow> Hash) \<Rightarrow> (ProducerId \<times> 'm) list \<Rightarrow> Hash \<Rightarrow> bool" where
  "wins hash_of collected h \<longleftrightarrow> h \<in> hash_of ` snd ` set collected
     \<and> (\<forall>h' \<in> hash_of ` snd ` set collected.
          card (supporters hash_of collected h') < card (supporters hash_of collected h)
          \<or> card (supporters hash_of collected h') = card (supporters hash_of collected h) \<and> h \<le> h')"

lemma best_entry_sorted:
  assumes "sorted_wrt (<) hs" and "\<forall>h \<in> set hs. f h \<noteq> []"
  shows "hs = [] \<and> best_entry (map (\<lambda>h. (h, f h)) hs) = (None, [])
    \<or> (\<exists>h \<in> set hs. best_entry (map (\<lambda>h. (h, f h)) hs) = (Some h, f h)
        \<and> (\<forall>h' \<in> set hs. length (f h') < length (f h) \<or> length (f h') = length (f h) \<and> h \<le> h'))"
  using assms
proof (induction hs rule: rev_induct)
  case Nil
  then show ?case by (simp add: best_entry_def)
next
  case (snoc x hs)
  have step: "best_entry (map (\<lambda>h. (h, f h)) (hs @ [x])) = best_step (x, f x) (best_entry (map (\<lambda>h. (h, f h)) hs))"
    by (simp add: best_entry_def)
  from snoc.IH snoc.prems consider
    "hs = []" "best_entry (map (\<lambda>h. (h, f h)) hs) = (None, [])"
  | h where "h \<in> set hs" "best_entry (map (\<lambda>h. (h, f h)) hs) = (Some h, f h)"
      "\<forall>h' \<in> set hs. length (f h') < length (f h) \<or> length (f h') = length (f h) \<and> h \<le> h'"
    by (auto simp: sorted_wrt_append)
  then show ?case
  proof cases
    case 1
    then show ?thesis using snoc.prems by (simp add: best_entry_def best_step_def)
  next
    case 2
    have "h < x" using snoc.prems(1) 2(1) by (simp add: sorted_wrt_append)
    then show ?thesis
      using 2 unfolding step by (cases "length (f x) > length (f h)") (auto simp: best_step_def)
  qed
qed

lemma best_entry_wins:
  assumes "collected \<noteq> []"
  shows "\<exists>h. best_entry (count_hashes hash_of collected) = (Some h, sorted_list_of_set (supporters hash_of collected h))
    \<and> wins hash_of collected h"
proof -
  let ?hs = "sorted_list_of_set (hash_of ` snd ` set collected)"
  have ne: "\<forall>h \<in> set ?hs. sorted_list_of_set (supporters hash_of collected h) \<noteq> []"
    by (force simp: supporters_image)
  have "sorted_wrt (<) ?hs" by (simp add: strict_sorted_iff)
  moreover have "?hs \<noteq> []" using assms by simp
  ultimately show ?thesis using best_entry_sorted[of ?hs, OF _ ne]
    by (auto simp: count_hashes_eq wins_def)
qed

lemma best_entry_None_iff:
  "fst (best_entry (count_hashes hash_of collected)) = None \<longleftrightarrow> collected = []"
  using best_entry_wins[of collected hash_of] by (cases "collected = []") (auto simp: count_hashes_eq best_entry_def)

lemma best_entry_unanimous:
  assumes "collected \<noteq> []" and "\<forall>(pid, msg) \<in> set collected. hash_of msg = h"
  shows "best_entry (count_hashes hash_of collected) = (Some h, sorted_list_of_set (fst ` set collected))"
proof -
  obtain h' where b: "best_entry (count_hashes hash_of collected)
      = (Some h', sorted_list_of_set (supporters hash_of collected h'))" and "wins hash_of collected h'"
    using best_entry_wins[OF assms(1)] by blast
  then have "h' = h" using assms(2) by (auto simp: wins_def)
  moreover have "supporters hash_of collected h = fst ` set collected"
    using assms(2) by (force simp: supporters_def)
  ultimately show ?thesis using b by simp
qed

lemma count_hashes_cong: "set xs = set ys \<Longrightarrow> count_hashes hash_of xs = count_hashes hash_of ys"
  by (simp add: count_hashes_eq supporters_image)

section \<open>Collecting messages\<close>

text \<open>
  The collection that a phase builds from the messages handed to it, whatever their type: one
  entry per sender, and with distinct senders independent of the delivery order.
\<close>

definition gather :: "('m \<Rightarrow> ProducerId) \<Rightarrow> 'm list \<Rightarrow> (ProducerId \<times> 'm) list" where
  "gather sender msgs = fold (\<lambda>m acc. hm_insert (sender m) m acc) msgs []"

lemma gather_collect: "gather sender msgs = hm.collect sender msgs []"
  by (simp add: gather_def hm.collect_def)

lemma gather_folds:
  "fold (\<lambda>q m. add_quantity m q) qs [] = gather q_producer_id qs"
  "fold (\<lambda>c m. add_candidate m c) cs [] = gather c_producer_id cs"
  "fold (\<lambda>v m. add_vote m v) vs [] = gather v_producer_id vs"
  by (simp_all add: gather_def add_quantity_def add_candidate_def add_vote_def)

lemma distinct_gather: "distinct (map fst (gather sender msgs))"
  unfolding gather_collect by (rule hm.wf_collect) simp

lemma keys_gather: "fst ` set (gather sender msgs) = sender ` set msgs"
  using hm.keys_collect[of "[]" sender msgs] by (simp add: gather_collect)

lemma map_of_gather: "map_of (gather sender msgs) = map_of (rev (map (\<lambda>m. (sender m, m)) msgs))"
  using hm.lookup_collect[of "[]" sender msgs] by (simp add: gather_collect)

lemma gather_mem: "(pid, m) \<in> set (gather sender msgs) \<Longrightarrow> m \<in> set msgs \<and> sender m = pid"
proof -
  assume "(pid, m) \<in> set (gather sender msgs)"
  then have "map_of (gather sender msgs) pid = Some m" by (simp add: distinct_gather)
  then show ?thesis by (auto simp: map_of_gather dest!: map_of_SomeD)
qed

lemma length_gather: "length (gather sender msgs) = card (sender ` set msgs)"
  by (metis distinct_card distinct_gather keys_gather length_map list.set_map)

lemma set_gather:
  assumes "distinct (map sender msgs)"
  shows "set (gather sender msgs) = (\<lambda>m. (sender m, m)) ` set msgs"
proof -
  have "(pid, m) \<in> set (gather sender msgs) \<longleftrightarrow> (pid, m) \<in> (\<lambda>m. (sender m, m)) ` set msgs" for pid m
  proof -
    have "(pid, m) \<in> set (gather sender msgs) \<longleftrightarrow> map_of (gather sender msgs) pid = Some m"
      by (simp add: distinct_gather)
    also have "\<dots> \<longleftrightarrow> (pid, m) \<in> set (rev (map (\<lambda>m. (sender m, m)) msgs))"
      unfolding map_of_gather using assms by (subst map_of_eq_Some_iff) (simp_all add: o_def rev_map[symmetric])
    finally show ?thesis by simp
  qed
  then show ?thesis by auto
qed

section \<open>Construction is a function of the transaction set\<close>

lemma entry_order_inj:
  assumes "inj_on (blake32 blake2b512) (te_signature ` set txs)"
  shows "inj_on (entry_order blake2b512) (set txs)"
proof (rule inj_onI)
  fix a b
  assume mem: "a \<in> set txs" "b \<in> set txs" and eq: "entry_order blake2b512 a = entry_order blake2b512 b"
  have "te_signature a = te_signature b"
    by (rule inj_onD[OF assms]) (use mem eq in \<open>auto simp: entry_order_def signature_leaf_hash_def\<close>)
  moreover have "te_public_key a = te_public_key b" "te_amount a = te_amount b"
    using eq by (auto simp: entry_order_def intro: signed_word_eqI)
  ultimately show "a = b" by (cases a; cases b) simp
qed

text \<open>
  Producers that froze the same transactions, in whatever order, build the same partial
  update and propose the same first hash, absent a digest collision between two signatures.
\<close>

theorem construction_deterministic:
  assumes "mset txs' = mset txs" and "inj_on (blake32 blake2b512) (te_signature ` set txs)"
    and "p_cycle_number p' = p_cycle_number p"
    and "execute_construction_phase blake2b512 now txs p = (Inr q, r)"
    and "execute_construction_phase blake2b512 now' txs' p' = (Inr q', r')"
  shows "q_first_hash q' = q_first_hash q \<and> p_partial_update r' = p_partial_update r
    \<and> p_partial_update r \<noteq> None \<and> p_first_hash r = Some (q_first_hash q)"
proof -
  have "set txs' = set txs" using assms(1) by (rule mset_eq_setD)
  then have inj: "inj_on (entry_order blake2b512) (set txs')"
    using entry_order_inj[OF assms(2)] by simp
  have "sort_key (entry_order blake2b512) txs' = sort_key (entry_order blake2b512) txs"
    using assms(1) inj by (intro sort_key_inj_key_eq) auto
  then show ?thesis
    using assms(3-5) by (auto simp: execute_construction_phase_def build_partial_update_def Let_def)
qed

definition entry_example :: "byte \<Rightarrow> i64 \<Rightarrow> TransactionEntry" where
  "entry_example b a = \<lparr>te_public_key = replicate 32 b, te_amount = a, te_signature = [b]\<rparr>"

definition pad64 :: "bytes \<Rightarrow> bytes" where
  "pad64 bs = take 64 (bs @ replicate 64 0)"

theorem construction_deterministic_witness:
  "let p = new_producer ''a'' [] 3; txs = [entry_example 1 5, entry_example 2 (- 7)];
       run = (\<lambda>txs. execute_construction_phase pad64 0 txs p)
   in \<exists>q r q' r'. run txs = (Inr q, r) \<and> run (rev txs) = (Inr q', r') \<and> q_first_hash q' = q_first_hash q"
proof -
  let ?p = "new_producer ''a'' [] 3" and ?txs = "[entry_example 1 5, entry_example 2 (- 7)]"
  have run: "\<exists>q r. execute_construction_phase pad64 0 txs ?p = (Inr q, r)" for txs
    by (simp add: execute_construction_phase_def build_partial_update_def Let_def)
  obtain q r q' r' where qr: "execute_construction_phase pad64 0 ?txs ?p = (Inr q, r)"
    "execute_construction_phase pad64 0 (rev ?txs) ?p = (Inr q', r')"
    using run[of ?txs] run[of "rev ?txs"] by blast
  have "q_first_hash q' = q_first_hash q"
    using construction_deterministic[OF _ _ _ qr]
    by (simp add: entry_example_def blake32_def pad64_def add_mset_commute inj_on_def)
  then show ?thesis unfolding Let_def using qr by blast
qed

section \<open>Delivery order\<close>

lemma gather_order_free:
  assumes "mset msgs' = mset msgs" and "distinct (map sender msgs)"
  shows "count_hashes hash_of (gather sender msgs') = count_hashes hash_of (gather sender msgs)"
    "length (gather sender msgs') = length (gather sender msgs)"
proof -
  have set: "set msgs' = set msgs" using assms(1) by (rule mset_eq_setD)
  have "mset (map sender msgs') = mset (map sender msgs)" using assms(1) by simp
  then have "distinct (map sender msgs')" using assms(2) by (metis mset_eq_imp_distinct_iff)
  then have "set (gather sender msgs') = set (gather sender msgs)" using assms(2) set by (simp add: set_gather)
  then show "count_hashes hash_of (gather sender msgs') = count_hashes hash_of (gather sender msgs)"
    by (rule count_hashes_cong)
  show "length (gather sender msgs') = length (gather sender msgs)" by (simp add: length_gather set)
qed


definition quantity_example :: "string \<Rightarrow> byte \<Rightarrow> ProducerQuantity" where
  "quantity_example pid b = \<lparr>q_first_hash = replicate 32 b, q_cycle_number = 3, q_producer_id = pid, q_timestamp = 0\<rparr>"


section \<open>Agreement\<close>

text \<open>The committee of a cycle, as \<open>reset_for_cycle\<close> sets it and every phase keeps it.\<close>

definition in_cycle :: "Producer \<Rightarrow> ProducerId list \<Rightarrow> bool" where
  "in_cycle p sel \<longleftrightarrow> selected_producers p = sort_dedup sel
     \<and> expected_producers p = max (length (sort_dedup sel)) 1"

lemma in_cycle_reset: "in_cycle (reset_for_cycle p cyc sel) sel"
  by (simp add: in_cycle_def reset_for_cycle_def Let_def)

lemma in_cycle_phases:
  "in_cycle p sel \<Longrightarrow> in_cycle (snd (execute_construction_phase H now txs p)) sel"
  "in_cycle p sel \<Longrightarrow> in_cycle (snd (execute_campaigning_phase H he now qs p)) sel"
  "in_cycle p sel \<Longrightarrow> in_cycle (snd (execute_voting_phase H hx rc now cs p)) sel"
  by (auto simp: in_cycle_def execute_construction_phase_def execute_campaigning_phase_def
      execute_voting_phase_def split: sum.split)

interpretation cyc: majority_quorum "set (selected_producers (reset_for_cycle p c sel))"
  "required_majority (reset_for_cycle p c sel)" for p c sel
  by unfold_locales (auto simp: required_majority_def reset_for_cycle_def Let_def length_sort_dedup)

lemma finalize_Inr:
  assumes "finalize_ledger_update blake2b512 now p collected req = Inr out" and "0 < req"
  shows "\<exists>h upd. wins v_ledger_state_hash collected h \<and> req \<le> card (supporters v_ledger_state_hash collected h)
    \<and> p_ledger_update p = Some upd \<and> hash_data blake2b512 ser_lsu upd = h \<and> o_dfs_address out = store_to_dfs h
    \<and> o_cycle_number out = p_cycle_number p"
proof -
  have "collected \<noteq> []" using assms by (auto simp: finalize_ledger_update_def split: if_splits)
  then obtain h where "best_entry (count_hashes v_ledger_state_hash collected)
      = (Some h, sorted_list_of_set (supporters v_ledger_state_hash collected h))"
    and "wins v_ledger_state_hash collected h" using best_entry_wins by blast
  then show ?thesis using assms(1) by (auto simp: finalize_ledger_update_def split: if_splits option.splits)
qed


definition vote_example :: ProducerVote where
  "vote_example = \<lparr>v_ledger_state_hash = replicate 32 0, v_vote_list_hash = [], v_cycle_number = 7,
     v_producer_id = ''a'', v_timestamp = 0\<rparr>"

lemma vote_example_run:
  "fst (execute_synchronization_phase (\<lambda>_. replicate 64 0) now [vote_example]
      ((reset_for_cycle (new_producer ''a'' [] 0) 7 [''a''])\<lparr>p_ledger_update := Some lsu_example\<rparr>))
   = Inr \<lparr>o_dfs_address = 1 # replicate 20 0, o_vote_list_hash = replicate 32 0, o_cycle_number = 7,
          o_producer_id = ''a'', o_timestamp = now\<rparr>"
  by (simp add: execute_synchronization_phase_def add_vote_def vote_example_def
      finalize_ledger_update_def required_majority_def reset_for_cycle_def Let_def sort_dedup_def
      best_entry_unanimous[where h = "replicate 32 0"] hash_data_def blake32_def store_to_dfs_def
      new_producer_def final_vote_list_def hash_producer_list_merkle_def compute_merkle_root_def
      producer_leaf_hash_def)


section \<open>The winning candidate\<close>

lemma find_majority_Inr:
  assumes "find_majority_candidate blake2b512 hex_encode now p collected req = Inr (c, p')" and "0 < req"
  shows "wins q_first_hash collected (c_majority_hash c)
    \<and> req \<le> card (supporters q_first_hash collected (c_majority_hash c))
    \<and> p_producer_list p' = Some (sorted_list_of_set (supporters q_first_hash collected (c_majority_hash c)
          \<union> (if p_first_hash p = Some (c_majority_hash c) then {p_id p} else {})))"
proof -
  have "collected \<noteq> []" using assms by (auto simp: find_majority_candidate_def split: if_splits)
  then obtain h where b: "best_entry (count_hashes q_first_hash collected)
      = (Some h, sorted_list_of_set (supporters q_first_hash collected h))" and w: "wins q_first_hash collected h"
    using best_entry_wins by blast
  let ?S = "supporters q_first_hash collected h"
  have self: "sort_dedup (case p_first_hash p of
        Some our_hash \<Rightarrow> if our_hash = h \<and> p_id p \<notin> set (sorted_list_of_set ?S)
          then sorted_list_of_set ?S @ [p_id p] else sorted_list_of_set ?S
      | None \<Rightarrow> sorted_list_of_set ?S)
    = sorted_list_of_set (?S \<union> (if p_first_hash p = Some h then {p_id p} else {}))"
    unfolding sort_dedup_eq by (rule arg_cong[where f = sorted_list_of_set]) (auto split: option.splits)
  show ?thesis
    using assms(1) w unfolding find_majority_candidate_def Let_def b prod.case option.case self
    by (auto split: if_splits)
qed

text \<open>
  C33: Campaigning elects the right hash: a successful campaign names the first hash with the most
  senders (the smallest among ties), at least a majority of the expected producers sent it, and
  the producer list kept is exactly its senders, with the producer itself when it agrees.
\<close>

theorem campaigning_elects_majority:
  assumes "execute_campaigning_phase blake2b512 hex_encode now qs p = (Inr c, p')"
  shows "wins q_first_hash (gather q_producer_id qs) (c_majority_hash c)
    \<and> expected_producers p < 2 * card (supporters q_first_hash (gather q_producer_id qs) (c_majority_hash c))
    \<and> p_producer_list p' = Some (sorted_list_of_set
         (supporters q_first_hash (gather q_producer_id qs) (c_majority_hash c)
          \<union> (if p_first_hash p = Some (c_majority_hash c) then {p_id p} else {})))"
proof -
  obtain p'' where run: "find_majority_candidate blake2b512 hex_encode now p (gather q_producer_id qs)
        (required_majority p) = Inr (c, p'')" and p': "p_producer_list p' = p_producer_list p''"
    using assms by (auto simp: execute_campaigning_phase_def gather_folds split: sum.splits)
  have "0 < required_majority p" by (simp add: required_majority_def)
  from find_majority_Inr[OF run this] show ?thesis
    unfolding p' by (auto simp: required_majority_def)
qed

theorem campaigning_elects_majority_witness:
  "let p = reset_for_cycle (new_producer ''a'' [] 0) 3 [''a'', ''b'', ''c''];
       qs = [quantity_example ''a'' 1, quantity_example ''b'' 1]
   in \<exists>c p'. execute_campaigning_phase pad64 string_of_bytes 0 qs p = (Inr c, p')
        \<and> wins q_first_hash (gather q_producer_id qs) (c_majority_hash c)"
proof -
  let ?p = "reset_for_cycle (new_producer ''a'' [] 0) 3 [''a'', ''b'', ''c'']"
  let ?qs = "[quantity_example ''a'' 1, quantity_example ''b'' 1]"
  have "\<exists>c p'. execute_campaigning_phase pad64 string_of_bytes 0 ?qs ?p = (Inr c, p')"
    by (simp add: execute_campaigning_phase_def add_quantity_def quantity_example_def
        find_majority_candidate_def required_majority_def reset_for_cycle_def Let_def length_sort_dedup
        best_entry_unanimous[where h = "replicate 32 1"])
  then show ?thesis unfolding Let_def using campaigning_elects_majority by blast
qed

section \<open>The final update does not depend on what was observed\<close>

text \<open>
  C19: Two producers of the same cycle that agree on the partial update and the selected committee
  vote for the same ledger update, the same ledger hash and the same vote list hash, whichever
  candidates each of them happened to observe.
\<close>

theorem voting_view_independent:
  assumes "selected_producers p \<noteq> []" and "selected_producers p' = selected_producers p"
    and "p_cycle_number p' = p_cycle_number p" and "p_partial_update p' = p_partial_update p"
    and "execute_voting_phase blake2b512 hex_decode rc now cs p = (Inr v, r)"
    and "execute_voting_phase blake2b512 hex_decode rc now' cs' p' = (Inr v', r')"
  shows "p_ledger_update r' = p_ledger_update r \<and> p_ledger_update r \<noteq> None
    \<and> v_ledger_state_hash v' = v_ledger_state_hash v \<and> v_vote_list_hash v' = v_vote_list_hash v"
proof -
  have comm: "canonical_committee q obs = sort_dedup (selected_producers q)" if "selected_producers q \<noteq> []" for q obs
    using that by (simp add: canonical_committee_def Let_def)
  have comp: "create_compensation_entries hex_decode p' l rc = create_compensation_entries hex_decode p l rc" for l
    using assms(4) by (simp add: create_compensation_entries_def)
  show ?thesis
    using assms
    by (auto simp: execute_voting_phase_def create_final_ledger_update_def Let_def comm comp
        split: sum.splits option.splits if_splits prod.splits)
qed

definition candidate_example :: "string \<Rightarrow> ProducerCandidate" where
  "candidate_example pid = \<lparr>c_majority_hash = replicate 32 1, c_producer_list_hash = [], c_cycle_number = 3,
     c_producer_id = pid, c_timestamp = 0\<rparr>"

definition voter_example :: "string \<Rightarrow> Producer" where
  "voter_example pid = (reset_for_cycle (new_producer pid [] 0) 3 [''a'', ''b'', ''c''])
     \<lparr>p_first_hash := Some (replicate 32 1), p_partial_update := Some (lsu_partial_update lsu_example)\<rparr>"

theorem voting_view_independent_witness:
  "\<exists>v r v' r'. execute_voting_phase pad64 (\<lambda>_. None) default_reward_config 0
       [candidate_example ''a'', candidate_example ''b''] (voter_example ''a'') = (Inr v, r)
     \<and> execute_voting_phase pad64 (\<lambda>_. None) default_reward_config 0
       [candidate_example ''b'', candidate_example ''c''] (voter_example ''c'') = (Inr v', r')
     \<and> v_ledger_state_hash v' = v_ledger_state_hash v"
proof -
  have run: "\<exists>v r. execute_voting_phase pad64 (\<lambda>_. None) default_reward_config 0
      [candidate_example x, candidate_example y] (voter_example z) = (Inr v, r)" if "x \<noteq> y" for x y z
    using that
    by (simp add: execute_voting_phase_def add_candidate_def candidate_example_def voter_example_def
        create_final_ledger_update_def required_majority_def reset_for_cycle_def new_producer_def Let_def
        length_sort_dedup best_entry_unanimous[where h = "replicate 32 1"])
  obtain v r v' r' where runs: "execute_voting_phase pad64 (\<lambda>_. None) default_reward_config 0
       [candidate_example ''a'', candidate_example ''b''] (voter_example ''a'') = (Inr v, r)"
    "execute_voting_phase pad64 (\<lambda>_. None) default_reward_config 0
       [candidate_example ''b'', candidate_example ''c''] (voter_example ''c'') = (Inr v', r')"
    using run[of "''a''" "''b''" "''a''"] run[of "''b''" "''c''" "''c''"] by auto
  have "v_ledger_state_hash v' = v_ledger_state_hash v"
    using voting_view_independent[OF _ _ _ _ runs]
    by (simp add: voter_example_def reset_for_cycle_def new_producer_def Let_def)
  with runs show ?thesis by blast
qed

section \<open>Compensation\<close>

lemma reward_entries_sum:
  assumes "unat remainder \<le> length ps" and "0 < unat remainder \<longrightarrow> unat reward + 1 < 2 ^ 64"
  shows "sum_list (map (\<lambda>e. unat (ce_amount e)) (reward_entries hex_decode reward remainder ps))
           = length ps * unat reward + unat remainder
    \<and> map ce_producer_id (reward_entries hex_decode reward remainder ps) = ps
    \<and> (\<forall>e \<in> set (reward_entries hex_decode reward remainder ps).
         unat (ce_amount e) = unat reward \<or> unat (ce_amount e) = unat reward + 1)"
  using assms
proof (induction ps arbitrary: remainder)
  case (Cons pid ps)
  show ?case
  proof (cases "remainder = 0")
    case True
    then show ?thesis using Cons.IH[of 0] by (auto simp: unat_saturating_add)
  next
    case False
    then have pos: "0 < unat remainder" by (simp add: unat_gt_0)
    then have "1 \<le> remainder" by (simp add: word_le_nat_alt)
    then have dec: "unat (remainder - 1) = unat remainder - 1" by (simp add: unat_sub)
    have "unat (saturating_add reward 1) = unat reward + 1"
      using Cons.prems(2) pos by (simp add: unat_saturating_add)
    with Cons.IH[of "remainder - 1"] Cons.prems pos False dec show ?thesis
      by (auto simp: word_gt_0)
  qed
qed simp

text \<open>
  Rewards are distributed exactly: the amounts of the compensation entries add up to the
  producer pool, with one entry per listed producer, in id order, and no two shares differ by
  more than one unit.
\<close>

theorem compensation_exact:
  assumes "plist \<noteq> []" and "length plist < 2 ^ 64"
  shows "let es = create_compensation_entries hex_decode p plist rc;
             pool = unat (producer_reward_pool rc (case p_partial_update p of Some pu \<Rightarrow> pu_total_fees pu | None \<Rightarrow> 0))
         in sum_list (map (\<lambda>e. unat (ce_amount e)) es) = pool
            \<and> map ce_producer_id es = sort plist
            \<and> (\<forall>e \<in> set es. unat (ce_amount e) = pool div length plist \<or> unat (ce_amount e) = pool div length plist + 1)"
proof -
  define pool where "pool = producer_reward_pool rc (case p_partial_update p of Some pu \<Rightarrow> pu_total_fees pu | None \<Rightarrow> 0)"
  let ?n = "of_nat (length plist) :: u64"
  have n: "unat ?n = length plist" using assms(2) by (simp add: unat_of_nat)
  have per: "unat (pool div ?n) = unat pool div length plist"
    and rem: "unat (pool mod ?n) = unat pool mod length plist"
    by (simp_all add: unat_div_distrib unat_mod_distrib n)
  have small: "unat (pool div ?n) + 1 < 2 ^ 64" if "0 < unat (pool mod ?n)"
  proof -
    have "length plist \<noteq> 1" using that by (auto simp: rem)
    then have "2 \<le> length plist" using assms(1) by (cases plist) (auto simp: Suc_le_eq)
    then have "unat pool div length plist \<le> unat pool div 2" by (simp add: div_le_mono2)
    then show ?thesis using unat_lt64[of pool] per by simp
  qed
  have le: "unat (pool mod ?n) \<le> length (sort plist)" using assms(1) by (simp add: rem order_less_imp_le)
  note entries = reward_entries_sum[OF le, of "pool div ?n" hex_decode]
  have ids: "sorted (map ce_producer_id (reward_entries hex_decode (pool div ?n) (pool mod ?n) (sort plist)))"
    using entries small by simp
  have es: "create_compensation_entries hex_decode p plist rc
      = reward_entries hex_decode (pool div ?n) (pool mod ?n) (sort plist)"
    using assms(1) by (simp add: create_compensation_entries_def Let_def pool_def[symmetric]
        sort_key_id_if_sorted[OF ids])
  show ?thesis
    unfolding Let_def es pool_def[symmetric] using entries small by (simp add: per rem)
qed

theorem compensation_exact_witness:
  "let es = create_compensation_entries (\<lambda>_. None) (new_producer ''a'' [] 0) [''c'', ''a'', ''b''] default_reward_config
   in sum_list (map (\<lambda>e. unat (ce_amount e)) es) = 700000000 \<and> map ce_producer_id es = [''a'', ''b'', ''c'']"
proof -
  have "unat (producer_reward_pool default_reward_config 0) = 700000000"
    by (simp add: producer_reward_pool_def default_reward_config_def saturating_mul_def saturating_add_def)
  then show ?thesis
    using compensation_exact[of "[''c'', ''a'', ''b'']" "\<lambda>_. None" "new_producer ''a'' [] 0" default_reward_config]
    by (simp add: new_producer_def Let_def)
qed

section \<open>A cycle with enough agreeing messages completes\<close>

lemma gather_unanimous:
  assumes "\<forall>m \<in> set msgs. hash_of m = h" and "0 < req" and "req \<le> card (sender ` set msgs)"
  shows "best_entry (count_hashes hash_of (gather sender msgs)) = (Some h, sorted_list_of_set (sender ` set msgs))"
    and "\<not> length (gather sender msgs) < req"
proof -
  have "card (fst ` set (gather sender msgs)) > 0" unfolding keys_gather using assms(2,3) by linarith
  then have "gather sender msgs \<noteq> []" by auto
  moreover have "\<forall>(pid, m) \<in> set (gather sender msgs). hash_of m = h"
    using assms(1) by (auto dest!: gather_mem)
  ultimately show "best_entry (count_hashes hash_of (gather sender msgs))
      = (Some h, sorted_list_of_set (sender ` set msgs))"
    by (simp add: best_entry_unanimous keys_gather)
  show "\<not> length (gather sender msgs) < req" using assms(3) by (simp add: length_gather)
qed

lemma campaigning_unanimous:
  assumes "\<forall>q \<in> set qs. q_first_hash q = h" and "required_majority p \<le> card (q_producer_id ` set qs)"
  shows "\<exists>c l. execute_campaigning_phase blake2b512 hex_encode now qs p = (Inr c, p\<lparr>p_producer_list := Some l\<rparr>)
    \<and> c_majority_hash c = h"
proof -
  have pos: "0 < required_majority p" by (simp add: required_majority_def)
  note g = gather_unanimous[OF assms(1) pos assms(2)]
  show ?thesis
    using assms(2)
    by (simp add: execute_campaigning_phase_def gather_folds find_majority_candidate_def g Let_def) blast
qed

lemma voting_unanimous:
  assumes "\<forall>c \<in> set cs. c_majority_hash c = h" and "required_majority p \<le> card (c_producer_id ` set cs)"
    and "p_first_hash p = Some h" and "p_partial_update p = Some pu"
  shows "\<exists>v u l. execute_voting_phase blake2b512 hex_decode rc now cs p
      = (Inr v, p\<lparr>p_ledger_update := Some u, p_vote_list := Some l\<rparr>)
    \<and> v_ledger_state_hash v = hash_data blake2b512 ser_lsu u"
proof -
  have pos: "0 < required_majority p" by (simp add: required_majority_def)
  note g = gather_unanimous[OF assms(1) pos assms(2)]
  show ?thesis
    using assms(2-4)
    by (simp add: execute_voting_phase_def gather_folds create_final_ledger_update_def g Let_def) blast
qed

lemma synchronization_unanimous:
  assumes "\<forall>v \<in> set vs. v_ledger_state_hash v = h" and "required_majority p \<le> card (v_producer_id ` set vs)"
    and "p_ledger_update p = Some u" and "hash_data blake2b512 ser_lsu u = h"
  shows "\<exists>out. execute_synchronization_phase blake2b512 now vs p = (Inr out, p)
    \<and> o_dfs_address out = store_to_dfs h \<and> o_cycle_number out = p_cycle_number p"
proof -
  have pos: "0 < required_majority p" by (simp add: required_majority_def)
  note g = gather_unanimous[OF assms(1) pos assms(2)]
  show ?thesis
    using assms(2-4)
    by (simp add: execute_synchronization_phase_def gather_folds finalize_ledger_update_def g Let_def)
qed



end
