(* ===== verification/Engine.thy ===== *)
theory Engine
  imports Phases
begin

text \<open>
  The consensus engine of a node (\<open>catalyst-consensus/src/consensus.rs\<close>): the bounded queue of
  early messages, the collection loops, the four-phase pipeline of a producer, the observer path
  and the seed-driven selection of \<open>ProducerSelection\<close>.

  What the engine cannot control is given by a record \<open>World\<close>: for each collection window the
  events it sees (an envelope, a closed channel, an elapsed timeout, a rebroadcast tick; the end
  of the list is the deadline), whether a phase exceeds its time limit, the clock readings, and
  ids and timestamps of the envelopes sent. An engine action maps an engine to a result and an
  engine; \<open>ebind\<close> is the \<open>?\<close> of the source. Sent envelopes are kept in \<open>outbox\<close>.
\<close>

section \<open>State\<close>

record CollaborativeConsensus =
  cc_config :: ConsensusConfig
  cc_producer :: "Producer option"
  cc_reward :: RewardConfig
  cc_selected :: "ProducerId list"
  current_cycle :: u64
  has_sender :: bool
  sender_open :: bool
  has_receiver :: bool
  pending_envelopes :: "MessageEnvelope list"
  is_running :: bool
  outbox :: "MessageEnvelope list"

definition new_engine :: "ConsensusConfig \<Rightarrow> CollaborativeConsensus" where
  "new_engine cfg = \<lparr>cc_config = cfg, cc_producer = None, cc_reward = default_reward_config, cc_selected = [],
     current_cycle = 0, has_sender = False, sender_open = False, has_receiver = False,
     pending_envelopes = [], is_running = False, outbox = []\<rparr>"

definition set_producer_manager ::
  "Producer \<Rightarrow> RewardConfig \<Rightarrow> CollaborativeConsensus \<Rightarrow> CollaborativeConsensus" where
  "set_producer_manager p rc e = e\<lparr>cc_producer := Some p, cc_reward := rc\<rparr>"

definition set_network_sender :: "CollaborativeConsensus \<Rightarrow> CollaborativeConsensus" where
  "set_network_sender e = e\<lparr>has_sender := True, sender_open := True\<rparr>"

definition set_network_receiver :: "CollaborativeConsensus \<Rightarrow> CollaborativeConsensus" where
  "set_network_receiver e = e\<lparr>has_receiver := True\<rparr>"

definition stop :: "CollaborativeConsensus \<Rightarrow> CollaborativeConsensus" where
  "stop e = e\<lparr>is_running := False\<rparr>"

datatype NetEvent = Recv MessageEnvelope | Closed | Elapsed | Tick

record World =
  ev_quantities :: "NetEvent list"
  ev_candidates :: "NetEvent list"
  ev_votes :: "NetEvent list"
  ev_observer :: "NetEvent list"
  slow_construction :: bool
  slow_campaigning :: bool
  slow_voting :: bool
  slow_synchronization :: bool
  clock :: u64
  stamp :: "nat \<Rightarrow> string \<times> u64"

type_synonym 'a action = "CollaborativeConsensus \<Rightarrow> (CatalystError, 'a) result \<times> CollaborativeConsensus"

definition ereturn :: "'a \<Rightarrow> 'a action" where
  "ereturn x e = (Inr x, e)"

definition ebind :: "'a action \<Rightarrow> ('a \<Rightarrow> 'b action) \<Rightarrow> 'b action" where
  "ebind m f e = (case m e of (Inl err, e') \<Rightarrow> (Inl err, e') | (Inr x, e') \<Rightarrow> f x e')"

section \<open>The pending queue\<close>

definition MAX_PENDING_ENVELOPES :: nat where "MAX_PENDING_ENVELOPES = 10000"

definition push_bounded :: "'a list \<Rightarrow> 'a \<Rightarrow> 'a list" where
  "push_bounded pending env =
     (if length pending \<ge> MAX_PENDING_ENVELOPES then tl pending else pending) @ [env]"

definition push_pending_bounded :: "MessageEnvelope \<Rightarrow> CollaborativeConsensus \<Rightarrow> CollaborativeConsensus" where
  "push_pending_bounded env e = e\<lparr>pending_envelopes := push_bounded (pending_envelopes e) env\<rparr>"

definition drain_pending_by_type ::
  "MessageType \<Rightarrow> CollaborativeConsensus \<Rightarrow> MessageEnvelope list \<times> CollaborativeConsensus" where
  "drain_pending_by_type want e =
     (filter (\<lambda>env. message_type env = want) (pending_envelopes e),
      e\<lparr>pending_envelopes := filter (\<lambda>env. message_type env \<noteq> want) (pending_envelopes e)\<rparr>)"

section \<open>Broadcast\<close>

definition broadcast_message ::
  "World \<Rightarrow> ('m \<Rightarrow> bytes) \<Rightarrow> MessageType \<Rightarrow> 'm \<Rightarrow> unit action" where
  "broadcast_message w ser t m e =
     (if has_sender e then
        let (mid, ts) = stamp w (length (outbox e));
            envelope = from_message ser t High mid ts m ''consensus_engine'' None
        in if sender_open e then (Inr (), e\<lparr>outbox := outbox e @ [envelope]\<rparr>)
           else (Inl (into_catalyst (ConsensusNetwork ''Failed to send message: channel closed'')), e)
      else (Inr (), e))"

section \<open>Collection\<close>

definition phase_body_matches_current_cycle :: "u64 \<Rightarrow> u64 \<Rightarrow> bool" where
  "phase_body_matches_current_cycle message_cycle cur \<longleftrightarrow> message_cycle = cur"

text \<open>A message counts if it decodes and belongs to the current cycle.\<close>

definition accept :: "'m reader \<Rightarrow> ('m \<Rightarrow> u64) \<Rightarrow> u64 \<Rightarrow> MessageEnvelope \<Rightarrow> 'm option" where
  "accept de cycle_of cur env =
     (case extract_message de env of
        Inr m \<Rightarrow> if phase_body_matches_current_cycle (cycle_of m) cur then Some m else None
      | Inl _ \<Rightarrow> None)"

definition take_in ::
  "'m reader \<Rightarrow> ('m \<Rightarrow> u64) \<Rightarrow> ('m \<Rightarrow> ProducerId) \<Rightarrow> u64 \<Rightarrow> MessageEnvelope
   \<Rightarrow> (ProducerId \<times> 'm) list \<Rightarrow> (ProducerId \<times> 'm) list" where
  "take_in de cycle_of sender cur env out =
     (case accept de cycle_of cur env of Some m \<Rightarrow> hm_insert (sender m) m out | None \<Rightarrow> out)"

fun collect_loop ::
  "MessageType \<Rightarrow> 'm reader \<Rightarrow> ('m \<Rightarrow> u64) \<Rightarrow> ('m \<Rightarrow> ProducerId) \<Rightarrow> unit action \<Rightarrow> NetEvent list
   \<Rightarrow> (ProducerId \<times> 'm) list \<Rightarrow> CollaborativeConsensus \<Rightarrow> (ProducerId \<times> 'm) list \<times> CollaborativeConsensus" where
  "collect_loop t de cycle_of sender rebroadcast [] out e = (out, e)"
| "collect_loop t de cycle_of sender rebroadcast (Recv env # evs) out e =
     (if message_type env = t
      then collect_loop t de cycle_of sender rebroadcast evs (take_in de cycle_of sender (current_cycle e) env out) e
      else collect_loop t de cycle_of sender rebroadcast evs out (push_pending_bounded env e))"
| "collect_loop t de cycle_of sender rebroadcast (Closed # evs) out e = (out, e)"
| "collect_loop t de cycle_of sender rebroadcast (Elapsed # evs) out e = (out, e)"
| "collect_loop t de cycle_of sender rebroadcast (Tick # evs) out e =
     collect_loop t de cycle_of sender rebroadcast evs out (snd (rebroadcast e))"

definition collect_messages ::
  "MessageType \<Rightarrow> 'm reader \<Rightarrow> ('m \<Rightarrow> u64) \<Rightarrow> ('m \<Rightarrow> ProducerId) \<Rightarrow> unit action \<Rightarrow> NetEvent list \<Rightarrow> 'm list action" where
  "collect_messages t de cycle_of sender rebroadcast evs e =
     (if \<not> has_receiver e then (Inr [], e)
      else
        let (buffered, e1) = drain_pending_by_type t e;
            out0 = fold (take_in de cycle_of sender (current_cycle e1)) buffered [];
            (out, e2) = collect_loop t de cycle_of sender rebroadcast evs out0 e1
        in (Inr (map snd out), e2))"

definition collect_producer_quantities :: "World \<Rightarrow> ProducerQuantity \<Rightarrow> ProducerQuantity list action" where
  "collect_producer_quantities w local =
     collect_messages MessageType.ProducerQuantity de_quantity q_cycle_number q_producer_id
       (broadcast_message w ser_quantity MessageType.ProducerQuantity local) (ev_quantities w)"

definition collect_producer_candidates :: "World \<Rightarrow> ProducerCandidate \<Rightarrow> ProducerCandidate list action" where
  "collect_producer_candidates w local =
     collect_messages MessageType.ProducerCandidate de_candidate c_cycle_number c_producer_id
       (broadcast_message w ser_candidate MessageType.ProducerCandidate local) (ev_candidates w)"

definition collect_producer_votes :: "World \<Rightarrow> ProducerVote \<Rightarrow> ProducerVote list action" where
  "collect_producer_votes w local =
     collect_messages MessageType.ProducerVote de_vote v_cycle_number v_producer_id
       (broadcast_message w ser_vote MessageType.ProducerVote local) (ev_votes w)"

text \<open>The outputs are collected without rebroadcasting: its window has no ticks to act on.\<close>

definition collect_producer_outputs :: "NetEvent list \<Rightarrow> ProducerOutput list action" where
  "collect_producer_outputs evs =
     collect_messages MessageType.ProducerOutput de_output o_cycle_number o_producer_id (ereturn ()) evs"

section \<open>Deduplication\<close>

definition dedup_by :: "('m \<Rightarrow> ProducerId) \<Rightarrow> 'm list \<Rightarrow> 'm list" where
  "dedup_by sender v = map snd (fold (\<lambda>m seen. bt_insert (sender m) m seen) v [])"

definition dedup_by_producer_id_quantity :: "ProducerQuantity list \<Rightarrow> ProducerQuantity list" where
  "dedup_by_producer_id_quantity v = dedup_by q_producer_id v"

definition dedup_by_producer_id_candidate :: "ProducerCandidate list \<Rightarrow> ProducerCandidate list" where
  "dedup_by_producer_id_candidate v = dedup_by c_producer_id v"

definition dedup_by_producer_id_vote :: "ProducerVote list \<Rightarrow> ProducerVote list" where
  "dedup_by_producer_id_vote v = dedup_by v_producer_id v"

section \<open>The phases of the engine\<close>

text \<open>A phase of the manager under its time limit: a timeout leaves the producer as it was.\<close>

definition timed_phase ::
  "bool \<Rightarrow> string \<Rightarrow> u64 \<Rightarrow> (Producer \<Rightarrow> (CatalystError, 'a) result \<times> Producer) \<Rightarrow> Producer \<Rightarrow> 'a action" where
  "timed_phase slow phase ms run p e =
     (if slow then (Inl (into_catalyst (PhaseTimeout phase ms)), e)
      else case run p of (r, p') \<Rightarrow> (r, e\<lparr>cc_producer := Some p'\<rparr>))"

text \<open>The manager's producer, as each phase reads it; a cycle is run by a manager only, so the engine has one.\<close>

definition with_producer :: "(Producer \<Rightarrow> 'a action) \<Rightarrow> 'a action" where
  "with_producer f e = f (case cc_producer e of Some p \<Rightarrow> p | None \<Rightarrow> new_producer [] [] 0) e"

definition run_construction_phase ::
  "(bytes \<Rightarrow> bytes) \<Rightarrow> World \<Rightarrow> TransactionEntry list \<Rightarrow> Producer \<Rightarrow> ProducerQuantity action" where
  "run_construction_phase blake2b512 w txs p e =
     ebind (timed_phase (slow_construction w) ''construction'' (construction_phase_ms (cc_config e))
              (execute_construction_phase blake2b512 (clock w) txs) p)
       (\<lambda>q. ebind (broadcast_message w ser_quantity MessageType.ProducerQuantity q) (\<lambda>_. ereturn q)) e"

definition run_campaigning_phase ::
  "(bytes \<Rightarrow> bytes) \<Rightarrow> (bytes \<Rightarrow> string) \<Rightarrow> World \<Rightarrow> ProducerQuantity list \<Rightarrow> Producer \<Rightarrow> ProducerCandidate action" where
  "run_campaigning_phase blake2b512 hex_encode w qs p e =
     ebind (timed_phase (slow_campaigning w) ''campaigning'' (campaigning_phase_ms (cc_config e))
              (execute_campaigning_phase blake2b512 hex_encode (clock w) qs) p)
       (\<lambda>c. ebind (broadcast_message w ser_candidate MessageType.ProducerCandidate c) (\<lambda>_. ereturn c)) e"

definition run_voting_phase ::
  "(bytes \<Rightarrow> bytes) \<Rightarrow> (string \<Rightarrow> bytes option) \<Rightarrow> World \<Rightarrow> ProducerCandidate list \<Rightarrow> Producer \<Rightarrow> ProducerVote action" where
  "run_voting_phase blake2b512 hex_decode w cs p e =
     ebind (timed_phase (slow_voting w) ''voting'' (voting_phase_ms (cc_config e))
              (execute_voting_phase blake2b512 hex_decode (cc_reward e) (clock w) cs) p)
       (\<lambda>v. ebind (broadcast_message w ser_vote MessageType.ProducerVote v) (\<lambda>_. ereturn v)) e"

definition run_synchronization_phase ::
  "(bytes \<Rightarrow> bytes) \<Rightarrow> World \<Rightarrow> ProducerVote list \<Rightarrow> Producer \<Rightarrow> LedgerStateUpdate option action" where
  "run_synchronization_phase blake2b512 w vs p e =
     ebind (timed_phase (slow_synchronization w) ''synchronization'' (synchronization_phase_ms (cc_config e))
              (execute_synchronization_phase blake2b512 (clock w) vs) p)
       (\<lambda>out. ebind (broadcast_message w ser_output MessageType.ProducerOutput out) (\<lambda>_.
          with_producer (\<lambda>p'. case p_ledger_update p' of
            Some upd \<Rightarrow>
              ebind (broadcast_message w ser_broadcast ConsensusSync
                       \<lparr>b_lsu = upd, b_cycle_number = current_cycle e, b_producer_id = p_id p'\<rparr>)
                (\<lambda>_. ereturn (Some upd))
          | None \<Rightarrow> ereturn None))) e"

definition run_four_phase_consensus ::
  "(bytes \<Rightarrow> bytes) \<Rightarrow> (bytes \<Rightarrow> string) \<Rightarrow> (string \<Rightarrow> bytes option) \<Rightarrow> World \<Rightarrow> TransactionEntry list
   \<Rightarrow> LedgerStateUpdate option action" where
  "run_four_phase_consensus blake2b512 hex_encode hex_decode w txs =
     ebind (with_producer (run_construction_phase blake2b512 w txs)) (\<lambda>q.
     ebind (collect_producer_quantities w q) (\<lambda>qs.
     ebind (with_producer (run_campaigning_phase blake2b512 hex_encode w
              (dedup_by_producer_id_quantity (qs @ [q])))) (\<lambda>c.
     ebind (collect_producer_candidates w c) (\<lambda>cs.
     ebind (with_producer (run_voting_phase blake2b512 hex_decode w
              (dedup_by_producer_id_candidate (cs @ [c])))) (\<lambda>v.
     ebind (collect_producer_votes w v) (\<lambda>vs.
     with_producer (run_synchronization_phase blake2b512 w (dedup_by_producer_id_vote (vs @ [v])))))))))"

section \<open>The observer\<close>

fun observer_loop ::
  "NetEvent list \<Rightarrow> (ProducerId \<times> ProducerOutput) list \<Rightarrow> LedgerStateUpdateBroadcast list \<Rightarrow> CollaborativeConsensus
   \<Rightarrow> (ProducerId \<times> ProducerOutput) list \<times> LedgerStateUpdateBroadcast list \<times> CollaborativeConsensus" where
  "observer_loop [] outputs broadcasts e = (outputs, broadcasts, e)"
| "observer_loop (Recv env # evs) outputs broadcasts e =
     (if message_type env = MessageType.ProducerOutput
      then observer_loop evs (take_in de_output o_cycle_number o_producer_id (current_cycle e) env outputs) broadcasts e
      else if message_type env = ConsensusSync
      then observer_loop evs outputs
             (broadcasts @ (case accept de_broadcast b_cycle_number (current_cycle e) env of Some b \<Rightarrow> [b] | None \<Rightarrow> [])) e
      else observer_loop evs outputs broadcasts (push_pending_bounded env e))"
| "observer_loop (Tick # evs) outputs broadcasts e = observer_loop evs outputs broadcasts e"
| "observer_loop (Closed # evs) outputs broadcasts e = (outputs, broadcasts, e)"
| "observer_loop (Elapsed # evs) outputs broadcasts e = (outputs, broadcasts, e)"

definition collect_observer_messages ::
  "World \<Rightarrow> ((ProducerId \<times> ProducerOutput) list \<times> LedgerStateUpdateBroadcast list) action" where
  "collect_observer_messages w e =
     (if \<not> has_receiver e then (Inr ([], []), e)
      else
        let (bo, e1) = drain_pending_by_type MessageType.ProducerOutput e;
            outputs = fold (take_in de_output o_cycle_number o_producer_id (current_cycle e)) bo [];
            (bb, e2) = drain_pending_by_type ConsensusSync e1;
            broadcasts = List.map_filter (accept de_broadcast b_cycle_number (current_cycle e)) bb;
            (outputs', broadcasts', e3) = observer_loop (ev_observer w) outputs broadcasts e2
        in (Inr (outputs', broadcasts'), e3))"

definition observe_consensus :: "(bytes \<Rightarrow> bytes) \<Rightarrow> World \<Rightarrow> LedgerStateUpdate option action" where
  "observe_consensus blake2b512 w =
     ebind (collect_observer_messages w) (\<lambda>(outputs, broadcasts) e.
       let required = (if cc_selected e = [] then 1 else length (cc_selected e) div 2 + 1)
       in if length outputs < required then (Inr None, e)
          else
            let addr_counts = fold (\<lambda>(_, out) m. bt_push (o_dfs_address out) (o_producer_id out) m) outputs []
            in case find (\<lambda>(_, v). length v \<ge> required) addr_counts of
                 None \<Rightarrow> (Inr None, e)
               | Some (agreed_addr, _) \<Rightarrow>
                   if agreed_addr ! 0 \<noteq> 0x01 then (Inr None, e)
                   else
                     let expected_prefix = take 20 (drop 1 agreed_addr)
                     in (Inr (map_option b_lsu (find (\<lambda>b. b_cycle_number b = current_cycle e
                            \<and> take 20 (hash_data blake2b512 ser_lsu (b_lsu b)) = expected_prefix) broadcasts)), e))"

section \<open>A cycle\<close>

definition execute_producer_consensus ::
  "(bytes \<Rightarrow> bytes) \<Rightarrow> (bytes \<Rightarrow> string) \<Rightarrow> (string \<Rightarrow> bytes option) \<Rightarrow> World \<Rightarrow> TransactionEntry list
   \<Rightarrow> LedgerStateUpdate option action" where
  "execute_producer_consensus blake2b512 hex_encode hex_decode w txs =
     run_four_phase_consensus blake2b512 hex_encode hex_decode w txs"

definition start_cycle ::
  "(bytes \<Rightarrow> bytes) \<Rightarrow> (bytes \<Rightarrow> string) \<Rightarrow> (string \<Rightarrow> bytes option) \<Rightarrow> World
   \<Rightarrow> u64 \<Rightarrow> ProducerId list \<Rightarrow> TransactionEntry list \<Rightarrow> LedgerStateUpdate option action" where
  "start_cycle blake2b512 hex_encode hex_decode w cyc selected txs e =
     (let e1 = e\<lparr>current_cycle := cyc, cc_selected := selected\<rparr>;
          participate = (case cc_producer e of Some p \<Rightarrow> p_id p \<in> set selected | None \<Rightarrow> False);
          e2 = (if participate
                then e1\<lparr>cc_producer := map_option (\<lambda>p. reset_for_cycle p cyc selected) (cc_producer e1)\<rparr>
                else e1);
          (result, e3) = (if participate
             then execute_producer_consensus blake2b512 hex_encode hex_decode w txs (e2\<lparr>is_running := True\<rparr>)
             else observe_consensus blake2b512 w (e2\<lparr>is_running := True\<rparr>))
      in (result, e3\<lparr>is_running := False\<rparr>))"

section \<open>The message collector\<close>

record ConsensusMessageCollector =
  col_quantities :: "(ProducerId \<times> ProducerQuantity) list"
  col_candidates :: "(ProducerId \<times> ProducerCandidate) list"
  col_votes :: "(ProducerId \<times> ProducerVote) list"
  col_outputs :: "(ProducerId \<times> ProducerOutput) list"

definition new_collector :: ConsensusMessageCollector where
  "new_collector = \<lparr>col_quantities = [], col_candidates = [], col_votes = [], col_outputs = []\<rparr>"

definition collector_add_quantity :: "ProducerQuantity \<Rightarrow> ConsensusMessageCollector \<Rightarrow> ConsensusMessageCollector" where
  "collector_add_quantity q m = m\<lparr>col_quantities := hm_insert (q_producer_id q) q (col_quantities m)\<rparr>"

definition collector_add_candidate :: "ProducerCandidate \<Rightarrow> ConsensusMessageCollector \<Rightarrow> ConsensusMessageCollector" where
  "collector_add_candidate c m = m\<lparr>col_candidates := hm_insert (c_producer_id c) c (col_candidates m)\<rparr>"

definition collector_add_vote :: "ProducerVote \<Rightarrow> ConsensusMessageCollector \<Rightarrow> ConsensusMessageCollector" where
  "collector_add_vote v m = m\<lparr>col_votes := hm_insert (v_producer_id v) v (col_votes m)\<rparr>"

definition collector_add_output :: "ProducerOutput \<Rightarrow> ConsensusMessageCollector \<Rightarrow> ConsensusMessageCollector" where
  "collector_add_output out m = m\<lparr>col_outputs := hm_insert (o_producer_id out) out (col_outputs m)\<rparr>"

definition collector_clear :: "ConsensusMessageCollector \<Rightarrow> ConsensusMessageCollector" where
  "collector_clear m = m\<lparr>col_quantities := [], col_candidates := [], col_votes := [], col_outputs := []\<rparr>"

definition collector_stats :: "ConsensusMessageCollector \<Rightarrow> nat \<times> nat \<times> nat \<times> nat" where
  "collector_stats m = (length (col_quantities m), length (col_candidates m), length (col_votes m), length (col_outputs m))"

section \<open>Producer selection\<close>

definition create_selection_seed :: "(bytes \<Rightarrow> bytes) \<Rightarrow> u64 \<Rightarrow> Hash \<Rightarrow> u64" where
  "create_selection_seed blake2b512 cyc prev = from_be_bytes (take 8 (blake2b512 (to_be_bytes cyc @ prev)))"

definition hash_producer_id :: "(bytes \<Rightarrow> bytes) \<Rightarrow> ProducerId \<Rightarrow> u64" where
  "hash_producer_id blake2b512 pid = from_be_bytes (take 8 (blake2b512 (as_bytes pid)))"

definition xor_hash_with_seed :: "u64 \<Rightarrow> u64 \<Rightarrow> u64" where
  "xor_hash_with_seed h seed = h XOR seed"

definition select_producers :: "(bytes \<Rightarrow> bytes) \<Rightarrow> u64 \<Rightarrow> Hash \<Rightarrow> ProducerId list \<Rightarrow> nat \<Rightarrow> ProducerId list" where
  "select_producers blake2b512 cyc prev worker_pool producer_count =
     (if worker_pool = [] then []
      else if producer_count \<ge> length worker_pool then worker_pool
      else
        let seed = create_selection_seed blake2b512 cyc prev;
            selections = map (\<lambda>pid. (pid, xor_hash_with_seed (hash_producer_id blake2b512 pid) seed)) worker_pool
        in map fst (take producer_count (sort_key snd selections)))"

section \<open>The queue interface\<close>

text \<open>
  A queue that remembers the most recent elements up to a capacity: one law for a push gives the
  contents after any number of pushes.
\<close>

locale recency_queue =
  fixes push :: "'a list \<Rightarrow> 'a \<Rightarrow> 'a list" and cap :: nat
  assumes push_recent: "length q \<le> cap \<Longrightarrow> push q x = drop (length q + 1 - cap) (q @ [x])"
begin

lemma push_length: "length q \<le> cap \<Longrightarrow> length (push q x) \<le> cap"
  by (simp add: push_recent)

lemma pushes_recent:
  "length q \<le> cap \<Longrightarrow> fold (\<lambda>x q. push q x) xs q = drop (length q + length xs - cap) (q @ xs)"
proof (induction xs arbitrary: q)
  case (Cons x xs)
  let ?k = "length q + 1 - cap"
  have len: "length (push q x) = length q + 1 - ?k" using Cons.prems by (simp add: push_recent)
  have "drop ?k (q @ x # xs) = drop ?k ((q @ [x]) @ xs)" by simp
  also have "\<dots> = push q x @ xs" using Cons.prems by (subst drop_append) (simp add: push_recent)
  finally have "drop (length (push q x) + length xs - cap) (push q x @ xs)
      = drop (length (push q x) + length xs - cap + ?k) (q @ x # xs)" by (metis drop_drop)
  moreover have "length (push q x) + length xs - cap + ?k = length q + length (x # xs) - cap"
    unfolding len using Cons.prems by simp
  moreover have "fold (\<lambda>x q. push q x) xs (push q x) = drop (length (push q x) + length xs - cap) (push q x @ xs)"
    using Cons.prems push_length by (intro Cons.IH) simp
  ultimately show ?case by simp
qed simp

end

interpretation pending_q: recency_queue push_bounded MAX_PENDING_ENVELOPES
proof
  fix q :: "'a list" and x
  assume "length q \<le> MAX_PENDING_ENVELOPES"
  then show "push_bounded q x = drop (length q + 1 - MAX_PENDING_ENVELOPES) (q @ [x])"
    by (cases "length q = MAX_PENDING_ENVELOPES")
      (auto simp: push_bounded_def MAX_PENDING_ENVELOPES_def drop_Suc)
qed

section \<open>Invariants of engine actions\<close>

definition keeps :: "(CollaborativeConsensus \<Rightarrow> bool) \<Rightarrow> 'a action \<Rightarrow> bool" where
  "keeps I m \<longleftrightarrow> (\<forall>e. I e \<longrightarrow> I (snd (m e)))"

lemma keeps_ereturn [intro]: "keeps I (ereturn x)"
  by (simp add: keeps_def ereturn_def)

lemma keeps_ebind [intro]: "keeps I m \<Longrightarrow> (\<And>x. keeps I (f x)) \<Longrightarrow> keeps I (ebind m f)"
  by (fastforce simp: keeps_def ebind_def split: prod.splits sum.splits)

lemma keepsD: "keeps I m \<Longrightarrow> I e \<Longrightarrow> m e = (r, e') \<Longrightarrow> I e'"
  by (metis keeps_def snd_conv)

abbreviation pending_bounded :: "CollaborativeConsensus \<Rightarrow> bool" where
  "pending_bounded e \<equiv> length (pending_envelopes e) \<le> MAX_PENDING_ENVELOPES"

lemma push_pending_bounded_keeps: "pending_bounded e \<Longrightarrow> pending_bounded (push_pending_bounded env e)"
  by (simp add: push_pending_bounded_def pending_q.push_length)

lemma push_pending_bounded_fields [simp]:
  "current_cycle (push_pending_bounded env e) = current_cycle e"
  "cc_producer (push_pending_bounded env e) = cc_producer e"
  "cc_reward (push_pending_bounded env e) = cc_reward e"
  "cc_selected (push_pending_bounded env e) = cc_selected e"
  by (simp_all add: push_pending_bounded_def)

lemma broadcast_message_state: "\<exists>obx. snd (broadcast_message w ser t m e) = e\<lparr>outbox := obx\<rparr>"
  by (cases e) (auto simp: broadcast_message_def split: prod.splits)

lemma drain_bounded: "pending_bounded e \<Longrightarrow> pending_bounded (snd (drain_pending_by_type t e))"
  by (simp add: drain_pending_by_type_def order_trans[OF length_filter_le])

lemma collect_loop_inv:
  assumes "\<And>env e. I e \<Longrightarrow> I (push_pending_bounded env e)" and "keeps I rebroadcast" and "I e"
  shows "I (snd (collect_loop t de cycle_of sender rebroadcast evs out e))"
  using assms(3)
proof (induction evs arbitrary: out e)
  case (Cons ev evs)
  then show ?case using assms(1,2) by (cases ev) (simp_all add: keeps_def)
qed simp

lemma collect_messages_keeps:
  assumes "\<And>env e. I e \<Longrightarrow> I (push_pending_bounded env e)" and "keeps I rebroadcast"
    and "\<And>e. I e \<Longrightarrow> I (snd (drain_pending_by_type t e))"
  shows "keeps I (collect_messages t de cycle_of sender rebroadcast evs)"
proof -
  have loop: "I e \<Longrightarrow> I (snd (collect_loop t de cycle_of sender rebroadcast evs out e))" for out e
    by (rule collect_loop_inv[where I = I, OF _ assms(2)]) (use assms(1) in auto)
  show ?thesis
    by (simp add: keeps_def collect_messages_def Let_def case_prod_unfold loop assms(3))
qed

lemma observer_loop_inv:
  assumes "\<And>env e. I e \<Longrightarrow> I (push_pending_bounded env e)" and "I e"
  shows "I (snd (snd (observer_loop evs outs bcs e)))"
  using assms(2)
proof (induction evs arbitrary: outs bcs e)
  case (Cons ev evs)
  then show ?case using assms(1) by (cases ev) simp_all
qed simp

text \<open>
  An invariant of the queue and of nothing else that an action changes: what pushing, draining,
  sending and updating the producer keep, every action of the pipeline keeps.
\<close>

lemma broadcast_keeps:
  assumes "\<And>e obx. I e \<Longrightarrow> I (e\<lparr>outbox := obx\<rparr>)"
  shows "keeps I (broadcast_message w ser t m)"
  unfolding keeps_def using assms by (metis broadcast_message_state)

lemma timed_phase_keeps:
  assumes "\<And>e p. I e \<Longrightarrow> I (e\<lparr>cc_producer := p\<rparr>)"
  shows "keeps I (timed_phase slow ph ms run p)"
  using assms by (auto simp: keeps_def timed_phase_def split: prod.splits)

lemma with_producer_keeps: "(\<And>p. keeps I (f p)) \<Longrightarrow> keeps I (with_producer f)"
  by (simp add: keeps_def with_producer_def)

lemma keeps_ebind_at: "I e \<Longrightarrow> keeps I m \<Longrightarrow> (\<And>x. keeps I (f x)) \<Longrightarrow> I (snd (ebind m f e))"
  using keeps_ebind[of I m f] by (simp add: keeps_def)

lemma four_phase_keeps:
  assumes "\<And>env e. I e \<Longrightarrow> I (push_pending_bounded env e)"
    and "\<And>t e. I e \<Longrightarrow> I (snd (drain_pending_by_type t e))"
    and "\<And>e obx. I e \<Longrightarrow> I (e\<lparr>outbox := obx\<rparr>)" and "\<And>e p. I e \<Longrightarrow> I (e\<lparr>cc_producer := p\<rparr>)"
  shows "keeps I (run_four_phase_consensus blake2b512 hex_encode hex_decode w txs)"
proof -
  have bc: "keeps I (broadcast_message w ser t m)" for w ser t and m :: 'm
    by (rule broadcast_keeps) (use assms(3) in auto)
  have tp: "keeps I (timed_phase slow ph ms run p)" for slow ph ms p and run :: "Producer \<Rightarrow> (_, 'r) result \<times> Producer"
    by (rule timed_phase_keeps) (use assms(4) in auto)
  have coll: "keeps I (collect_messages t de cf sf (broadcast_message w ser t' m) evs)"
    for t t' de cf sf w ser evs and m :: 'm
    by (rule collect_messages_keeps) (use assms(1,2) bc in auto)
  note basic = bc tp and at = keeps_ebind_at[where I = I]
  have "keeps I (run_construction_phase blake2b512 w txs p)" for p
    unfolding keeps_def run_construction_phase_def by (intro allI impI at) (assumption | intro keeps_ebind keeps_ereturn basic)+
  moreover have "keeps I (run_campaigning_phase blake2b512 hex_encode w qs p)" for qs p
    unfolding keeps_def run_campaigning_phase_def by (intro allI impI at) (assumption | intro keeps_ebind keeps_ereturn basic)+
  moreover have "keeps I (run_voting_phase blake2b512 hex_decode w cs p)" for cs p
    unfolding keeps_def run_voting_phase_def by (intro allI impI at) (assumption | intro keeps_ebind keeps_ereturn basic)+
  moreover have "keeps I (run_synchronization_phase blake2b512 w vs p)" for vs p
    unfolding keeps_def run_synchronization_phase_def
    by (intro allI impI at keeps_ebind basic with_producer_keeps)
      (auto split: option.split intro: keeps_ebind keeps_ereturn basic)
  ultimately show ?thesis
    unfolding run_four_phase_consensus_def collect_producer_quantities_def collect_producer_candidates_def
      collect_producer_votes_def
    by (intro keeps_ebind with_producer_keeps coll)
qed

lemma observe_keeps:
  assumes "\<And>env e. I e \<Longrightarrow> I (push_pending_bounded env e)"
    and "\<And>t e. I e \<Longrightarrow> I (snd (drain_pending_by_type t e))"
  shows "keeps I (observe_consensus blake2b512 w)"
proof -
  have loop: "I e \<Longrightarrow> I (snd (snd (observer_loop evs outs bcs e)))" for evs outs bcs e
    by (rule observer_loop_inv[where I = I]) (use assms(1) in auto)
  have "keeps I (collect_observer_messages w)"
    by (simp add: keeps_def collect_observer_messages_def Let_def case_prod_unfold loop assms(2))
  then show ?thesis
    unfolding observe_consensus_def
    by (rule keeps_ebind) (auto simp: keeps_def Let_def split: option.split prod.split)
qed

text \<open>
  The queue of early messages stays within its cap over a whole cycle, whatever the network
  delivers and on every path (producer or observer, success, error or timeout), and the engine
  is not running once the cycle has returned.
\<close>

theorem start_cycle_queue_bounded:
  assumes "length (pending_envelopes e) \<le> MAX_PENDING_ENVELOPES"
  shows "length (pending_envelopes (snd (start_cycle blake2b512 hex_encode hex_decode w cyc selected txs e)))
      \<le> MAX_PENDING_ENVELOPES
    \<and> \<not> is_running (snd (start_cycle blake2b512 hex_encode hex_decode w cyc selected txs e))"
proof -
  have "keeps pending_bounded (run_four_phase_consensus blake2b512 hex_encode hex_decode w txs)"
    by (rule four_phase_keeps) (simp_all add: push_pending_bounded_keeps drain_bounded)
  moreover have "keeps pending_bounded (observe_consensus blake2b512 w)"
    by (rule observe_keeps) (simp_all add: push_pending_bounded_keeps drain_bounded)
  ultimately show ?thesis
    using assms by (auto simp: start_cycle_def execute_producer_consensus_def Let_def keeps_def case_prod_unfold)
qed

theorem start_cycle_queue_bounded_witness:
  "length (pending_envelopes (snd (start_cycle pad64 string_of_bytes (\<lambda>_. None)
     \<lparr>ev_quantities = [], ev_candidates = [], ev_votes = [], ev_observer = [Recv envelope_example],
      slow_construction = False, slow_campaigning = False, slow_voting = False, slow_synchronization = False,
      clock = 0, stamp = (\<lambda>n. ([], 0))\<rparr> 1 [] [] (new_engine default_config)))) \<le> MAX_PENDING_ENVELOPES"
  by (rule start_cycle_queue_bounded[THEN conjunct1]) (simp add: new_engine_def)

section \<open>What a collection window accepts\<close>

lemma set_hm_insert: "set (hm_insert k v m) \<subseteq> insert (k, v) (set m)"
  by (induction k v m rule: hm_insert.induct) auto

definition fresh_for :: "('m \<Rightarrow> u64) \<Rightarrow> ('m \<Rightarrow> ProducerId) \<Rightarrow> u64 \<Rightarrow> (ProducerId \<times> 'm) list \<Rightarrow> bool" where
  "fresh_for cycle_of sender cur out \<longleftrightarrow>
     distinct (map fst out) \<and> (\<forall>(pid, m) \<in> set out. sender m = pid \<and> cycle_of m = cur)"

lemma fresh_for_take_in:
  assumes "fresh_for cycle_of sender cur out"
  shows "fresh_for cycle_of sender cur (take_in de cycle_of sender cur env out)"
proof (cases "accept de cycle_of cur env")
  case (Some m)
  then have "cycle_of m = cur"
    by (auto simp: accept_def phase_body_matches_current_cycle_def split: sum.splits if_splits)
  moreover have "distinct (map fst (hm_insert (sender m) m out))"
    by (rule hm.wf_insert) (use assms in \<open>simp add: fresh_for_def\<close>)
  ultimately show ?thesis
    using assms set_hm_insert[of "sender m" m out] Some by (auto simp: fresh_for_def take_in_def)
qed (use assms in \<open>simp add: take_in_def\<close>)

lemma fresh_for_fold:
  "fresh_for cycle_of sender cur out \<Longrightarrow> fresh_for cycle_of sender cur (fold (take_in de cycle_of sender cur) envs out)"
  by (induction envs arbitrary: out) (auto simp: fresh_for_take_in)

lemma fresh_for_loop:
  assumes "keeps (\<lambda>e. current_cycle e = cur) rebroadcast" and "current_cycle e = cur"
    and "fresh_for cycle_of sender cur out"
  shows "fresh_for cycle_of sender cur (fst (collect_loop t de cycle_of sender rebroadcast evs out e))"
  using assms(2,3)
proof (induction evs arbitrary: out e)
  case (Cons ev evs)
  then show ?case using assms(1) by (cases ev) (simp_all add: fresh_for_take_in keeps_def)
qed simp

lemma broadcast_keeps_fields:
  "keeps (\<lambda>e. current_cycle e = cur) (broadcast_message w ser t m)"
  "keeps (\<lambda>e. cc_producer e = p \<and> cc_reward e = rc \<and> current_cycle e = cur) (broadcast_message w ser t m)"
  by (rule broadcast_keeps; simp)+

lemma collect_messages_fresh:
  assumes "collect_messages t de cycle_of sender (broadcast_message w ser t' l) evs e = (Inr ms, e')"
  shows "(\<forall>m \<in> set ms. cycle_of m = current_cycle e) \<and> distinct (map sender ms)"
proof (cases "has_receiver e")
  case True
  let ?e1 = "snd (drain_pending_by_type t e)"
  let ?out = "fst (collect_loop t de cycle_of sender (broadcast_message w ser t' l) evs
      (fold (take_in de cycle_of sender (current_cycle ?e1)) (fst (drain_pending_by_type t e)) []) ?e1)"
  have cur: "current_cycle ?e1 = current_cycle e" by (simp add: drain_pending_by_type_def)
  have "fresh_for cycle_of sender (current_cycle ?e1) ?out"
    by (rule fresh_for_loop[OF broadcast_keeps_fields(1) refl], rule fresh_for_fold) (simp add: fresh_for_def)
  moreover have "ms = map snd ?out"
    using assms True by (simp add: collect_messages_def Let_def case_prod_unfold)
  ultimately obtain out where out: "fresh_for cycle_of sender (current_cycle e) out" "ms = map snd out"
    unfolding cur by blast
  then have eq: "map sender ms = map fst out" by (auto simp: fresh_for_def)
  have "distinct (map sender ms)" unfolding eq using out(1) by (simp add: fresh_for_def)
  then show ?thesis using out by (auto simp: fresh_for_def)
qed (use assms in \<open>simp add: collect_messages_def\<close>)

text \<open>
  A collection window never mixes cycles: every quantity, candidate and vote it returns carries
  the engine's current cycle, and there is at most one per producer.
\<close>

theorem collected_messages_current:
  "(collect_producer_quantities w q e = (Inr qs, e1) \<longrightarrow>
      (\<forall>x \<in> set qs. q_cycle_number x = current_cycle e) \<and> distinct (map q_producer_id qs))
   \<and> (collect_producer_candidates w c e = (Inr cs, e2) \<longrightarrow>
      (\<forall>x \<in> set cs. c_cycle_number x = current_cycle e) \<and> distinct (map c_producer_id cs))
   \<and> (collect_producer_votes w v e = (Inr vs, e3) \<longrightarrow>
      (\<forall>x \<in> set vs. v_cycle_number x = current_cycle e) \<and> distinct (map v_producer_id vs))"
  unfolding collect_producer_quantities_def collect_producer_candidates_def collect_producer_votes_def
  by (intro conjI impI; drule collect_messages_fresh; blast)

definition quiet_world :: "NetEvent list \<Rightarrow> World" where
  "quiet_world evs = \<lparr>ev_quantities = evs, ev_candidates = [], ev_votes = [], ev_observer = evs,
     slow_construction = False, slow_campaigning = False, slow_voting = False, slow_synchronization = False,
     clock = 0, stamp = (\<lambda>n. ([], 0))\<rparr>"

theorem collected_messages_current_witness:
  "\<exists>qs e1. collect_producer_quantities (quiet_world [Recv (new_envelope [] 0 MessageType.ProducerQuantity [] None
         (ser_quantity (quantity_example ''a'' 1)))]) (quantity_example ''b'' 1)
       ((new_engine default_config)\<lparr>has_receiver := True, current_cycle := 3\<rparr>) = (Inr qs, e1)
     \<and> (\<forall>x \<in> set qs. q_cycle_number x = 3) \<and> distinct (map q_producer_id qs)"
proof -
  let ?w = "quiet_world [Recv (new_envelope [] 0 MessageType.ProducerQuantity [] None
      (ser_quantity (quantity_example ''a'' 1)))]"
  let ?e = "(new_engine default_config)\<lparr>has_receiver := True, current_cycle := 3\<rparr>"
  obtain qs e1 where run: "collect_producer_quantities ?w (quantity_example ''b'' 1) ?e = (Inr qs, e1)"
    by (simp add: collect_producer_quantities_def collect_messages_def Let_def case_prod_unfold)
  then have "(\<forall>x \<in> set qs. q_cycle_number x = current_cycle ?e) \<and> distinct (map q_producer_id qs)"
    using collected_messages_current[of ?w "quantity_example ''b'' 1" ?e qs e1] by simp
  with run show ?thesis by auto
qed

section \<open>The update of a cycle is a function of its inputs\<close>

definition canonical_partial :: "(bytes \<Rightarrow> bytes) \<Rightarrow> u64 \<Rightarrow> TransactionEntry list \<Rightarrow> PartialLedgerStateUpdate" where
  "canonical_partial blake2b512 cyc txs =
     (let es = sort_key (entry_order blake2b512) txs
      in \<lparr>pu_transaction_entries = es,
          pu_transaction_signatures_hash =
            compute_merkle_root blake2b512 (map (\<lambda>e. signature_leaf_hash blake2b512 (te_signature e)) es),
          pu_total_fees = fees_of_entries es, pu_timestamp = cyc\<rparr>)"

definition canonical_lsu ::
  "(bytes \<Rightarrow> bytes) \<Rightarrow> (string \<Rightarrow> bytes option) \<Rightarrow> RewardConfig \<Rightarrow> u64 \<Rightarrow> ProducerId list \<Rightarrow> TransactionEntry list
   \<Rightarrow> LedgerStateUpdate" where
  "canonical_lsu blake2b512 hex_decode rc cyc selected txs =
     (let pu = canonical_partial blake2b512 cyc txs;
          committee = sort_dedup selected
      in \<lparr>lsu_partial_update = pu,
          lsu_compensation_entries = create_compensation_entries hex_decode
            ((new_producer [] [] cyc)\<lparr>p_partial_update := Some pu\<rparr>) committee rc,
          lsu_cycle_number = cyc, lsu_producer_list = committee, lsu_vote_list = committee\<rparr>)"

lemma ebind_Inr:
  "ebind m f e = (Inr y, e') \<longleftrightarrow> (\<exists>x e1. m e = (Inr x, e1) \<and> f x e1 = (Inr y, e'))"
  by (auto simp: ebind_def split: prod.splits sum.splits)

lemma timed_phase_Inr:
  "timed_phase slow ph ms run p e = (Inr x, e') \<longleftrightarrow>
     \<not> slow \<and> (\<exists>p'. run p = (Inr x, p') \<and> e' = e\<lparr>cc_producer := Some p'\<rparr>)"
  by (auto simp: timed_phase_def split: prod.splits)

lemma broadcast_Inr: "broadcast_message w ser t m e = (Inr u, e') \<Longrightarrow> \<exists>obx. e' = e\<lparr>outbox := obx\<rparr>"
  using broadcast_message_state[of w ser t m e] by simp

lemma collect_fields:
  assumes "collect_messages t de cf sf (broadcast_message w ser t' l) evs e = (r, e')"
  shows "cc_producer e' = cc_producer e \<and> cc_reward e' = cc_reward e \<and> current_cycle e' = current_cycle e"
proof -
  let ?I = "\<lambda>x. cc_producer x = cc_producer e \<and> cc_reward x = cc_reward e \<and> current_cycle x = current_cycle e"
  have "keeps ?I (collect_messages t de cf sf (broadcast_message w ser t' l) evs)"
    by (rule collect_messages_keeps) (simp_all add: broadcast_keeps_fields(2) drain_pending_by_type_def)
  then have "?I (snd (collect_messages t de cf sf (broadcast_message w ser t' l) evs e))" by (simp add: keeps_def)
  with assms show ?thesis by simp
qed

lemma run_construction_Inr:
  assumes "run_construction_phase blake2b512 w txs p e = (Inr q, e')"
  shows "p_cycle_number p = cyc \<Longrightarrow> \<exists>p'. cc_producer e' = Some p' \<and> cc_reward e' = cc_reward e
    \<and> p_partial_update p' = Some (canonical_partial blake2b512 cyc txs)
    \<and> p_cycle_number p' = cyc \<and> selected_producers p' = selected_producers p"
  using assms
  by (auto simp: run_construction_phase_def ebind_Inr timed_phase_Inr ereturn_def canonical_partial_def
      execute_construction_phase_def build_partial_update_def Let_def dest!: broadcast_Inr)

lemma run_campaigning_Inr:
  assumes "run_campaigning_phase blake2b512 hex_encode w qs p e = (Inr c, e')"
  shows "\<exists>l. cc_producer e' = Some (p\<lparr>p_producer_list := l\<rparr>) \<and> cc_reward e' = cc_reward e"
  using assms
  by (auto simp: run_campaigning_phase_def ebind_Inr timed_phase_Inr ereturn_def
      execute_campaigning_phase_def split: sum.splits dest!: broadcast_Inr)

lemma run_voting_Inr:
  assumes "run_voting_phase blake2b512 hex_decode w cs p e = (Inr v, e')"
    and "selected_producers p = sort_dedup selected" and "selected \<noteq> []" and "p_cycle_number p = cyc"
    and "p_partial_update p = Some (canonical_partial blake2b512 cyc txs)"
  shows "\<exists>p'. cc_producer e' = Some p'
    \<and> p_ledger_update p' = Some (canonical_lsu blake2b512 hex_decode (cc_reward e) cyc selected txs)"
  using assms
  by (auto simp: run_voting_phase_def ebind_Inr timed_phase_Inr ereturn_def execute_voting_phase_def
      create_final_ledger_update_def canonical_committee_def canonical_lsu_def Let_def
      create_compensation_entries_def
      split: sum.splits option.splits if_splits prod.splits dest!: broadcast_Inr)

lemma run_synchronization_Inr:
  "run_synchronization_phase blake2b512 w vs p e = (Inr r, e') \<Longrightarrow> r = p_ledger_update p"
  by (auto simp: run_synchronization_phase_def ebind_Inr timed_phase_Inr ereturn_def with_producer_def
      execute_synchronization_phase_def split: option.splits sum.splits dest!: broadcast_Inr)

text \<open>
  C4: The update that a producer's cycle returns is a pure function of the cycle, the transaction
  batch, the selected committee and the reward parameters: whatever messages arrived and in
  whatever order, a cycle that succeeds returns exactly the canonical update, never nothing.
\<close>

theorem producer_cycle_canonical:
  assumes "cc_producer e = Some p" and "p_id p \<in> set selected"
    and "start_cycle blake2b512 hex_encode hex_decode w cyc selected txs e = (Inr r, e')"
  shows "r = Some (canonical_lsu blake2b512 hex_decode (cc_reward e) cyc selected txs)"
proof -
  let ?p0 = "reset_for_cycle p cyc selected"
  let ?e0 = "e\<lparr>current_cycle := cyc, cc_selected := selected, cc_producer := Some ?p0, is_running := True\<rparr>"
  have p0: "selected_producers ?p0 = sort_dedup selected" "p_cycle_number ?p0 = cyc"
    by (simp_all add: reset_for_cycle_def Let_def)
  obtain e1 where "run_four_phase_consensus blake2b512 hex_encode hex_decode w txs ?e0 = (Inr r, e1)"
    using assms by (auto simp: start_cycle_def execute_producer_consensus_def Let_def split: prod.splits)
  then obtain q c v a1 a2 a3 a4 a5 a6 qs cs vs where
    1: "with_producer (run_construction_phase blake2b512 w txs) ?e0 = (Inr q, a1)"
    and 2: "collect_producer_quantities w q a1 = (Inr qs, a2)"
    and 3: "with_producer (run_campaigning_phase blake2b512 hex_encode w
        (dedup_by_producer_id_quantity (qs @ [q]))) a2 = (Inr c, a3)"
    and 4: "collect_producer_candidates w c a3 = (Inr cs, a4)"
    and 5: "with_producer (run_voting_phase blake2b512 hex_decode w
        (dedup_by_producer_id_candidate (cs @ [c]))) a4 = (Inr v, a5)"
    and 6: "collect_producer_votes w v a5 = (Inr vs, a6)"
    and 7: "with_producer (run_synchronization_phase blake2b512 w
        (dedup_by_producer_id_vote (vs @ [v]))) a6 = (Inr r, e1)"
    unfolding run_four_phase_consensus_def ebind_Inr by blast
  obtain p1 where p1: "cc_producer a1 = Some p1" "cc_reward a1 = cc_reward e"
    "p_partial_update p1 = Some (canonical_partial blake2b512 cyc txs)" "p_cycle_number p1 = cyc"
    "selected_producers p1 = sort_dedup selected"
    using run_construction_Inr[of blake2b512 w txs ?p0 ?e0 q a1 cyc] 1 p0 by (auto simp: with_producer_def)
  have a2: "cc_producer a2 = Some p1" "cc_reward a2 = cc_reward e"
    using collect_fields[OF 2[unfolded collect_producer_quantities_def]] p1 by auto
  obtain l where a3: "cc_producer a3 = Some (p1\<lparr>p_producer_list := l\<rparr>)" "cc_reward a3 = cc_reward e"
    using run_campaigning_Inr[of blake2b512 hex_encode w _ p1 a2 c a3] 3 a2 by (auto simp: with_producer_def)
  have a4: "cc_producer a4 = Some (p1\<lparr>p_producer_list := l\<rparr>)" "cc_reward a4 = cc_reward e"
    using collect_fields[OF 4[unfolded collect_producer_candidates_def]] a3 by auto
  have "selected \<noteq> []" using assms(2) by auto
  then obtain p2 where a5: "cc_producer a5 = Some p2"
    "p_ledger_update p2 = Some (canonical_lsu blake2b512 hex_decode (cc_reward e) cyc selected txs)"
    using run_voting_Inr[of blake2b512 hex_decode w _ "p1\<lparr>p_producer_list := l\<rparr>" a4 v a5 selected cyc txs] 5 a4 p1
    by (auto simp: with_producer_def)
  have "cc_producer a6 = Some p2"
    using collect_fields[OF 6[unfolded collect_producer_votes_def]] a5 by auto
  then show ?thesis using run_synchronization_Inr 7 a5(2) by (auto simp: with_producer_def)
qed

text \<open>A node that is the whole committee, with no network: its cycle runs through.\<close>

definition solo_engine :: CollaborativeConsensus where
  "solo_engine = set_producer_manager (new_producer ''a'' [] 0) default_reward_config (new_engine default_config)"

lemma solo_actions:
  assumes "\<not> has_receiver e" and "\<not> has_sender e"
  shows "collect_messages t de cf sf rb evs e = (Inr [], e)" "broadcast_message w ser mt m e = (Inr (), e)"
  using assms by (simp_all add: collect_messages_def broadcast_message_def)

lemma solo_cycle:
  "\<exists>r e'. start_cycle pad64 string_of_bytes (\<lambda>_. None) (quiet_world []) 3 [''a''] [entry_example 1 5] solo_engine
     = (Inr r, e')"
proof -
  define p where "p = reset_for_cycle (new_producer ''a'' [] 0) 3 [''a'']"
  have pid: "p_id (new_producer ''a'' [] 0) = ''a''" by (simp add: new_producer_def)
  have exp: "expected_producers p = 1"
    by (simp add: p_def reset_for_cycle_def Let_def sort_dedup_def)
  obtain q pu where q: "execute_construction_phase pad64 0 [entry_example 1 5] p
      = (Inr q, p\<lparr>p_partial_update := Some pu, p_first_hash := Some (q_first_hash q)\<rparr>)"
    by (simp add: execute_construction_phase_def build_partial_update_def Let_def)
  let ?p1 = "p\<lparr>p_partial_update := Some pu, p_first_hash := Some (q_first_hash q)\<rparr>"
  obtain c l where c: "execute_campaigning_phase pad64 string_of_bytes 0 [q] ?p1 = (Inr c, ?p1\<lparr>p_producer_list := Some l\<rparr>)"
    "c_majority_hash c = q_first_hash q"
    using campaigning_unanimous[of "[q]" "q_first_hash q" ?p1 pad64 string_of_bytes 0]
    by (auto simp: required_majority_def exp)
  let ?p2 = "?p1\<lparr>p_producer_list := Some l\<rparr>"
  obtain v u vl where v: "execute_voting_phase pad64 (\<lambda>_. None) default_reward_config 0 [c] ?p2
      = (Inr v, ?p2\<lparr>p_ledger_update := Some u, p_vote_list := Some vl\<rparr>)"
    "v_ledger_state_hash v = hash_data pad64 ser_lsu u"
    using voting_unanimous[of "[c]" "q_first_hash q" ?p2 pu pad64 "\<lambda>_. None" default_reward_config 0] c(2)
    by (auto simp: required_majority_def exp)
  let ?p3 = "?p2\<lparr>p_ledger_update := Some u, p_vote_list := Some vl\<rparr>"
  obtain out where out: "execute_synchronization_phase pad64 0 [v] ?p3 = (Inr out, ?p3)"
    using synchronization_unanimous[of "[v]" "hash_data pad64 ser_lsu u" ?p3 u pad64 0] v(2)
    by (auto simp: required_majority_def exp)
  show ?thesis
    by (simp add: start_cycle_def execute_producer_consensus_def run_four_phase_consensus_def ebind_def ereturn_def
        with_producer_def run_construction_phase_def run_campaigning_phase_def run_voting_phase_def
        run_synchronization_phase_def timed_phase_def solo_engine_def set_producer_manager_def new_engine_def
        collect_producer_quantities_def collect_producer_candidates_def collect_producer_votes_def solo_actions
        quiet_world_def dedup_by_producer_id_quantity_def dedup_by_producer_id_candidate_def
        dedup_by_producer_id_vote_def dedup_by_def p_def[symmetric] pid q c v out)
qed

theorem producer_cycle_canonical_witness:
  "\<exists>e'. start_cycle pad64 string_of_bytes (\<lambda>_. None) (quiet_world []) 3 [''a''] [entry_example 1 5] solo_engine
     = (Inr (Some (canonical_lsu pad64 (\<lambda>_. None) default_reward_config 3 [''a''] [entry_example 1 5])), e')"
proof -
  obtain r e' where run: "start_cycle pad64 string_of_bytes (\<lambda>_. None) (quiet_world []) 3 [''a'']
      [entry_example 1 5] solo_engine = (Inr r, e')" using solo_cycle by blast
  have "r = Some (canonical_lsu pad64 (\<lambda>_. None) (cc_reward solo_engine) 3 [''a''] [entry_example 1 5])"
    by (rule producer_cycle_canonical[OF _ _ run, of "new_producer ''a'' [] 0"])
      (simp_all add: solo_engine_def set_producer_manager_def new_producer_def)
  then show ?thesis using run by (simp add: solo_engine_def set_producer_manager_def)
qed

section \<open>Observers accept verified updates only\<close>

lemma fold_push_list:
  assumes "bt_wf m"
  shows "bt_wf (fold (\<lambda>x m. bt_push (k x) (v x) m) xs m)
    \<and> the_default [] (map_of (fold (\<lambda>x m. bt_push (k x) (v x) m) xs m) h)
      = the_default [] (map_of m h) @ map v (filter (\<lambda>x. k x = h) xs)"
  using assms
proof (induction xs arbitrary: m)
  case (Cons x xs)
  have wf: "bt_wf (bt_push (k x) (v x) m)" unfolding bt_push_def using Cons.prems by (rule bt.wf_insert)
  have "map_of (bt_push (k x) (v x) m) = (map_of m)(k x \<mapsto> the_default [] (map_of m (k x)) @ [v x])"
    unfolding bt_push_def using Cons.prems by (simp add: bt.lookup_insert the_default_def)
  with Cons.IH[OF wf] show ?case by auto
qed simp

definition outs_valid :: "u64 \<Rightarrow> (ProducerId \<times> ProducerOutput) list \<Rightarrow> bool" where
  "outs_valid cur outs \<longleftrightarrow> fresh_for o_cycle_number o_producer_id cur outs
     \<and> (\<forall>(_, out) \<in> set outs. length (o_dfs_address out) = 21)"

lemma accept_output_length: "accept de_output cf cur env = Some out \<Longrightarrow> length (o_dfs_address out) = 21"
  by (auto simp: accept_def extract_message_def run_reader_def outputc.dec_iff output_ok_def
      split: sum.splits if_splits)

lemma outs_valid_take_in:
  "outs_valid cur outs \<Longrightarrow> outs_valid cur (take_in de_output o_cycle_number o_producer_id cur env outs)"
  using set_hm_insert accept_output_length fresh_for_take_in
  by (fastforce simp: outs_valid_def take_in_def split: option.splits)

lemma outs_valid_fold:
  "outs_valid cur outs \<Longrightarrow> outs_valid cur (fold (take_in de_output o_cycle_number o_producer_id cur) envs outs)"
  by (induction envs arbitrary: outs) (auto simp: outs_valid_take_in)

lemma outs_valid_loop:
  "outs_valid (current_cycle e) outs \<Longrightarrow> outs_valid (current_cycle e) (fst (observer_loop evs outs bcs e))"
proof (induction evs arbitrary: outs bcs e)
  case (Cons ev evs)
  show ?case
  proof (cases ev)
    case (Recv env)
    then show ?thesis
      using Cons.IH[of e] Cons.IH[of "push_pending_bounded env e"] Cons.prems by (simp add: outs_valid_take_in)
  qed (use Cons in auto)
qed simp

lemma collect_observer_valid:
  assumes "collect_observer_messages w e = (Inr (outs, bcs), e')"
  shows "outs_valid (current_cycle e) outs \<and> current_cycle e' = current_cycle e \<and> cc_selected e' = cc_selected e"
proof -
  have state: "current_cycle (snd (snd (observer_loop evs outs bcs x))) = current_cycle e
      \<and> cc_selected (snd (snd (observer_loop evs outs bcs x))) = cc_selected e"
    if "current_cycle x = current_cycle e \<and> cc_selected x = cc_selected e" for evs outs bcs x
    by (rule observer_loop_inv[where I = "\<lambda>x. current_cycle x = current_cycle e \<and> cc_selected x = cc_selected e"])
      (use that in simp_all)
  have nil: "outs_valid c []" for c by (simp add: outs_valid_def fresh_for_def)
  show ?thesis
  proof (cases "has_receiver e")
    case True
    let ?e2 = "snd (drain_pending_by_type ConsensusSync (snd (drain_pending_by_type MessageType.ProducerOutput e)))"
    have cur: "current_cycle ?e2 = current_cycle e" "cc_selected ?e2 = cc_selected e"
      by (simp_all add: drain_pending_by_type_def)
    show ?thesis
      using assms True outs_valid_loop[OF outs_valid_fold[OF nil], of ?e2] state[of ?e2]
      by (auto simp: collect_observer_messages_def Let_def case_prod_unfold cur)
  qed (use assms nil in \<open>auto simp: collect_observer_messages_def\<close>)
qed

text \<open>
  An observer hands out an update only if it is verified: the update came in a broadcast of the
  current cycle, and a majority of the selected producers published, for that cycle, exactly the
  address that the update's own hash determines.
\<close>

theorem observer_update_verified:
  assumes "observe_consensus blake2b512 w e = (Inr (Some upd), e')"
  shows "\<exists>outs bcs e1 b. collect_observer_messages w e = (Inr (outs, bcs), e1)
    \<and> b \<in> set bcs \<and> b_lsu b = upd \<and> b_cycle_number b = current_cycle e
    \<and> (\<forall>(pid, out) \<in> set outs. o_cycle_number out = current_cycle e \<and> o_producer_id out = pid)
    \<and> length (cc_selected e) < 2 * card {pid. \<exists>out. (pid, out) \<in> set outs
          \<and> o_dfs_address out = 1 # take 20 (hash_data blake2b512 ser_lsu upd)}"
proof -
  obtain outs bcs e1 where c: "collect_observer_messages w e = (Inr (outs, bcs), e1)"
    using assms by (auto simp: observe_consensus_def ebind_Inr)
  have valid: "outs_valid (current_cycle e) outs" "current_cycle e1 = current_cycle e" "cc_selected e1 = cc_selected e"
    using collect_observer_valid[OF c] by auto
  define req where "req = (if cc_selected e = [] then 1 else length (cc_selected e) div 2 + 1)"
  define counts where "counts = fold (\<lambda>(_, out) m. bt_push (o_dfs_address out) (o_producer_id out) m) outs []"
  have run: "(if length outs < req then (Inr None, e1)
      else case find (\<lambda>(_, v). length v \<ge> req) counts of
          None \<Rightarrow> (Inr None, e1)
        | Some (addr, _) \<Rightarrow> if addr ! 0 \<noteq> 1 then (Inr None, e1)
            else (Inr (map_option b_lsu (find (\<lambda>b. b_cycle_number b = current_cycle e
              \<and> take 20 (hash_data blake2b512 ser_lsu (b_lsu b)) = take 20 (drop 1 addr)) bcs)), e1))
      = (Inr (Some upd) :: (CatalystError, _) result, e')"
    using assms unfolding observe_consensus_def ebind_def c prod.case sum.case Let_def valid(2,3)
      req_def[symmetric] counts_def[symmetric] .
  obtain addr v b where f: "find (\<lambda>(_, v). length v \<ge> req) counts = Some (addr, v)" and tag: "addr ! 0 = 1"
    and b: "find (\<lambda>b. b_cycle_number b = current_cycle e
        \<and> take 20 (hash_data blake2b512 ser_lsu (b_lsu b)) = take 20 (drop 1 addr)) bcs = Some b" "b_lsu b = upd"
    using run by (auto split: if_splits option.splits)
  have mem: "(addr, v) \<in> set counts" and len: "req \<le> length v" using f by (auto simp: find_Some_iff in_set_conv_nth)
  have wf: "bt_wf counts" and list: "the_default [] (map_of counts addr)
      = map (\<lambda>x. o_producer_id (snd x)) (filter (\<lambda>x. o_dfs_address (snd x) = addr) outs)"
    using fold_push_list[of "[]" "\<lambda>x. o_dfs_address (snd x)" "\<lambda>x. o_producer_id (snd x)" outs addr]
    by (simp_all add: counts_def case_prod_unfold)
  have "map_of counts addr = Some v" using wf mem by (simp add: bt.wf_distinct)
  then have v: "v = map (\<lambda>x. o_producer_id (snd x)) (filter (\<lambda>x. o_dfs_address (snd x) = addr) outs)"
    using list by simp
  also have "\<dots> = map fst (filter (\<lambda>x. o_dfs_address (snd x) = addr) outs)"
    using valid(1) by (auto simp: outs_valid_def fresh_for_def)
  finally have v_fst: "v = map fst (filter (\<lambda>x. o_dfs_address (snd x) = addr) outs)" .
  have "distinct v" unfolding v_fst using valid(1) by (simp add: outs_valid_def fresh_for_def distinct_map_filter)
  then have "length v = card (set v)" by (simp add: distinct_card)
  moreover have "set v = {pid. \<exists>out. (pid, out) \<in> set outs \<and> o_dfs_address out = addr}"
    unfolding v_fst by force
  moreover have "0 < length v" using len by (auto simp: req_def split: if_splits)
  moreover from this obtain x where "x \<in> set outs" "o_dfs_address (snd x) = addr"
    unfolding v by (auto simp: filter_empty_conv)
  then have "length addr = 21" using valid(1) by (auto simp: outs_valid_def)
  then have "addr = addr ! 0 # take 20 (drop 1 addr)" by (cases addr) auto
  moreover have "take 20 (hash_data blake2b512 ser_lsu upd) = take 20 (drop 1 addr)" "b \<in> set bcs"
    "b_cycle_number b = current_cycle e" using b by (auto simp: find_Some_iff)
  ultimately show ?thesis
    using c len tag b(2) valid(1) unfolding req_def
    by (intro exI[of _ outs] exI[of _ bcs] exI[of _ e1] exI[of _ b])
      (auto simp: outs_valid_def fresh_for_def split: if_splits)
qed

definition output_example :: ProducerOutput where
  "output_example = \<lparr>o_dfs_address = 1 # replicate 20 0, o_vote_list_hash = replicate 32 0, o_cycle_number = 7,
     o_producer_id = ''a'', o_timestamp = 0\<rparr>"

definition broadcast_example :: LedgerStateUpdateBroadcast where
  "broadcast_example = \<lparr>b_lsu = lsu_example, b_cycle_number = 7, b_producer_id = ''a''\<rparr>"

lemma examples_decode:
  "run_reader de_output (ser_output output_example) = Inr output_example"
  "run_reader de_broadcast (ser_broadcast broadcast_example) = Inr broadcast_example"
  using outputc.run_reader_enc[of output_example "[]"] broadcastc.run_reader_enc[of broadcast_example "[]"]
  by (simp_all add: output_ok_def broadcast_ok_def output_example_def broadcast_example_def lsu_ok_def
      partial_ok_def lsu_example_def as_bytes_def)

definition observer_example :: CollaborativeConsensus where
  "observer_example = (new_engine default_config)\<lparr>has_receiver := True, current_cycle := 7\<rparr>"

definition observer_world :: World where
  "observer_world = quiet_world
     [Recv (new_envelope [] 0 MessageType.ProducerOutput [] None (ser_output output_example)),
      Recv (new_envelope [] 0 ConsensusSync [] None (ser_broadcast broadcast_example))]"

theorem observer_update_verified_witness:
  "\<exists>e' outs bcs e1 b. observe_consensus (\<lambda>_. replicate 64 0) observer_world observer_example = (Inr (Some lsu_example), e')
     \<and> collect_observer_messages observer_world observer_example = (Inr (outs, bcs), e1)
     \<and> b \<in> set bcs \<and> b_lsu b = lsu_example"
proof -
  have "collect_observer_messages observer_world observer_example
      = (Inr ([(''a'', output_example)], [broadcast_example]), observer_example)"
    by (simp add: collect_observer_messages_def observer_world_def quiet_world_def observer_example_def
        new_engine_def drain_pending_by_type_def new_envelope_def take_in_def accept_def extract_message_def
        examples_decode phase_body_matches_current_cycle_def map_filter_simps Let_def)
      (simp add: output_example_def broadcast_example_def)
  then have run: "observe_consensus (\<lambda>_. replicate 64 0) observer_world observer_example
      = (Inr (Some lsu_example), observer_example)"
    by (simp add: observe_consensus_def ebind_def bt_push_def hash_data_def blake32_def)
      (simp add: observer_example_def output_example_def broadcast_example_def new_engine_def)
  show ?thesis using observer_update_verified[OF run] run by blast
qed

section \<open>Selection and deduplication\<close>

lemma dedup_by_spec:
  "distinct (map sender (dedup_by sender v)) \<and> set (map sender (dedup_by sender v)) = sender ` set v
   \<and> sorted_wrt (<) (map sender (dedup_by sender v))"
proof -
  let ?m = "bt.collect sender v []"
  have wf: "bt_wf ?m" by (rule bt.wf_collect) simp
  have "\<forall>(k, x) \<in> set ?m. sender x = k"
    using bt.entries_collect[of "[]" _ _ sender v] by auto
  then have "map sender (map snd ?m) = map fst ?m" by auto
  moreover have "dedup_by sender v = map snd ?m" by (simp add: dedup_by_def bt.collect_def)
  ultimately have eq: "map sender (dedup_by sender v) = map fst ?m" by simp
  show ?thesis unfolding eq using wf bt.keys_collect[of "[]" sender v] by (simp add: bt.wf_distinct)
qed

text \<open>
  Seed-driven selection picks from the worker pool only, as many workers as asked for (or the
  whole pool), each at most once, and independently of the order in which the pool is listed,
  when the digest does not collide on the worker ids.
\<close>

theorem select_producers_sound:
  assumes "distinct pool" and "mset pool' = mset pool" and "inj_on (hash_producer_id blake2b512) (set pool)"
  shows "set (select_producers blake2b512 cyc prev pool' n) = set (select_producers blake2b512 cyc prev pool n)
    \<and> set (select_producers blake2b512 cyc prev pool n) \<subseteq> set pool
    \<and> length (select_producers blake2b512 cyc prev pool n) = min n (length pool)
    \<and> distinct (select_producers blake2b512 cyc prev pool n)"
proof -
  define f where "f = (\<lambda>pid. (pid, xor_hash_with_seed (hash_producer_id blake2b512 pid) (create_selection_seed blake2b512 cyc prev)))"
  have set: "set pool' = set pool" and len: "length pool' = length pool" and emp: "pool' = [] \<longleftrightarrow> pool = []"
    using assms(2) by (auto dest: mset_eq_setD mset_eq_length)
  have "a XOR s = b XOR s \<longleftrightarrow> a = b" for a b s :: u64
    unfolding bit_eq_iff bit_xor_iff by blast
  then have inj: "inj_on snd (set (map f pool'))"
    using assms(3) by (auto simp: f_def set xor_hash_with_seed_def inj_on_def)
  have perm: "sort_key snd (map f pool') = sort_key snd (map f pool)"
    using assms(2) inj by (intro sort_key_inj_key_eq) (auto simp: mset_map)
  have "mset (map fst (sort_key snd (map f pool))) = mset pool"
    by (simp add: f_def multiset.map_comp o_def)
  then have "distinct (map fst (sort_key snd (map f pool)))" "set (map fst (sort_key snd (map f pool))) = set pool"
    using assms(1) by (metis mset_eq_imp_distinct_iff, metis mset_eq_setD)
  then have "distinct (map fst (take n (sort_key snd (map f pool))))"
    "set (map fst (take n (sort_key snd (map f pool)))) \<subseteq> set pool"
    by (auto simp: take_map[symmetric] dest: in_set_takeD)
  then show ?thesis
    using assms(1) unfolding select_producers_def Let_def f_def[symmetric] perm len emp
    by (auto simp: set)
qed

definition lead64 :: "bytes \<Rightarrow> bytes" where
  "lead64 bs = pad64 (replicate 7 0 @ bs)"

theorem select_producers_sound_witness:
  "distinct [''a'', ''b''] \<and> inj_on (hash_producer_id lead64) (set [''a'', ''b''])
   \<and> length (select_producers lead64 1 [] [''a'', ''b''] 1) = 1"
proof -
  have "hash_producer_id lead64 ''a'' \<noteq> hash_producer_id lead64 ''b''" by code_simp
  then have "inj_on (hash_producer_id lead64) (set [''a'', ''b''])" by simp
  then show ?thesis
    using select_producers_sound[of "[''a'', ''b'']" "[''a'', ''b'']" lead64 1 "[]" 1] by simp
qed

end
