(* ===== verification/Sparse_Merkle.thy ===== *)
theory Sparse_Merkle
  imports Merkle
begin

text \<open>
  The sparse Merkle tree that commits to the state (\<open>catalyst-storage/src/sparse_merkle.rs\<close>):
  a key lives at the leaf whose 256-bit index is its SHA-256; absent subtrees have the empty
  hash of their height; the tree is built level by level from a \<open>BTreeMap\<close> of the leaves; a proof
  is the list of siblings on the path, checked against the key's own path bits.

  Level maps are key-sorted association lists. The lemmas show what one level means for any
  index (\<open>level_spec\<close>), then that every proof the code generates verifies against the root the
  code computes (membership and absence), that the construction never fails, that the root
  does not depend on the iteration order, and that a verified proof binds the key to its value.
\<close>

definition TREE_DEPTH :: nat where "TREE_DEPTH = 256"

type_synonym level = "(bytes \<times> Hash) list"

section \<open>Indices and empty subtrees\<close>

definition h_empty_leaf :: "(bytes \<Rightarrow> bytes) \<Rightarrow> Hash" where
  "h_empty_leaf sha256 = sha256 [2]"

definition key_path :: "(bytes \<Rightarrow> bytes) \<Rightarrow> bytes \<Rightarrow> bytes" where
  "key_path sha256 key = sha256 key"

definition idx_lsb :: "bytes \<Rightarrow> byte" where
  "idx_lsb idx = idx ! 31 AND 1"

definition idx_xor1 :: "bytes \<Rightarrow> bytes" where
  "idx_xor1 idx = idx[31 := idx ! 31 XOR 1]"

fun shr_carry :: "byte \<Rightarrow> bytes \<Rightarrow> bytes" where
  "shr_carry carry [] = []"
| "shr_carry carry (b # bs) = (drop_bit 1 b OR push_bit 7 carry) # shr_carry (b AND 1) bs"

definition idx_shr1 :: "bytes \<Rightarrow> bytes" where
  "idx_shr1 idx = shr_carry 0 idx"

fun empty_hash :: "(bytes \<Rightarrow> bytes) \<Rightarrow> nat \<Rightarrow> Hash" where
  "empty_hash sha256 0 = h_empty_leaf sha256"
| "empty_hash sha256 (Suc h) = h_node sha256 (empty_hash sha256 h) (empty_hash sha256 h)"

definition empty_hashes :: "(bytes \<Rightarrow> bytes) \<Rightarrow> Hash list" where
  "empty_hashes sha256 = map (empty_hash sha256) [0..<TREE_DEPTH + 1]"

section \<open>Building the tree\<close>

definition get_or :: "level \<Rightarrow> bytes \<Rightarrow> Hash \<Rightarrow> Hash" where
  "get_or m idx e = (case map_of m idx of Some h \<Rightarrow> h | None \<Rightarrow> e)"

fun build_level ::
  "(bytes \<Rightarrow> bytes) \<Rightarrow> level \<Rightarrow> Hash \<Rightarrow> level \<Rightarrow> level \<Rightarrow> bytes list \<Rightarrow> (StorageError, level) result" where
  "build_level sha256 cur e [] nxt processed = Inr nxt"
| "build_level sha256 cur e ((idx, hcur) # rest) nxt processed =
     (if idx \<in> set processed then build_level sha256 cur e rest nxt processed
      else
        let sib = idx_xor1 idx;
            hsib = get_or cur sib e;
            (left, right) = (if idx_lsb idx = 0 then (hcur, hsib) else (hsib, hcur));
            parent_idx = idx_shr1 idx;
            ph = h_node sha256 left right
        in case map_of nxt parent_idx of
             Some existing \<Rightarrow>
               if existing \<noteq> ph
               then Inl (StInternal ''Sparse merkle: parent hash collision (non-deterministic leaf set?)'')
               else build_level sha256 cur e rest nxt (sib # idx # processed)
           | None \<Rightarrow> build_level sha256 cur e rest (bt_insert parent_idx ph nxt) (sib # idx # processed))"

fun build_depths :: "(bytes \<Rightarrow> bytes) \<Rightarrow> nat \<Rightarrow> level \<Rightarrow> (StorageError, level list) result" where
  "build_depths sha256 0 cur = Inr [cur]"
| "build_depths sha256 (Suc d) cur =
     (case build_level sha256 cur (empty_hashes sha256 ! (TREE_DEPTH - Suc d)) cur [] [] of
        Inl err \<Rightarrow> Inl err
      | Inr nxt \<Rightarrow> (case build_depths sha256 d nxt of
          Inl err \<Rightarrow> Inl err
        | Inr ds \<Rightarrow> Inr (ds @ [cur])))"

definition build_depth_maps :: "(bytes \<Rightarrow> bytes) \<Rightarrow> level \<Rightarrow> (StorageError, Hash \<times> level list) result" where
  "build_depth_maps sha256 leaf_map =
     (case build_depths sha256 TREE_DEPTH leaf_map of
        Inl err \<Rightarrow> Inl err
      | Inr depths \<Rightarrow> Inr (get_or (depths ! 0) (replicate 32 0) (empty_hashes sha256 ! TREE_DEPTH), depths))"

type_synonym kvs = "(bytes \<times> bytes) list"

definition leaf_map_of :: "(bytes \<Rightarrow> bytes) \<Rightarrow> kvs \<Rightarrow> level" where
  "leaf_map_of sha256 kvs =
     fold (\<lambda>(k, v) m. bt_insert (key_path sha256 k) (leaf_hash_for_kv sha256 k v) m) kvs []"

definition compute_root_from_iter :: "(bytes \<Rightarrow> bytes) \<Rightarrow> kvs \<Rightarrow> (StorageError, Hash) result" where
  "compute_root_from_iter sha256 kvs =
     (case build_depth_maps sha256 (leaf_map_of sha256 kvs) of
        Inl err \<Rightarrow> Inl err
      | Inr (root, depths) \<Rightarrow> Inr root)"

section \<open>Proofs\<close>

fun path_steps :: "(bytes \<Rightarrow> bytes) \<Rightarrow> level list \<Rightarrow> nat \<Rightarrow> bytes \<Rightarrow> MerkleStep list" where
  "path_steps sha256 depths 0 idx = []"
| "path_steps sha256 depths (Suc d) idx =
     \<lparr>sibling_is_left = (idx_lsb idx = 1),
      sibling = get_or (depths ! Suc d) (idx_xor1 idx) (empty_hashes sha256 ! (TREE_DEPTH - Suc d))\<rparr>
     # path_steps sha256 depths d (idx_shr1 idx)"

definition compute_root_and_proof_from_iter ::
  "(bytes \<Rightarrow> bytes) \<Rightarrow> kvs \<Rightarrow> bytes \<Rightarrow> (StorageError, (Hash \<times> bytes \<times> MerkleProof) option) result" where
  "compute_root_and_proof_from_iter sha256 kvs key =
     (let target_value = fold (\<lambda>(k, v) t. if k = key then Some v else t) kvs None
      in case target_value of
           None \<Rightarrow> Inr None
         | Some val \<Rightarrow>
           (case build_depth_maps sha256 (leaf_map_of sha256 kvs) of
              Inl err \<Rightarrow> Inl err
            | Inr (root, depths) \<Rightarrow>
                Inr (Some (root, val, \<lparr>leaf = leaf_hash_for_kv sha256 key val,
                  steps = path_steps sha256 depths TREE_DEPTH (key_path sha256 key)\<rparr>))))"

definition compute_root_and_multi_proofs_from_iter ::
  "(bytes \<Rightarrow> bytes) \<Rightarrow> kvs \<Rightarrow> bytes list
   \<Rightarrow> (StorageError, Hash \<times> (bytes \<times> bytes option \<times> MerkleProof) list) result" where
  "compute_root_and_multi_proofs_from_iter sha256 kvs keys =
     (let vals = fold (\<lambda>(k, v) m. bt_insert k v m) kvs []
      in case build_depth_maps sha256 (leaf_map_of sha256 kvs) of
           Inl err \<Rightarrow> Inl err
         | Inr (root, depths) \<Rightarrow>
             Inr (root, map (\<lambda>key.
               let maybe_value = map_of vals key;
                   lf = (case maybe_value of Some v \<Rightarrow> leaf_hash_for_kv sha256 key v
                         | None \<Rightarrow> h_empty_leaf sha256)
               in (key, maybe_value,
                   \<lparr>leaf = lf, steps = path_steps sha256 depths TREE_DEPTH (key_path sha256 key)\<rparr>)) keys))"

fun check_steps :: "(bytes \<Rightarrow> bytes) \<Rightarrow> bytes \<Rightarrow> Hash \<Rightarrow> MerkleStep list \<Rightarrow> Hash option" where
  "check_steps sha256 idx cur [] = Some cur"
| "check_steps sha256 idx cur (st # sts) =
     (if sibling_is_left st \<noteq> (idx_lsb idx = 1) then None
      else check_steps sha256 (idx_shr1 idx) (step_hash sha256 st cur) sts)"

definition verify_proof_for_key_and_leaf ::
  "(bytes \<Rightarrow> bytes) \<Rightarrow> Hash \<Rightarrow> bytes \<Rightarrow> Hash \<Rightarrow> MerkleProof \<Rightarrow> bool" where
  "verify_proof_for_key_and_leaf sha256 root key expected_leaf p =
     (if length (steps p) \<noteq> TREE_DEPTH then False
      else if leaf p \<noteq> expected_leaf then False
      else case check_steps sha256 (key_path sha256 key) (leaf p) (steps p) of
             None \<Rightarrow> False
           | Some cur \<Rightarrow> cur = root)"

definition verify_proof_for_key :: "(bytes \<Rightarrow> bytes) \<Rightarrow> Hash \<Rightarrow> bytes \<Rightarrow> bytes \<Rightarrow> MerkleProof \<Rightarrow> bool" where
  "verify_proof_for_key sha256 root key val p =
     verify_proof_for_key_and_leaf sha256 root key (leaf_hash_for_kv sha256 key val) p"

definition verify_absence_proof_for_key :: "(bytes \<Rightarrow> bytes) \<Rightarrow> Hash \<Rightarrow> bytes \<Rightarrow> MerkleProof \<Rightarrow> bool" where
  "verify_absence_proof_for_key sha256 root key p =
     verify_proof_for_key_and_leaf sha256 root key (h_empty_leaf sha256) p"

section \<open>Index arithmetic\<close>

definition be_nat :: "bytes \<Rightarrow> nat" where
  "be_nat bs = le_nat (rev bs)"

lemma le_nat_append: "le_nat (xs @ ys) = le_nat xs + 256 ^ length xs * le_nat ys"
  by (induction xs) (auto simp: algebra_simps)

lemma be_nat_Cons: "be_nat (b # bs) = unat b * 256 ^ length bs + be_nat bs"
  by (simp add: be_nat_def le_nat_append)

lemma be_nat_snoc: "be_nat (bs @ [b]) = 256 * be_nat bs + unat b"
  by (simp add: be_nat_def)

lemma be_nat_inject: "length a = length b \<Longrightarrow> be_nat a = be_nat b \<longleftrightarrow> a = b"
  unfolding be_nat_def by (metis le_bytes_le_nat length_rev rev_rev_ident)

lemma be_nat_less: "be_nat bs < 256 ^ length bs"
  using le_nat_less[of "rev bs"] by (simp add: be_nat_def)

lemma be_nat_zeros [simp]: "be_nat (replicate n 0) = 0"
  by (induction n) (simp_all add: be_nat_Cons, simp add: be_nat_def)

lemma length_shr_carry [simp]: "length (shr_carry c bs) = length bs"
  by (induction bs arbitrary: c) auto

lemma length_idx [simp]: "length (idx_shr1 idx) = length idx" "length (idx_xor1 idx) = length idx"
  by (simp_all add: idx_shr1_def idx_xor1_def)

lemma snoc32: "length idx = 32 \<Longrightarrow> \<exists>ys b. idx = ys @ [b] \<and> length ys = 31"
  by (cases idx rule: rev_cases) auto

lemma unat_and1: "unat ((b :: byte) AND 1) = unat b mod 2"
  by (simp add: and_one_eq unat_mod_distrib)

lemma unat_shifted:
  assumes "c = 0 \<or> c = (1 :: byte)"
  shows "unat (drop_bit 1 b OR push_bit 7 c) = unat b div 2 + 128 * unat c"
proof -
  have "drop_bit 1 b AND push_bit 7 c = 0"
    by (rule bit_word_eqI) (auto simp: bit_simps dest: bit_imp_le_length)
  then have "drop_bit 1 b OR push_bit 7 c = drop_bit 1 b + push_bit 7 c"
    by (simp add: disjunctive_add_eq_or)
  moreover have "unat (drop_bit 1 b) = unat b div 2"
    by (simp add: drop_bit_Suc unat_div_distrib)
  moreover have "unat (push_bit 7 c) = 128 * unat c" using assms by auto
  moreover have "unat b div 2 < 128" using unat_lt256[of b] by linarith
  ultimately show ?thesis using assms by (auto simp: unat_word_ariths)
qed

lemma be_nat_shr_carry:
  assumes "c = 0 \<or> c = 1"
  shows "be_nat (shr_carry c bs) = (unat c * 256 ^ length bs + be_nat bs) div 2"
  using assms
proof (induction bs arbitrary: c)
  case Nil
  then show ?case by (auto simp: be_nat_def)
next
  case (Cons b bs)
  let ?B = "(256 :: nat) ^ length bs"
  have "unat (b AND 1) = 0 \<or> unat (b AND 1) = 1" by (auto simp: unat_and1)
  then have "b AND 1 = 0 \<or> b AND 1 = 1" by (simp add: word_unat_eq_iff)
  then have tail: "be_nat (shr_carry (b AND 1) bs) = ((unat b mod 2) * ?B + be_nat bs) div 2"
    using Cons.IH by (simp add: unat_and1)
  have "unat b * ?B = 2 * ((unat b div 2) * ?B) + (unat b mod 2) * ?B"
    by (metis add_mult_distrib mult.assoc mult_div_mod_eq)
  then have "(unat c * 256 ^ length (b # bs) + be_nat (b # bs)) div 2
      = (2 * ((unat b div 2 + 128 * unat c) * ?B) + ((unat b mod 2) * ?B + be_nat bs)) div 2"
    by (simp add: be_nat_Cons algebra_simps)
  also have "\<dots> = (unat b div 2 + 128 * unat c) * ?B + ((unat b mod 2) * ?B + be_nat bs) div 2"
    by (rule div_mult_self4) simp
  finally show ?case
    using Cons.prems by (simp add: be_nat_Cons unat_shifted tail del: One_nat_def)
qed

lemma be_nat_shr1: "be_nat (idx_shr1 idx) = be_nat idx div 2"
  by (simp add: idx_shr1_def be_nat_shr_carry)

lemma length_shr1_pow [simp]: "length ((idx_shr1 ^^ n) idx) = length idx"
  by (induction n) auto

lemma be_nat_shr1_pow: "be_nat ((idx_shr1 ^^ n) idx) = be_nat idx div 2 ^ n"
  by (induction n) (auto simp: be_nat_shr1 div_mult2_eq mult.commute[of 2])

lemma shr1_pow_depth:
  assumes "length idx = 32"
  shows "(idx_shr1 ^^ TREE_DEPTH) idx = replicate 32 0"
proof -
  have "be_nat idx < 2 ^ TREE_DEPTH" using be_nat_less[of idx] assms by (simp add: TREE_DEPTH_def)
  then have "be_nat ((idx_shr1 ^^ TREE_DEPTH) idx) = be_nat (replicate 32 0)"
    by (simp add: be_nat_shr1_pow)
  then show ?thesis by (subst (asm) be_nat_inject) (simp_all add: assms)
qed

lemma idx_lsb_eq:
  assumes "length idx = 32"
  shows "idx_lsb idx = (if even (be_nat idx) then 0 else 1)"
proof -
  obtain ys b where "idx = ys @ [b]" "length ys = 31" using snoc32[OF assms] by blast
  moreover have "b AND 1 = (if even (unat b) then 0 else 1)"
    by (simp add: word_unat_eq_iff unat_and1 even_iff_mod_2_eq_zero odd_iff_mod_2_eq_one)
  ultimately show ?thesis by (simp add: idx_lsb_def be_nat_snoc nth_append)
qed

lemma be_nat_xor1:
  assumes "length idx = 32"
  shows "be_nat (idx_xor1 idx) = (if even (be_nat idx) then be_nat idx + 1 else be_nat idx - 1)"
proof -
  obtain ys b where idx: "idx = ys @ [b]" "length ys = 31" using snoc32[OF assms] by blast
  have "unat (b XOR 1) = unat b XOR 1" by (simp add: unsigned_xor_eq)
  also have "\<dots> = unat b + of_bool (even (unat b)) - of_bool (odd (unat b))" by (rule xor_one_eq)
  finally have "unat (b XOR 1) = (if even (unat b) then unat b + 1 else unat b - 1)" by simp
  moreover have "odd (unat b) \<Longrightarrow> 0 < unat b" by (rule odd_pos)
  ultimately show ?thesis using idx by (auto simp: idx_xor1_def be_nat_snoc list_update_append nth_append)
qed

lemma idx_xor1_xor1: "length idx = 32 \<Longrightarrow> idx_xor1 (idx_xor1 idx) = idx"
proof -
  assume l: "length idx = 32"
  then have "be_nat (idx_xor1 (idx_xor1 idx)) = be_nat idx"
    using odd_pos[of "be_nat idx"] by (auto simp: be_nat_xor1)
  then show ?thesis by (subst (asm) be_nat_inject) simp_all
qed

lemma idx_lsb_xor1: "length idx = 32 \<Longrightarrow> idx_lsb (idx_xor1 idx) = 0 \<longleftrightarrow> idx_lsb idx \<noteq> 0"
  using odd_pos[of "be_nat idx"] by (auto simp: idx_lsb_eq be_nat_xor1)

lemma idx_shr1_xor1: "length idx = 32 \<Longrightarrow> idx_shr1 (idx_xor1 idx) = idx_shr1 idx"
proof -
  assume l: "length idx = 32"
  then have "be_nat (idx_shr1 (idx_xor1 idx)) = be_nat (idx_shr1 idx)"
    by (auto simp: be_nat_shr1 be_nat_xor1 elim: oddE)
  then show ?thesis by (subst (asm) be_nat_inject) simp_all
qed

lemma same_parent:
  assumes "length a = 32" and "length b = 32" and "idx_shr1 a = idx_shr1 b"
  shows "a = b \<or> a = idx_xor1 b"
proof -
  have "be_nat a div 2 = be_nat b div 2" using assms(3) by (metis be_nat_shr1)
  then have "be_nat a = be_nat b \<or> be_nat a = be_nat (idx_xor1 b)"
    by (simp add: be_nat_xor1[OF assms(2)]) presburger
  then show ?thesis using assms by (simp add: be_nat_inject)
qed

section \<open>One level\<close>

text \<open>The parent hash that an index and its sibling give.\<close>

definition parent_of :: "(bytes \<Rightarrow> bytes) \<Rightarrow> level \<Rightarrow> Hash \<Rightarrow> bytes \<Rightarrow> Hash" where
  "parent_of sha256 cur e idx =
     (if idx_lsb idx = 0 then h_node sha256 (get_or cur idx e) (get_or cur (idx_xor1 idx) e)
      else h_node sha256 (get_or cur (idx_xor1 idx) e) (get_or cur idx e))"

definition level_wf :: "level \<Rightarrow> bool" where
  "level_wf m \<longleftrightarrow> bt_wf m \<and> (\<forall>k \<in> fst ` set m. length k = 32)"

lemma level_wf_Nil: "level_wf []"
  by (simp add: level_wf_def)

lemma level_wf_insert: "level_wf m \<Longrightarrow> length k = 32 \<Longrightarrow> level_wf (bt_insert k v m)"
  by (simp add: level_wf_def bt.wf_insert set_keys_bt_insert)

lemma parent_of_xor1:
  assumes "length idx = 32"
  shows "parent_of sha256 cur e (idx_xor1 idx) = parent_of sha256 cur e idx"
proof (cases "idx_lsb idx = 0")
  case True
  then have "idx_lsb (idx_xor1 idx) \<noteq> 0" using idx_lsb_xor1[OF assms] by blast
  with True show ?thesis by (simp add: parent_of_def idx_xor1_xor1[OF assms])
next
  case False
  then have "idx_lsb (idx_xor1 idx) = 0" using idx_lsb_xor1[OF assms] by blast
  with False show ?thesis by (simp add: parent_of_def idx_xor1_xor1[OF assms])
qed

text \<open>
  The loop of one level, from any point: the indices seen so far come with their siblings, and
  the next level maps exactly their parents. No parent is met twice, so the error is dead.
\<close>

lemma build_level_loop:
  assumes "level_wf nxt"
    and "\<forall>i \<in> set done. length i = 32 \<and> idx_xor1 i \<in> set done"
    and "\<And>p h. map_of nxt p = Some h \<longleftrightarrow> (\<exists>i \<in> set done. idx_shr1 i = p \<and> h = parent_of sha256 cur e i)"
    and "level_wf cur" and "set entries \<subseteq> set cur"
  shows "\<exists>nxt' D. build_level sha256 cur e entries nxt done = Inr nxt' \<and> level_wf nxt'
    \<and> D = set done \<union> fst ` set entries \<union> idx_xor1 ` fst ` set entries
    \<and> (\<forall>p h. map_of nxt' p = Some h \<longleftrightarrow> (\<exists>i \<in> D. idx_shr1 i = p \<and> h = parent_of sha256 cur e i))"
  using assms
proof (induction entries arbitrary: nxt "done")
  case (Cons entry rest)
  obtain idx hcur where entry: "entry = (idx, hcur)" by fastforce
  have len: "length idx = 32" using Cons.prems(4,5) by (auto simp: entry level_wf_def)
  have "map_of cur idx = Some hcur"
    using Cons.prems(4,5) by (auto simp: entry level_wf_def bt.wf_distinct)
  then have cur_idx: "get_or cur idx e = hcur" by (simp add: get_or_def)
  show ?case
  proof (cases "idx \<in> set done")
    case True
    then have "insert idx (insert (idx_xor1 idx) (set done)) = set done" using Cons.prems(2) by blast
    then have D: "set done \<union> fst ` set (entry # rest) \<union> idx_xor1 ` fst ` set (entry # rest)
        = set done \<union> fst ` set rest \<union> idx_xor1 ` fst ` set rest" by (auto simp: entry)
    show ?thesis using Cons.IH[OF Cons.prems(1-4)] Cons.prems(5) True unfolding D by (simp add: entry)
  next
    case False
    let ?p = "idx_shr1 idx" and ?ph = "parent_of sha256 cur e idx"
    let ?done' = "idx_xor1 idx # idx # done" and ?nxt' = "bt_insert ?p ?ph nxt"
    have fresh: "map_of nxt ?p = None"
    proof (rule ccontr)
      assume "map_of nxt ?p \<noteq> None"
      then obtain i where i: "i \<in> set done" "idx_shr1 i = ?p" using Cons.prems(3) by blast
      then have "i = idx \<or> i = idx_xor1 idx" using same_parent len Cons.prems(2) by blast
      then have "idx \<in> set done" using i(1) Cons.prems(2) idx_xor1_xor1[OF len] by metis
      with False show False by simp
    qed
    have run: "build_level sha256 cur e (entry # rest) nxt done = build_level sha256 cur e rest ?nxt' ?done'"
      using False fresh by (simp add: entry Let_def parent_of_def cur_idx)
    have wf: "level_wf ?nxt'" using Cons.prems(1) by (simp add: level_wf_insert len)
    have closed: "\<forall>i \<in> set ?done'. length i = 32 \<and> idx_xor1 i \<in> set ?done'"
      using Cons.prems(2) len by (auto simp: idx_xor1_xor1)
    have lookup: "map_of ?nxt' p = Some h
        \<longleftrightarrow> (\<exists>i \<in> set ?done'. idx_shr1 i = p \<and> h = parent_of sha256 cur e i)" for p h
    proof (cases "p = ?p")
      case True
      have "\<not> (\<exists>i \<in> set done. idx_shr1 i = ?p)" using fresh Cons.prems(3) by (metis option.distinct(1))
      then show ?thesis
        using True Cons.prems(1) len
        by (auto simp: level_wf_def bt.lookup_insert parent_of_xor1 idx_shr1_xor1)
    next
      case False
      then show ?thesis
        using Cons.prems(1,3) len by (auto simp: level_wf_def bt.lookup_insert idx_shr1_xor1)
    qed
    have D: "set ?done' \<union> fst ` set rest \<union> idx_xor1 ` fst ` set rest
        = set done \<union> fst ` set (entry # rest) \<union> idx_xor1 ` fst ` set (entry # rest)"
      by (auto simp: entry)
    show ?thesis
      using Cons.IH[OF wf closed lookup Cons.prems(4)] Cons.prems(5) unfolding run D by simp
  qed
qed auto

text \<open>What one level means for any index, present or not.\<close>

lemma level_spec:
  assumes "level_wf cur"
  shows "\<exists>nxt. build_level sha256 cur e cur [] [] = Inr nxt \<and> level_wf nxt
    \<and> (\<forall>idx. length idx = 32 \<longrightarrow> get_or nxt (idx_shr1 idx) (h_node sha256 e e) = parent_of sha256 cur e idx)"
proof -
  let ?D = "set [] \<union> fst ` set cur \<union> idx_xor1 ` fst ` set cur"
  obtain nxt where run: "build_level sha256 cur e cur [] [] = Inr nxt" "level_wf nxt"
    and lookup: "\<And>p h. map_of nxt p = Some h \<longleftrightarrow> (\<exists>i \<in> ?D. idx_shr1 i = p \<and> h = parent_of sha256 cur e i)"
    using build_level_loop[OF level_wf_Nil, of "[]" sha256 cur e cur] assms by auto
  have len: "i \<in> ?D \<Longrightarrow> length i = 32" for i using assms by (auto simp: level_wf_def)
  have "get_or nxt (idx_shr1 idx) (h_node sha256 e e) = parent_of sha256 cur e idx" if "length idx = 32" for idx
  proof (cases "map_of nxt (idx_shr1 idx)")
    case None
    then have "idx \<notin> ?D" "idx_xor1 idx \<notin> ?D"
      using lookup idx_shr1_xor1[OF that] by (metis option.distinct(1))+
    then have "map_of cur idx = None" "map_of cur (idx_xor1 idx) = None"
      by (auto simp: map_of_eq_None_iff)
    with None show ?thesis by (simp add: get_or_def parent_of_def)
  next
    case (Some h)
    from lookup[THEN iffD1, OF Some] obtain i
      where i: "i \<in> ?D" "idx_shr1 i = idx_shr1 idx" "h = parent_of sha256 cur e i" by auto
    have "i = idx \<or> i = idx_xor1 idx" by (rule same_parent[OF len[OF i(1)] that i(2)])
    with i(3) Some that show ?thesis by (auto simp: get_or_def parent_of_xor1)
  qed
  with run show ?thesis by blast
qed

section \<open>The whole tree\<close>

lemma empty_hashes_nth: "h \<le> TREE_DEPTH \<Longrightarrow> empty_hashes sha256 ! h = empty_hash sha256 h"
  by (simp add: empty_hashes_def del: upt_Suc)

lemma path_steps_append: "d < length ds \<Longrightarrow> path_steps sha256 (ds @ ds') d idx = path_steps sha256 ds d idx"
  by (induction d arbitrary: idx) (auto simp: nth_append)

lemma length_path_steps [simp]: "length (path_steps sha256 ds d idx) = d"
  by (induction d arbitrary: idx) auto

lemma step_hash_parent:
  assumes "length idx = 32"
  shows "step_hash sha256 \<lparr>sibling_is_left = (idx_lsb idx = 1), sibling = get_or cur (idx_xor1 idx) e\<rparr>
      (get_or cur idx e) = parent_of sha256 cur e idx"
  using idx_lsb_eq[OF assms] by (auto simp: step_hash_def parent_of_def)

text \<open>
  From a well-formed level, the construction succeeds and every path of the generated levels
  hashes from the entry at its index up to the entry at the top.
\<close>

lemma build_depths_spec:
  assumes "level_wf cur" and "d \<le> TREE_DEPTH"
  shows "\<exists>ds. build_depths sha256 d cur = Inr ds \<and> length ds = Suc d \<and> ds ! d = cur
    \<and> (\<forall>idx. length idx = 32 \<longrightarrow>
         fold (step_hash sha256) (path_steps sha256 ds d idx) (get_or cur idx (empty_hash sha256 (TREE_DEPTH - d)))
         = get_or (ds ! 0) ((idx_shr1 ^^ d) idx) (empty_hash sha256 TREE_DEPTH))"
  using assms
proof (induction d arbitrary: cur)
  case (Suc d)
  let ?h = "TREE_DEPTH - Suc d" let ?e = "empty_hash sha256 ?h"
  have height: "TREE_DEPTH - d = Suc ?h" using Suc.prems(2) by simp
  obtain nxt where nxt: "build_level sha256 cur ?e cur [] [] = Inr nxt" "level_wf nxt"
    and up: "\<And>idx. length idx = 32 \<Longrightarrow> get_or nxt (idx_shr1 idx) (h_node sha256 ?e ?e) = parent_of sha256 cur ?e idx"
    using level_spec[OF Suc.prems(1)] by blast
  obtain ds where ds: "build_depths sha256 d nxt = Inr ds" "length ds = Suc d"
    and path: "\<And>idx. length idx = 32 \<Longrightarrow>
         fold (step_hash sha256) (path_steps sha256 ds d idx) (get_or nxt idx (empty_hash sha256 (TREE_DEPTH - d)))
         = get_or (ds ! 0) ((idx_shr1 ^^ d) idx) (empty_hash sha256 TREE_DEPTH)"
    using Suc.IH[OF nxt(2)] Suc.prems(2) by auto
  have "fold (step_hash sha256) (path_steps sha256 (ds @ [cur]) (Suc d) idx) (get_or cur idx ?e)
      = get_or ((ds @ [cur]) ! 0) ((idx_shr1 ^^ Suc d) idx) (empty_hash sha256 TREE_DEPTH)"
    if len: "length idx = 32" for idx
  proof -
    have "fold (step_hash sha256) (path_steps sha256 (ds @ [cur]) (Suc d) idx) (get_or cur idx ?e)
        = fold (step_hash sha256) (path_steps sha256 ds d (idx_shr1 idx)) (parent_of sha256 cur ?e idx)"
      using ds(2) Suc.prems(2)
      by (simp add: path_steps_append empty_hashes_nth nth_append step_hash_parent[OF len])
    also have "parent_of sha256 cur ?e idx = get_or nxt (idx_shr1 idx) (empty_hash sha256 (TREE_DEPTH - d))"
      using up[OF len] by (simp add: height)
    also have "fold (step_hash sha256) (path_steps sha256 ds d (idx_shr1 idx)) \<dots>
        = get_or (ds ! 0) ((idx_shr1 ^^ d) (idx_shr1 idx)) (empty_hash sha256 TREE_DEPTH)"
      by (rule path) (simp add: len)
    finally show ?thesis using ds(2) by (simp add: nth_append funpow_swap1)
  qed
  moreover have "build_depths sha256 (Suc d) cur = Inr (ds @ [cur])"
    using nxt ds Suc.prems(2) by (simp add: empty_hashes_nth)
  ultimately show ?case using ds(2) by (auto simp: nth_append)
qed simp

lemma build_depth_maps_spec:
  assumes "level_wf m"
  shows "\<exists>root depths. build_depth_maps sha256 m = Inr (root, depths)
    \<and> (\<forall>idx. length idx = 32 \<longrightarrow>
         fold (step_hash sha256) (path_steps sha256 depths TREE_DEPTH idx) (get_or m idx (h_empty_leaf sha256)) = root)"
proof -
  obtain ds where "build_depths sha256 TREE_DEPTH m = Inr ds"
    and path: "\<And>idx. length idx = 32 \<Longrightarrow>
         fold (step_hash sha256) (path_steps sha256 ds TREE_DEPTH idx) (get_or m idx (h_empty_leaf sha256))
         = get_or (ds ! 0) ((idx_shr1 ^^ TREE_DEPTH) idx) (empty_hash sha256 TREE_DEPTH)"
    using build_depths_spec[OF assms order_refl] by auto
  then show ?thesis
    by (auto simp: build_depth_maps_def empty_hashes_nth shr1_pow_depth)
qed

section \<open>The leaf map\<close>

lemma fold_bt_insert:
  "bt_wf m \<Longrightarrow> bt_wf (fold (\<lambda>(k, v) m. bt_insert k v m) xs m)
     \<and> map_of (fold (\<lambda>(k, v) m. bt_insert k v m) xs m) = map_of m ++ map_of (rev xs)"
proof (induction xs arbitrary: m)
  case (Cons x xs)
  obtain k v where x: "x = (k, v)" by fastforce
  have "bt_wf (bt_insert k v m)" using Cons.prems by (rule bt.wf_insert)
  with Cons.IH[OF this] Cons.prems show ?case
    by (simp add: x bt.lookup_insert map_add_def fun_eq_iff split: option.splits)
qed simp

definition leaf_entries :: "(bytes \<Rightarrow> bytes) \<Rightarrow> kvs \<Rightarrow> level" where
  "leaf_entries sha256 kvs = map (\<lambda>(k, v). (key_path sha256 k, leaf_hash_for_kv sha256 k v)) kvs"

lemma leaf_map_of_entries: "leaf_map_of sha256 kvs = fold (\<lambda>(k, v) m. bt_insert k v m) (leaf_entries sha256 kvs) []"
  by (simp add: leaf_map_of_def leaf_entries_def fold_map o_def case_prod_unfold)

lemma leaf_map_of_lookup:
  "bt_wf (leaf_map_of sha256 kvs)" "map_of (leaf_map_of sha256 kvs) = map_of (rev (leaf_entries sha256 kvs))"
  using fold_bt_insert[of "[]" "leaf_entries sha256 kvs"] by (simp_all add: leaf_map_of_entries)

lemma leaf_map_of_wf:
  assumes "\<forall>x. length (sha256 x) = 32"
  shows "level_wf (leaf_map_of sha256 kvs)"
proof -
  have "fst ` set (leaf_map_of sha256 kvs) = dom (map_of (leaf_map_of sha256 kvs))"
    by (simp add: dom_map_of_conv_image_fst)
  also have "\<dots> \<subseteq> range (key_path sha256)"
    by (auto simp: leaf_map_of_lookup(2) leaf_entries_def dom_map_of_conv_image_fst)
  finally show ?thesis
    using assms by (auto simp: level_wf_def leaf_map_of_lookup(1) key_path_def)
qed

lemma leaf_map_of_key:
  assumes "inj_on sha256 (insert key (fst ` set kvs))"
  shows "map_of (leaf_map_of sha256 kvs) (key_path sha256 key)
    = map_option (leaf_hash_for_kv sha256 key) (map_of (rev kvs) key)"
proof -
  have "map_of (leaf_entries sha256 xs) (key_path sha256 key)
      = map_option (leaf_hash_for_kv sha256 key) (map_of xs key)" if "fst ` set xs \<subseteq> fst ` set kvs" for xs
    using that
  proof (induction xs)
    case (Cons x xs)
    then have "sha256 (fst x) = sha256 key \<longleftrightarrow> fst x = key"
      using inj_on_eq_iff[OF assms, of "fst x" key] by auto
    with Cons show ?case by (cases x) (auto simp: leaf_entries_def key_path_def)
  qed (simp add: leaf_entries_def)
  from this[of "rev kvs"] show ?thesis
    by (simp add: leaf_map_of_lookup(2) leaf_entries_def rev_map)
qed

lemma fold_target_value:
  "fold (\<lambda>(k, v) t. if k = key then Some v else t) kvs t0
    = (case map_of (rev kvs) key of Some v \<Rightarrow> Some v | None \<Rightarrow> t0)"
  by (induction kvs arbitrary: t0) (auto simp: map_add_def split: option.splits)

section \<open>Checking a path\<close>

lemma check_path_steps:
  "check_steps sha256 idx cur (path_steps sha256 ds d idx)
    = Some (fold (step_hash sha256) (path_steps sha256 ds d idx) cur)"
  by (induction d arbitrary: idx cur) auto

fun path_dirs :: "nat \<Rightarrow> bytes \<Rightarrow> bool list" where
  "path_dirs 0 idx = []"
| "path_dirs (Suc n) idx = (idx_lsb idx = 1) # path_dirs n (idx_shr1 idx)"

lemma check_steps_Some_iff:
  "check_steps sha256 idx cur sts = Some r \<longleftrightarrow>
     map sibling_is_left sts = path_dirs (length sts) idx \<and> fold (step_hash sha256) sts cur = r"
  by (induction sts arbitrary: idx cur) auto

lemma verify_iff:
  "verify_proof_for_key_and_leaf sha256 root key lf p \<longleftrightarrow>
     length (steps p) = TREE_DEPTH \<and> leaf p = lf
     \<and> map sibling_is_left (steps p) = path_dirs TREE_DEPTH (key_path sha256 key)
     \<and> fold (step_hash sha256) (steps p) lf = root"
proof -
  have "verify_proof_for_key_and_leaf sha256 root key lf p \<longleftrightarrow> length (steps p) = TREE_DEPTH \<and> leaf p = lf
      \<and> check_steps sha256 (key_path sha256 key) (leaf p) (steps p) = Some root"
    by (auto simp: verify_proof_for_key_and_leaf_def split: option.splits)
  then show ?thesis by (auto simp: check_steps_Some_iff)
qed

text \<open>The generated proof of any key verifies for the leaf that the leaf map holds for it.\<close>

lemma generated_proof_verifies:
  assumes "\<forall>x. length (sha256 x) = 32"
    and "lf = get_or (leaf_map_of sha256 kvs) (key_path sha256 key) (h_empty_leaf sha256)"
    and "build_depth_maps sha256 (leaf_map_of sha256 kvs) = Inr (root, depths)"
  shows "verify_proof_for_key_and_leaf sha256 root key lf
    \<lparr>leaf = lf, steps = path_steps sha256 depths TREE_DEPTH (key_path sha256 key)\<rparr>"
proof -
  have "fold (step_hash sha256) (path_steps sha256 depths TREE_DEPTH (key_path sha256 key)) lf = root"
    using build_depth_maps_spec[OF leaf_map_of_wf[OF assms(1)], of sha256 kvs] assms
    by (auto simp: key_path_def)
  then show ?thesis by (simp add: verify_proof_for_key_and_leaf_def check_path_steps)
qed

section \<open>Properties\<close>

text \<open>
  C31: Completeness of membership: a key that the iterator yields gets its last value, a root
  that is the root of the whole map, and a proof that verifies for that key and value, when
  SHA-256 does not collide on the keys. The collision error of the builder never occurs.
\<close>

theorem smt_membership_proof_verifies:
  assumes "\<forall>x. length (sha256 x) = 32" and "inj_on sha256 (fst ` set kvs)" and "map_of (rev kvs) key = Some v"
  shows "\<exists>root p. compute_root_and_proof_from_iter sha256 kvs key = Inr (Some (root, v, p))
    \<and> compute_root_from_iter sha256 kvs = Inr root \<and> verify_proof_for_key sha256 root key v p"
proof -
  obtain root depths where b: "build_depth_maps sha256 (leaf_map_of sha256 kvs) = Inr (root, depths)"
    using build_depth_maps_spec[OF leaf_map_of_wf[OF assms(1)]] by blast
  have "key \<in> fst ` set kvs" using assms(3) by (force dest: map_of_SomeD)
  then have "map_of (leaf_map_of sha256 kvs) (key_path sha256 key) = Some (leaf_hash_for_kv sha256 key v)"
    using leaf_map_of_key[of sha256 key kvs] assms(2,3) by (simp add: insert_absorb)
  then have "verify_proof_for_key sha256 root key v
      \<lparr>leaf = leaf_hash_for_kv sha256 key v, steps = path_steps sha256 depths TREE_DEPTH (key_path sha256 key)\<rparr>"
    unfolding verify_proof_for_key_def
    by (intro generated_proof_verifies[OF assms(1) _ b]) (simp add: get_or_def)
  then show ?thesis
    using b assms(3)
    by (auto simp: compute_root_and_proof_from_iter_def compute_root_from_iter_def fold_target_value)
qed

theorem smt_membership_proof_verifies_witness:
  "\<exists>root p. compute_root_and_proof_from_iter (\<lambda>_. replicate 32 0) [([1], [2])] [1] = Inr (Some (root, [2], p))
    \<and> compute_root_from_iter (\<lambda>_. replicate 32 0) [([1], [2])] = Inr root
    \<and> verify_proof_for_key (\<lambda>_. replicate 32 0) root [1] [2] p"
  by (rule smt_membership_proof_verifies) simp_all

text \<open>
  Multi-proofs are complete for present and absent keys alike: every requested key gets an
  entry; with its last value and a verifying membership proof if the iterator yields the key,
  with no value and a verifying absence proof otherwise.
\<close>

theorem smt_multi_proofs_verify:
  assumes "\<forall>x. length (sha256 x) = 32" and "inj_on sha256 (set keys \<union> fst ` set kvs)"
  shows "\<exists>root out. compute_root_and_multi_proofs_from_iter sha256 kvs keys = Inr (root, out)
    \<and> map fst out = keys
    \<and> (\<forall>(key, mv, p) \<in> set out. mv = map_of (rev kvs) key
        \<and> (case mv of Some v \<Rightarrow> verify_proof_for_key sha256 root key v p
           | None \<Rightarrow> verify_absence_proof_for_key sha256 root key p))"
proof -
  obtain root depths where b: "build_depth_maps sha256 (leaf_map_of sha256 kvs) = Inr (root, depths)"
    using build_depth_maps_spec[OF leaf_map_of_wf[OF assms(1)]] by blast
  define vals where "vals = fold (\<lambda>(k, v) m. bt_insert k v m) kvs []"
  have vals: "map_of vals key = map_of (rev kvs) key" for key
    using fold_bt_insert[of "[]" kvs] by (simp add: vals_def)
  have at_key: "map_of (leaf_map_of sha256 kvs) (key_path sha256 key)
      = map_option (leaf_hash_for_kv sha256 key) (map_of (rev kvs) key)" if "key \<in> set keys" for key
    by (rule leaf_map_of_key, rule inj_on_subset[OF assms(2)]) (use that in auto)
  have present: "verify_proof_for_key sha256 root key v
        \<lparr>leaf = leaf_hash_for_kv sha256 key v, steps = path_steps sha256 depths TREE_DEPTH (key_path sha256 key)\<rparr>"
    if "key \<in> set keys" "map_of (rev kvs) key = Some v" for key v
    unfolding verify_proof_for_key_def
    by (rule generated_proof_verifies[OF assms(1) _ b]) (simp add: get_or_def at_key that)
  have absent: "verify_absence_proof_for_key sha256 root key
        \<lparr>leaf = h_empty_leaf sha256, steps = path_steps sha256 depths TREE_DEPTH (key_path sha256 key)\<rparr>"
    if "key \<in> set keys" "map_of (rev kvs) key = None" for key
    unfolding verify_absence_proof_for_key_def
    by (rule generated_proof_verifies[OF assms(1) _ b]) (simp add: get_or_def at_key that)
  show ?thesis
    using b vals present absent
    by (auto simp: compute_root_and_multi_proofs_from_iter_def Let_def o_def
        simp flip: vals_def split: option.splits)
qed

theorem smt_multi_proofs_verify_witness:
  "let sha = (\<lambda>x. if x = [9] then replicate 32 1 else replicate 32 0) in
   \<exists>root out. compute_root_and_multi_proofs_from_iter sha [([1], [2])] [[1], [9]] = Inr (root, out)
    \<and> map fst out = [[1], [9]]
    \<and> (\<forall>(key, mv, p) \<in> set out. mv = map_of (rev [([1], [2])]) key
        \<and> (case mv of Some v \<Rightarrow> verify_proof_for_key sha root key v p
           | None \<Rightarrow> verify_absence_proof_for_key sha root key p))"
  unfolding Let_def by (rule smt_multi_proofs_verify) (auto simp: inj_on_def)

text \<open>
  The state root does not depend on the order in which the storage iterates its entries.
\<close>

theorem smt_root_order_free:
  assumes "mset kvs' = mset kvs" and "distinct (map fst kvs)" and "inj_on sha256 (fst ` set kvs)"
  shows "compute_root_from_iter sha256 kvs' = compute_root_from_iter sha256 kvs"
proof -
  have "set kvs' = set kvs" using assms(1) by (rule mset_eq_setD)
  have mset: "mset (leaf_entries sha256 kvs') = mset (leaf_entries sha256 kvs)"
    using assms(1) by (simp add: leaf_entries_def)
  have "distinct (map sha256 (map fst kvs))"
    using assms(2,3) by (simp only: distinct_map) simp
  then have d: "distinct (map fst (leaf_entries sha256 kvs))"
    by (simp add: leaf_entries_def key_path_def o_def case_prod_unfold)
  moreover from mset have "mset (map fst (leaf_entries sha256 kvs')) = mset (map fst (leaf_entries sha256 kvs))"
    by (simp only: mset_map)
  ultimately have d': "distinct (map fst (leaf_entries sha256 kvs'))"
    by (metis mset_eq_imp_distinct_iff)
  have "map_of (rev (leaf_entries sha256 kvs')) = map_of (rev (leaf_entries sha256 kvs))"
    using d d' mset_eq_setD[OF mset] by (intro map_of_eqI) (auto simp: map_of_eq_Some_iff rev_map[symmetric])
  then have "leaf_map_of sha256 kvs' = leaf_map_of sha256 kvs"
    by (intro bt_wf_ext) (simp_all add: leaf_map_of_lookup)
  then show ?thesis by (simp add: compute_root_from_iter_def)
qed

theorem smt_root_order_free_witness:
  "let sha = (\<lambda>x. if x = [9] then replicate 32 1 else replicate 32 0) in
   compute_root_from_iter sha [([9], [3]), ([1], [2])] = compute_root_from_iter sha [([1], [2]), ([9], [3])]"
  unfolding Let_def
  by (rule smt_root_order_free) (auto simp: inj_on_def)

text \<open>The bytes hashed for a leaf, and everything hashed when a proof of a key is checked.\<close>

definition leaf_input :: "bytes \<Rightarrow> bytes \<Rightarrow> bytes" where
  "leaf_input key val = [0] @ to_le_bytes (of_nat (length key) :: u64) @ key
     @ to_le_bytes (of_nat (length val) :: u64) @ val"

lemma leaf_hash_input: "leaf_hash_for_kv sha256 key val = sha256 (leaf_input key val)"
  by (simp add: leaf_hash_for_kv_def h_leaf_def leaf_input_def)

lemma leaf_input_inject: "leaf_input key v = leaf_input key v' \<longleftrightarrow> v = v'"
  by (auto simp: leaf_input_def)

definition proof_inputs :: "(bytes \<Rightarrow> bytes) \<Rightarrow> MerkleProof \<Rightarrow> bytes set" where
  "proof_inputs sha256 p = set (chain_inputs sha256 (leaf p) (steps p))"

definition siblings_32 :: "MerkleProof \<Rightarrow> bool" where
  "siblings_32 p \<longleftrightarrow> (\<forall>st \<in> set (steps p). length (sibling st) = 32)"

lemma proofs_bind:
  assumes "\<forall>x. length (sha256 x) = 32" and "siblings_32 p" and "siblings_32 p'"
    and "verify_proof_for_key_and_leaf sha256 root key (sha256 a) p"
    and "verify_proof_for_key_and_leaf sha256 root key (sha256 b) p'"
    and "inj_on sha256 ({a, b} \<union> proof_inputs sha256 p \<union> proof_inputs sha256 p')"
  shows "a = b \<and> p = p'"
proof -
  have leafs: "leaf p = sha256 a" "leaf p' = sha256 b" using assms(4,5) by (simp_all add: verify_iff)
  have "leaf p = leaf p' \<and> steps p = steps p'"
  proof (rule chain_binding[where ?sha256.0 = sha256])
    show "inj_on sha256 (set (chain_inputs sha256 (leaf p) (steps p)) \<union> set (chain_inputs sha256 (leaf p') (steps p')))"
      by (rule inj_on_subset[OF assms(6)]) (auto simp: proof_inputs_def)
  qed (use assms leafs in \<open>auto simp: verify_iff siblings_32_def\<close>)
  moreover have "a = b" if "sha256 a = sha256 b"
    by (rule inj_onD[OF assms(6) that]) simp_all
  ultimately show ?thesis using leafs by (cases p; cases p') simp
qed

text \<open>
  C5: A verified proof binds the key: against one root, no second proof gives the key another
  value and none shows it absent, unless SHA-256 collides on the inputs hashed by the two checks.
\<close>

theorem smt_proof_binding:
  assumes "\<forall>x. length (sha256 x) = 32" and "siblings_32 p" and "siblings_32 p'"
    and "verify_proof_for_key sha256 root key v p"
    and "inj_on sha256 ({leaf_input key v, leaf_input key v', [2]} \<union> proof_inputs sha256 p \<union> proof_inputs sha256 p')"
  shows "(verify_proof_for_key sha256 root key v' p' \<longrightarrow> v' = v \<and> p' = p)
    \<and> \<not> verify_absence_proof_for_key sha256 root key p'"
proof -
  have ver: "verify_proof_for_key_and_leaf sha256 root key (sha256 (leaf_input key v)) p"
    using assms(4) by (simp add: verify_proof_for_key_def leaf_hash_input)
  have bind: "leaf_input key v = b \<and> p = p'"
    if "verify_proof_for_key_and_leaf sha256 root key (sha256 b) p'" "b = leaf_input key v' \<or> b = [2]" for b
    by (rule proofs_bind[OF assms(1-3) ver that(1)], rule inj_on_subset[OF assms(5)]) (use that(2) in auto)
  have "v' = v \<and> p' = p" if "verify_proof_for_key sha256 root key v' p'"
    using bind[of "leaf_input key v'"] that
    by (simp add: verify_proof_for_key_def leaf_hash_input leaf_input_inject)
  moreover have "\<not> verify_absence_proof_for_key sha256 root key p'"
    using bind[of "[2]"] by (auto simp: verify_absence_proof_for_key_def h_empty_leaf_def leaf_input_def)
  ultimately show ?thesis by blast
qed

text \<open>
  A digest that counts the levels of a path of left nodes, so that the 258 inputs of a concrete
  check are seen to be free of collisions.
\<close>

definition count_digest :: "bytes \<Rightarrow> bytes" where
  "count_digest bs =
     (if bs = [2] then le_bytes 32 1000
      else if take 1 bs = [1] then le_bytes 32 (le_nat (take 32 (drop 1 bs)) + 1)
      else replicate 32 0)"

definition left_step :: MerkleStep where
  "left_step = \<lparr>sibling_is_left = False, sibling = replicate 32 0\<rparr>"

lemma le_bytes_zero: "le_bytes n 0 = replicate n 0"
  by (induction n) auto

lemma step_count_digest:
  "i < 2 ^ 256 \<Longrightarrow> step_hash count_digest left_step (le_bytes 32 i) = le_bytes 32 (i + 1)"
  by (simp add: step_hash_input left_step_def count_digest_def le_nat_le_bytes)

lemma path_dirs_zero: "path_dirs n (replicate 32 0) = replicate n False"
proof (induction n)
  case (Suc n)
  have "be_nat (idx_shr1 (replicate 32 0)) = be_nat (replicate 32 0)" by (simp add: be_nat_shr1)
  then have "idx_shr1 (replicate 32 0) = replicate 32 0" by (subst (asm) be_nat_inject) simp_all
  with Suc show ?case by (simp add: idx_lsb_def)
qed simp

lemma fold_count_digest:
  "i + n \<le> 2 ^ 256 \<Longrightarrow> fold (step_hash count_digest) (replicate n left_step) (le_bytes 32 i) = le_bytes 32 (i + n)"
  by (induction n arbitrary: i) (auto simp: step_count_digest)

lemma chain_inputs_count_digest:
  "i + n \<le> 2 ^ 256 \<Longrightarrow> chain_inputs count_digest (le_bytes 32 i) (replicate n left_step)
     = map (\<lambda>j. [1] @ le_bytes 32 j @ replicate 32 0) [i..<i + n]"
proof (induction n arbitrary: i)
  case (Suc n)
  then have "chain_inputs count_digest (le_bytes 32 (i + 1)) (replicate n left_step)
      = map (\<lambda>j. [1] @ le_bytes 32 j @ replicate 32 0) [i + 1..<i + 1 + n]"
    by (intro Suc.IH) simp
  moreover have "[i..<i + Suc n] = i # [i + 1..<i + 1 + n]" by (simp add: upt_conv_Cons del: upt_Suc)
  ultimately show ?case
    using Suc.prems by (simp add: step_count_digest del: upt_Suc) (simp add: left_step_def)
qed simp

lemma count_digest_inj:
  "inj_on count_digest ({leaf_input [] v, [2]} \<union> (\<lambda>j. [1] @ le_bytes 32 j @ replicate 32 0) ` {0..<256})"
proof -
  define f where "f = (\<lambda>bs. le_nat (count_digest bs))"
  have f: "f (leaf_input [] v) = 0" "f [2] = 1000"
    "\<And>j. j < 256 \<Longrightarrow> f (1 # le_bytes 32 j @ replicate 32 0) = j + 1"
    by (simp_all add: f_def count_digest_def leaf_input_def le_nat_le_bytes flip: le_bytes_zero)
  have "inj_on f ({leaf_input [] v, [2]} \<union> (\<lambda>j. [1] @ le_bytes 32 j @ replicate 32 0) ` {0..<256})"
    by (auto simp: inj_on_def f)
  then show ?thesis unfolding f_def by (rule inj_on_imageI2[unfolded comp_def])
qed

theorem smt_proof_binding_witness:
  "\<exists>root p. verify_proof_for_key count_digest root [] [7] p
     \<and> \<not> verify_absence_proof_for_key count_digest root [] p"
proof -
  define p where "p = \<lparr>leaf = replicate 32 0, steps = replicate 256 left_step\<rparr>"
  have inputs: "proof_inputs count_digest p = (\<lambda>j. [1] @ le_bytes 32 j @ replicate 32 0) ` {0..<256}"
    using chain_inputs_count_digest[of 0 256] by (simp add: proof_inputs_def p_def le_bytes_zero)
  have len: "\<forall>x. length (count_digest x) = 32" by (simp add: count_digest_def)
  have sib: "siblings_32 p" by (simp add: siblings_32_def p_def left_step_def)
  have ver: "verify_proof_for_key count_digest (le_bytes 32 256) [] [7] p"
    using fold_count_digest[of 0 256]
    by (simp add: verify_proof_for_key_def verify_iff p_def TREE_DEPTH_def leaf_hash_input leaf_input_def
        count_digest_def key_path_def path_dirs_zero le_bytes_zero map_replicate left_step_def)
  have inj: "inj_on count_digest ({leaf_input [] [7], leaf_input [] [7], [2]}
      \<union> proof_inputs count_digest p \<union> proof_inputs count_digest p)"
    using count_digest_inj[of "[7]"] by (simp add: inputs)
  show ?thesis using smt_proof_binding[OF len sib sib ver inj] ver by blast
qed

end
