(* ===== verification/Storage.thy ===== *)
theory Storage
  imports Sparse_Merkle Codec
begin

text \<open>
  Persistent state: account records (\<open>catalyst-utils/src/state.rs\<close>), the engine, transaction
  batches and the storage manager (\<open>catalyst-storage/src/{engine,transaction,manager}.rs\<close>).

  A column family of the database is a key-sorted association list with the documented behaviour
  of \<open>get\<close>, \<open>put\<close>, \<open>delete\<close>, iterators (key order) and atomic write batches; failures of the
  disk are left out. SHA-256 is a parameter. Batches are shared objects in the code (\<open>Arc\<close>), so
  they live in a heap of the manager and the pending table holds their positions.
\<close>

section \<open>Account records\<close>

datatype AccountType = AccountNonConfidential | AccountConfidential | AccountContract

record AccountState =
  ac_address :: bytes
  ac_type :: AccountType
  ac_balance :: bytes
  ac_data :: "bytes option"
  ac_nonce :: u64

definition ser_account_type :: "AccountType \<Rightarrow> bytes" where
  "ser_account_type t =
     [case t of AccountNonConfidential \<Rightarrow> 0 | AccountConfidential \<Rightarrow> 1 | AccountContract \<Rightarrow> 2]"

definition de_account_type :: "AccountType reader" where
  "de_account_type =
     pbind (read_exact ''Failed to read AccountType: '' 1) (\<lambda>b.
       if hd b = 0 then preturn AccountNonConfidential
       else if hd b = 1 then preturn AccountConfidential
       else if hd b = 2 then preturn AccountContract
       else pfail (Serialization (''Invalid AccountType tag: '' @ show_nat (unat (hd b)))))"

definition serialize_account :: "AccountState \<Rightarrow> (CatalystError, bytes) result" where
  "serialize_account a =
     (if length (ac_balance a) \<ge> 2 ^ 32 then Inl (Serialization ''Balance too large'')
      else if (case ac_data a of None \<Rightarrow> False | Some d \<Rightarrow> length d \<ge> 2 ^ 32)
      then Inl (Serialization ''Account data too large'')
      else Inr (ac_address a @ ser_account_type (ac_type a)
        @ to_le_bytes (of_nat (length (ac_balance a)) :: u32) @ ac_balance a
        @ (case ac_data a of None \<Rightarrow> [0] | Some d \<Rightarrow> [1] @ to_le_bytes (of_nat (length d) :: u32) @ d)
        @ to_le_bytes (ac_nonce a)))"

definition account_size :: "AccountState \<Rightarrow> nat" where
  "account_size a =
     21 + 1 + 4 + length (ac_balance a) + 1 + (case ac_data a of None \<Rightarrow> 0 | Some d \<Rightarrow> 4 + length d) + 8"

definition de_account :: "AccountState reader" where
  "de_account =
     pbind (read_exact ''Failed to read address: '' 21) (\<lambda>addr.
     pbind de_account_type (\<lambda>t.
     pbind (read_exact ''Failed to read balance len: '' 4) (\<lambda>n.
     pbind (read_exact ''Failed to read balance: '' (unat (from_le_bytes n :: u32))) (\<lambda>bal.
     pbind (read_exact ''Failed to read data flag: '' 1) (\<lambda>flag.
     pbind (if hd flag = 1
            then pbind (read_exact ''Failed to read data len: '' 4) (\<lambda>m.
                 pbind (read_exact ''Failed to read data: '' (unat (from_le_bytes m :: u32))) (\<lambda>d.
                 preturn (Some d)))
            else preturn None) (\<lambda>dat.
     pbind (read_exact ''Failed to read nonce: '' 8) (\<lambda>w.
     preturn \<lparr>ac_address = addr, ac_type = t, ac_balance = bal, ac_data = dat, ac_nonce = from_le_bytes w\<rparr>)))))))"

definition new_non_confidential :: "bytes \<Rightarrow> u64 \<Rightarrow> AccountState" where
  "new_non_confidential addr bal =
     \<lparr>ac_address = addr, ac_type = AccountNonConfidential, ac_balance = to_le_bytes bal, ac_data = None, ac_nonce = 0\<rparr>"

definition new_confidential :: "bytes \<Rightarrow> bytes \<Rightarrow> AccountState" where
  "new_confidential addr commitment =
     \<lparr>ac_address = addr, ac_type = AccountConfidential, ac_balance = commitment, ac_data = None, ac_nonce = 0\<rparr>"

definition new_contract :: "bytes \<Rightarrow> u64 \<Rightarrow> bytes option \<Rightarrow> AccountState" where
  "new_contract addr bal contract_data =
     \<lparr>ac_address = addr, ac_type = AccountContract, ac_balance = to_le_bytes bal,
      ac_data = Option.bind contract_data (\<lambda>d. if length d \<le> 64 then Some d else None), ac_nonce = 0\<rparr>"

definition get_balance_as_u64 :: "AccountState \<Rightarrow> u64 option" where
  "get_balance_as_u64 a =
     (case ac_type a of
        AccountConfidential \<Rightarrow> None
      | _ \<Rightarrow> if length (ac_balance a) = 8 then Some (from_le_bytes (ac_balance a)) else None)"

definition get_commitment :: "AccountState \<Rightarrow> bytes option" where
  "get_commitment a =
     (case ac_type a of
        AccountConfidential \<Rightarrow> if length (ac_balance a) = 32 then Some (ac_balance a) else None
      | _ \<Rightarrow> None)"

definition account_key :: "bytes \<Rightarrow> bytes" where "account_key addr = as_bytes ''acc:'' @ addr"
definition transaction_key :: "bytes \<Rightarrow> bytes" where "transaction_key h = as_bytes ''tx:'' @ h"
definition metadata_key :: "string \<Rightarrow> bytes" where "metadata_key name = as_bytes ''meta:'' @ as_bytes name"

section \<open>The engine\<close>

record RocksEngine =
  families :: "(string \<times> kvs) list"

definition engine_ok :: "RocksEngine \<Rightarrow> bool" where
  "engine_ok e \<longleftrightarrow> distinct (map fst (families e)) \<and> (\<forall>(cf, m) \<in> set (families e). bt_wf m)"

definition cf_handle :: "RocksEngine \<Rightarrow> string \<Rightarrow> (StorageError, kvs) result" where
  "cf_handle e name =
     (case map_of (families e) name of None \<Rightarrow> Inl (ColumnFamilyNotFound name) | Some m \<Rightarrow> Inr m)"

definition cf_names :: "RocksEngine \<Rightarrow> string list" where
  "cf_names e = map fst (families e)"

definition engine_get :: "RocksEngine \<Rightarrow> string \<Rightarrow> bytes \<Rightarrow> (StorageError, bytes option) result" where
  "engine_get e cf key = (case cf_handle e cf of Inl err \<Rightarrow> Inl err | Inr m \<Rightarrow> Inr (map_of m key))"

definition engine_put :: "RocksEngine \<Rightarrow> string \<Rightarrow> bytes \<Rightarrow> bytes \<Rightarrow> (StorageError, RocksEngine) result" where
  "engine_put e cf key val =
     (case cf_handle e cf of
        Inl err \<Rightarrow> Inl err
      | Inr m \<Rightarrow> Inr \<lparr>families = hm_insert cf (bt_insert key val m) (families e)\<rparr>)"

definition engine_delete :: "RocksEngine \<Rightarrow> string \<Rightarrow> bytes \<Rightarrow> (StorageError, RocksEngine) result" where
  "engine_delete e cf key =
     (case cf_handle e cf of
        Inl err \<Rightarrow> Inl err
      | Inr m \<Rightarrow> Inr \<lparr>families = hm_insert cf (filter (\<lambda>(k, v). k \<noteq> key) m) (families e)\<rparr>)"

definition engine_iterator :: "RocksEngine \<Rightarrow> string \<Rightarrow> (StorageError, kvs) result" where
  "engine_iterator e cf = cf_handle e cf"

definition drop_cf :: "RocksEngine \<Rightarrow> string \<Rightarrow> (StorageError, RocksEngine) result" where
  "drop_cf e name =
     (if name = ''default'' then Inl (StConfig ''Cannot drop default column family'')
      else case cf_handle e name of
        Inl err \<Rightarrow> Inl (StConfig (''Failed to drop column family '' @ name @ '': ''))
      | Inr _ \<Rightarrow> Inr \<lparr>families = filter (\<lambda>(n, m). n \<noteq> name) (families e)\<rparr>)"

section \<open>Transaction batches\<close>

datatype BatchOperation =
    PutAccount bytes AccountState
  | DeleteAccount bytes
  | PutTransaction Hash bytes
  | DeleteTransaction Hash
  | PutMetadata string bytes
  | DeleteMetadata string
  | PutConsensus bytes bytes
  | DeleteConsensus bytes
  | PutContract bytes bytes kvs
  | DeleteContract bytes
  | PutDfsRef Hash bytes
  | DeleteDfsRef Hash

record TransactionBatch =
  tb_id :: string
  operations :: "BatchOperation list"
  created_at :: u64
  operation_count :: nat
  estimated_size :: nat
  checkpoints :: "string list"
  committed :: bool

definition new_batch :: "u64 \<Rightarrow> string \<Rightarrow> TransactionBatch" where
  "new_batch now bid =
     \<lparr>tb_id = bid, operations = [], created_at = now, operation_count = 0, estimated_size = 0,
      checkpoints = [], committed = False\<rparr>"

definition estimate_operation_size :: "BatchOperation \<Rightarrow> nat" where
  "estimate_operation_size op = (case op of
       PutAccount _ a \<Rightarrow> 21 + 1 + 8 + length (ac_balance a) + (case ac_data a of None \<Rightarrow> 0 | Some d \<Rightarrow> length d)
     | DeleteAccount _ \<Rightarrow> 21
     | PutTransaction _ dat \<Rightarrow> 32 + length dat
     | DeleteTransaction _ \<Rightarrow> 32
     | PutMetadata key val \<Rightarrow> length key + length val
     | DeleteMetadata key \<Rightarrow> length key
     | PutConsensus key val \<Rightarrow> length key + length val
     | DeleteConsensus key \<Rightarrow> length key
     | PutContract _ code st \<Rightarrow> 21 + length code + sum_list (map (\<lambda>(k, v). length k + length v) st)
     | DeleteContract _ \<Rightarrow> 21
     | PutDfsRef _ r \<Rightarrow> 32 + length r
     | DeleteDfsRef _ \<Rightarrow> 32)"

definition check_not_committed :: "TransactionBatch \<Rightarrow> (StorageError, unit) result" where
  "check_not_committed b =
     (if committed b then Inl (StTransaction (''Transaction '' @ tb_id b @ '' has already been committed''))
      else Inr ())"

text \<open>Every setter of the batch checks it and appends one operation.\<close>

definition add_operation :: "BatchOperation \<Rightarrow> TransactionBatch \<Rightarrow> (StorageError, TransactionBatch) result" where
  "add_operation op b =
     (case check_not_committed b of
        Inl err \<Rightarrow> Inl err
      | Inr _ \<Rightarrow> Inr (b\<lparr>operations := operations b @ [op], operation_count := operation_count b + 1,
                      estimated_size := estimated_size b + estimate_operation_size op\<rparr>))"

definition checkpoint :: "string \<Rightarrow> TransactionBatch \<Rightarrow> (StorageError, TransactionBatch) result" where
  "checkpoint name b =
     (case check_not_committed b of Inl err \<Rightarrow> Inl err | Inr _ \<Rightarrow> Inr (b\<lparr>checkpoints := checkpoints b @ [name]\<rparr>))"

definition clear :: "TransactionBatch \<Rightarrow> (StorageError, TransactionBatch) result" where
  "clear b =
     (case check_not_committed b of
        Inl err \<Rightarrow> Inl err
      | Inr _ \<Rightarrow> Inr (b\<lparr>operations := [], operation_count := 0, estimated_size := 0, checkpoints := []\<rparr>))"

text \<open>The column family and the writes of an operation; \<open>None\<close> is a deletion.\<close>

definition op_family :: "BatchOperation \<Rightarrow> string" where
  "op_family op = (case op of
       PutAccount _ _ \<Rightarrow> ''accounts'' | DeleteAccount _ \<Rightarrow> ''accounts''
     | PutTransaction _ _ \<Rightarrow> ''transactions'' | DeleteTransaction _ \<Rightarrow> ''transactions''
     | PutMetadata _ _ \<Rightarrow> ''metadata'' | DeleteMetadata _ \<Rightarrow> ''metadata''
     | PutConsensus _ _ \<Rightarrow> ''consensus'' | DeleteConsensus _ \<Rightarrow> ''consensus''
     | PutContract _ _ _ \<Rightarrow> ''contracts'' | DeleteContract _ \<Rightarrow> ''contracts''
     | PutDfsRef _ _ \<Rightarrow> ''dfs_refs'' | DeleteDfsRef _ \<Rightarrow> ''dfs_refs'')"

definition op_writes :: "BatchOperation \<Rightarrow> (StorageError, (bytes \<times> bytes option) list) result" where
  "op_writes op = (case op of
       PutAccount addr a \<Rightarrow>
         (case serialize_account a of
            Inl err \<Rightarrow> Inl (StSerialization (display_error err))
          | Inr v \<Rightarrow> Inr [(account_key addr, Some v)])
     | DeleteAccount addr \<Rightarrow> Inr [(account_key addr, None)]
     | PutTransaction h dat \<Rightarrow> Inr [(transaction_key h, Some dat)]
     | DeleteTransaction h \<Rightarrow> Inr [(transaction_key h, None)]
     | PutMetadata key val \<Rightarrow> Inr [(metadata_key key, Some val)]
     | DeleteMetadata key \<Rightarrow> Inr [(metadata_key key, None)]
     | PutConsensus key val \<Rightarrow> Inr [(key, Some val)]
     | DeleteConsensus key \<Rightarrow> Inr [(key, None)]
     | PutContract addr code st \<Rightarrow>
         Inr ((as_bytes ''code:'' @ addr, Some code)
              # map (\<lambda>(k, v). (as_bytes ''storage:'' @ addr @ as_bytes '':'' @ k, Some v)) st)
     | DeleteContract addr \<Rightarrow> Inr [(as_bytes ''code:'' @ addr, None)]
     | PutDfsRef h r \<Rightarrow> Inr [(transaction_key h, Some r)]
     | DeleteDfsRef h \<Rightarrow> Inr [(transaction_key h, None)])"

type_synonym db_write = "string \<times> bytes \<times> bytes option"

definition hash_input :: "(bytes \<times> bytes option) list \<Rightarrow> bytes" where
  "hash_input ws = concat (map (\<lambda>(k, v). k @ (case v of None \<Rightarrow> as_bytes ''DELETE'' | Some x \<Rightarrow> x)) ws)"

fun stage_operations :: "RocksEngine \<Rightarrow> BatchOperation list \<Rightarrow> (StorageError, db_write list \<times> bytes) result" where
  "stage_operations e [] = Inr ([], [])"
| "stage_operations e (op # ops) =
     (case op_writes op of
        Inl err \<Rightarrow> Inl err
      | Inr ws \<Rightarrow>
          (case cf_handle e (op_family op) of
             Inl err \<Rightarrow> Inl err
           | Inr _ \<Rightarrow>
               (case stage_operations e ops of
                  Inl err \<Rightarrow> Inl err
                | Inr (rest, h) \<Rightarrow> Inr (map (Pair (op_family op)) ws @ rest, hash_input ws @ h))))"

text \<open>A write batch of the database: all writes, in order, in one atomic step.\<close>

definition write_one :: "db_write \<Rightarrow> RocksEngine \<Rightarrow> RocksEngine" where
  "write_one w e =
     (case w of (cf, key, v) \<Rightarrow>
        case map_of (families e) cf of
          None \<Rightarrow> e
        | Some m \<Rightarrow>
            \<lparr>families = hm_insert cf
               (case v of None \<Rightarrow> filter (\<lambda>(k, v). k \<noteq> key) m | Some x \<Rightarrow> bt_insert key x m) (families e)\<rparr>)"

definition write_batch :: "db_write list \<Rightarrow> RocksEngine \<Rightarrow> RocksEngine" where
  "write_batch ws e = fold write_one ws e"

definition batch_commit ::
  "(bytes \<Rightarrow> bytes) \<Rightarrow> RocksEngine \<Rightarrow> TransactionBatch \<Rightarrow> (StorageError, Hash) result \<times> RocksEngine \<times> TransactionBatch" where
  "batch_commit sha256 e b =
     (case check_not_committed b of
        Inl err \<Rightarrow> (Inl err, e, b)
      | Inr _ \<Rightarrow>
          if operations b = [] then (Inl (StTransaction ''Cannot commit empty transaction''), e, b)
          else
            (case stage_operations e (operations b) of
               Inl err \<Rightarrow> (Inl err, e, b)
             | Inr (ws, h) \<Rightarrow> (Inr (sha256 (as_bytes (tb_id b) @ h)), write_batch ws e, b\<lparr>committed := True\<rparr>)))"

section \<open>The storage manager\<close>

record StorageManager =
  engine :: RocksEngine
  batches :: "TransactionBatch list"
  pending_transactions :: "(string \<times> nat) list"
  current_state_root :: "Hash option"
  next_tx_id :: u64

definition create_transaction ::
  "u64 \<Rightarrow> string \<Rightarrow> StorageManager \<Rightarrow> (StorageError, nat) result \<times> StorageManager" where
  "create_transaction now tid m =
     (if map_of (pending_transactions m) tid \<noteq> None
      then (Inl (StTransaction (''Transaction '' @ tid @ '' already exists'')), m)
      else (Inr (length (batches m)),
            m\<lparr>batches := batches m @ [new_batch now tid],
              pending_transactions := hm_insert tid (length (batches m)) (pending_transactions m)\<rparr>))"

definition compute_state_root ::
  "(bytes \<Rightarrow> bytes) \<Rightarrow> StorageManager \<Rightarrow> (StorageError, Hash) result \<times> StorageManager" where
  "compute_state_root sha256 m =
     (case engine_iterator (engine m) ''accounts'' of
        Inl err \<Rightarrow> (Inl err, m)
      | Inr items \<Rightarrow>
          (case compute_root_from_iter sha256 items of
             Inl err \<Rightarrow> (Inl err, m)
           | Inr r \<Rightarrow> (Inr r, m\<lparr>current_state_root := Some r\<rparr>)))"

definition commit_transaction ::
  "(bytes \<Rightarrow> bytes) \<Rightarrow> string \<Rightarrow> StorageManager \<Rightarrow> (StorageError, Hash) result \<times> StorageManager" where
  "commit_transaction sha256 tid m =
     (case map_of (pending_transactions m) tid of
        None \<Rightarrow> (Inl (StTransaction (''Transaction '' @ tid @ '' not found'')), m)
      | Some i \<Rightarrow>
          let m1 = m\<lparr>pending_transactions := filter (\<lambda>(n, _). n \<noteq> tid) (pending_transactions m)\<rparr> in
          (case batch_commit sha256 (engine m1) (batches m1 ! i) of
             (Inl err, e, b) \<Rightarrow> (Inl err, m1)
           | (Inr h, e, b) \<Rightarrow>
               let m2 = m1\<lparr>engine := e, batches := (batches m1)[i := b]\<rparr> in
               (case compute_state_root sha256 m2 of
                  (Inl err, m3) \<Rightarrow> (Inl err, m3)
                | (Inr _, m3) \<Rightarrow> (Inr h, m3))))"

definition rollback_transaction :: "string \<Rightarrow> StorageManager \<Rightarrow> StorageManager" where
  "rollback_transaction tid m =
     m\<lparr>pending_transactions := filter (\<lambda>(n, _). n \<noteq> tid) (pending_transactions m)\<rparr>"

text \<open>Direct access, for the \<open>StateManager\<close> interface and the typed accessors.\<close>

definition put_in :: "string \<Rightarrow> bytes \<Rightarrow> bytes \<Rightarrow> StorageManager \<Rightarrow> (StorageError, unit) result \<times> StorageManager" where
  "put_in cf key val m =
     (case engine_put (engine m) cf key val of Inl err \<Rightarrow> (Inl err, m) | Inr e \<Rightarrow> (Inr (), m\<lparr>engine := e\<rparr>))"

definition get_state :: "StorageManager \<Rightarrow> bytes \<Rightarrow> (StorageError, bytes option) result" where
  "get_state m key = engine_get (engine m) ''accounts'' key"

definition set_state :: "bytes \<Rightarrow> bytes \<Rightarrow> StorageManager \<Rightarrow> (StorageError, unit) result \<times> StorageManager" where
  "set_state key val m = put_in ''accounts'' key val m"

definition delete_state :: "bytes \<Rightarrow> StorageManager \<Rightarrow> (StorageError, bool) result \<times> StorageManager" where
  "delete_state key m =
     (case engine_get (engine m) ''accounts'' key of
        Inl err \<Rightarrow> (Inl err, m)
      | Inr None \<Rightarrow> (Inr False, m)
      | Inr (Some _) \<Rightarrow>
          (case engine_delete (engine m) ''accounts'' key of
             Inl err \<Rightarrow> (Inl err, m)
           | Inr e \<Rightarrow> (Inr True, m\<lparr>engine := e\<rparr>)))"

definition get_metadata :: "StorageManager \<Rightarrow> string \<Rightarrow> (StorageError, bytes option) result" where
  "get_metadata m key = engine_get (engine m) ''metadata'' (metadata_key key)"

definition set_metadata :: "string \<Rightarrow> bytes \<Rightarrow> StorageManager \<Rightarrow> (StorageError, unit) result \<times> StorageManager" where
  "set_metadata key val m = put_in ''metadata'' (metadata_key key) val m"

definition get_transaction :: "StorageManager \<Rightarrow> Hash \<Rightarrow> (StorageError, bytes option) result" where
  "get_transaction m h = engine_get (engine m) ''transactions'' (transaction_key h)"

definition set_transaction :: "Hash \<Rightarrow> bytes \<Rightarrow> StorageManager \<Rightarrow> (StorageError, unit) result \<times> StorageManager" where
  "set_transaction h dat m = put_in ''transactions'' (transaction_key h) dat m"

definition get_account :: "StorageManager \<Rightarrow> bytes \<Rightarrow> (StorageError, AccountState option) result" where
  "get_account m addr =
     (case engine_get (engine m) ''accounts'' (account_key addr) of
        Inl err \<Rightarrow> Inl err
      | Inr None \<Rightarrow> Inr None
      | Inr (Some dat) \<Rightarrow>
          (case run_reader de_account dat of
             Inl err \<Rightarrow> Inl (StSerialization (''Failed to deserialize account: '' @ display_error err))
           | Inr a \<Rightarrow> Inr (Some a)))"

definition set_account :: "bytes \<Rightarrow> AccountState \<Rightarrow> StorageManager \<Rightarrow> (StorageError, unit) result \<times> StorageManager" where
  "set_account addr a m =
     (case serialize_account a of
        Inl err \<Rightarrow> (Inl (StSerialization (''Failed to serialize account: '' @ display_error err)), m)
      | Inr dat \<Rightarrow> put_in ''accounts'' (account_key addr) dat m)"

definition commit_state :: "(bytes \<Rightarrow> bytes) \<Rightarrow> StorageManager \<Rightarrow> (StorageError, Hash) result \<times> StorageManager" where
  "commit_state sha256 m = compute_state_root sha256 m"

definition get_state_root :: "(bytes \<Rightarrow> bytes) \<Rightarrow> StorageManager \<Rightarrow> (StorageError, Hash) result \<times> StorageManager" where
  "get_state_root sha256 m =
     (case current_state_root m of Some r \<Rightarrow> (Inr r, m) | None \<Rightarrow> compute_state_root sha256 m)"

definition set_state_root_cache :: "Hash \<Rightarrow> StorageManager \<Rightarrow> StorageManager" where
  "set_state_root_cache root m = m\<lparr>current_state_root := Some root\<rparr>"

definition get_account_proof ::
  "(bytes \<Rightarrow> bytes) \<Rightarrow> bytes \<Rightarrow> StorageManager
     \<Rightarrow> (StorageError, (Hash \<times> bytes \<times> MerkleProof) option) result \<times> StorageManager" where
  "get_account_proof sha256 key m =
     (case engine_iterator (engine m) ''accounts'' of
        Inl err \<Rightarrow> (Inl err, m)
      | Inr items \<Rightarrow>
          (case compute_root_and_proof_from_iter sha256 items key of
             Inl err \<Rightarrow> (Inl err, m)
           | Inr None \<Rightarrow> (Inr None, m)
           | Inr (Some (root, val, p)) \<Rightarrow> (Inr (Some (root, val, p)), m\<lparr>current_state_root := Some root\<rparr>)))"

definition get_account_proofs_for_keys_with_absence ::
  "(bytes \<Rightarrow> bytes) \<Rightarrow> bytes list \<Rightarrow> StorageManager
     \<Rightarrow> (StorageError, Hash \<times> (bytes \<times> bytes option \<times> MerkleProof) list) result" where
  "get_account_proofs_for_keys_with_absence sha256 keys m =
     (case engine_iterator (engine m) ''accounts'' of
        Inl err \<Rightarrow> Inl err
      | Inr items \<Rightarrow> compute_root_and_multi_proofs_from_iter sha256 items keys)"

definition begin_transaction :: "u64 \<Rightarrow> StorageManager \<Rightarrow> (StorageError, u64) result \<times> StorageManager" where
  "begin_transaction now m =
     (let tid = next_tx_id m; m1 = m\<lparr>next_tx_id := tid + 1\<rparr> in
      case create_transaction now (''tx_'' @ show_nat (unat tid)) m1 of
        (Inl err, m2) \<Rightarrow> (Inl err, m2)
      | (Inr _, m2) \<Rightarrow> (Inr tid, m2))"

fun set_many :: "(bytes \<times> bytes) list \<Rightarrow> StorageManager \<Rightarrow> (StorageError, unit) result \<times> StorageManager" where
  "set_many [] m = (Inr (), m)"
| "set_many ((k, v) # kv) m =
     (case set_state k v m of (Inl err, m') \<Rightarrow> (Inl err, m') | (Inr _, m') \<Rightarrow> set_many kv m')"

fun get_many :: "StorageManager \<Rightarrow> bytes list \<Rightarrow> (StorageError, bytes option list) result" where
  "get_many m [] = Inr []"
| "get_many m (k # ks) =
     (case get_state m k of
        Inl err \<Rightarrow> Inl err
      | Inr v \<Rightarrow> (case get_many m ks of Inl err \<Rightarrow> Inl err | Inr vs \<Rightarrow> Inr (v # vs)))"

section \<open>Engine laws\<close>

lemma map_of_remove: "map_of (filter (\<lambda>(k, v). k \<noteq> key) m) = (map_of m)(key := None)"
  by (induction m) auto

lemma bt_wf_filter: "bt_wf m \<Longrightarrow> bt_wf (filter P m)"
  by (induction m) auto

definition lookup :: "RocksEngine \<Rightarrow> string \<Rightarrow> bytes \<Rightarrow> bytes option" where
  "lookup e cf key = Option.bind (map_of (families e) cf) (\<lambda>m. map_of m key)"

definition has_cf :: "RocksEngine \<Rightarrow> string \<Rightarrow> bool" where
  "has_cf e cf \<longleftrightarrow> cf \<in> set (cf_names e)"

lemma has_cf_iff: "has_cf e cf \<longleftrightarrow> (\<exists>m. map_of (families e) cf = Some m)"
  unfolding has_cf_def cf_names_def using map_of_eq_None_iff[of "families e" cf] by auto

lemma engine_ok_family: "engine_ok e \<Longrightarrow> map_of (families e) cf = Some m \<Longrightarrow> bt_wf m"
  unfolding engine_ok_def by (drule map_of_SomeD, drule conjunct2, drule (1) bspec) simp

lemma hm_insert_subset: "set (hm_insert k v m) \<subseteq> insert (k, v) (set m)"
  by (induction k v m rule: hm_insert.induct) auto

lemma hm_insert_names: "k \<in> fst ` set m \<Longrightarrow> map fst (hm_insert k v m) = map fst m"
  by (induction k v m rule: hm_insert.induct) auto

text \<open>Every write is the update of one family; the laws of the three writers follow from it.\<close>

definition with_family :: "RocksEngine \<Rightarrow> string \<Rightarrow> kvs \<Rightarrow> RocksEngine" where
  "with_family e cf m = \<lparr>families = hm_insert cf m (families e)\<rparr>"

lemma with_family_ok: "engine_ok e \<Longrightarrow> bt_wf m \<Longrightarrow> engine_ok (with_family e cf m)"
  using hm_insert_subset[of cf m "families e"] hm.wf_insert[of "families e" cf m]
  unfolding engine_ok_def with_family_def by auto

lemma lookup_with_family: "lookup (with_family e cf m) = (lookup e)(cf := map_of m)"
  by (simp add: lookup_def with_family_def fun_eq_iff map_of_hm_insert)

lemma names_with_family: "has_cf e cf \<Longrightarrow> cf_names (with_family e cf m) = cf_names e"
  by (simp add: with_family_def cf_names_def has_cf_def hm_insert_names)


lemma lookup_family: "map_of (families e) cf = Some m \<Longrightarrow> lookup e cf = map_of m"
  by (simp add: lookup_def fun_eq_iff)

lemma engine_get_lookup: "has_cf e cf \<Longrightarrow> engine_get e cf key = Inr (lookup e cf key)"
  by (auto simp: engine_get_def cf_handle_def lookup_def has_cf_iff)

lemma has_cf_with_family: "has_cf e cf \<Longrightarrow> has_cf (with_family e cf m) cf' \<longleftrightarrow> has_cf e cf'"
  by (simp add: has_cf_def names_with_family)

lemma engine_put_family:
  assumes "engine_ok e" and "has_cf e cf"
  obtains m where "engine_put e cf key val = Inr (with_family e cf m)" and "bt_wf m" and
    "map_of m = (lookup e cf)(key \<mapsto> val)" and "map_of (families e) cf = Some (the (map_of (families e) cf))"
    and "m = bt_insert key val (the (map_of (families e) cf))"
proof -
  obtain m where m: "map_of (families e) cf = Some m" using assms(2) by (auto simp: has_cf_iff)
  then have "bt_wf m" using assms(1) by (rule engine_ok_family[rotated])
  with m show thesis
    by (intro that[of "bt_insert key val m"])
      (simp_all add: engine_put_def cf_handle_def with_family_def lookup_family bt.wf_insert bt.lookup_insert)
qed

text \<open>One write of a batch, and a batch of them: the last write of a key decides.\<close>

lemma write_one_ok:
  assumes "engine_ok e" and "has_cf e cf"
  shows "engine_ok (write_one (cf, key, v) e)"
    and "lookup (write_one (cf, key, v) e) = (lookup e)(cf := (lookup e cf)(key := v))"
    and "cf_names (write_one (cf, key, v) e) = cf_names e"
proof -
  obtain m where m: "map_of (families e) cf = Some m" using assms(2) by (auto simp: has_cf_iff)
  then have wf: "bt_wf m" using assms(1) by (rule engine_ok_family[rotated])
  let ?m = "case v of None \<Rightarrow> filter (\<lambda>(k, v). k \<noteq> key) m | Some x \<Rightarrow> bt_insert key x m"
  have w: "write_one (cf, key, v) e = with_family e cf ?m"
    by (simp add: write_one_def with_family_def m)
  have "bt_wf ?m" using wf by (simp add: bt_wf_filter bt.wf_insert split: option.split)
  then show "engine_ok (write_one (cf, key, v) e)" unfolding w using assms(1) by (rule with_family_ok[rotated])
  have "map_of ?m = (lookup e cf)(key := v)"
    using wf m by (simp add: map_of_remove bt.lookup_insert lookup_family split: option.split)
  then show "lookup (write_one (cf, key, v) e) = (lookup e)(cf := (lookup e cf)(key := v))"
    unfolding w lookup_with_family by simp
  show "cf_names (write_one (cf, key, v) e) = cf_names e"
    unfolding w using assms(2) by (rule names_with_family)
qed

fun last_write :: "db_write list \<Rightarrow> string \<Rightarrow> bytes \<Rightarrow> bytes option option" where
  "last_write [] cf key = None"
| "last_write ((c, k, v) # ws) cf key =
     (case last_write ws cf key of Some x \<Rightarrow> Some x | None \<Rightarrow> if c = cf \<and> k = key then Some v else None)"

lemma write_batch_ok:
  assumes "engine_ok e" and "\<forall>(cf, k, v) \<in> set ws. has_cf e cf"
  shows "engine_ok (write_batch ws e) \<and> cf_names (write_batch ws e) = cf_names e
    \<and> (\<forall>cf key. lookup (write_batch ws e) cf key =
          (case last_write ws cf key of None \<Rightarrow> lookup e cf key | Some v \<Rightarrow> v))"
  using assms
proof (induction ws arbitrary: e)
  case (Cons w ws)
  obtain c k v where w: "w = (c, k, v)" by (cases w)
  have c: "has_cf e c" using Cons.prems(2) w by simp
  note step = write_one_ok[OF Cons.prems(1) c, of k v]
  have "\<forall>(cf, k, v) \<in> set ws. has_cf (write_one w e) cf"
    using Cons.prems(2) step(3) w by (auto simp: has_cf_def)
  note IH = Cons.IH[of "write_one w e", OF _ this]
  have batch: "write_batch (w # ws) e = write_batch ws (write_one w e)" by (simp add: write_batch_def)
  show ?case unfolding batch using IH step unfolding w by (auto split: option.splits)
qed (simp add: write_batch_def)

lemma stage_operations_cf:
  "stage_operations e ops = Inr (ws, h) \<Longrightarrow> \<forall>(cf, k, v) \<in> set ws. has_cf e cf"
  by (induction ops arbitrary: ws h)
     (fastforce simp: cf_handle_def has_cf_iff split: sum.splits option.splits)+

section \<open>Account records survive storage\<close>

lemma le_u32_len: "n < 2 ^ 32 \<Longrightarrow> unat (of_nat n :: u32) = n"
  by (simp add: unat_of_nat take_bit_nat_eq_self)

lemma read_exact_app: "length xs = n \<Longrightarrow> read_exact msg n (xs @ ys) = Inr (xs, ys)"
  by (simp add: read_exact_def)

lemma pbind_read: "length xs = n \<Longrightarrow> pbind (read_exact msg n) f (xs @ ys) = f xs ys"
  by (simp add: pbind_def read_exact_app)

lemma de_account_type_ser: "de_account_type (ser_account_type t @ ys) = Inr (t, ys)"
  unfolding de_account_type_def ser_account_type_def
  by (subst pbind_read) (simp_all add: preturn_def split: AccountType.split)

lemma pbind_account_type: "pbind de_account_type f (ser_account_type t @ ys) = f t ys"
  by (simp add: pbind_def de_account_type_ser)

lemma account_codec:
  assumes "length (ac_address a) = 21" and "serialize_account a = Inr bs"
  shows "de_account (bs @ ys) = Inr (a, ys)" and "length bs = account_size a"
proof -
  have bal: "length (ac_balance a) < 2 ^ 32" and dat: "\<And>d. ac_data a = Some d \<Longrightarrow> length d < 2 ^ 32"
    and bs: "bs = ac_address a @ ser_account_type (ac_type a)
        @ to_le_bytes (of_nat (length (ac_balance a)) :: u32) @ ac_balance a
        @ (case ac_data a of None \<Rightarrow> [0] | Some d \<Rightarrow> [1] @ to_le_bytes (of_nat (length d) :: u32) @ d)
        @ to_le_bytes (ac_nonce a)"
    using assms(2) by (auto simp: serialize_account_def split: if_splits option.splits)
  show "length bs = account_size a"
    using assms(1) by (simp add: bs account_size_def ser_account_type_def split: option.split)
  have "de_account (bs @ ys) = (pbind (read_exact ''Failed to read data flag: '' 1) (\<lambda>flag.
     pbind (if hd flag = 1
            then pbind (read_exact ''Failed to read data len: '' 4) (\<lambda>m.
                 pbind (read_exact ''Failed to read data: '' (unat (from_le_bytes m :: u32))) (\<lambda>d.
                 preturn (Some d)))
            else preturn None) (\<lambda>dat.
     pbind (read_exact ''Failed to read nonce: '' 8) (\<lambda>w.
     preturn \<lparr>ac_address = ac_address a, ac_type = ac_type a, ac_balance = ac_balance a, ac_data = dat, ac_nonce = from_le_bytes w\<rparr>))))
     ((case ac_data a of None \<Rightarrow> [0] | Some d \<Rightarrow> [1] @ to_le_bytes (of_nat (length d) :: u32) @ d)
        @ to_le_bytes (ac_nonce a) @ ys)"
    using assms(1) bal
    by (simp add: bs de_account_def pbind_read pbind_account_type le_u32_len)
  also have "\<dots> = Inr (a, ys)"
  proof (cases "ac_data a")
    case None
    have "pbind (read_exact ''Failed to read data flag: '' 1) f ([0] @ zs) = f [0] zs" for f :: "bytes \<Rightarrow> AccountState reader" and zs
      by (rule pbind_read) simp
    with None show ?thesis by (simp add: pbind_def[of "preturn _"] preturn_def pbind_read)
  next
    case (Some d)
    have "pbind (read_exact ''Failed to read data flag: '' 1) f ([1] @ zs) = f [1] zs" for f :: "bytes \<Rightarrow> AccountState reader" and zs
      by (rule pbind_read) simp
    moreover have "pbind (read_exact ''Failed to read data len: '' 4) (\<lambda>m.
        pbind (read_exact ''Failed to read data: '' (unat (from_le_bytes m :: u32))) (\<lambda>d. preturn (Some d)))
        (to_le_bytes (of_nat (length d) :: u32) @ d @ zs) = Inr (Some d, zs)" for zs
      using dat[OF Some] by (simp add: pbind_read le_u32_len preturn_def)
    ultimately show ?thesis using Some by (simp add: pbind_run pbind_read preturn_def)
  qed
  finally show "de_account (bs @ ys) = Inr (a, ys)" .
qed

section \<open>The contract of the manager\<close>

definition manager_ok :: "StorageManager \<Rightarrow> bool" where
  "manager_ok m \<longleftrightarrow> engine_ok (engine m) \<and> has_cf (engine m) ''accounts'' \<and> has_cf (engine m) ''metadata''"

lemma put_in_ok:
  assumes "engine_ok (engine m)" and "has_cf (engine m) cf"
  obtains m' where "put_in cf key val m = (Inr (), m')" and "engine_ok (engine m')"
    and "lookup (engine m') = (lookup (engine m))(cf := (lookup (engine m) cf)(key \<mapsto> val))"
    and "cf_names (engine m') = cf_names (engine m)"
    and "m' = m\<lparr>engine := with_family (engine m) cf (bt_insert key val (the (map_of (families (engine m)) cf)))\<rparr>"
proof -
  obtain fam where fam: "engine_put (engine m) cf key val = Inr (with_family (engine m) cf fam)" "bt_wf fam"
    "map_of fam = (lookup (engine m) cf)(key \<mapsto> val)" "fam = bt_insert key val (the (map_of (families (engine m)) cf))"
    using engine_put_family[OF assms, of key val] by metis
  show thesis
    using fam assms
    by (intro that[of "m\<lparr>engine := with_family (engine m) cf fam\<rparr>"])
      (simp_all add: put_in_def with_family_ok lookup_with_family names_with_family)
qed

text \<open>
  What the node sees of its storage: the sorted account keys that the state root is computed
  over, a map of metadata, and the cached root.
\<close>

record Store =
  accounts :: kvs
  metadata :: "string \<Rightarrow> bytes option"
  root_cache :: "Hash option"

definition store_set :: "bytes \<Rightarrow> bytes \<Rightarrow> Store \<Rightarrow> Store" where
  "store_set key val s = s\<lparr>accounts := bt_insert key val (accounts s)\<rparr>"

definition store_delete :: "bytes \<Rightarrow> Store \<Rightarrow> Store" where
  "store_delete key s = s\<lparr>accounts := filter (\<lambda>(k, v). k \<noteq> key) (accounts s)\<rparr>"

definition store_set_meta :: "string \<Rightarrow> bytes \<Rightarrow> Store \<Rightarrow> Store" where
  "store_set_meta key val s = s\<lparr>metadata := (metadata s)(key \<mapsto> val)\<rparr>"

definition store_get :: "Store \<Rightarrow> bytes \<Rightarrow> bytes option" where
  "store_get s = map_of (accounts s)"

definition store_commit :: "(bytes \<Rightarrow> bytes) \<Rightarrow> Store \<Rightarrow> (StorageError, Hash) result \<times> Store" where
  "store_commit sha256 s =
     (case compute_root_from_iter sha256 (accounts s) of
        Inl err \<Rightarrow> (Inl err, s)
      | Inr r \<Rightarrow> (Inr r, s\<lparr>root_cache := Some r\<rparr>))"

definition store_ok :: "Store \<Rightarrow> bool" where
  "store_ok s \<longleftrightarrow> bt_wf (accounts s)"

definition store_of :: "StorageManager \<Rightarrow> Store" where
  "store_of m =
     \<lparr>accounts = the (map_of (families (engine m)) ''accounts''),
      metadata = (\<lambda>k. lookup (engine m) ''metadata'' (metadata_key k)),
      root_cache = current_state_root m\<rparr>"

lemma metadata_key_inject [simp]: "metadata_key a = metadata_key b \<longleftrightarrow> a = b"
  by (simp add: metadata_key_def)

lemma manager_accounts:
  assumes "manager_ok m"
  shows "map_of (families (engine m)) ''accounts'' = Some (accounts (store_of m))"
    and "lookup (engine m) ''accounts'' = store_get (store_of m)"
    and "store_ok (store_of m)"
proof -
  obtain fam where fam: "map_of (families (engine m)) ''accounts'' = Some fam"
    using assms by (auto simp: manager_ok_def has_cf_iff)
  then show "map_of (families (engine m)) ''accounts'' = Some (accounts (store_of m))" by (simp add: store_of_def)
  show "lookup (engine m) ''accounts'' = store_get (store_of m)"
    using fam by (simp add: store_of_def store_get_def lookup_family)
  have "bt_wf fam" using assms fam by (auto simp: manager_ok_def intro: engine_ok_family)
  with fam show "store_ok (store_of m)" by (simp add: store_ok_def store_of_def)
qed

lemma put_in_store:
  assumes "manager_ok m"
  shows "\<exists>m'. put_in ''accounts'' key val m = (Inr (), m') \<and> manager_ok m' \<and> store_of m' = store_set key val (store_of m)"
    and "\<exists>m'. put_in ''metadata'' (metadata_key k) val m = (Inr (), m') \<and> manager_ok m'
          \<and> store_of m' = store_set_meta k val (store_of m)"
proof -
  have ok: "engine_ok (engine m)" "has_cf (engine m) ''accounts''" "has_cf (engine m) ''metadata''"
    using assms by (simp_all add: manager_ok_def)
  obtain m1 where m1: "put_in ''accounts'' key val m = (Inr (), m1)" "engine_ok (engine m1)"
    "lookup (engine m1) = (lookup (engine m))(''accounts'' := (lookup (engine m) ''accounts'')(key \<mapsto> val))"
    "cf_names (engine m1) = cf_names (engine m)"
    "m1 = m\<lparr>engine := with_family (engine m) ''accounts'' (bt_insert key val (the (map_of (families (engine m)) ''accounts'')))\<rparr>"
    using put_in_ok[OF ok(1,2), of key val] by blast
  then have "store_of m1 = store_set key val (store_of m)"
    by (simp add: store_of_def store_set_def with_family_def lookup_def map_of_hm_insert)
  with m1 ok show "\<exists>m'. put_in ''accounts'' key val m = (Inr (), m') \<and> manager_ok m' \<and> store_of m' = store_set key val (store_of m)"
    by (auto simp: manager_ok_def has_cf_def)
  obtain m2 where m2: "put_in ''metadata'' (metadata_key k) val m = (Inr (), m2)" "engine_ok (engine m2)"
    "lookup (engine m2) = (lookup (engine m))(''metadata'' := (lookup (engine m) ''metadata'')(metadata_key k \<mapsto> val))"
    "cf_names (engine m2) = cf_names (engine m)"
    "m2 = m\<lparr>engine := with_family (engine m) ''metadata'' (bt_insert (metadata_key k) val (the (map_of (families (engine m)) ''metadata'')))\<rparr>"
    using put_in_ok[OF ok(1,3), of "metadata_key k" val] by blast
  then have "store_of m2 = store_set_meta k val (store_of m)"
    by (simp add: store_of_def store_set_meta_def fun_eq_iff m2(3)) (simp add: with_family_def map_of_hm_insert)
  with m2 ok show "\<exists>m'. put_in ''metadata'' (metadata_key k) val m = (Inr (), m') \<and> manager_ok m'
          \<and> store_of m' = store_set_meta k val (store_of m)"
    by (auto simp: manager_ok_def has_cf_def)
qed

text \<open>
  The interface the ledger programs against: a store whose reads see the last write, with an
  invariant that writes keep. Sequences of writes and untouched keys are settled once here.
\<close>

locale state_store =
  fixes get :: "'s \<Rightarrow> 'k \<Rightarrow> 'v option" and put :: "'k \<Rightarrow> 'v \<Rightarrow> 's \<Rightarrow> 's" and ok :: "'s \<Rightarrow> bool"
  assumes ok_put: "ok s \<Longrightarrow> ok (put k v s)"
    and get_put: "ok s \<Longrightarrow> get (put k v s) = (get s)(k \<mapsto> v)"
begin

definition put_all :: "('k \<times> 'v) list \<Rightarrow> 's \<Rightarrow> 's" where
  "put_all kvs s = fold (\<lambda>(k, v). put k v) kvs s"

lemma ok_put_all: "ok s \<Longrightarrow> ok (put_all kvs s)"
  by (induction kvs arbitrary: s) (auto simp: put_all_def ok_put)

lemma get_put_all: "ok s \<Longrightarrow> get (put_all kvs s) = get s ++ map_of (rev kvs)"
proof (induction kvs arbitrary: s)
  case (Cons kv kvs)
  obtain k v where kv: "kv = (k, v)" by (cases kv)
  have "get (put_all (kv # kvs) s) = get (put_all kvs (put k v s))" by (simp add: put_all_def kv)
  also have "\<dots> = (get s)(k \<mapsto> v) ++ map_of (rev kvs)"
    by (subst Cons.IH) (auto simp: Cons.prems ok_put get_put)
  finally show ?case by (simp add: kv map_add_def fun_eq_iff split: option.split)
qed (simp add: put_all_def)

lemma get_put_all_other: "ok s \<Longrightarrow> k \<notin> fst ` set kvs \<Longrightarrow> get (put_all kvs s) k = get s k"
  by (auto simp: get_put_all map_add_def split: option.split dest!: map_of_SomeD) force

end

interpretation acc: state_store store_get store_set store_ok
  by unfold_locales (auto simp: store_get_def store_set_def store_ok_def bt.wf_insert bt.lookup_insert)

interpretation meta: state_store metadata store_set_meta store_ok
  by unfold_locales (auto simp: store_set_meta_def store_ok_def)

interpretation eng: state_store "\<lambda>m. lookup (engine m) ''accounts''" "\<lambda>k v m. snd (set_state k v m)" manager_ok
proof unfold_locales
  fix m :: StorageManager and k v :: bytes
  assume ok: "manager_ok m"
  obtain m' where "put_in ''accounts'' k v m = (Inr (), m')" "manager_ok m'" "store_of m' = store_set k v (store_of m)"
    using put_in_store(1)[OF ok, of k v] by blast
  then show "manager_ok (snd (set_state k v m))"
    and "lookup (engine (snd (set_state k v m))) ''accounts'' = (lookup (engine m) ''accounts'')(k \<mapsto> v)"
    using manager_accounts[OF ok] by (simp_all add: set_state_def manager_accounts acc.get_put)
qed

lemma store_of_cache: "store_of (m\<lparr>current_state_root := c\<rparr>) = (store_of m)\<lparr>root_cache := c\<rparr>"
  by (simp add: store_of_def)

lemma commit_state_store:
  assumes "manager_ok m"
  shows "commit_state sha256 m =
    (case compute_root_from_iter sha256 (accounts (store_of m)) of
       Inl err \<Rightarrow> (Inl err, m) | Inr r \<Rightarrow> (Inr r, m\<lparr>current_state_root := Some r\<rparr>))"
  by (simp add: commit_state_def compute_state_root_def engine_iterator_def cf_handle_def manager_accounts(1)[OF assms])

text \<open>
  C6: The storage manager implements the store the ledger is written against: on a manager with
  the two column families, every read and write of state and metadata succeeds, keeps the
  manager well formed and commutes with the abstraction, \<open>commit\<close> caches and returns the sparse
  Merkle root of exactly the stored accounts, and a later \<open>get_state_root\<close> returns that root.
\<close>

theorem manager_refines_store:
  assumes "manager_ok m"
  shows "get_state m key = Inr (store_get (store_of m) key)
    \<and> get_metadata m k = Inr (metadata (store_of m) k)
    \<and> (case set_state key val m of (r, m') \<Rightarrow> r = Inr () \<and> manager_ok m' \<and> store_of m' = store_set key val (store_of m))
    \<and> (case set_metadata k val m of (r, m') \<Rightarrow> r = Inr () \<and> manager_ok m' \<and> store_of m' = store_set_meta k val (store_of m))
    \<and> (case commit_state sha256 m of (r, m') \<Rightarrow> manager_ok m' \<and> store_commit sha256 (store_of m) = (r, store_of m')
           \<and> (\<forall>root. r = Inr root \<longrightarrow> get_state_root sha256 m' = (Inr root, m')))"
proof (intro conjI)
  have cf: "has_cf (engine m) ''accounts''" "has_cf (engine m) ''metadata''"
    using assms by (simp_all add: manager_ok_def)
  show "get_state m key = Inr (store_get (store_of m) key)"
    by (simp add: get_state_def engine_get_lookup[OF cf(1)] manager_accounts[OF assms])
  show "get_metadata m k = Inr (metadata (store_of m) k)"
    by (simp add: get_metadata_def engine_get_lookup[OF cf(2)] store_of_def)
  show "case set_state key val m of (r, m') \<Rightarrow> r = Inr () \<and> manager_ok m' \<and> store_of m' = store_set key val (store_of m)"
    using put_in_store(1)[OF assms, of key val] by (auto simp: set_state_def)
  show "case set_metadata k val m of (r, m') \<Rightarrow> r = Inr () \<and> manager_ok m' \<and> store_of m' = store_set_meta k val (store_of m)"
    using put_in_store(2)[OF assms, of k val] by (auto simp: set_metadata_def)
  show "case commit_state sha256 m of (r, m') \<Rightarrow> manager_ok m' \<and> store_commit sha256 (store_of m) = (r, store_of m')
           \<and> (\<forall>root. r = Inr root \<longrightarrow> get_state_root sha256 m' = (Inr root, m'))"
    using assms unfolding commit_state_store[OF assms] store_commit_def
    by (auto simp: store_of_cache get_state_root_def manager_ok_def split: sum.split)
qed

definition example_manager :: StorageManager where
  "example_manager =
     \<lparr>engine = \<lparr>families = [(''accounts'', [([1], [2])]), (''metadata'', [])]\<rparr>, batches = [], pending_transactions = [],
      current_state_root = None, next_tx_id = 1\<rparr>"

theorem manager_refines_store_witness:
  "manager_ok example_manager \<and> get_state example_manager [1] = Inr (Some [2])
   \<and> get_metadata example_manager ''x'' = Inr None"
proof -
  have "manager_ok example_manager"
    by (simp add: manager_ok_def example_manager_def engine_ok_def has_cf_def cf_names_def)
  then show ?thesis
    using manager_refines_store[of example_manager "[1]" "''x''"]
    by (simp add: store_of_def store_get_def example_manager_def lookup_def)
qed

text \<open>
  C21: A batch commits atomically. When it fails, nothing is written and the batch is as before;
  when it succeeds, every key holds what the last operation of the batch on it wrote (or is gone
  if that was a deletion), every other key is untouched, no column family appears or
  disappears, and the batch refuses any further operation and a second commit.
\<close>

theorem batch_commit_atomic:
  assumes "engine_ok e"
  shows "case batch_commit sha256 e b of
      (Inl err, e', b') \<Rightarrow> e' = e \<and> b' = b
    | (Inr h, e', b') \<Rightarrow>
        (\<exists>ws. stage_operations e (operations b) = Inr ws
           \<and> (\<forall>cf key. lookup e' cf key = (case last_write (fst ws) cf key of None \<Rightarrow> lookup e cf key | Some v \<Rightarrow> v)))
        \<and> engine_ok e' \<and> cf_names e' = cf_names e
        \<and> (\<forall>op. \<exists>err. add_operation op b' = Inl err) \<and> (\<exists>err. batch_commit sha256 e' b' = (Inl err, e', b'))"
proof (cases "check_not_committed b")
  case (Inr u)
  show ?thesis
  proof (cases "operations b = [] \<or> (\<exists>err. stage_operations e (operations b) = Inl err)")
    case True
    with Inr show ?thesis by (auto simp: batch_commit_def)
  next
    case False
    then obtain ws h where ws: "operations b \<noteq> []" "stage_operations e (operations b) = Inr (ws, h)"
      by (cases "stage_operations e (operations b)") auto
    have "engine_ok (write_batch ws e) \<and> cf_names (write_batch ws e) = cf_names e
      \<and> (\<forall>cf key. lookup (write_batch ws e) cf key =
          (case last_write ws cf key of None \<Rightarrow> lookup e cf key | Some v \<Rightarrow> v))"
      by (rule write_batch_ok[OF assms stage_operations_cf[OF ws(2)]])
    with Inr ws show ?thesis by (simp add: batch_commit_def add_operation_def check_not_committed_def)
  qed
qed (simp add: batch_commit_def)

theorem batch_commit_atomic_witness:
  "engine_ok (engine example_manager)
   \<and> (case batch_commit (\<lambda>_. [7]) (engine example_manager)
            ((new_batch 0 ''t'')\<lparr>operations := [PutMetadata ''k'' [5], DeleteMetadata ''k'', PutMetadata ''l'' [6]]\<rparr>) of
        (Inr h, e', b') \<Rightarrow> h = [7] \<and> committed b' \<and> engine_ok e' | _ \<Rightarrow> False)"
proof -
  have ok: "engine_ok (engine example_manager)"
    by (simp add: example_manager_def engine_ok_def)
  show ?thesis
    using ok batch_commit_atomic[OF ok, where ?sha256.0 = "\<lambda>_. [7]" and b = "(new_batch 0 ''t'')\<lparr>operations := [PutMetadata ''k'' [5], DeleteMetadata ''k'', PutMetadata ''l'' [6]]\<rparr>"]
    by (simp add: batch_commit_def check_not_committed_def new_batch_def op_writes_def op_family_def cf_handle_def example_manager_def)
qed

text \<open>
  Committing through the manager: the transaction is no longer pending whatever the outcome (a
  failed batch cannot be retried under its name), and after a success the cached root is the
  root of the accounts as written.
\<close>

lemma commit_transaction_outcome:
  assumes "map_of (pending_transactions m) tid = Some i"
  shows "case commit_transaction sha256 tid m of
      (r, m') \<Rightarrow> map_of (pending_transactions m') tid = None
        \<and> (case r of Inl err \<Rightarrow> True
            | Inr h \<Rightarrow> engine m' = fst (snd (batch_commit sha256 (engine m) (batches m ! i)))
                \<and> (\<exists>items root. engine_iterator (engine m') ''accounts'' = Inr items
                     \<and> compute_root_from_iter sha256 items = Inr root \<and> current_state_root m' = Some root))"
  using assms
  by (auto simp: commit_transaction_def Let_def compute_state_root_def engine_iterator_def map_of_remove
      split: prod.splits sum.splits)

text \<open>
  The hash of a batch does not separate keys from values: two batches that write different
  metadata have the same commit hash, for every hash function.
\<close>

lemma batch_hash_ambiguous:
  "fst (batch_commit sha256 (engine example_manager) ((new_batch 0 t)\<lparr>operations := [PutMetadata ''a'' (as_bytes ''bc'')]\<rparr>))
   = fst (batch_commit sha256 (engine example_manager) ((new_batch 0 t)\<lparr>operations := [PutMetadata ''ab'' (as_bytes ''c'')]\<rparr>))"
  by (simp add: batch_commit_def check_not_committed_def new_batch_def op_writes_def op_family_def cf_handle_def
      example_manager_def hash_input_def metadata_key_def as_bytes_def)

text \<open>
  An account written to storage is read back field by field, for every account type, balance
  encoding and contract data, and no other account changes.
\<close>

theorem account_set_get:
  assumes "manager_ok m" and "length (ac_address a) = 21" and "set_account addr a m = (Inr (), m')"
  shows "get_account m' addr = Inr (Some a) \<and> manager_ok m'
    \<and> (\<forall>other. other \<noteq> addr \<longrightarrow> get_account m' other = get_account m other)"
proof -
  obtain bs where bs: "serialize_account a = Inr bs" and put: "put_in ''accounts'' (account_key addr) bs m = (Inr (), m')"
    using assms(3) by (auto simp: set_account_def split: sum.splits)
  have ok': "manager_ok m'" and st: "store_of m' = store_set (account_key addr) bs (store_of m)"
    using put_in_store(1)[OF assms(1), of "account_key addr" bs] put by auto
  have get: "engine_get (engine m') ''accounts'' = (\<lambda>k. Inr (((store_get (store_of m))(account_key addr \<mapsto> bs)) k))"
    using ok' st manager_accounts(3)[OF assms(1)]
    by (auto simp: manager_ok_def engine_get_lookup manager_accounts(2)[OF ok'] acc.get_put fun_eq_iff)
  have get0: "engine_get (engine m) ''accounts'' k = Inr (store_get (store_of m) k)" for k
    using assms(1) by (auto simp: manager_ok_def engine_get_lookup manager_accounts(2)[OF assms(1)])
  have "run_reader de_account bs = Inr a"
    using account_codec(1)[OF assms(2) bs, of "[]"] by (simp add: run_reader_def)
  then show ?thesis
    using ok' by (simp add: get_account_def get get0 account_key_def)
qed

definition example_account :: AccountState where
  "example_account = \<lparr>ac_address = replicate 21 3, ac_type = AccountContract, ac_balance = [1, 2], ac_data = Some [9], ac_nonce = 5\<rparr>"

theorem account_set_get_witness:
  "manager_ok example_manager \<and> length (ac_address example_account) = 21
   \<and> (case set_account [4] example_account example_manager of
        (Inr u, m') \<Rightarrow> get_account m' [4] = Inr (Some example_account) | _ \<Rightarrow> False)"
proof -
  have ok: "manager_ok example_manager"
    by (simp add: manager_ok_def example_manager_def engine_ok_def has_cf_def cf_names_def)
  have len: "length (ac_address example_account) = 21" by (simp add: example_account_def)
  obtain bs where "serialize_account example_account = Inr bs"
    by (simp add: serialize_account_def example_account_def)
  then obtain m' where "set_account [4] example_account example_manager = (Inr (), m')"
    using put_in_store(1)[OF ok, of "account_key [4]" bs] by (auto simp: set_account_def)
  with account_set_get[OF ok len this] ok len show ?thesis by simp
qed

end
