(* ===== verification/Snapshots.thy ===== *)
theory Snapshots
  imports Storage
begin

text \<open>
  Snapshots of the database (\<open>catalyst-storage/src/snapshot.rs\<close>): every column family is dumped as
  length-prefixed keys and values into a file of the snapshot's data directory, and read back by
  a restore that first clears the database. The disk is a table of data directories, each a
  table of files; the JSON metadata files, export and import are left out. SHA-256 and the
  clock are parameters.
\<close>

section \<open>Dumps of a column family\<close>

definition dump_entry :: "bytes \<times> bytes \<Rightarrow> bytes" where
  "dump_entry kv =
     to_le_bytes (of_nat (length (fst kv)) :: u32) @ fst kv @ to_le_bytes (of_nat (length (snd kv)) :: u32) @ snd kv"

definition dump_family :: "kvs \<Rightarrow> bytes" where
  "dump_family m = concat (map dump_entry m)"

definition compress_data :: "bytes \<Rightarrow> bytes" where "compress_data dat = 1 # dat"

definition decompress_data :: "bytes \<Rightarrow> bytes" where
  "decompress_data dat = (case dat of [] \<Rightarrow> [] | b # r \<Rightarrow> if b = 1 then r else dat)"

function load_column_family_data ::
  "string \<Rightarrow> bytes \<Rightarrow> RocksEngine \<Rightarrow> (StorageError, unit) result \<times> RocksEngine" where
  "load_column_family_data cf dat e =
     (if dat = [] \<or> length dat < 4 then (Inr (), e)
      else
        let key_len = unat (from_le_bytes (take 4 dat) :: u32); d1 = drop 4 dat in
        if length d1 < key_len then (Inr (), e)
        else
          let key = take key_len d1; d2 = drop key_len d1 in
          if length d2 < 4 then (Inr (), e)
          else
            let value_len = unat (from_le_bytes (take 4 d2) :: u32); d3 = drop 4 d2 in
            if length d3 < value_len then (Inr (), e)
            else
              (case engine_put e cf key (take value_len d3) of
                 Inl err \<Rightarrow> (Inl err, e)
               | Inr e' \<Rightarrow> load_column_family_data cf (drop value_len d3) e'))"
  by pat_completeness auto
termination by (relation "measure (\<lambda>(cf, dat, e). length dat)") auto

declare load_column_family_data.simps [simp del]

section \<open>Clearing the database\<close>

fun delete_keys :: "string \<Rightarrow> bytes list \<Rightarrow> RocksEngine \<Rightarrow> (StorageError, unit) result \<times> RocksEngine" where
  "delete_keys cf [] e = (Inr (), e)"
| "delete_keys cf (k # ks) e =
     (case engine_delete e cf k of Inl err \<Rightarrow> (Inl err, e) | Inr e' \<Rightarrow> delete_keys cf ks e')"

fun clear_families :: "string list \<Rightarrow> RocksEngine \<Rightarrow> (StorageError, unit) result \<times> RocksEngine" where
  "clear_families [] e = (Inr (), e)"
| "clear_families (cf # cfs) e =
     (if cf = ''default'' then clear_families cfs e
      else
        (case engine_iterator e cf of
           Inl err \<Rightarrow> (Inl err, e)
         | Inr items \<Rightarrow>
             (case delete_keys cf (map fst items) e of
                (Inl err, e') \<Rightarrow> (Inl err, e')
              | (Inr _, e') \<Rightarrow> clear_families cfs e')))"

definition clear_database :: "RocksEngine \<Rightarrow> (StorageError, unit) result \<times> RocksEngine" where
  "clear_database e = clear_families (cf_names e) e"

section \<open>Snapshots and their manager\<close>

record SnapshotMetadata =
  sn_version :: u32
  compression_enabled :: bool
  column_families :: "string list"
  total_size :: u64
  key_count :: "(string \<times> u64) list"
  description :: "string option"
  tags :: "string list"

record Snapshot =
  sn_name :: string
  sn_created_at :: u64
  sn_state_root :: Hash
  sn_metadata :: SnapshotMetadata

record SnapshotManager =
  compress_snapshots :: bool
  max_snapshots :: nat
  snapshots :: "(string \<times> Snapshot) list"
  disk :: "(string \<times> (string \<times> bytes) list) list"

definition STORAGE_VERSION :: u32 where "STORAGE_VERSION = 1"

definition data_dir :: "string \<Rightarrow> string" where "data_dir name = name @ ''_data''"
definition cf_file :: "string \<Rightarrow> string" where "cf_file cf = cf @ ''.sst''"

fun hash_families :: "RocksEngine \<Rightarrow> string list \<Rightarrow> (StorageError, bytes) result" where
  "hash_families e [] = Inr []"
| "hash_families e (cf # cfs) =
     (case engine_iterator e cf of
        Inl err \<Rightarrow> Inl err
      | Inr items \<Rightarrow>
          (case hash_families e cfs of
             Inl err \<Rightarrow> Inl err
           | Inr rest \<Rightarrow> Inr (as_bytes cf @ concat (map (\<lambda>(k, v). k @ v) items) @ rest)))"

definition calculate_state_root :: "(bytes \<Rightarrow> bytes) \<Rightarrow> RocksEngine \<Rightarrow> (StorageError, Hash) result" where
  "calculate_state_root sha256 e =
     (case hash_families e (cf_names e) of Inl err \<Rightarrow> Inl err | Inr bs \<Rightarrow> Inr (sha256 bs))"

fun count_families :: "RocksEngine \<Rightarrow> string list \<Rightarrow> (StorageError, (string \<times> u64) list \<times> u64) result" where
  "count_families e [] = Inr ([], 0)"
| "count_families e (cf # cfs) =
     (case engine_iterator e cf of
        Inl err \<Rightarrow> Inl err
      | Inr items \<Rightarrow>
          (case count_families e cfs of
             Inl err \<Rightarrow> Inl err
           | Inr (counts, tot) \<Rightarrow>
               Inr (hm_insert cf (of_nat (length items)) counts,
                    of_nat (sum_list (map (\<lambda>(k, v). length k + length v) items)) + tot)))"

definition collect_snapshot_metadata :: "bool \<Rightarrow> RocksEngine \<Rightarrow> (StorageError, SnapshotMetadata) result" where
  "collect_snapshot_metadata compress e =
     (case count_families e (cf_names e) of
        Inl err \<Rightarrow> Inl err
      | Inr (counts, tot) \<Rightarrow>
          Inr \<lparr>sn_version = STORAGE_VERSION, compression_enabled = compress, column_families = cf_names e,
               total_size = tot, key_count = counts, description = None, tags = []\<rparr>)"

text \<open>Files of a data directory, one per column family.\<close>

fun write_families ::
  "bool \<Rightarrow> RocksEngine \<Rightarrow> string list \<Rightarrow> (string \<times> bytes) list \<Rightarrow> (StorageError, unit) result \<times> (string \<times> bytes) list" where
  "write_families compress e [] files = (Inr (), files)"
| "write_families compress e (cf # cfs) files =
     (case engine_iterator e cf of
        Inl err \<Rightarrow> (Inl err, files)
      | Inr items \<Rightarrow>
          let cf_data = dump_family items;
              final_data = (if compress then compress_data cf_data else cf_data)
          in write_families compress e cfs (hm_insert (cf_file cf) final_data files))"

definition write_snapshot_data ::
  "RocksEngine \<Rightarrow> Snapshot \<Rightarrow> SnapshotManager \<Rightarrow> (StorageError, unit) result \<times> SnapshotManager" where
  "write_snapshot_data e sn sm =
     (let dir = data_dir (sn_name sn);
          files0 = (case map_of (disk sm) dir of None \<Rightarrow> [] | Some fs \<Rightarrow> fs);
          (r, files) = write_families (compress_snapshots sm) e (column_families (sn_metadata sn)) files0
      in (r, sm\<lparr>disk := hm_insert dir files (disk sm)\<rparr>))"

definition delete_snapshot :: "string \<Rightarrow> SnapshotManager \<Rightarrow> (StorageError, unit) result \<times> SnapshotManager" where
  "delete_snapshot name sm =
     (case map_of (snapshots sm) name of
        None \<Rightarrow> (Inl (StSnapshot (''Snapshot '' @ [CHR 0x27] @ name @ [CHR 0x27] @ '' not found'')), sm)
      | Some _ \<Rightarrow>
          (Inr (), sm\<lparr>snapshots := filter (\<lambda>(n, _). n \<noteq> name) (snapshots sm),
                     disk := filter (\<lambda>(d, _). d \<noteq> data_dir name) (disk sm)\<rparr>))"

definition PROTECTED_SNAPSHOT_PREFIX :: string where "PROTECTED_SNAPSHOT_PREFIX = ''consensus_checkpoint_''"

definition starts_with :: "string \<Rightarrow> string \<Rightarrow> bool" where
  "starts_with s p \<longleftrightarrow> take (length p) s = p"

definition old_snapshots :: "SnapshotManager \<Rightarrow> string list" where
  "old_snapshots sm =
     (let times = map (\<lambda>(_, s). (sn_created_at s, sn_name s))
                    (filter (\<lambda>(_, s). \<not> starts_with (sn_name s) PROTECTED_SNAPSHOT_PREFIX) (snapshots sm));
          count = length times
      in if count \<le> max_snapshots sm then []
         else map snd (take (count - max_snapshots sm) (sort_key fst times)))"

definition cleanup_old_snapshots :: "SnapshotManager \<Rightarrow> SnapshotManager" where
  "cleanup_old_snapshots sm = fold (\<lambda>name s. snd (delete_snapshot name s)) (old_snapshots sm) sm"

definition create_snapshot ::
  "(bytes \<Rightarrow> bytes) \<Rightarrow> u64 \<Rightarrow> string \<Rightarrow> RocksEngine \<Rightarrow> SnapshotManager \<Rightarrow> (StorageError, Snapshot) result \<times> SnapshotManager" where
  "create_snapshot sha256 now_ms name e sm =
     (if map_of (snapshots sm) name \<noteq> None
      then (Inl (StSnapshot (''Snapshot '' @ [CHR 0x27] @ name @ [CHR 0x27] @ '' already exists'')), sm)
      else
        (case calculate_state_root sha256 e of
           Inl err \<Rightarrow> (Inl err, sm)
         | Inr root \<Rightarrow>
             (case collect_snapshot_metadata (compress_snapshots sm) e of
                Inl err \<Rightarrow> (Inl err, sm)
              | Inr md \<Rightarrow>
                  let sn = \<lparr>sn_name = name, sn_created_at = now_ms, sn_state_root = root, sn_metadata = md\<rparr> in
                  (case write_snapshot_data e sn sm of
                     (Inl err, sm1) \<Rightarrow> (Inl err, sm1)
                   | (Inr _, sm1) \<Rightarrow>
                       (Inr sn, cleanup_old_snapshots (sm1\<lparr>snapshots := hm_insert name sn (snapshots sm1)\<rparr>))))))"

section \<open>Restoring\<close>

fun load_families ::
  "(string \<times> bytes) list \<Rightarrow> string list \<Rightarrow> RocksEngine \<Rightarrow> (StorageError, unit) result \<times> RocksEngine" where
  "load_families files [] e = (Inr (), e)"
| "load_families files (cf # cfs) e =
     (case map_of files (cf_file cf) of
        None \<Rightarrow> load_families files cfs e
      | Some file_data \<Rightarrow>
          (case load_column_family_data cf (decompress_data file_data) e of
             (Inl err, e') \<Rightarrow> (Inl err, e')
           | (Inr _, e') \<Rightarrow> load_families files cfs e'))"

definition load_snapshot_data ::
  "SnapshotManager \<Rightarrow> Snapshot \<Rightarrow> RocksEngine \<Rightarrow> (StorageError, unit) result \<times> RocksEngine" where
  "load_snapshot_data sm sn e =
     (case map_of (disk sm) (data_dir (sn_name sn)) of
        None \<Rightarrow> (Inl (StSnapshot (''Snapshot data directory not found for '' @ [CHR 0x27] @ sn_name sn @ [CHR 0x27])), e)
      | Some files \<Rightarrow> load_families files (column_families (sn_metadata sn)) e)"

definition load_snapshot ::
  "SnapshotManager \<Rightarrow> string \<Rightarrow> RocksEngine \<Rightarrow> (StorageError, unit) result \<times> RocksEngine" where
  "load_snapshot sm name e =
     (case map_of (snapshots sm) name of
        None \<Rightarrow> (Inl (StSnapshot (''Snapshot '' @ [CHR 0x27] @ name @ [CHR 0x27] @ '' not found'')), e)
      | Some sn \<Rightarrow>
          (case clear_database e of
             (Inl err, e') \<Rightarrow> (Inl err, e')
           | (Inr _, e') \<Rightarrow> load_snapshot_data sm sn e'))"

section \<open>What a restore brings back\<close>

lemma engine_put_ok:
  assumes "engine_ok e" and "has_cf e cf"
  shows "\<exists>e'. engine_put e cf k v = Inr e' \<and> engine_ok e' \<and> cf_names e' = cf_names e
    \<and> lookup e' = (lookup e)(cf := (lookup e cf)(k \<mapsto> v))"
proof -
  obtain m where "engine_put e cf k v = Inr (with_family e cf m)" "bt_wf m" "map_of m = (lookup e cf)(k \<mapsto> v)"
    using engine_put_family[OF assms, of k v] by metis
  with assms show ?thesis by (auto simp: with_family_ok names_with_family lookup_with_family)
qed

lemma engine_delete_ok:
  assumes "engine_ok e" and "has_cf e cf"
  shows "\<exists>e'. engine_delete e cf k = Inr e' \<and> engine_ok e' \<and> cf_names e' = cf_names e
    \<and> lookup e' = (lookup e)(cf := (lookup e cf)(k := None))"
proof -
  have "engine_delete e cf k = Inr (write_one (cf, k, None) e)"
    using assms(2) by (auto simp: engine_delete_def cf_handle_def has_cf_iff write_one_def)
  with write_one_ok[OF assms, of k None] show ?thesis by auto
qed

definition sized :: "kvs \<Rightarrow> bool" where
  "sized m \<longleftrightarrow> (\<forall>(k, v) \<in> set m. length k < 2 ^ 32 \<and> length v < 2 ^ 32)"

lemma load_entry:
  assumes "length k < 2 ^ 32" and "length v < 2 ^ 32"
  shows "load_column_family_data cf (dump_entry (k, v) @ rest) e =
    (case engine_put e cf k v of Inl err \<Rightarrow> (Inl err, e) | Inr e' \<Rightarrow> load_column_family_data cf rest e')"
proof -
  have "to_le_bytes (w :: u32) \<noteq> []" for w
    using length_to_le_bytes[of w] by (cases "to_le_bytes w") auto
  then show ?thesis
    using assms by (subst load_column_family_data.simps) (simp add: dump_entry_def le_u32_len split: sum.split)
qed

lemma load_dump:
  assumes "engine_ok e" and "has_cf e cf" and "sized m" and "bt_wf m"
  shows "\<exists>e'. load_column_family_data cf (dump_family m) e = (Inr (), e') \<and> engine_ok e' \<and> cf_names e' = cf_names e
    \<and> lookup e' = (lookup e)(cf := lookup e cf ++ map_of m)"
  using assms
proof (induction m arbitrary: e)
  case Nil
  then show ?case by (simp add: dump_family_def load_column_family_data.simps)
next
  case (Cons kv m)
  obtain k v where kv: "kv = (k, v)" by (cases kv)
  obtain e1 where e1: "engine_put e cf k v = Inr e1" "engine_ok e1" "cf_names e1 = cf_names e"
    "lookup e1 = (lookup e)(cf := (lookup e cf)(k \<mapsto> v))"
    using engine_put_ok[OF Cons.prems(1,2), of k v] by auto
  then have "has_cf e1 cf" using Cons.prems(2) by (simp add: has_cf_def)
  then obtain e' where e': "load_column_family_data cf (dump_family m) e1 = (Inr (), e')" "engine_ok e'"
    "cf_names e' = cf_names e1" "lookup e' = (lookup e1)(cf := lookup e1 cf ++ map_of m)"
    using Cons.IH[OF e1(2)] Cons.prems(3,4) unfolding sized_def
    by (metis (no_types, lifting) list.set_intros(2) list.simps(9) sorted_wrt.simps(2))
  have "length k < 2 ^ 32" "length v < 2 ^ 32" using Cons.prems(3) kv by (auto simp: sized_def)
  then have "load_column_family_data cf (dump_family (kv # m)) e = (Inr (), e')"
    using load_entry[of k v cf "dump_family m" e] e1 e' kv by (simp add: dump_family_def)
  moreover have "map_of m k = None"
    using Cons.prems(4) kv by (auto simp: map_of_eq_None_iff)
  ultimately show ?case
    using e1 e' kv by (auto simp: fun_eq_iff map_add_def split: option.split)
qed

text \<open>
  A dump is read back as written if it was marked as compressed, or if its first byte, the low
  byte of the first key's length, is not the mark.
\<close>

definition marked_by_accident :: "kvs \<Rightarrow> bool" where
  "marked_by_accident m \<longleftrightarrow> (case m of [] \<Rightarrow> False | (k, v) # _ \<Rightarrow> length k mod 256 = 1)"

lemma to_le_bytes_low: "to_le_bytes (w :: u32) = of_nat (unat w) # le_bytes 3 (unat w div 256)"
  using le_bytes.simps(2)[of 3 "unat w"] by (simp add: to_le_bytes_def)

lemma decompress_dump:
  assumes "compress \<or> \<not> marked_by_accident m" and "sized m"
  shows "decompress_data (if compress then compress_data (dump_family m) else dump_family m) = dump_family m"
proof (cases m)
  case (Cons kv r)
  obtain k v where kv: "kv = (k, v)" by (cases kv)
  have k: "length k < 2 ^ 32" using assms(2) Cons kv by (auto simp: sized_def)
  have "(of_nat (length k) :: byte) = 1 \<longleftrightarrow> length k mod 256 = 1"
    by (simp add: word_unat_eq_iff unat_of_nat take_bit_eq_mod)
  moreover have "\<exists>t. dump_family m = of_nat (length k) # t"
    by (simp add: Cons kv dump_family_def dump_entry_def to_le_bytes_low le_u32_len[OF k])
  ultimately show ?thesis
    using assms(1) Cons kv by (auto simp: decompress_data_def compress_data_def marked_by_accident_def)
qed (simp add: decompress_data_def compress_data_def dump_family_def)

lemma cf_file_inject [simp]: "cf_file a = cf_file b \<longleftrightarrow> a = b"
  by (simp add: cf_file_def)

lemma data_dir_inject [simp]: "data_dir a = data_dir b \<longleftrightarrow> a = b"
  by (simp add: data_dir_def)

lemma write_families_ok:
  assumes "\<forall>cf \<in> set cfs. has_cf e cf"
  shows "\<exists>files'. write_families c e cfs files = (Inr (), files')
    \<and> (\<forall>cf. map_of files' (cf_file cf) =
         (if cf \<in> set cfs then
            Some (let d = dump_family (the (map_of (families e) cf)) in if c then compress_data d else d)
          else map_of files (cf_file cf)))"
  using assms
proof (induction cfs arbitrary: files)
  case (Cons cf cfs)
  obtain m where m: "map_of (families e) cf = Some m" using Cons.prems by (auto simp: has_cf_iff)
  let ?f = "hm_insert (cf_file cf) (if c then compress_data (dump_family m) else dump_family m) files"
  obtain files' where f': "write_families c e cfs ?f = (Inr (), files')"
    "\<forall>x. map_of files' (cf_file x) =
         (if x \<in> set cfs then
            Some (let d = dump_family (the (map_of (families e) x)) in if c then compress_data d else d)
          else map_of ?f (cf_file x))"
    using Cons.IH[of ?f] Cons.prems by auto
  then have "write_families c e (cf # cfs) files = (Inr (), files')"
    by (simp add: engine_iterator_def cf_handle_def m Let_def)
  with f'(2) m show ?case by (auto simp: map_of_hm_insert Let_def)
qed simp

lemma load_families_ok:
  assumes "engine_ok e" and "distinct cfs"
    and "\<forall>cf \<in> set cfs. has_cf e cf \<and> sized (fam cf) \<and> bt_wf (fam cf)
           \<and> (\<exists>d. map_of files (cf_file cf) = Some d \<and> decompress_data d = dump_family (fam cf))"
  shows "\<exists>e'. load_families files cfs e = (Inr (), e') \<and> engine_ok e' \<and> cf_names e' = cf_names e
    \<and> (\<forall>cf. lookup e' cf = (if cf \<in> set cfs then lookup e cf ++ map_of (fam cf) else lookup e cf))"
  using assms
proof (induction cfs arbitrary: e)
  case (Cons cf cfs)
  obtain d where d: "map_of files (cf_file cf) = Some d" "decompress_data d = dump_family (fam cf)"
    using Cons.prems(3) by auto
  obtain e1 where e1: "load_column_family_data cf (dump_family (fam cf)) e = (Inr (), e1)" "engine_ok e1"
    "cf_names e1 = cf_names e" "lookup e1 = (lookup e)(cf := lookup e cf ++ map_of (fam cf))"
    using load_dump[OF Cons.prems(1), of cf "fam cf"] Cons.prems(3) by auto
  obtain e' where e': "load_families files cfs e1 = (Inr (), e')" "engine_ok e'" "cf_names e' = cf_names e1"
    "\<forall>x. lookup e' x = (if x \<in> set cfs then lookup e1 x ++ map_of (fam x) else lookup e1 x)"
    using Cons.IH[OF e1(2)] Cons.prems(2,3) e1(3) by (auto simp: has_cf_def)
  have "load_families files (cf # cfs) e = (Inr (), e')" using d e1(1) e'(1) by simp
  with e1 e' Cons.prems(2) show ?case by auto
qed simp

lemma delete_keys_ok:
  assumes "engine_ok e" and "has_cf e cf"
  shows "\<exists>e'. delete_keys cf ks e = (Inr (), e') \<and> engine_ok e' \<and> cf_names e' = cf_names e
    \<and> lookup e' = (lookup e)(cf := (\<lambda>k. if k \<in> set ks then None else lookup e cf k))"
  using assms
proof (induction ks arbitrary: e)
  case (Cons k ks)
  obtain e1 where e1: "engine_delete e cf k = Inr e1" "engine_ok e1" "cf_names e1 = cf_names e"
    "lookup e1 = (lookup e)(cf := (lookup e cf)(k := None))"
    using engine_delete_ok[OF Cons.prems, of k] by blast
  then have "has_cf e1 cf" using Cons.prems(2) by (simp add: has_cf_def)
  with Cons.IH[OF e1(2)] obtain e' where "delete_keys cf ks e1 = (Inr (), e')" "engine_ok e'"
    "cf_names e' = cf_names e1" "lookup e' = (lookup e1)(cf := (\<lambda>k. if k \<in> set ks then None else lookup e1 cf k))"
    by blast
  with e1 show ?case by (auto simp: fun_eq_iff)
qed simp

lemma clear_families_ok:
  assumes "engine_ok e" and "\<forall>cf \<in> set cfs. has_cf e cf"
  shows "\<exists>e'. clear_families cfs e = (Inr (), e') \<and> engine_ok e' \<and> cf_names e' = cf_names e
    \<and> (\<forall>cf. lookup e' cf = (if cf \<in> set cfs \<and> cf \<noteq> ''default'' then Map.empty else lookup e cf))"
  using assms
proof (induction cfs arbitrary: e)
  case (Cons cf cfs)
  show ?case
  proof (cases "cf = ''default''")
    case True
    obtain e' where "clear_families cfs e = (Inr (), e')" "engine_ok e'" "cf_names e' = cf_names e"
      "\<forall>x. lookup e' x = (if x \<in> set cfs \<and> x \<noteq> ''default'' then Map.empty else lookup e x)"
      using Cons.IH[OF Cons.prems(1)] Cons.prems(2) by auto
    with True show ?thesis by auto
  next
    case False
    obtain m where m: "map_of (families e) cf = Some m" using Cons.prems(2) by (auto simp: has_cf_iff)
    obtain e1 where e1: "delete_keys cf (map fst m) e = (Inr (), e1)" "engine_ok e1" "cf_names e1 = cf_names e"
      "lookup e1 = (lookup e)(cf := (\<lambda>k. if k \<in> set (map fst m) then None else lookup e cf k))"
      using delete_keys_ok[OF Cons.prems(1), of cf "map fst m"] Cons.prems(2) by fastforce
    have gone: "lookup e1 cf = Map.empty"
      using e1(4) m by (auto simp: fun_eq_iff lookup_family map_of_eq_None_iff)
    obtain e' where "clear_families cfs e1 = (Inr (), e')" "engine_ok e'" "cf_names e' = cf_names e1"
      "\<forall>x. lookup e' x = (if x \<in> set cfs \<and> x \<noteq> ''default'' then Map.empty else lookup e1 x)"
      using Cons.IH[OF e1(2)] Cons.prems(2) e1(3) by (auto simp: has_cf_def)
    with False e1 gone m show ?thesis by (auto simp: engine_iterator_def cf_handle_def)
  qed
qed simp

lemma clear_database_ok:
  assumes "engine_ok e"
  shows "\<exists>e'. clear_database e = (Inr (), e') \<and> engine_ok e' \<and> cf_names e' = cf_names e
    \<and> (\<forall>cf. lookup e' cf = (if cf \<noteq> ''default'' then Map.empty else lookup e cf))"
proof -
  have "lookup e cf = Map.empty" if "cf \<notin> set (cf_names e)" for cf
    using that has_cf_iff[of e cf] by (auto simp: has_cf_def lookup_def fun_eq_iff)
  then show ?thesis
    using clear_families_ok[OF assms, of "cf_names e"] unfolding clear_database_def
    by (auto simp: has_cf_def)
qed

text \<open>The table of snapshots: entries under their own names.\<close>

definition snaps_ok :: "SnapshotManager \<Rightarrow> bool" where
  "snaps_ok sm \<longleftrightarrow> (\<forall>(n, sn) \<in> set (snapshots sm). sn_name sn = n)"

definition unprotected :: "string \<Rightarrow> bool" where
  "unprotected name \<longleftrightarrow> \<not> starts_with name PROTECTED_SNAPSHOT_PREFIX"

lemma old_snapshots_unprotected: "name \<in> set (old_snapshots sm) \<Longrightarrow> unprotected name"
  by (auto simp: old_snapshots_def unprotected_def Let_def split: if_splits dest!: in_set_takeD)

lemma fold_delete_other:
  "name \<notin> set names \<Longrightarrow>
   map_of (snapshots (fold (\<lambda>n s. snd (delete_snapshot n s)) names sm)) name = map_of (snapshots sm) name
   \<and> map_of (disk (fold (\<lambda>n s. snd (delete_snapshot n s)) names sm)) (data_dir name) = map_of (disk sm) (data_dir name)"
  by (induction names arbitrary: sm) (auto simp: delete_snapshot_def map_of_remove split: option.splits)

lemma cleanup_keeps:
  "\<not> unprotected name \<Longrightarrow>
   map_of (snapshots (cleanup_old_snapshots sm)) name = map_of (snapshots sm) name
   \<and> map_of (disk (cleanup_old_snapshots sm)) (data_dir name) = map_of (disk sm) (data_dir name)"
  unfolding cleanup_old_snapshots_def using old_snapshots_unprotected by (intro fold_delete_other) blast

lemma create_other_keeps:
  assumes "\<not> unprotected name" and "n \<noteq> name"
  shows "map_of (snapshots (snd (create_snapshot sha256 t n x sm))) name = map_of (snapshots sm) name
    \<and> map_of (disk (snd (create_snapshot sha256 t n x sm))) (data_dir name) = map_of (disk sm) (data_dir name)"
  using assms
  by (auto simp: create_snapshot_def write_snapshot_data_def Let_def cleanup_keeps map_of_hm_insert
      split: sum.splits prod.splits option.splits)

definition later_creates :: "(bytes \<Rightarrow> bytes) \<Rightarrow> (u64 \<times> string \<times> RocksEngine) list \<Rightarrow> SnapshotManager \<Rightarrow> SnapshotManager" where
  "later_creates sha256 cs sm = fold (\<lambda>(t, n, x) s. snd (create_snapshot sha256 t n x s)) cs sm"

lemma later_creates_keep:
  assumes "\<not> unprotected name" and "name \<notin> fst ` snd ` set cs"
  shows "map_of (snapshots (later_creates sha256 cs sm)) name = map_of (snapshots sm) name
    \<and> map_of (disk (later_creates sha256 cs sm)) (data_dir name) = map_of (disk sm) (data_dir name)"
  using assms(2)
proof (induction cs arbitrary: sm)
  case (Cons c cs)
  obtain t n x where c: "c = (t, n, x)" by (cases c)
  have step: "later_creates sha256 (c # cs) sm = later_creates sha256 cs (snd (create_snapshot sha256 t n x sm))"
    by (simp add: later_creates_def c)
  have "n \<noteq> name" "name \<notin> fst ` snd ` set cs" using Cons.prems c by auto
  with Cons.IH create_other_keeps[OF assms(1)] show ?case unfolding step by simp
qed (simp add: later_creates_def)

text \<open>What a snapshot can carry: entries the length fields can describe, and no accidental mark.\<close>

definition snapshot_safe :: "bool \<Rightarrow> RocksEngine \<Rightarrow> bool" where
  "snapshot_safe compress e \<longleftrightarrow>
     (\<forall>(cf, m) \<in> set (families e). sized m \<and> (compress \<or> \<not> marked_by_accident m))"

lemma create_snapshot_writes:
  assumes "create_snapshot sha256 now name e sm = (Inr sn, sm')" and "\<not> unprotected name"
  shows "map_of (snapshots sm') name = Some sn" and "sn_name sn = name" and "column_families (sn_metadata sn) = cf_names e"
    and "\<exists>files. map_of (disk sm') (data_dir name) = Some files
      \<and> (\<forall>cf \<in> set (cf_names e). map_of files (cf_file cf) =
           Some (let d = dump_family (the (map_of (families e) cf)) in if compress_snapshots sm then compress_data d else d))"
proof -
  obtain md root sm1 where sn: "sn = \<lparr>sn_name = name, sn_created_at = now, sn_state_root = root, sn_metadata = md\<rparr>"
    and md: "collect_snapshot_metadata (compress_snapshots sm) e = Inr md"
    and w: "write_snapshot_data e sn sm = (Inr (), sm1)"
    and sm': "sm' = cleanup_old_snapshots (sm1\<lparr>snapshots := hm_insert name sn (snapshots sm1)\<rparr>)"
    using assms(1) by (auto simp: create_snapshot_def Let_def split: if_splits sum.splits prod.splits)
  show cfs: "column_families (sn_metadata sn) = cf_names e"
    using md sn by (auto simp: collect_snapshot_metadata_def split: sum.splits)
  show "sn_name sn = name" by (simp add: sn)
  show "map_of (snapshots sm') name = Some sn"
    unfolding sm' by (simp add: cleanup_keeps[OF assms(2)] map_of_hm_insert)
  define files0 where "files0 = (case map_of (disk sm) (data_dir name) of None \<Rightarrow> [] | Some fs \<Rightarrow> fs)"
  obtain files where f: "write_families (compress_snapshots sm) e (cf_names e) files0 = (Inr (), files)"
    "\<forall>cf. map_of files (cf_file cf) =
         (if cf \<in> set (cf_names e) then
            Some (let d = dump_family (the (map_of (families e) cf)) in if compress_snapshots sm then compress_data d else d)
          else map_of files0 (cf_file cf))"
    using write_families_ok[of "cf_names e" e "compress_snapshots sm" files0] by (auto simp: has_cf_def)
  have "sm1 = sm\<lparr>disk := hm_insert (data_dir name) files (disk sm)\<rparr>"
    using w f(1) cfs unfolding write_snapshot_data_def Let_def files0_def by (simp add: sn)
  then have "map_of (disk sm1) (data_dir name) = Some files" by (simp add: map_of_hm_insert)
  with f(2) have "\<exists>files. map_of (disk sm1) (data_dir name) = Some files
      \<and> (\<forall>cf \<in> set (cf_names e). map_of files (cf_file cf) =
           Some (let d = dump_family (the (map_of (families e) cf)) in if compress_snapshots sm then compress_data d else d))"
    by auto
  then show "\<exists>files. map_of (disk sm') (data_dir name) = Some files
      \<and> (\<forall>cf \<in> set (cf_names e). map_of files (cf_file cf) =
           Some (let d = dump_family (the (map_of (families e) cf)) in if compress_snapshots sm then compress_data d else d))"
    unfolding sm' by (simp add: cleanup_keeps[OF assms(2)])
qed

text \<open>
  C22: A checkpoint snapshot (a name with the protected prefix) can always be restored: after it
  was created, whatever other snapshots were created and evicted since and whatever was
  written to the database, loading it succeeds and every column family holds exactly what it
  held at the checkpoint, except the default family, which is overlaid and not cleared. The
  hypothesis excludes uncompressed dumps that start with the compression mark.
\<close>

theorem checkpoint_restore:
  assumes "engine_ok e" and "snapshot_safe (compress_snapshots sm) e"
    and "create_snapshot sha256 now name e sm = (Inr sn, sm')" and "starts_with name PROTECTED_SNAPSHOT_PREFIX"
    and "name \<notin> fst ` snd ` set later"
    and "engine_ok e2" and "set (cf_names e2) = set (cf_names e)"
  shows "\<exists>e3. load_snapshot (later_creates sha256 later sm') name e2 = (Inr (), e3)
    \<and> engine_ok e3 \<and> set (cf_names e3) = set (cf_names e)
    \<and> (\<forall>cf. lookup e3 cf = (if cf = ''default'' then lookup e2 cf ++ lookup e cf else lookup e cf))"
proof -
  let ?sm = "later_creates sha256 later sm'" and ?fam = "\<lambda>cf. the (map_of (families e) cf)"
  have prot: "\<not> unprotected name" using assms(4) by (simp add: unprotected_def)
  note made = create_snapshot_writes[OF assms(3) prot] and kept = later_creates_keep[OF prot assms(5), of sha256 sm']
  obtain files where files: "map_of (disk sm') (data_dir name) = Some files"
    "\<forall>cf \<in> set (cf_names e). map_of files (cf_file cf) =
       Some (let d = dump_family (?fam cf) in if compress_snapshots sm then compress_data d else d)"
    using made(4) by blast
  obtain e1 where e1: "clear_database e2 = (Inr (), e1)" "engine_ok e1" "cf_names e1 = cf_names e2"
    "\<forall>cf. lookup e1 cf = (if cf \<noteq> ''default'' then Map.empty else lookup e2 cf)"
    using clear_database_ok[OF assms(6)] by blast
  have fam: "map_of (families e) cf = Some (?fam cf) \<and> bt_wf (?fam cf) \<and> sized (?fam cf)
      \<and> (compress_snapshots sm \<or> \<not> marked_by_accident (?fam cf))" if cf: "cf \<in> set (cf_names e)" for cf
  proof -
    obtain m where m: "map_of (families e) cf = Some m" using cf has_cf_iff[of e cf] by (auto simp: has_cf_def)
    then have "(cf, m) \<in> set (families e)" by (rule map_of_SomeD)
    then show ?thesis using assms(2) m engine_ok_family[OF assms(1) m] by (auto simp: snapshot_safe_def)
  qed
  have "\<exists>e3. load_families files (cf_names e) e1 = (Inr (), e3) \<and> engine_ok e3 \<and> cf_names e3 = cf_names e1
    \<and> (\<forall>cf. lookup e3 cf = (if cf \<in> set (cf_names e) then lookup e1 cf ++ map_of (?fam cf) else lookup e1 cf))"
  proof (rule load_families_ok[OF e1(2)])
    show "distinct (cf_names e)" using assms(1) by (simp add: engine_ok_def cf_names_def)
    show "\<forall>cf \<in> set (cf_names e). has_cf e1 cf \<and> sized (?fam cf) \<and> bt_wf (?fam cf)
           \<and> (\<exists>d. map_of files (cf_file cf) = Some d \<and> decompress_data d = dump_family (?fam cf))"
      using files(2) fam e1(3) assms(7) decompress_dump by (auto simp: has_cf_def Let_def)
  qed
  then obtain e3 where e3: "load_families files (cf_names e) e1 = (Inr (), e3)" "engine_ok e3" "cf_names e3 = cf_names e1"
    "\<forall>cf. lookup e3 cf = (if cf \<in> set (cf_names e) then lookup e1 cf ++ map_of (?fam cf) else lookup e1 cf)" by blast
  have old: "lookup e cf = (if cf \<in> set (cf_names e) then map_of (?fam cf) else Map.empty)" for cf
    using fam[of cf] has_cf_iff[of e cf] by (auto simp: has_cf_def lookup_def fun_eq_iff)
  have "load_snapshot ?sm name e2 = (Inr (), e3)"
    using kept made(1,2,3) files(1) e1(1) e3(1) by (simp add: load_snapshot_def load_snapshot_data_def)
  with e1 e3 assms(7) show ?thesis by (auto simp: old)
qed

definition checkpoint_engine :: "bytes \<Rightarrow> RocksEngine" where
  "checkpoint_engine v = \<lparr>families = [(''default'', []), (''accounts'', [([1, 2], v)])]\<rparr>"

definition checkpoint_manager :: SnapshotManager where
  "checkpoint_manager = \<lparr>compress_snapshots = False, max_snapshots = 0, snapshots = [], disk = []\<rparr>"

theorem checkpoint_restore_witness:
  "\<exists>e3. load_snapshot (later_creates (\<lambda>_. [0]) [(9, ''a'', checkpoint_engine [5])]
           (snd (create_snapshot (\<lambda>_. [0]) 8 ''consensus_checkpoint_1'' (checkpoint_engine [3]) checkpoint_manager)))
         ''consensus_checkpoint_1'' (checkpoint_engine [4]) = (Inr (), e3)
      \<and> lookup e3 ''accounts'' [1, 2] = Some [3]"
proof -
  let ?c = "create_snapshot (\<lambda>_. [0]) 8 ''consensus_checkpoint_1'' (checkpoint_engine [3]) checkpoint_manager"
  have ok: "engine_ok (checkpoint_engine v)" for v by (simp add: checkpoint_engine_def engine_ok_def)
  have safe: "snapshot_safe False (checkpoint_engine v)" if "length v = 1" for v
    using that by (simp add: checkpoint_engine_def snapshot_safe_def sized_def marked_by_accident_def)
  obtain sn where c: "?c = (Inr sn, snd ?c)"
    by (simp add: create_snapshot_def checkpoint_manager_def checkpoint_engine_def calculate_state_root_def cf_names_def
        engine_iterator_def cf_handle_def collect_snapshot_metadata_def write_snapshot_data_def Let_def)
  have "\<exists>e3. load_snapshot (later_creates (\<lambda>_. [0]) [(9, ''a'', checkpoint_engine [5])] (snd ?c)) ''consensus_checkpoint_1''
      (checkpoint_engine [4]) = (Inr (), e3)
    \<and> engine_ok e3 \<and> set (cf_names e3) = set (cf_names (checkpoint_engine [3]))
    \<and> (\<forall>cf. lookup e3 cf = (if cf = ''default'' then lookup (checkpoint_engine [4]) cf ++ lookup (checkpoint_engine [3]) cf
          else lookup (checkpoint_engine [3]) cf))"
    using safe[of "[3]"]
    by (intro checkpoint_restore[OF ok _ c]) (simp_all add: ok checkpoint_manager_def starts_with_def
        PROTECTED_SNAPSHOT_PREFIX_def, simp_all add: checkpoint_engine_def cf_names_def)
  moreover have "lookup (checkpoint_engine [3]) ''accounts'' [1, 2] = Some [3]"
    by (simp add: checkpoint_engine_def lookup_def)
  ultimately show ?thesis by auto
qed

text \<open>
  Without compression a restore can silently lose data: if the first key of a column family
  is one byte long, the low byte of its length field is taken for the compression mark, the rest
  is misread, and the restore reports success with the family empty.
\<close>

theorem uncompressed_restore_loses_data:
  "\<exists>sn sm' e'. create_snapshot sha256 now ''s'' \<lparr>families = [(''accounts'', [([7], [9])])]\<rparr>
        \<lparr>compress_snapshots = False, max_snapshots = 5, snapshots = [], disk = []\<rparr> = (Inr sn, sm')
      \<and> load_snapshot sm' ''s'' \<lparr>families = [(''accounts'', [([7], [9])])]\<rparr> = (Inr (), e')
      \<and> lookup e' ''accounts'' [7] = None"
proof -
  have bytes: "to_le_bytes (1 :: u32) = [1, 0, 0, 0]" by code_simp
  have len: "unat (from_le_bytes [0, 0, 0, 7] :: u32) = 117440512" by (simp add: from_le_bytes_def)
  have load: "load_column_family_data ''accounts'' [0, 0, 0, 7, 1, 0, 0, 0, 9] e = (Inr (), e)" for e
    by (subst load_column_family_data.simps) (simp add: len)
  show ?thesis
    by (simp add: create_snapshot_def calculate_state_root_def cf_names_def engine_iterator_def cf_handle_def
        collect_snapshot_metadata_def write_snapshot_data_def Let_def cleanup_old_snapshots_def old_snapshots_def
        load_snapshot_def clear_database_def engine_delete_def load_snapshot_data_def dump_family_def dump_entry_def
        bytes decompress_data_def load lookup_def starts_with_def PROTECTED_SNAPSHOT_PREFIX_def)
qed

text \<open>A restore clears the database before it looks for the data: without the data directory it fails with nothing left.\<close>

lemma restore_without_data_wipes:
  assumes "engine_ok e" and "map_of (snapshots sm) name = Some sn" and "map_of (disk sm) (data_dir (sn_name sn)) = None"
  shows "\<exists>err e'. load_snapshot sm name e = (Inl err, e') \<and> (\<forall>cf. cf \<noteq> ''default'' \<longrightarrow> lookup e' cf = Map.empty)"
  using clear_database_ok[OF assms(1)] assms(2,3) by (auto simp: load_snapshot_def load_snapshot_data_def)

end
