(* ===== verification/Sync_Messages.thy ===== *)
theory Sync_Messages
  imports Consensus_Types
begin

text \<open>
  The messages by which nodes announce, request and certify ledger updates
  (\<open>catalyst-cli/src/sync.rs\<close>): one record per struct, in field order, with the codec of
  \<open>impl_catalyst_serialize!\<close> and the message type and lifetime of its \<open>NetworkMessage\<close> instance.
  The proof bundle travels as a file, encoded by bincode, and has no codec here.
\<close>

record LsuCidGossip =
  r_cycle :: u64
  r_lsu_hash :: Hash
  r_cid :: string
  r_prev_state_root :: Hash
  r_state_root :: Hash
  r_proof_cid :: string
  r_finality_cid :: string
  r_state_root_cid :: string

record FileRequestMsg =
  fq_requester :: string
  fq_cid :: string

record FileResponseMsg =
  fp_requester :: string
  fp_cid :: string
  fp_bytes :: bytes

record LsuRangeRequest =
  rq_requester :: string
  rq_start_cycle :: u64
  rq_count :: u32

record LsuRangeResponse =
  rp_requester :: string
  rp_refs :: "LsuCidGossip list"

record LsuGossip =
  lg_cycle :: u64
  lg_lsu_hash :: Hash
  lg_lsu :: LedgerStateUpdate

record LsuFinalityAttestationMsg =
  fa_chain_id :: u64
  fa_genesis_hash :: Hash
  fa_cycle :: u64
  fa_lsu_hash :: Hash
  fa_committee_hash :: Hash
  fa_vote_list_hash :: Hash
  fa_producer_id :: string
  fa_signature :: bytes

record LsuFinalityCidMsg =
  fi_cycle :: u64
  fi_lsu_hash :: Hash
  fi_finality_cid :: string

record StateRootAttestationMsg =
  ra_chain_id :: u64
  ra_genesis_hash :: Hash
  ra_cycle :: u64
  ra_lsu_hash :: Hash
  ra_committee_hash :: Hash
  ra_state_root :: Hash
  ra_producer_id :: string
  ra_signature :: bytes

record StateRootFinalityCidMsg =
  ri_cycle :: u64
  ri_lsu_hash :: Hash
  ri_state_root :: Hash
  ri_state_root_cid :: string

section \<open>Codecs\<close>

definition ser_cidg :: "LsuCidGossip \<Rightarrow> bytes" where
  "ser_cidg x = ser_u64 (r_cycle x)
     @ ser_arr (r_lsu_hash x)
     @ serialize_string (r_cid x)
     @ ser_arr (r_prev_state_root x)
     @ ser_arr (r_state_root x)
     @ serialize_string (r_proof_cid x)
     @ serialize_string (r_finality_cid x)
     @ serialize_string (r_state_root_cid x)"

definition size_cidg :: "LsuCidGossip \<Rightarrow> nat" where
  "size_cidg x = 0 + 8 + 32 + string_size (r_cid x) + 32 + 32 + string_size (r_proof_cid x) + string_size (r_finality_cid x) + string_size (r_state_root_cid x)"

definition de_cidg :: "LsuCidGossip reader" where
  "de_cidg =
     pbind de_u64 (\<lambda>a0.
     pbind (de_arr 32) (\<lambda>b1.
     pbind deserialize_string (\<lambda>c2.
     pbind (de_arr 32) (\<lambda>d3.
     pbind (de_arr 32) (\<lambda>e4.
     pbind deserialize_string (\<lambda>f5.
     pbind deserialize_string (\<lambda>g6.
     pbind deserialize_string (\<lambda>h7.
     preturn \<lparr>r_cycle = a0, r_lsu_hash = b1, r_cid = c2, r_prev_state_root = d3, r_state_root = e4, r_proof_cid = f5, r_finality_cid = g6, r_state_root_cid = h7\<rparr>))))))))"

definition cidg_ok :: "LsuCidGossip \<Rightarrow> bool" where
  "cidg_ok x \<longleftrightarrow> length (r_lsu_hash x) = 32
     \<and> str_ok (r_cid x)
     \<and> length (r_prev_state_root x) = 32
     \<and> length (r_state_root x) = 32
     \<and> str_ok (r_proof_cid x)
     \<and> str_ok (r_finality_cid x)
     \<and> str_ok (r_state_root_cid x)"

lemma de_cidg_iff: "de_cidg bs = Inr (x, rest) \<longleftrightarrow> bs = ser_cidg x @ rest \<and> cidg_ok x"
  by (cases x) (auto simp: de_cidg_def ser_cidg_def cidg_ok_def codec_iffs)

interpretation cidgc: codec ser_cidg de_cidg size_cidg cidg_ok
  by unfold_locales
    (auto simp: de_cidg_iff size_cidg_def ser_cidg_def cidg_ok_def codec_sizes ser_lengths)

declare cidgc.dec_iff [codec_iffs] cidgc.size [codec_sizes]

interpretation vec_cidg: codec "serialize_vec ser_cidg" "deserialize_vec de_cidg" "vec_size size_cidg" "vec_ok cidg_ok"
  by (rule cidgc.codec_vec)

declare vec_cidg.dec_iff [codec_iffs] vec_cidg.size [codec_sizes]

definition ser_freq :: "FileRequestMsg \<Rightarrow> bytes" where
  "ser_freq x = serialize_string (fq_requester x)
     @ serialize_string (fq_cid x)"

definition size_freq :: "FileRequestMsg \<Rightarrow> nat" where
  "size_freq x = 0 + string_size (fq_requester x) + string_size (fq_cid x)"

definition de_freq :: "FileRequestMsg reader" where
  "de_freq =
     pbind deserialize_string (\<lambda>a0.
     pbind deserialize_string (\<lambda>b1.
     preturn \<lparr>fq_requester = a0, fq_cid = b1\<rparr>))"

definition freq_ok :: "FileRequestMsg \<Rightarrow> bool" where
  "freq_ok x \<longleftrightarrow> str_ok (fq_requester x)
     \<and> str_ok (fq_cid x)"

lemma de_freq_iff: "de_freq bs = Inr (x, rest) \<longleftrightarrow> bs = ser_freq x @ rest \<and> freq_ok x"
  by (cases x) (auto simp: de_freq_def ser_freq_def freq_ok_def codec_iffs)

interpretation freqc: codec ser_freq de_freq size_freq freq_ok
  by unfold_locales
    (auto simp: de_freq_iff size_freq_def ser_freq_def freq_ok_def codec_sizes ser_lengths)

definition ser_fresp :: "FileResponseMsg \<Rightarrow> bytes" where
  "ser_fresp x = serialize_string (fp_requester x)
     @ serialize_string (fp_cid x)
     @ serialize_vec ser_u8 (fp_bytes x)"

definition size_fresp :: "FileResponseMsg \<Rightarrow> nat" where
  "size_fresp x = 0 + string_size (fp_requester x) + string_size (fp_cid x) + vec_size size_u8 (fp_bytes x)"

definition de_fresp :: "FileResponseMsg reader" where
  "de_fresp =
     pbind deserialize_string (\<lambda>a0.
     pbind deserialize_string (\<lambda>b1.
     pbind (deserialize_vec de_u8) (\<lambda>c2.
     preturn \<lparr>fp_requester = a0, fp_cid = b1, fp_bytes = c2\<rparr>)))"

definition fresp_ok :: "FileResponseMsg \<Rightarrow> bool" where
  "fresp_ok x \<longleftrightarrow> str_ok (fp_requester x)
     \<and> str_ok (fp_cid x)
     \<and> vec_ok (\<lambda>_. True) (fp_bytes x)"

lemma de_fresp_iff: "de_fresp bs = Inr (x, rest) \<longleftrightarrow> bs = ser_fresp x @ rest \<and> fresp_ok x"
  by (cases x) (auto simp: de_fresp_def ser_fresp_def fresp_ok_def codec_iffs)

interpretation frespc: codec ser_fresp de_fresp size_fresp fresp_ok
  by unfold_locales
    (auto simp: de_fresp_iff size_fresp_def ser_fresp_def fresp_ok_def codec_sizes ser_lengths)

definition ser_rreq :: "LsuRangeRequest \<Rightarrow> bytes" where
  "ser_rreq x = serialize_string (rq_requester x)
     @ ser_u64 (rq_start_cycle x)
     @ ser_u32 (rq_count x)"

definition size_rreq :: "LsuRangeRequest \<Rightarrow> nat" where
  "size_rreq x = 0 + string_size (rq_requester x) + 8 + 4"

definition de_rreq :: "LsuRangeRequest reader" where
  "de_rreq =
     pbind deserialize_string (\<lambda>a0.
     pbind de_u64 (\<lambda>b1.
     pbind de_u32 (\<lambda>c2.
     preturn \<lparr>rq_requester = a0, rq_start_cycle = b1, rq_count = c2\<rparr>)))"

definition rreq_ok :: "LsuRangeRequest \<Rightarrow> bool" where
  "rreq_ok x \<longleftrightarrow> str_ok (rq_requester x)"

lemma de_rreq_iff: "de_rreq bs = Inr (x, rest) \<longleftrightarrow> bs = ser_rreq x @ rest \<and> rreq_ok x"
  by (cases x) (auto simp: de_rreq_def ser_rreq_def rreq_ok_def codec_iffs)

interpretation rreqc: codec ser_rreq de_rreq size_rreq rreq_ok
  by unfold_locales
    (auto simp: de_rreq_iff size_rreq_def ser_rreq_def rreq_ok_def codec_sizes ser_lengths)

definition ser_rresp :: "LsuRangeResponse \<Rightarrow> bytes" where
  "ser_rresp x = serialize_string (rp_requester x)
     @ serialize_vec ser_cidg (rp_refs x)"

definition size_rresp :: "LsuRangeResponse \<Rightarrow> nat" where
  "size_rresp x = 0 + string_size (rp_requester x) + vec_size size_cidg (rp_refs x)"

definition de_rresp :: "LsuRangeResponse reader" where
  "de_rresp =
     pbind deserialize_string (\<lambda>a0.
     pbind (deserialize_vec de_cidg) (\<lambda>b1.
     preturn \<lparr>rp_requester = a0, rp_refs = b1\<rparr>))"

definition rresp_ok :: "LsuRangeResponse \<Rightarrow> bool" where
  "rresp_ok x \<longleftrightarrow> str_ok (rp_requester x)
     \<and> vec_ok cidg_ok (rp_refs x)"

lemma de_rresp_iff: "de_rresp bs = Inr (x, rest) \<longleftrightarrow> bs = ser_rresp x @ rest \<and> rresp_ok x"
  by (cases x) (auto simp: de_rresp_def ser_rresp_def rresp_ok_def codec_iffs)

interpretation rrespc: codec ser_rresp de_rresp size_rresp rresp_ok
  by unfold_locales
    (auto simp: de_rresp_iff size_rresp_def ser_rresp_def rresp_ok_def codec_sizes ser_lengths)

definition ser_lgos :: "LsuGossip \<Rightarrow> bytes" where
  "ser_lgos x = ser_u64 (lg_cycle x)
     @ ser_arr (lg_lsu_hash x)
     @ ser_lsu (lg_lsu x)"

definition size_lgos :: "LsuGossip \<Rightarrow> nat" where
  "size_lgos x = 0 + 8 + 32 + size_lsu (lg_lsu x)"

definition de_lgos :: "LsuGossip reader" where
  "de_lgos =
     pbind de_u64 (\<lambda>a0.
     pbind (de_arr 32) (\<lambda>b1.
     pbind de_lsu (\<lambda>c2.
     preturn \<lparr>lg_cycle = a0, lg_lsu_hash = b1, lg_lsu = c2\<rparr>)))"

definition lgos_ok :: "LsuGossip \<Rightarrow> bool" where
  "lgos_ok x \<longleftrightarrow> length (lg_lsu_hash x) = 32
     \<and> lsu_ok (lg_lsu x)"

lemma de_lgos_iff: "de_lgos bs = Inr (x, rest) \<longleftrightarrow> bs = ser_lgos x @ rest \<and> lgos_ok x"
  by (cases x) (auto simp: de_lgos_def ser_lgos_def lgos_ok_def codec_iffs)

interpretation lgosc: codec ser_lgos de_lgos size_lgos lgos_ok
  by unfold_locales
    (auto simp: de_lgos_iff size_lgos_def ser_lgos_def lgos_ok_def codec_sizes ser_lengths)

definition ser_fatt :: "LsuFinalityAttestationMsg \<Rightarrow> bytes" where
  "ser_fatt x = ser_u64 (fa_chain_id x)
     @ ser_arr (fa_genesis_hash x)
     @ ser_u64 (fa_cycle x)
     @ ser_arr (fa_lsu_hash x)
     @ ser_arr (fa_committee_hash x)
     @ ser_arr (fa_vote_list_hash x)
     @ serialize_string (fa_producer_id x)
     @ serialize_vec ser_u8 (fa_signature x)"

definition size_fatt :: "LsuFinalityAttestationMsg \<Rightarrow> nat" where
  "size_fatt x = 0 + 8 + 32 + 8 + 32 + 32 + 32 + string_size (fa_producer_id x) + vec_size size_u8 (fa_signature x)"

definition de_fatt :: "LsuFinalityAttestationMsg reader" where
  "de_fatt =
     pbind de_u64 (\<lambda>a0.
     pbind (de_arr 32) (\<lambda>b1.
     pbind de_u64 (\<lambda>c2.
     pbind (de_arr 32) (\<lambda>d3.
     pbind (de_arr 32) (\<lambda>e4.
     pbind (de_arr 32) (\<lambda>f5.
     pbind deserialize_string (\<lambda>g6.
     pbind (deserialize_vec de_u8) (\<lambda>h7.
     preturn \<lparr>fa_chain_id = a0, fa_genesis_hash = b1, fa_cycle = c2, fa_lsu_hash = d3, fa_committee_hash = e4, fa_vote_list_hash = f5, fa_producer_id = g6, fa_signature = h7\<rparr>))))))))"

definition fatt_ok :: "LsuFinalityAttestationMsg \<Rightarrow> bool" where
  "fatt_ok x \<longleftrightarrow> length (fa_genesis_hash x) = 32
     \<and> length (fa_lsu_hash x) = 32
     \<and> length (fa_committee_hash x) = 32
     \<and> length (fa_vote_list_hash x) = 32
     \<and> str_ok (fa_producer_id x)
     \<and> vec_ok (\<lambda>_. True) (fa_signature x)"

lemma de_fatt_iff: "de_fatt bs = Inr (x, rest) \<longleftrightarrow> bs = ser_fatt x @ rest \<and> fatt_ok x"
  by (cases x) (auto simp: de_fatt_def ser_fatt_def fatt_ok_def codec_iffs)

interpretation fattc: codec ser_fatt de_fatt size_fatt fatt_ok
  by unfold_locales
    (auto simp: de_fatt_iff size_fatt_def ser_fatt_def fatt_ok_def codec_sizes ser_lengths)

definition ser_fcid :: "LsuFinalityCidMsg \<Rightarrow> bytes" where
  "ser_fcid x = ser_u64 (fi_cycle x)
     @ ser_arr (fi_lsu_hash x)
     @ serialize_string (fi_finality_cid x)"

definition size_fcid :: "LsuFinalityCidMsg \<Rightarrow> nat" where
  "size_fcid x = 0 + 8 + 32 + string_size (fi_finality_cid x)"

definition de_fcid :: "LsuFinalityCidMsg reader" where
  "de_fcid =
     pbind de_u64 (\<lambda>a0.
     pbind (de_arr 32) (\<lambda>b1.
     pbind deserialize_string (\<lambda>c2.
     preturn \<lparr>fi_cycle = a0, fi_lsu_hash = b1, fi_finality_cid = c2\<rparr>)))"

definition fcid_ok :: "LsuFinalityCidMsg \<Rightarrow> bool" where
  "fcid_ok x \<longleftrightarrow> length (fi_lsu_hash x) = 32
     \<and> str_ok (fi_finality_cid x)"

lemma de_fcid_iff: "de_fcid bs = Inr (x, rest) \<longleftrightarrow> bs = ser_fcid x @ rest \<and> fcid_ok x"
  by (cases x) (auto simp: de_fcid_def ser_fcid_def fcid_ok_def codec_iffs)

interpretation fcidc: codec ser_fcid de_fcid size_fcid fcid_ok
  by unfold_locales
    (auto simp: de_fcid_iff size_fcid_def ser_fcid_def fcid_ok_def codec_sizes ser_lengths)

definition ser_ratt :: "StateRootAttestationMsg \<Rightarrow> bytes" where
  "ser_ratt x = ser_u64 (ra_chain_id x)
     @ ser_arr (ra_genesis_hash x)
     @ ser_u64 (ra_cycle x)
     @ ser_arr (ra_lsu_hash x)
     @ ser_arr (ra_committee_hash x)
     @ ser_arr (ra_state_root x)
     @ serialize_string (ra_producer_id x)
     @ serialize_vec ser_u8 (ra_signature x)"

definition size_ratt :: "StateRootAttestationMsg \<Rightarrow> nat" where
  "size_ratt x = 0 + 8 + 32 + 8 + 32 + 32 + 32 + string_size (ra_producer_id x) + vec_size size_u8 (ra_signature x)"

definition de_ratt :: "StateRootAttestationMsg reader" where
  "de_ratt =
     pbind de_u64 (\<lambda>a0.
     pbind (de_arr 32) (\<lambda>b1.
     pbind de_u64 (\<lambda>c2.
     pbind (de_arr 32) (\<lambda>d3.
     pbind (de_arr 32) (\<lambda>e4.
     pbind (de_arr 32) (\<lambda>f5.
     pbind deserialize_string (\<lambda>g6.
     pbind (deserialize_vec de_u8) (\<lambda>h7.
     preturn \<lparr>ra_chain_id = a0, ra_genesis_hash = b1, ra_cycle = c2, ra_lsu_hash = d3, ra_committee_hash = e4, ra_state_root = f5, ra_producer_id = g6, ra_signature = h7\<rparr>))))))))"

definition ratt_ok :: "StateRootAttestationMsg \<Rightarrow> bool" where
  "ratt_ok x \<longleftrightarrow> length (ra_genesis_hash x) = 32
     \<and> length (ra_lsu_hash x) = 32
     \<and> length (ra_committee_hash x) = 32
     \<and> length (ra_state_root x) = 32
     \<and> str_ok (ra_producer_id x)
     \<and> vec_ok (\<lambda>_. True) (ra_signature x)"

lemma de_ratt_iff: "de_ratt bs = Inr (x, rest) \<longleftrightarrow> bs = ser_ratt x @ rest \<and> ratt_ok x"
  by (cases x) (auto simp: de_ratt_def ser_ratt_def ratt_ok_def codec_iffs)

interpretation rattc: codec ser_ratt de_ratt size_ratt ratt_ok
  by unfold_locales
    (auto simp: de_ratt_iff size_ratt_def ser_ratt_def ratt_ok_def codec_sizes ser_lengths)

definition ser_rcid :: "StateRootFinalityCidMsg \<Rightarrow> bytes" where
  "ser_rcid x = ser_u64 (ri_cycle x)
     @ ser_arr (ri_lsu_hash x)
     @ ser_arr (ri_state_root x)
     @ serialize_string (ri_state_root_cid x)"

definition size_rcid :: "StateRootFinalityCidMsg \<Rightarrow> nat" where
  "size_rcid x = 0 + 8 + 32 + 32 + string_size (ri_state_root_cid x)"

definition de_rcid :: "StateRootFinalityCidMsg reader" where
  "de_rcid =
     pbind de_u64 (\<lambda>a0.
     pbind (de_arr 32) (\<lambda>b1.
     pbind (de_arr 32) (\<lambda>c2.
     pbind deserialize_string (\<lambda>d3.
     preturn \<lparr>ri_cycle = a0, ri_lsu_hash = b1, ri_state_root = c2, ri_state_root_cid = d3\<rparr>))))"

definition rcid_ok :: "StateRootFinalityCidMsg \<Rightarrow> bool" where
  "rcid_ok x \<longleftrightarrow> length (ri_lsu_hash x) = 32
     \<and> length (ri_state_root x) = 32
     \<and> str_ok (ri_state_root_cid x)"

lemma de_rcid_iff: "de_rcid bs = Inr (x, rest) \<longleftrightarrow> bs = ser_rcid x @ rest \<and> rcid_ok x"
  by (cases x) (auto simp: de_rcid_def ser_rcid_def rcid_ok_def codec_iffs)

interpretation rcidc: codec ser_rcid de_rcid size_rcid rcid_ok
  by unfold_locales
    (auto simp: de_rcid_iff size_rcid_def ser_rcid_def rcid_ok_def codec_sizes ser_lengths)

text \<open>
  Every sync message decodes to itself from the payload of its envelope, whatever bytes follow.
\<close>

theorem sync_messages_roundtrip:
  "(cidg_ok a \<longrightarrow> run_reader de_cidg (ser_cidg a @ junk) = Inr a)
   \<and> (freq_ok b \<longrightarrow> run_reader de_freq (ser_freq b @ junk) = Inr b)
   \<and> (fresp_ok c \<longrightarrow> run_reader de_fresp (ser_fresp c @ junk) = Inr c)
   \<and> (rreq_ok d \<longrightarrow> run_reader de_rreq (ser_rreq d @ junk) = Inr d)
   \<and> (rresp_ok e \<longrightarrow> run_reader de_rresp (ser_rresp e @ junk) = Inr e)
   \<and> (lgos_ok f \<longrightarrow> run_reader de_lgos (ser_lgos f @ junk) = Inr f)
   \<and> (fatt_ok g \<longrightarrow> run_reader de_fatt (ser_fatt g @ junk) = Inr g)
   \<and> (fcid_ok h \<longrightarrow> run_reader de_fcid (ser_fcid h @ junk) = Inr h)
   \<and> (ratt_ok i \<longrightarrow> run_reader de_ratt (ser_ratt i @ junk) = Inr i)
   \<and> (rcid_ok j \<longrightarrow> run_reader de_rcid (ser_rcid j @ junk) = Inr j)"
  by (simp add: cidgc.run_reader_enc freqc.run_reader_enc frespc.run_reader_enc rreqc.run_reader_enc rrespc.run_reader_enc
      lgosc.run_reader_enc fattc.run_reader_enc fcidc.run_reader_enc rattc.run_reader_enc rcidc.run_reader_enc)

definition new_lsu_gossip :: "(bytes \<Rightarrow> bytes) \<Rightarrow> LedgerStateUpdate \<Rightarrow> LsuGossip" where
  "new_lsu_gossip blake2b512 lsu =
     \<lparr>lg_cycle = lsu_cycle_number lsu, lg_lsu_hash = hash_data blake2b512 ser_lsu lsu, lg_lsu = lsu\<rparr>"

end
