(* ===== verification/Content_Store.thy ===== *)
theory Content_Store
  imports Sync_Messages
begin

text \<open>
  Content-addressed storage: the file cache of a node (\<open>catalyst-cli/src/dfs_store.rs\<close>) and the
  local store of \<open>catalyst-dfs\<close> (\<open>lib.rs\<close>, \<open>storage.rs\<close>) with its metadata, statistics, pins
  and garbage collection, and the registry of providers (\<open>provider.rs\<close>).

  The file system is a map from paths to contents; writes do not fail, reads fail on missing files
  and the removal of a file fails as an argument says. SHA-256 and the text form of a content id
  are parameters, and an id is its text. Metadata is kept as the records that the JSON values
  encode. Times are nanoseconds and the clock is an argument. Left out of the records: the hit
  rate of the statistics, a float that is never written, and the duration of a collection.
\<close>

section \<open>Paths and content ids\<close>

text \<open>\<open>PathBuf::join\<close>: an absolute argument replaces the path.\<close>

definition path_join :: "string \<Rightarrow> string \<Rightarrow> string" where
  "path_join base p =
     (case p of
        c # _ \<Rightarrow> if c = CHR ''/'' then p
                else if base = [] \<or> List.last base = CHR ''/'' then base @ p else base @ ''/'' @ p
      | [] \<Rightarrow> if base = [] \<or> List.last base = CHR ''/'' then base else base @ ''/'')"

text \<open>Slicing a string at a byte index panics inside a character.\<close>

definition is_char_boundary :: "string \<Rightarrow> nat \<Rightarrow> bool" where
  "is_char_boundary s i \<longleftrightarrow> i = length s \<or> i < length s \<and> \<not> utf8_cont (as_bytes s ! i)"

definition content_path_for :: "string \<Rightarrow> string \<Rightarrow> string option" where
  "content_path_for root cid =
     (let n = min 2 (length cid) in
      if is_char_boundary cid n
      then Some (path_join (path_join (path_join root ''content'') (take n cid)) cid) else None)"

type_synonym files = "string \<Rightarrow> bytes option"

text \<open>The id hashes the digest of the data, not the data.\<close>

definition from_data :: "(bytes \<Rightarrow> bytes) \<Rightarrow> (Hash \<Rightarrow> string) \<Rightarrow> bytes \<Rightarrow> string" where
  "from_data sha256 show_cid data = show_cid (sha256 (sha256 data))"

datatype 'a outcome = Panic | Fails string | Returns 'a

definition content_get :: "string \<Rightarrow> string \<Rightarrow> files \<Rightarrow> string \<Rightarrow> bytes outcome" where
  "content_get io_error root fs cid =
     (case content_path_for root cid of
        None \<Rightarrow> Panic
      | Some path \<Rightarrow>
          (case fs path of
             Some b \<Rightarrow> Returns b
           | None \<Rightarrow> Fails (''Failed to read DFS object '' @ cid @ '': '' @ io_error)))"

definition content_has :: "string \<Rightarrow> files \<Rightarrow> string \<Rightarrow> bool outcome" where
  "content_has root fs cid =
     (case content_path_for root cid of None \<Rightarrow> Panic | Some path \<Rightarrow> Returns (fs path \<noteq> None))"

definition content_put :: "(bytes \<Rightarrow> bytes) \<Rightarrow> (Hash \<Rightarrow> string) \<Rightarrow> string \<Rightarrow> bytes \<Rightarrow> files \<Rightarrow> string outcome \<times> files" where
  "content_put sha256 show_cid root bytes fs =
     (let cid = from_data sha256 show_cid bytes in
      case content_path_for root cid of
        None \<Rightarrow> (Panic, fs)
      | Some path \<Rightarrow> (Returns cid, if fs path = None then fs(path \<mapsto> bytes) else fs))"

text \<open>The answer of a node to a file request: whatever the store reads is broadcast.\<close>

definition answer_file_request :: "string \<Rightarrow> string \<Rightarrow> files \<Rightarrow> FileRequestMsg \<Rightarrow> FileResponseMsg option outcome" where
  "answer_file_request io_error root fs req =
     (case content_get io_error root fs (fq_cid req) of
        Panic \<Rightarrow> Panic
      | Fails _ \<Rightarrow> Returns None
      | Returns b \<Rightarrow> Returns (Some \<lparr>fp_requester = fq_requester req, fp_cid = fq_cid req, fp_bytes = b\<rparr>))"

text \<open>C40: a file request reads any file of the node. The content id of a request is used as a path as it stands: for an absolute path
whose second and third bytes start characters the file at that path is read and broadcast, and an id that a character straddles at the
second byte ends the handler with a panic.\<close>

theorem file_request_reads_any_path:
  "(is_char_boundary (''/'' @ p) (min 2 (Suc (length p))) \<longrightarrow> fs (''/'' @ p) = Some secret \<longrightarrow>
      answer_file_request io_error root fs \<lparr>fq_requester = who, fq_cid = ''/'' @ p\<rparr>
        = Returns (Some \<lparr>fp_requester = who, fp_cid = ''/'' @ p, fp_bytes = secret\<rparr>))
   \<and> (2 < length cid \<longrightarrow> utf8_cont (as_bytes cid ! 2) \<longrightarrow> answer_file_request io_error root fs \<lparr>fq_requester = who, fq_cid = cid\<rparr> = Panic)"
  by (auto simp: answer_file_request_def content_get_def content_path_for_def Let_def path_join_def is_char_boundary_def)

theorem file_request_reads_any_path_witness:
  "answer_file_request ''not found'' ''/var/cache'' [''/etc/node.key'' \<mapsto> [7, 7]] \<lparr>fq_requester = ''x'', fq_cid = ''/etc/node.key''\<rparr>
     = Returns (Some \<lparr>fp_requester = ''x'', fp_cid = ''/etc/node.key'', fp_bytes = [7, 7]\<rparr>)"
  using file_request_reads_any_path[of "''etc/node.key''" "[''/etc/node.key'' \<mapsto> [7, 7]]" "[7, 7]" "''not found''" "''/var/cache''" "''x''"]
  by (simp add: is_char_boundary_def as_bytes_def utf8_cont_def)

section \<open>The local store\<close>

datatype DfsError =
    DfsNetwork string | DfsStorage string | DfsNotFound string | DfsInvalidCid string | DfsTimeout string
  | DfsSerialization string | DfsIo string

datatype ContentCategory = LedgerUpdate | Contract | AppData | Media | File

record DfsConfig =
  dc_storage_dir :: string
  dc_max_storage_size :: u64
  dc_enable_gc :: bool
  dc_gc_interval :: u64
  dc_enable_discovery :: bool
  dc_provider_interval :: u64
  dc_replication_factor :: usize
  dc_enable_networking :: bool
  dc_listen_addresses :: "string list"
  dc_bootstrap_peers :: "string list"

definition default_dfs_config :: DfsConfig where
  "default_dfs_config =
     \<lparr>dc_storage_dir = ''./dfs'', dc_max_storage_size = 100 * 1024 * 1024 * 1024, dc_enable_gc = True,
      dc_gc_interval = 3600, dc_enable_discovery = True, dc_provider_interval = 900, dc_replication_factor = 3,
      dc_enable_networking = False, dc_listen_addresses = [''/ip4/0.0.0.0/tcp/0''], dc_bootstrap_peers = []\<rparr>"

definition test_config :: "string \<Rightarrow> DfsConfig" where
  "test_config dir =
     default_dfs_config\<lparr>dc_storage_dir := dir, dc_max_storage_size := 1024 * 1024 * 1024, dc_enable_networking := False\<rparr>"

definition dev_config :: "string \<Rightarrow> DfsConfig" where
  "dev_config dir =
     default_dfs_config\<lparr>dc_storage_dir := dir, dc_enable_gc := True, dc_gc_interval := 300, dc_provider_interval := 60,
       dc_enable_networking := False\<rparr>"

definition validate_dfs_config :: "DfsConfig \<Rightarrow> (DfsError, unit) result" where
  "validate_dfs_config c =
     (if dc_max_storage_size c = 0 then Inl (DfsStorage ''Max storage size cannot be zero'')
      else if dc_replication_factor c = 0 then Inl (DfsStorage ''Replication factor cannot be zero'')
      else Inr ())"

record ContentMetadata =
  md_cid :: string
  md_size :: u64
  md_content_type :: "string option"
  md_created_at :: int
  md_accessed_at :: int
  md_access_count :: u64
  md_pinned :: bool

record DfsStats =
  st_total_objects :: u64
  st_total_bytes :: u64
  st_pinned_objects :: u64
  st_available_space :: u64
  st_network_requests :: u64

record GcResult =
  gc_objects_removed :: u64
  gc_bytes_freed :: u64

text \<open>The metadata database holds the entries of the prefix \<open>meta:\<close> and of the prefix \<open>category:\<close>, each in key order.\<close>

record LocalDfsStorage =
  ds_config :: DfsConfig
  ds_files :: files
  ds_meta :: "(string \<times> ContentMetadata) list"
  ds_categories :: "(string \<times> ContentCategory) list"
  ds_stats :: DfsStats

definition content_path :: "DfsConfig \<Rightarrow> string \<Rightarrow> string" where
  "content_path c cid =
     path_join (path_join (path_join (dc_storage_dir c) ''content'') (take (min 2 (length cid)) cid)) cid"

definition update_stats :: "LocalDfsStorage \<Rightarrow> LocalDfsStorage" where
  "update_stats s =
     (let total_bytes = sum_list (map (md_size \<circ> snd) (ds_meta s)); cap = dc_max_storage_size (ds_config s) in
      s\<lparr>ds_stats := (ds_stats s)
        \<lparr>st_total_objects := of_nat (length (ds_meta s)), st_total_bytes := total_bytes,
         st_pinned_objects := of_nat (length (filter (md_pinned \<circ> snd) (ds_meta s))),
         st_available_space := (if total_bytes < cap then cap - total_bytes else 0)\<rparr>\<rparr>)"

text \<open>Opening a store: the files and the database of an earlier run are found again.\<close>

definition new_local_dfs ::
  "DfsConfig \<Rightarrow> files \<Rightarrow> (string \<times> ContentMetadata) list \<Rightarrow> (string \<times> ContentCategory) list \<Rightarrow> LocalDfsStorage" where
  "new_local_dfs c fs meta cats =
     update_stats \<lparr>ds_config = c, ds_files = fs, ds_meta = meta, ds_categories = cats,
       ds_stats = \<lparr>st_total_objects = 0, st_total_bytes = 0, st_pinned_objects = 0, st_available_space = 0, st_network_requests = 0\<rparr>\<rparr>"

definition check_space :: "LocalDfsStorage \<Rightarrow> u64 \<Rightarrow> (DfsError, unit) result" where
  "check_space s sz =
     (if st_total_bytes (ds_stats s) + sz > dc_max_storage_size (ds_config s)
      then Inl (DfsStorage (''Insufficient storage space. Need: '' @ show_nat (unat sz) @ '', Available: ''
                  @ show_nat (unat (st_available_space (ds_stats s)))))
      else Inr ())"

definition store_metadata :: "ContentMetadata \<Rightarrow> LocalDfsStorage \<Rightarrow> LocalDfsStorage" where
  "store_metadata m s = s\<lparr>ds_meta := bt_insert (md_cid m) m (ds_meta s)\<rparr>"

definition touch :: "int \<Rightarrow> ContentMetadata \<Rightarrow> ContentMetadata" where
  "touch now m = m\<lparr>md_accessed_at := now, md_access_count := md_access_count m + 1\<rparr>"

definition dfs_has :: "LocalDfsStorage \<Rightarrow> string \<Rightarrow> bool" where
  "dfs_has s cid \<longleftrightarrow> ds_files s (content_path (ds_config s) cid) \<noteq> None \<and> map_of (ds_meta s) cid \<noteq> None"

definition dfs_put ::
  "(bytes \<Rightarrow> bytes) \<Rightarrow> (Hash \<Rightarrow> string) \<Rightarrow> int \<Rightarrow> bytes \<Rightarrow> LocalDfsStorage \<Rightarrow> (DfsError, string) result \<times> LocalDfsStorage" where
  "dfs_put sha256 show_cid now data s =
     (let sz = of_nat (length data) in
      case check_space s sz of
        Inl err \<Rightarrow> (Inl err, s)
      | Inr _ \<Rightarrow>
          (let cid = from_data sha256 show_cid data in
           if dfs_has s cid
           then (Inr cid, case map_of (ds_meta s) cid of Some m \<Rightarrow> store_metadata (touch now m) s | None \<Rightarrow> s)
           else
             (let s1 = s\<lparr>ds_files := (ds_files s)(content_path (ds_config s) cid \<mapsto> data)\<rparr>;
                  m = \<lparr>md_cid = cid, md_size = sz, md_content_type = None, md_created_at = now, md_accessed_at = now,
                       md_access_count = 1, md_pinned = False\<rparr>
              in (Inr cid, update_stats (store_metadata m s1)))))"

definition not_found :: "string \<Rightarrow> DfsError" where
  "not_found cid = DfsNotFound (''Content not found: '' @ cid)"

definition dfs_get :: "int \<Rightarrow> string \<Rightarrow> LocalDfsStorage \<Rightarrow> (DfsError, bytes) result \<times> LocalDfsStorage" where
  "dfs_get now cid s =
     (case map_of (ds_meta s) cid of
        None \<Rightarrow> (Inl (not_found cid), s)
      | Some m \<Rightarrow>
          (case ds_files s (content_path (ds_config s) cid) of
             None \<Rightarrow> (Inl (DfsNotFound (''Content file not found: '' @ cid)), s)
           | Some data \<Rightarrow> (Inr data, store_metadata (touch now m) s)))"

definition pin :: "string \<Rightarrow> LocalDfsStorage \<Rightarrow> (DfsError, unit) result \<times> LocalDfsStorage" where
  "pin cid s =
     (case map_of (ds_meta s) cid of
        None \<Rightarrow> (Inl (not_found cid), s)
      | Some m \<Rightarrow> (Inr (), if \<not> md_pinned m then update_stats (store_metadata (m\<lparr>md_pinned := True\<rparr>) s) else s))"

definition unpin :: "string \<Rightarrow> LocalDfsStorage \<Rightarrow> (DfsError, unit) result \<times> LocalDfsStorage" where
  "unpin cid s =
     (case map_of (ds_meta s) cid of
        None \<Rightarrow> (Inl (not_found cid), s)
      | Some m \<Rightarrow> (Inr (), if md_pinned m then update_stats (store_metadata (m\<lparr>md_pinned := False\<rparr>) s) else s))"

definition dfs_metadata :: "LocalDfsStorage \<Rightarrow> string \<Rightarrow> (DfsError, ContentMetadata) result" where
  "dfs_metadata s cid = (case map_of (ds_meta s) cid of None \<Rightarrow> Inl (not_found cid) | Some m \<Rightarrow> Inr m)"

definition dfs_list :: "LocalDfsStorage \<Rightarrow> ContentMetadata list" where
  "dfs_list s = map snd (ds_meta s)"

text \<open>Content that is not pinned and was not read for a day is collected.\<close>

definition collectable :: "int \<Rightarrow> ContentMetadata \<Rightarrow> bool" where
  "collectable now m \<longleftrightarrow> \<not> md_pinned m \<and> md_accessed_at m < now - 24 * 3600 * 1000000000"

definition remove_content :: "(string \<Rightarrow> bool) \<Rightarrow> DfsConfig \<Rightarrow> ContentMetadata \<Rightarrow> GcResult \<times> files \<Rightarrow> GcResult \<times> files" where
  "remove_content removable c m = (\<lambda>(g, fs).
     let path = content_path c (md_cid m) in
     if fs path \<noteq> None \<and> removable path
     then (\<lparr>gc_objects_removed = gc_objects_removed g + 1, gc_bytes_freed = gc_bytes_freed g + md_size m\<rparr>, fs(path := None))
     else (g, fs))"

definition gc :: "(string \<Rightarrow> bool) \<Rightarrow> int \<Rightarrow> LocalDfsStorage \<Rightarrow> GcResult \<times> LocalDfsStorage" where
  "gc removable now s =
     (if \<not> dc_enable_gc (ds_config s) then (\<lparr>gc_objects_removed = 0, gc_bytes_freed = 0\<rparr>, s)
      else
        (let to_remove = filter (\<lambda>(_, m). collectable now m) (ds_meta s);
             (g, fs) = fold (\<lambda>(_, m). remove_content removable (ds_config s) m) to_remove
                         (\<lparr>gc_objects_removed = 0, gc_bytes_freed = 0\<rparr>, ds_files s)
         in (g, update_stats
               (s\<lparr>ds_files := fs, ds_meta := filter (\<lambda>(k, _). k \<notin> set (map fst to_remove)) (ds_meta s),
                  ds_categories := filter (\<lambda>(k, _). k \<notin> set (map (md_cid \<circ> snd) to_remove)) (ds_categories s)\<rparr>))))"

definition put_categorized ::
  "(bytes \<Rightarrow> bytes) \<Rightarrow> (Hash \<Rightarrow> string) \<Rightarrow> int \<Rightarrow> bytes \<Rightarrow> ContentCategory \<Rightarrow> LocalDfsStorage
    \<Rightarrow> (DfsError, string) result \<times> LocalDfsStorage" where
  "put_categorized sha256 show_cid now data category s =
     (case dfs_put sha256 show_cid now data s of
        (Inl err, s1) \<Rightarrow> (Inl err, s1)
      | (Inr cid, s1) \<Rightarrow> (Inr cid, s1\<lparr>ds_categories := bt_insert cid category (ds_categories s1)\<rparr>))"

definition list_by_category :: "ContentCategory \<Rightarrow> LocalDfsStorage \<Rightarrow> ContentMetadata list" where
  "list_by_category category s =
     List.map_filter (\<lambda>(cid, c). if c = category then map_of (ds_meta s) cid else None) (ds_categories s)"

text \<open>A ledger update is stored as the JSON text that \<open>to_json\<close> writes and \<open>from_json\<close> reads.\<close>

definition store_ledger_update ::
  "('u \<Rightarrow> bytes) \<Rightarrow> (bytes \<Rightarrow> bytes) \<Rightarrow> (Hash \<Rightarrow> string) \<Rightarrow> int \<Rightarrow> 'u \<Rightarrow> LocalDfsStorage
    \<Rightarrow> (DfsError, string) result \<times> LocalDfsStorage" where
  "store_ledger_update to_json sha256 show_cid now update s =
     put_categorized sha256 show_cid now (to_json update) LedgerUpdate s"

definition get_ledger_update ::
  "(bytes \<Rightarrow> (string, 'u) result) \<Rightarrow> int \<Rightarrow> string \<Rightarrow> LocalDfsStorage \<Rightarrow> (DfsError, 'u) result \<times> LocalDfsStorage" where
  "get_ledger_update from_json now cid s =
     (case dfs_get now cid s of
        (Inl err, s1) \<Rightarrow> (Inl err, s1)
      | (Inr data, s1) \<Rightarrow>
          (case from_json data of
             Inl err \<Rightarrow> (Inl (DfsSerialization (''Failed to deserialize ledger update: '' @ err)), s1)
           | Inr u \<Rightarrow> (Inr u, s1)))"

section \<open>The invariant of the local store\<close>

datatype dfs_op =
    Put int bytes
  | PutCategorized int bytes ContentCategory
  | Get int string
  | Pin string
  | Unpin string
  | Gc "string \<Rightarrow> bool" int

fun run_op :: "(bytes \<Rightarrow> bytes) \<Rightarrow> (Hash \<Rightarrow> string) \<Rightarrow> dfs_op \<Rightarrow> LocalDfsStorage \<Rightarrow> LocalDfsStorage" where
  "run_op sha256 show_cid (Put now data) s = snd (dfs_put sha256 show_cid now data s)"
| "run_op sha256 show_cid (PutCategorized now data category) s = snd (put_categorized sha256 show_cid now data category s)"
| "run_op sha256 show_cid (Get now cid) s = snd (dfs_get now cid s)"
| "run_op sha256 show_cid (Pin cid) s = snd (pin cid s)"
| "run_op sha256 show_cid (Unpin cid) s = snd (unpin cid s)"
| "run_op sha256 show_cid (Gc removable now) s = snd (gc removable now s)"

text \<open>A vector holds less than \<open>2 ^ 63\<close> bytes.\<close>

fun op_fits :: "dfs_op \<Rightarrow> bool" where
  "op_fits (Put _ data) \<longleftrightarrow> length data < 2 ^ 63"
| "op_fits (PutCategorized _ data _) \<longleftrightarrow> length data < 2 ^ 63"
| "op_fits _ \<longleftrightarrow> True"

text \<open>What the code relies on of the text of a content id, which is a base32 string.\<close>

definition cid_text :: "string \<Rightarrow> bool" where
  "cid_text cid \<longleftrightarrow> 2 \<le> length cid \<and> CHR ''/'' \<notin> set cid"

definition stored_bytes :: "(string \<times> ContentMetadata) list \<Rightarrow> nat" where
  "stored_bytes meta = (\<Sum>(_, m) \<leftarrow> meta. unat (md_size m))"

definition holds_content :: "(bytes \<Rightarrow> bytes) \<Rightarrow> (Hash \<Rightarrow> string) \<Rightarrow> DfsConfig \<Rightarrow> files \<Rightarrow> string \<Rightarrow> ContentMetadata \<Rightarrow> bool" where
  "holds_content sha256 show_cid c fs cid m \<longleftrightarrow>
     md_cid m = cid \<and>
     (case fs (content_path c cid) of
        None \<Rightarrow> False
      | Some data \<Rightarrow> from_data sha256 show_cid data = cid \<and> md_size m = of_nat (length data) \<and> length data < 2 ^ 63)"

definition dfs_ok :: "(bytes \<Rightarrow> bytes) \<Rightarrow> (Hash \<Rightarrow> string) \<Rightarrow> LocalDfsStorage \<Rightarrow> bool" where
  "dfs_ok sha256 show_cid s \<longleftrightarrow>
     bt_wf (ds_meta s) \<and>
     (\<forall>(cid, m) \<in> set (ds_meta s). holds_content sha256 show_cid (ds_config s) (ds_files s) cid m) \<and>
     update_stats s = s \<and>
     stored_bytes (ds_meta s) \<le> unat (dc_max_storage_size (ds_config s))"

lemma path_join_cid:
  assumes "cid_text cid"
  shows "content_path c cid = path_join (dc_storage_dir c) ''content'' @ ''/'' @ take 2 cid @ ''/'' @ cid"
proof -
  define base where "base = path_join (dc_storage_dir c) ''content''"
  have last: "base \<noteq> [] \<and> List.last base \<noteq> CHR ''/''" by (simp add: base_def path_join_def)
  from assms obtain x y r where cid: "cid = x # y # r" and nosl: "x \<noteq> CHR ''/''" "y \<noteq> CHR ''/''"
    by (cases cid; cases "tl cid") (auto simp: cid_text_def)
  then show ?thesis using last unfolding content_path_def base_def[symmetric] by (simp add: path_join_def)
qed

lemma content_path_inj:
  assumes "cid_text a" and "cid_text b"
  shows "content_path c a = content_path c b \<longleftrightarrow> a = b"
  using assms by (auto simp: path_join_cid append_eq_append_conv cid_text_def)

lemma sum_values_bt_insert:
  "bt_wf m \<Longrightarrow>
     (\<Sum>(_, v) \<leftarrow> bt_insert k v m. f v) + (case map_of m k of None \<Rightarrow> 0 | Some w \<Rightarrow> f w) = (\<Sum>(_, v) \<leftarrow> m. f v) + (f v :: nat)"
proof (induction k v m rule: bt_insert.induct)
  case (2 k v k' v' m)
  have "k < k' \<Longrightarrow> map_of m k = None"
    using 2(2) by (auto simp: map_of_eq_None_iff dest: less_trans)
  with 2 show ?case by (auto split: option.splits)
qed simp

lemma update_stats_simps [simp]:
  "ds_meta (update_stats s) = ds_meta s" "ds_files (update_stats s) = ds_files s" "ds_config (update_stats s) = ds_config s"
  "ds_categories (update_stats s) = ds_categories s" "update_stats (update_stats s) = update_stats s"
  by (simp_all add: update_stats_def Let_def)

lemma stored_bytes_insert:
  "bt_wf meta \<Longrightarrow> stored_bytes (bt_insert k m meta) + (case map_of meta k of None \<Rightarrow> 0 | Some w \<Rightarrow> unat (md_size w))
     = stored_bytes meta + unat (md_size m)"
  unfolding stored_bytes_def by (rule sum_values_bt_insert)

lemma set_bt_insert:
  "bt_wf meta \<Longrightarrow> set (bt_insert k m meta) = insert (k, m) {(k', m') \<in> set meta. k' \<noteq> k}"
  by (induction k m meta rule: bt_insert.induct) (auto dest: less_imp_neq)

lemma total_bytes:
  assumes "update_stats s = s"
  shows "st_total_bytes (ds_stats s) = sum_list (map (md_size \<circ> snd) (ds_meta s))"
proof -
  have "st_total_bytes (ds_stats (update_stats s)) = sum_list (map (md_size \<circ> snd) (ds_meta s))"
    by (simp add: update_stats_def Let_def)
  with assms show ?thesis by simp
qed

lemma stored_bytes_word: "of_nat (stored_bytes meta) = sum_list (map (md_size \<circ> snd) meta)"
  by (induction meta) (auto simp: stored_bytes_def)

lemma total_bytes_unat:
  assumes "dfs_ok sha256 show_cid s"
  shows "unat (st_total_bytes (ds_stats s)) = stored_bytes (ds_meta s)"
proof -
  have "stored_bytes (ds_meta s) < 2 ^ 64"
    using assms unsigned_less[of "dc_max_storage_size (ds_config s)", where ?'a = nat] by (simp add: dfs_ok_def)
  then have "unat (of_nat (stored_bytes (ds_meta s)) :: u64) = stored_bytes (ds_meta s)"
    by (simp add: unat_of_nat)
  with assms show ?thesis by (simp add: dfs_ok_def total_bytes stored_bytes_word)
qed

text \<open>Replacing the metadata of stored content by one with the same id and size keeps the invariant.\<close>

lemma store_metadata_ok:
  assumes ok: "dfs_ok sha256 show_cid s" and m: "map_of (ds_meta s) cid = Some m"
    and same: "md_cid m' = md_cid m" "md_size m' = md_size m"
  shows "dfs_ok sha256 show_cid (update_stats (store_metadata m' s))"
proof -
  have wf: "bt_wf (ds_meta s)" and "holds_content sha256 show_cid (ds_config s) (ds_files s) cid m"
    using ok map_of_SomeD[OF m] by (auto simp: dfs_ok_def)
  moreover have "md_cid m' = cid" using calculation same by (simp add: holds_content_def)
  moreover have "stored_bytes (bt_insert cid m' (ds_meta s)) = stored_bytes (ds_meta s)"
    using stored_bytes_insert[OF wf, of cid m'] m same by simp
  ultimately show ?thesis
    using ok same by (auto simp: dfs_ok_def store_metadata_def set_bt_insert bt.wf_insert holds_content_def split: option.splits)
qed

lemma pinned_count: "length (filter (md_pinned \<circ> snd) meta) = (\<Sum>(_, m) \<leftarrow> meta. of_bool (md_pinned m))"
  by (induction meta) auto

lemma length_entries: "length meta = (\<Sum>(_, m) \<leftarrow> meta. 1)"
  by (induction meta) auto

lemma update_stats_same:
  assumes "ds_config t = ds_config s" and "ds_stats t = ds_stats s"
    and "length (ds_meta t) = length (ds_meta s)" and "stored_bytes (ds_meta t) = stored_bytes (ds_meta s)"
    and "length (filter (md_pinned \<circ> snd) (ds_meta t)) = length (filter (md_pinned \<circ> snd) (ds_meta s))"
    and "update_stats s = s"
  shows "update_stats t = t"
proof -
  have "sum_list (map (md_size \<circ> snd) (ds_meta t)) = sum_list (map (md_size \<circ> snd) (ds_meta s))"
    using assms(4) by (metis stored_bytes_word)
  then have "ds_stats (update_stats t) = ds_stats (update_stats s)"
    using assms(1,2,3,5) by (simp add: update_stats_def Let_def)
  then have "ds_stats (update_stats t) = ds_stats t" using assms(2,6) by simp
  then show ?thesis by (simp add: update_stats_def Let_def)
qed

lemma touch_ok:
  assumes ok: "dfs_ok sha256 show_cid s" and m: "map_of (ds_meta s) cid = Some m"
  shows "dfs_ok sha256 show_cid (store_metadata (touch now m) s)"
proof -
  have wf: "bt_wf (ds_meta s)" and cid: "md_cid m = cid"
    using ok map_of_SomeD[OF m] by (auto simp: dfs_ok_def holds_content_def)
  note sums = sum_values_bt_insert[OF wf, where k = cid and v = "touch now m"]
  have "update_stats (store_metadata (touch now m) s) = store_metadata (touch now m) s"
  proof (rule update_stats_same[of _ s])
    show "length (ds_meta (store_metadata (touch now m) s)) = length (ds_meta s)"
      using sums[where f = "\<lambda>_. 1"] m cid by (simp add: store_metadata_def touch_def length_entries)
    show "stored_bytes (ds_meta (store_metadata (touch now m) s)) = stored_bytes (ds_meta s)"
      using sums[where f = "\<lambda>v. unat (md_size v)"] m cid by (simp add: store_metadata_def touch_def stored_bytes_def)
    show "length (filter (md_pinned \<circ> snd) (ds_meta (store_metadata (touch now m) s))) = length (filter (md_pinned \<circ> snd) (ds_meta s))"
      using sums[where f = "\<lambda>v. of_bool (md_pinned v)"] m cid unfolding pinned_count by (simp add: store_metadata_def touch_def)
  qed (use ok in \<open>simp_all add: store_metadata_def dfs_ok_def\<close>)
  with store_metadata_ok[OF ok m, of "touch now m"] show ?thesis by (simp add: touch_def)
qed

lemma check_space_fits:
  assumes ok: "dfs_ok sha256 show_cid s" and room: "check_space s (of_nat n) = Inr u"
    and "n < 2 ^ 63" and "unat (dc_max_storage_size (ds_config s)) < 2 ^ 63"
  shows "stored_bytes (ds_meta s) + n \<le> unat (dc_max_storage_size (ds_config s))"
proof -
  let ?total = "st_total_bytes (ds_stats s)"
  have total: "unat ?total = stored_bytes (ds_meta s)" using ok by (rule total_bytes_unat)
  have n: "unat (of_nat n :: u64) = n" using assms(3) by (simp add: unat_of_nat)
  have "stored_bytes (ds_meta s) + n < 2 ^ 64" using ok assms(3,4) by (simp add: dfs_ok_def)
  then have "unat (?total + of_nat n) = stored_bytes (ds_meta s) + n"
    using total n by (simp add: unat_word_ariths)
  with room show ?thesis by (simp add: check_space_def word_le_nat_alt not_less split: if_splits)
qed

lemma new_content_ok:
  assumes ok: "dfs_ok sha256 show_cid s" and cids: "\<forall>h. cid_text (show_cid h)"
    and cid: "cid = from_data sha256 show_cid data" and fresh: "\<not> dfs_has s cid"
    and room: "stored_bytes (ds_meta s) + length data \<le> unat (dc_max_storage_size (ds_config s))" and len: "length data < 2 ^ 63"
    and m: "md_cid m = cid" "md_size m = of_nat (length data)"
  shows "dfs_ok sha256 show_cid (update_stats (store_metadata m (s\<lparr>ds_files := (ds_files s)(content_path (ds_config s) cid \<mapsto> data)\<rparr>)))"
proof -
  have wf: "bt_wf (ds_meta s)" and old: "\<forall>(k, w) \<in> set (ds_meta s). holds_content sha256 show_cid (ds_config s) (ds_files s) k w"
    using ok by (auto simp: dfs_ok_def)
  have none: "map_of (ds_meta s) cid = None"
  proof (rule ccontr)
    assume "map_of (ds_meta s) cid \<noteq> None"
    then obtain w where w: "map_of (ds_meta s) cid = Some w" by auto
    then have "ds_files s (content_path (ds_config s) cid) \<noteq> None"
      using old map_of_SomeD[OF w] by (auto simp: holds_content_def split: option.splits)
    with w fresh show False by (simp add: dfs_has_def)
  qed
  have texts: "cid_text k" if "(k, w) \<in> set (ds_meta s)" for k w
    using that old cids by (fastforce simp: holds_content_def from_data_def split: option.splits)
  have "cid_text cid" using cids cid by (simp add: from_data_def)
  then have paths: "content_path (ds_config s) k \<noteq> content_path (ds_config s) cid" if "(k, w) \<in> set (ds_meta s)" "k \<noteq> cid" for k w
    using texts[OF that(1)] that(2) by (simp add: content_path_inj)
  have "unat (of_nat (length data) :: u64) = length data" using len by (simp add: unat_of_nat)
  then have "stored_bytes (bt_insert cid m (ds_meta s)) \<le> unat (dc_max_storage_size (ds_config s))"
    using stored_bytes_insert[OF wf, of cid m] none room m by simp
  then show ?thesis
    using wf old m cid len paths
    by (fastforce simp: dfs_ok_def store_metadata_def set_bt_insert bt.wf_insert holds_content_def)
qed

lemma dfs_put_ok:
  assumes ok: "dfs_ok sha256 show_cid s" and cids: "\<forall>h. cid_text (show_cid h)"
    and "length data < 2 ^ 63" and "unat (dc_max_storage_size (ds_config s)) < 2 ^ 63"
  shows "dfs_ok sha256 show_cid (snd (dfs_put sha256 show_cid now data s))"
proof (cases "check_space s (of_nat (length data))")
  case (Inr u)
  note room = check_space_fits[OF ok Inr assms(3,4)]
  show ?thesis
    using Inr ok touch_ok[OF ok] new_content_ok[OF ok cids refl _ room assms(3)]
    by (auto simp: dfs_put_def Let_def split: option.splits)
qed (use ok in \<open>simp add: dfs_put_def Let_def\<close>)

lemma snd_remove_content:
  "snd (remove_content removable c m st) = (\<lambda>p. if removable p \<and> content_path c (md_cid m) = p then None else snd st p)"
  by (cases st) (auto simp: remove_content_def Let_def fun_eq_iff)

lemma remove_content_files:
  "snd (fold (\<lambda>(_, m). remove_content removable c m) xs st)
     = (\<lambda>p. if removable p \<and> (\<exists>(_, m) \<in> set xs. content_path c (md_cid m) = p) then None else snd st p)"
proof (induction xs arbitrary: st)
  case (Cons x xs)
  then show ?case by (cases x) (auto simp: snd_remove_content fun_eq_iff)
qed simp

lemma stored_bytes_filter: "stored_bytes (filter P meta) \<le> stored_bytes meta"
  by (induction meta) (auto simp: stored_bytes_def intro: le_trans[OF _ le_add2] add_left_mono)

text \<open>What a collection leaves: the metadata that is not collectable, and the files of that metadata.\<close>

lemma gc_cases:
  assumes "bt_wf (ds_meta s)"
  shows "snd (gc removable now s) = s \<or>
    (let t = snd (gc removable now s) in
     update_stats t = t \<and> ds_config t = ds_config s \<and> ds_meta t = filter (\<lambda>(_, m). \<not> collectable now m) (ds_meta s) \<and>
     ds_files t = (\<lambda>p. if removable p \<and> (\<exists>(_, m) \<in> set (ds_meta s). collectable now m \<and> content_path (ds_config s) (md_cid m) = p)
                    then None else ds_files s p))"
proof (cases "dc_enable_gc (ds_config s)")
  case True
  have "distinct (map fst (ds_meta s))" using assms by (rule bt.wf_distinct)
  then have meta: "filter (\<lambda>(k, _). k \<notin> fst ` {x \<in> set (ds_meta s). case x of (_, m) \<Rightarrow> collectable now m}) (ds_meta s)
      = filter (\<lambda>(_, m). \<not> collectable now m) (ds_meta s)"
    by (intro filter_cong) (force dest: eq_key_imp_eq_value)+
  show ?thesis
    using True by (auto simp: gc_def Let_def case_prod_unfold meta[unfolded case_prod_unfold]
      remove_content_files[unfolded case_prod_unfold] fun_eq_iff) blast
qed (simp add: gc_def)

lemma gc_ok:
  assumes ok: "dfs_ok sha256 show_cid s" and cids: "\<forall>h. cid_text (show_cid h)"
  shows "dfs_ok sha256 show_cid (snd (gc removable now s))"
proof -
  have wf: "bt_wf (ds_meta s)" and old: "\<forall>(k, w) \<in> set (ds_meta s). holds_content sha256 show_cid (ds_config s) (ds_files s) k w"
    using ok by (auto simp: dfs_ok_def)
  have texts: "cid_text k" if "(k, w) \<in> set (ds_meta s)" for k w
    using that old cids by (fastforce simp: holds_content_def from_data_def split: option.splits)
  have kept: "content_path (ds_config s) (md_cid w') \<noteq> content_path (ds_config s) k"
    if "(k, w) \<in> set (ds_meta s)" "\<not> collectable now w" "(k', w') \<in> set (ds_meta s)" "collectable now w'" for k w k' w'
  proof -
    have "k \<noteq> k'" using that bt.wf_distinct[OF wf] by (metis eq_key_imp_eq_value)
    moreover have "md_cid w' = k'" using old that(3) by (auto simp: holds_content_def)
    ultimately show ?thesis using texts[OF that(1)] texts[OF that(3)] by (simp add: content_path_inj)
  qed
  have "bt_wf (filter (\<lambda>(_, m). \<not> collectable now m) (ds_meta s))"
    using wf by (simp add: sorted_wrt_map sorted_wrt_filter)
  then show ?thesis
    using gc_cases[OF wf, of removable now] ok old kept
      le_trans[OF stored_bytes_filter[of "\<lambda>(_, m). \<not> collectable now m" "ds_meta s"]]
    by (fastforce simp: dfs_ok_def Let_def holds_content_def)
qed

lemma run_op_config [simp]: "ds_config (run_op sha256 show_cid op s) = ds_config s"
  by (cases op)
     (auto simp: dfs_put_def put_categorized_def dfs_get_def pin_def unpin_def gc_def store_metadata_def Let_def
       case_prod_unfold split: sum.splits option.splits)

lemma category_ok: "dfs_ok sha256 show_cid (s\<lparr>ds_categories := cats\<rparr>) \<longleftrightarrow> dfs_ok sha256 show_cid s"
proof -
  have "update_stats (s\<lparr>ds_categories := cats\<rparr>) = s\<lparr>ds_categories := cats\<rparr> \<longleftrightarrow> update_stats s = s"
    by (cases s) (simp add: update_stats_def Let_def)
  then show ?thesis by (simp add: dfs_ok_def)
qed

lemma run_op_ok:
  assumes ok: "dfs_ok sha256 show_cid s" and cids: "\<forall>h. cid_text (show_cid h)"
    and "op_fits op" and "unat (dc_max_storage_size (ds_config s)) < 2 ^ 63"
  shows "dfs_ok sha256 show_cid (run_op sha256 show_cid op s)"
proof (cases op)
  case (Put now data)
  with dfs_put_ok[OF ok cids _ assms(4)] assms(3) show ?thesis by simp
next
  case (PutCategorized now data category)
  with dfs_put_ok[OF ok cids _ assms(4), of data now] assms(3) show ?thesis
    by (auto simp: put_categorized_def category_ok case_prod_unfold split: sum.splits)
next
  case (Get now cid)
  with ok touch_ok[OF ok] show ?thesis by (auto simp: dfs_get_def split: option.splits)
next
  case (Pin cid)
  with ok store_metadata_ok[OF ok] show ?thesis by (auto simp: pin_def split: option.splits)
next
  case (Unpin cid)
  with ok store_metadata_ok[OF ok] show ?thesis by (auto simp: unpin_def split: option.splits)
next
  case (Gc removable now)
  with gc_ok[OF ok cids] show ?thesis by simp
qed

abbreviation run_ops :: "(bytes \<Rightarrow> bytes) \<Rightarrow> (Hash \<Rightarrow> string) \<Rightarrow> dfs_op list \<Rightarrow> LocalDfsStorage \<Rightarrow> LocalDfsStorage" where
  "run_ops sha256 show_cid \<equiv> fold (run_op sha256 show_cid)"

lemma run_ops_config: "ds_config (run_ops sha256 show_cid ops s) = ds_config s"
  by (induction ops arbitrary: s) simp_all

lemma run_ops_ok:
  assumes "dfs_ok sha256 show_cid s" and "\<forall>h. cid_text (show_cid h)" and "list_all op_fits ops"
    and "unat (dc_max_storage_size (ds_config s)) < 2 ^ 63"
  shows "dfs_ok sha256 show_cid (run_ops sha256 show_cid ops s)"
  using assms by (induction ops arbitrary: s) (simp_all add: run_op_ok)

lemma new_local_dfs_ok: "dfs_ok sha256 show_cid (new_local_dfs c fs [] cats)"
  by (simp add: dfs_ok_def new_local_dfs_def stored_bytes_def)

lemma dfs_get_ok:
  assumes ok: "dfs_ok sha256 show_cid s"
  shows "case map_of (ds_meta s) cid of
           None \<Rightarrow> fst (dfs_get now cid s) = Inl (not_found cid)
         | Some m \<Rightarrow> \<exists>data. fst (dfs_get now cid s) = Inr data \<and> from_data sha256 show_cid data = cid \<and> unat (md_size m) = length data"
proof (cases "map_of (ds_meta s) cid")
  case (Some m)
  then have "holds_content sha256 show_cid (ds_config s) (ds_files s) cid m"
    using ok map_of_SomeD[OF Some] by (auto simp: dfs_ok_def)
  with Some show ?thesis by (auto simp: dfs_get_def holds_content_def unat_of_nat split: option.splits)
qed (simp add: dfs_get_def)

text \<open>C30: the local store hands out only what was addressed. From an empty database, after any sequence of puts, gets, pins, unpins and
collections, also of collections whose file removals fail, reading a content id either returns bytes whose id it is, of the size that the
metadata records, or there is no metadata for it and the read fails with not found; the byte count of the statistics is the exact sum of the
recorded sizes, without wrap-around, and never exceeds the configured maximum.\<close>

theorem dfs_content_integrity:
  assumes "\<forall>h. cid_text (show_cid h)" and "list_all op_fits ops" and "unat (dc_max_storage_size c) < 2 ^ 63"
  shows "let s = run_ops sha256 show_cid ops (new_local_dfs c fs [] []) in
     (case dfs_metadata s cid of
        Inl err \<Rightarrow> fst (dfs_get now cid s) = Inl err
      | Inr m \<Rightarrow> \<exists>data. fst (dfs_get now cid s) = Inr data \<and> from_data sha256 show_cid data = cid \<and> unat (md_size m) = length data)
     \<and> unat (st_total_bytes (ds_stats s)) = sum_list (map (unat \<circ> md_size) (dfs_list s))
     \<and> st_total_bytes (ds_stats s) \<le> dc_max_storage_size c"
proof -
  define s where "s = run_ops sha256 show_cid ops (new_local_dfs c fs [] [])"
  have c: "ds_config s = c" by (simp add: s_def run_ops_config) (simp add: new_local_dfs_def)
  have ok: "dfs_ok sha256 show_cid s"
    unfolding s_def by (rule run_ops_ok[OF new_local_dfs_ok]) (use assms in \<open>simp_all add: new_local_dfs_def\<close>)
  have sizes: "sum_list (map (unat \<circ> md_size) (dfs_list s)) = stored_bytes (ds_meta s)"
    by (simp add: dfs_list_def stored_bytes_def comp_def case_prod_unfold)
  have "unat (st_total_bytes (ds_stats s)) = stored_bytes (ds_meta s)" using ok by (rule total_bytes_unat)
  moreover have "stored_bytes (ds_meta s) \<le> unat (dc_max_storage_size c)" using ok c by (simp add: dfs_ok_def)
  ultimately show ?thesis
    using dfs_get_ok[OF ok, where cid = cid and now = now] sizes unfolding s_def[symmetric]
    by (auto simp: dfs_metadata_def Let_def word_le_nat_alt split: option.splits)
qed

theorem dfs_content_integrity_witness:
  "let s = run_ops (\<lambda>b. b) (\<lambda>h. ''ba'' @ map (\<lambda>_. CHR ''x'') h) [Put 0 [1, 2, 3], Pin ''baxxx'', Gc (\<lambda>_. False) 99] (new_local_dfs default_dfs_config Map.empty [] []) in
     fst (dfs_get 5 ''baxxx'' s) = Inr [1, 2, 3] \<and> unat (st_total_bytes (ds_stats s)) = 3"
proof -
  have "\<forall>h :: Hash. cid_text (''ba'' @ map (\<lambda>_. CHR ''x'') h)" by (auto simp: cid_text_def)
  from dfs_content_integrity[OF this, of "[Put 0 [1, 2, 3], Pin ''baxxx'', Gc (\<lambda>_. False) 99]" default_dfs_config "\<lambda>b. b" Map.empty 5 "''baxxx''"]
  show ?thesis
    by (simp add: default_dfs_config_def new_local_dfs_def update_stats_def dfs_put_def check_space_def Let_def from_data_def dfs_has_def
        store_metadata_def pin_def gc_def collectable_def dfs_get_def dfs_metadata_def dfs_list_def)
qed

lemma pinned_step:
  assumes ok: "dfs_ok sha256 show_cid s" and cids: "\<forall>h. cid_text (show_cid h)"
    and pinned: "map_of (ds_meta s) cid = Some m" "md_pinned m" and op: "op \<noteq> Unpin cid"
    and data: "ds_files s (content_path (ds_config s) cid) = Some data"
  shows "\<exists>m'. map_of (ds_meta (run_op sha256 show_cid op s)) cid = Some m' \<and> md_pinned m'
     \<and> ds_files (run_op sha256 show_cid op s) (content_path (ds_config s) cid) = Some data"
proof -
  have wf: "bt_wf (ds_meta s)" and old: "\<forall>(k, w) \<in> set (ds_meta s). holds_content sha256 show_cid (ds_config s) (ds_files s) k w"
    using ok by (auto simp: dfs_ok_def)
  have texts: "cid_text k \<and> md_cid w = k" if "(k, w) \<in> set (ds_meta s)" for k w
    using that old cids by (fastforce simp: holds_content_def from_data_def split: option.splits)
  have own: "md_cid w = k" if "map_of (ds_meta s) k = Some w" for k w using texts map_of_SomeD[OF that] by blast
  have proper: "cid_text cid" using texts map_of_SomeD[OF pinned(1)] by blast
  have put: "\<exists>m'. map_of (ds_meta (snd (dfs_put sha256 show_cid now b s))) cid = Some m' \<and> md_pinned m'
     \<and> ds_files (snd (dfs_put sha256 show_cid now b s)) (content_path (ds_config s) cid) = Some data" for now b
    using pinned data own cids proper wf
    by (auto simp: dfs_put_def Let_def dfs_has_def store_metadata_def touch_def bt.lookup_insert from_data_def content_path_inj
        split: sum.splits option.splits)
  show ?thesis
  proof (cases op)
    case (Put now b)
    then show ?thesis using put by simp
  next
    case (PutCategorized now b category)
    then show ?thesis using put[of now b] by (auto simp: put_categorized_def case_prod_unfold split: sum.splits)
  next
    case (Gc removable now)
    have "content_path (ds_config s) (md_cid w) \<noteq> content_path (ds_config s) cid"
      if "(k, w) \<in> set (ds_meta s)" "collectable now w" for k w
      using that texts[OF that(1)] proper pinned bt.wf_distinct[OF wf] by (auto simp: content_path_inj collectable_def dest: eq_key_imp_eq_value)
    moreover have "map_of (filter (\<lambda>(_, m). \<not> collectable now m) (ds_meta s)) cid = Some m"
      using pinned bt.wf_distinct[OF wf] by (simp add: map_of_filter_in collectable_def map_of_eq_Some_iff distinct_map_filter)
    ultimately show ?thesis using gc_cases[OF wf, of removable now] pinned data Gc by (auto simp: Let_def)
  qed (use pinned data own op wf in \<open>auto simp: dfs_get_def pin_def unpin_def store_metadata_def touch_def bt.lookup_insert split: option.splits\<close>)
qed

text \<open>C36: pinned content survives. From a state that satisfies the invariant, after any sequence of operations, collections included, in
which the content is not unpinned, a read of pinned content returns exactly the bytes it returned before.\<close>

theorem pinned_content_survives:
  assumes "dfs_ok sha256 show_cid s" and "\<forall>h. cid_text (show_cid h)" and "unat (dc_max_storage_size (ds_config s)) < 2 ^ 63"
    and "dfs_metadata s cid = Inr m" and "md_pinned m" and "list_all op_fits ops" and "Unpin cid \<notin> set ops"
  shows "\<exists>data. fst (dfs_get now cid s) = Inr data \<and> fst (dfs_get later cid (run_ops sha256 show_cid ops s)) = Inr data"
proof -
  have m: "map_of (ds_meta s) cid = Some m" using assms(4) by (simp add: dfs_metadata_def split: option.splits)
  then obtain data where data: "ds_files s (content_path (ds_config s) cid) = Some data"
    using assms(1) map_of_SomeD[OF m] by (force simp: dfs_ok_def holds_content_def split: option.splits)
  have "\<exists>m'. map_of (ds_meta (run_ops sha256 show_cid ops s)) cid = Some m'
     \<and> ds_files (run_ops sha256 show_cid ops s) (content_path (ds_config (run_ops sha256 show_cid ops s)) cid) = Some data"
    using assms(1,3,5-7) m data
  proof (induction ops arbitrary: s m)
    case (Cons op ops)
    let ?t = "run_op sha256 show_cid op s"
    obtain m' where m': "map_of (ds_meta ?t) cid = Some m'" "md_pinned m'"
        "ds_files ?t (content_path (ds_config ?t) cid) = Some data"
      using pinned_step[OF Cons.prems(1) assms(2) Cons.prems(6,3) _ Cons.prems(7), of op] Cons.prems(5) by auto
    have "dfs_ok sha256 show_cid ?t" using Cons.prems by (intro run_op_ok[OF _ assms(2)]) simp_all
    with Cons.IH[OF this _ m'(2) _ _ m'(1,3)] Cons.prems show ?case by simp
  qed simp
  with m data show ?thesis by (auto simp: dfs_get_def)
qed

theorem pinned_content_survives_witness:
  "\<exists>data. fst (dfs_get 5 ''baxxx'' (run_ops (\<lambda>b. b) (\<lambda>h. ''ba'' @ map (\<lambda>_. CHR ''x'') h) [Gc (\<lambda>_. True) (10 ^ 20)]
       (run_ops (\<lambda>b. b) (\<lambda>h. ''ba'' @ map (\<lambda>_. CHR ''x'') h) [Put 0 [1, 2, 3], Pin ''baxxx''] (new_local_dfs default_dfs_config Map.empty [] [])))) = Inr data"
proof -
  let ?show = "\<lambda>h :: Hash. ''ba'' @ map (\<lambda>_. CHR ''x'') h"
  let ?s = "run_ops (\<lambda>b. b) ?show [Put 0 [1, 2, 3], Pin ''baxxx''] (new_local_dfs default_dfs_config Map.empty [] [])"
  have texts: "\<forall>h. cid_text (?show h)" by (auto simp: cid_text_def)
  have cap: "unat (dc_max_storage_size default_dfs_config) < 2 ^ 63" by (simp add: default_dfs_config_def)
  have "dfs_ok (\<lambda>b. b) ?show ?s"
    by (rule run_ops_ok[OF new_local_dfs_ok texts]) (use cap in \<open>simp_all add: new_local_dfs_def\<close>)
  moreover have "\<exists>m. dfs_metadata ?s ''baxxx'' = Inr m \<and> md_pinned m"
    by (simp add: default_dfs_config_def new_local_dfs_def update_stats_def dfs_put_def check_space_def Let_def from_data_def dfs_has_def
        store_metadata_def pin_def dfs_metadata_def)
  moreover have "unat (dc_max_storage_size (ds_config ?s)) < 2 ^ 63" using cap unfolding run_ops_config by (simp add: new_local_dfs_def)
  ultimately show ?thesis
    using pinned_content_survives[OF _ texts, of "\<lambda>b. b" ?s "''baxxx''" _ "[Gc (\<lambda>_. True) (10 ^ 20)]" 5 5] by auto
qed

end
