(* ===== verification/Providers.thy ===== *)
theory Providers
  imports Content_Store
begin

text \<open>
  The registry of content providers of \<open>catalyst-dfs\<close> (\<open>provider.rs\<close>): announcements with a
  timeout, the cache in front of the network's registry, the replication check, and the service
  that stores content and announces it (\<open>DfsService\<close> of \<open>lib.rs\<close>).

  A hash map is an association list and a hash set a list without duplicates. Instants are
  nanoseconds and the clock is an argument. The averages of the statistics are floats and are left
  out, and so are the background tasks, which only call the operations below on a timer.
\<close>

section \<open>The registry\<close>

definition hs_insert :: "'a \<Rightarrow> 'a list \<Rightarrow> 'a list" where
  "hs_insert x xs = (if x \<in> set xs then xs else xs @ [x])"

definition hm_remove :: "'k \<Rightarrow> ('k \<times> 'v) list \<Rightarrow> ('k \<times> 'v) list" where
  "hm_remove k m = filter (\<lambda>(k', _). k' \<noteq> k) m"

definition hm_get_or_default :: "('k \<times> 'v list) list \<Rightarrow> 'k \<Rightarrow> 'v list" where
  "hm_get_or_default m k = (case map_of m k of None \<Rightarrow> [] | Some v \<Rightarrow> v)"

record DfsContentProvider =
  pr_providers :: "(string \<times> string list) list"
  pr_timestamps :: "(string \<times> nat) list"
  pr_providing :: "string list"
  pr_timeout :: nat

definition new_provider :: DfsContentProvider where
  "new_provider = \<lparr>pr_providers = [], pr_timestamps = [], pr_providing = [], pr_timeout = 3600 * 1000000000\<rparr>"

definition add_provider :: "nat \<Rightarrow> string \<Rightarrow> string \<Rightarrow> DfsContentProvider \<Rightarrow> DfsContentProvider" where
  "add_provider now cid who r =
     r\<lparr>pr_providers := hm_insert cid (hs_insert who (hm_get_or_default (pr_providers r) cid)) (pr_providers r),
       pr_timestamps := hm_insert who now (pr_timestamps r)\<rparr>"

definition remove_provider :: "string \<Rightarrow> string \<Rightarrow> DfsContentProvider \<Rightarrow> DfsContentProvider" where
  "remove_provider cid who r =
     r\<lparr>pr_providers :=
         (case map_of (pr_providers r) cid of
            None \<Rightarrow> pr_providers r
          | Some ps \<Rightarrow>
              (let ps' = removeAll who ps in
               if ps' = [] then hm_remove cid (pr_providers r) else hm_insert cid ps' (pr_providers r))),
       pr_timestamps := hm_remove who (pr_timestamps r)\<rparr>"

definition expire :: "string \<Rightarrow> DfsContentProvider \<Rightarrow> DfsContentProvider" where
  "expire who r =
     (let swept = map (\<lambda>(cid, ps). (cid, removeAll who ps)) (pr_providers r);
          empty_content = map fst (filter (\<lambda>(_, ps). ps = []) swept)
      in r\<lparr>pr_timestamps := hm_remove who (pr_timestamps r), pr_providers := fold hm_remove empty_content swept\<rparr>)"

definition cleanup_expired_providers :: "nat \<Rightarrow> DfsContentProvider \<Rightarrow> DfsContentProvider" where
  "cleanup_expired_providers now r =
     fold expire (map fst (filter (\<lambda>(_, t). now - t > pr_timeout r) (pr_timestamps r))) r"

definition provider_count :: "DfsContentProvider \<Rightarrow> string \<Rightarrow> nat" where
  "provider_count r cid = (case map_of (pr_providers r) cid of None \<Rightarrow> 0 | Some ps \<Rightarrow> length ps)"

definition provide :: "nat \<Rightarrow> string \<Rightarrow> DfsContentProvider \<Rightarrow> DfsContentProvider" where
  "provide now cid r = add_provider now cid ''local'' (r\<lparr>pr_providing := hs_insert cid (pr_providing r)\<rparr>)"

definition unprovide :: "string \<Rightarrow> DfsContentProvider \<Rightarrow> DfsContentProvider" where
  "unprovide cid r = remove_provider cid ''local'' (r\<lparr>pr_providing := removeAll cid (pr_providing r)\<rparr>)"

definition find_providers :: "nat \<Rightarrow> string \<Rightarrow> DfsContentProvider \<Rightarrow> string list \<times> DfsContentProvider" where
  "find_providers now cid r =
     (let r1 = cleanup_expired_providers now r in (hm_get_or_default (pr_providers r1) cid, r1))"

section \<open>The network's registry and replication\<close>

record DhtContentProvider =
  dht_local :: DfsContentProvider
  dht_network :: "(string \<times> string list) list"

definition update_network_providers :: "string \<Rightarrow> string list \<Rightarrow> DhtContentProvider \<Rightarrow> DhtContentProvider" where
  "update_network_providers cid ps d = d\<lparr>dht_network := hm_insert cid ps (dht_network d)\<rparr>"

definition query_dht :: "DhtContentProvider \<Rightarrow> string \<Rightarrow> string list" where
  "query_dht d cid = hm_get_or_default (dht_network d) cid"

definition get_all_providers :: "nat \<Rightarrow> string \<Rightarrow> DhtContentProvider \<Rightarrow> string list \<times> DhtContentProvider" where
  "get_all_providers now cid d =
     (case find_providers now cid (dht_local d) of
        (local, r) \<Rightarrow> (fold hs_insert (query_dht d cid) (fold hs_insert local []), d\<lparr>dht_local := r\<rparr>))"

definition announce_to_dht :: "nat \<Rightarrow> string \<Rightarrow> DhtContentProvider \<Rightarrow> DhtContentProvider" where
  "announce_to_dht now cid d = d\<lparr>dht_local := provide now cid (dht_local d)\<rparr>"

definition dht_provide :: "nat \<Rightarrow> string \<Rightarrow> DhtContentProvider \<Rightarrow> DhtContentProvider" where
  "dht_provide now cid d = announce_to_dht now cid (d\<lparr>dht_local := provide now cid (dht_local d)\<rparr>)"

definition dht_unprovide :: "string \<Rightarrow> DhtContentProvider \<Rightarrow> DhtContentProvider" where
  "dht_unprovide cid d = d\<lparr>dht_local := unprovide cid (dht_local d)\<rparr>"

definition dht_find_providers :: "nat \<Rightarrow> string \<Rightarrow> DhtContentProvider \<Rightarrow> string list \<times> DhtContentProvider" where
  "dht_find_providers now cid d =
     (case find_providers now cid (dht_local d) of
        (local, r) \<Rightarrow>
          if local \<noteq> [] then (local, d\<lparr>dht_local := r\<rparr>)
          else (query_dht d cid, d\<lparr>dht_local := fold (add_provider now cid) (query_dht d cid) r\<rparr>))"

datatype ReplicationLevel = NoReplication | Insufficient | Adequate | Optimal

record ContentReplicator =
  target_replication :: usize
  min_replication :: usize

record ReplicationStatus =
  rs_current :: usize
  rs_target :: usize
  rs_level :: ReplicationLevel
  rs_providers :: "string list"

definition new_replicator :: "usize \<Rightarrow> ContentReplicator" where
  "new_replicator target = \<lparr>target_replication = target, min_replication = (target + 1) div 2\<rparr>"

definition check_replication :: "ContentReplicator \<Rightarrow> nat \<Rightarrow> string \<Rightarrow> DhtContentProvider \<Rightarrow> ReplicationStatus \<times> DhtContentProvider" where
  "check_replication c now cid d =
     (case get_all_providers now cid d of
        (ps, d1) \<Rightarrow>
          (let current = of_nat (length ps);
               level = (if current \<ge> target_replication c then Optimal
                        else if current \<ge> min_replication c then Adequate
                        else if current > 0 then Insufficient else NoReplication)
           in (\<lparr>rs_current = current, rs_target = target_replication c, rs_level = level, rs_providers = ps\<rparr>, d1)))"

definition ensure_replication :: "ContentReplicator \<Rightarrow> nat \<Rightarrow> string \<Rightarrow> DhtContentProvider \<Rightarrow> (DfsError, unit) result \<times> DhtContentProvider" where
  "ensure_replication c now cid d =
     (case check_replication c now cid d of
        (st, d1) \<Rightarrow>
          (case rs_level st of
             NoReplication \<Rightarrow> (Inl (DfsNotFound (''No providers found for '' @ cid)), d1)
           | _ \<Rightarrow> (Inr (), d1)))"

section \<open>The service\<close>

record DfsService =
  sv_dfs :: LocalDfsStorage
  sv_provider :: "DfsContentProvider option"

definition create_dfs ::
  "DfsConfig \<Rightarrow> files \<Rightarrow> (string \<times> ContentMetadata) list \<Rightarrow> (string \<times> ContentCategory) list \<Rightarrow> (DfsError, LocalDfsStorage) result" where
  "create_dfs c fs meta cats =
     (case validate_dfs_config c of Inl err \<Rightarrow> Inl err | Inr _ \<Rightarrow> Inr (new_local_dfs c fs meta cats))"

definition new_service ::
  "DfsConfig \<Rightarrow> files \<Rightarrow> (string \<times> ContentMetadata) list \<Rightarrow> (string \<times> ContentCategory) list \<Rightarrow> (DfsError, DfsService) result" where
  "new_service c fs meta cats =
     (case create_dfs c fs meta cats of
        Inl err \<Rightarrow> Inl err
      | Inr d \<Rightarrow> Inr \<lparr>sv_dfs = d, sv_provider = (if dc_enable_discovery c then Some new_provider else None)\<rparr>)"

definition store_with_replication ::
  "(bytes \<Rightarrow> bytes) \<Rightarrow> (Hash \<Rightarrow> string) \<Rightarrow> int \<Rightarrow> nat \<Rightarrow> bytes \<Rightarrow> DfsService \<Rightarrow> (DfsError, string) result \<times> DfsService" where
  "store_with_replication sha256 show_cid utc now data v =
     (case dfs_put sha256 show_cid utc data (sv_dfs v) of
        (Inl err, d) \<Rightarrow> (Inl err, v\<lparr>sv_dfs := d\<rparr>)
      | (Inr cid, d) \<Rightarrow> (Inr cid, v\<lparr>sv_dfs := d, sv_provider := map_option (provide now cid) (sv_provider v)\<rparr>))"

section \<open>Lemmas\<close>

lemma map_of_hm_remove: "map_of (hm_remove k m) = (map_of m)(k := None)"
  by (induction m) (auto simp: hm_remove_def)

lemma distinct_hm_remove: "distinct (map fst m) \<Longrightarrow> distinct (map fst (hm_remove k m))"
  by (simp add: hm_remove_def distinct_map_filter)

text \<open>
  The registry is well formed when no key occurs twice, no content has an empty set of providers
  and no set has duplicates.
\<close>

definition registry_ok :: "DfsContentProvider \<Rightarrow> bool" where
  "registry_ok r \<longleftrightarrow> distinct (map fst (pr_providers r)) \<and> distinct (map fst (pr_timestamps r))
     \<and> (\<forall>cid ps. map_of (pr_providers r) cid = Some ps \<longrightarrow> ps \<noteq> [] \<and> distinct ps)"

definition provides :: "DfsContentProvider \<Rightarrow> string \<Rightarrow> string \<Rightarrow> bool" where
  "provides r cid who \<longleftrightarrow> who \<in> set (hm_get_or_default (pr_providers r) cid)"

lemma fold_hm_remove: "map_of (fold hm_remove ks m) = (\<lambda>k. if k \<in> set ks then None else map_of m k)"
  by (induction ks arbitrary: m) (auto simp: map_of_hm_remove fun_eq_iff)

lemma distinct_fold_hm_remove: "distinct (map fst m) \<Longrightarrow> distinct (map fst (fold hm_remove ks m))"
  by (induction ks arbitrary: m) (auto simp: distinct_hm_remove)

lemma set_fold_hm_remove: "set (fold hm_remove ks m) = {(k, v) \<in> set m. k \<notin> set ks}"
  by (induction ks arbitrary: m) (auto simp: hm_remove_def)

lemma set_hs_insert: "set (hs_insert x xs) = insert x (set xs)"
  by (auto simp: hs_insert_def)

lemma distinct_hs_insert: "distinct xs \<Longrightarrow> distinct (hs_insert x xs)"
  by (simp add: hs_insert_def)

lemma keys_filter:
  "distinct (map fst m) \<Longrightarrow> k \<in> set (map fst (filter (\<lambda>(_, v). P v) m)) \<longleftrightarrow> (\<exists>v. map_of m k = Some v \<and> P v)"
  by (force simp: map_of_eq_Some_iff)

lemma set_hm_get: "x \<in> set (hm_get_or_default m k) \<longleftrightarrow> (\<exists>v. map_of m k = Some v \<and> x \<in> set v)"
  by (cases "map_of m k") (auto simp: hm_get_or_default_def)

lemma map_of_swept: "map_of (map (\<lambda>(k, v). (k, f v)) m) k = map_option f (map_of m k)"
  by (induction m) auto

lemma expire_entry:
  assumes "registry_ok r"
  shows "map_of (pr_providers (expire x r)) cid =
    (case map_of (pr_providers r) cid of None \<Rightarrow> None | Some ps \<Rightarrow> if removeAll x ps = [] then None else Some (removeAll x ps))"
proof -
  let ?swept = "map (\<lambda>(cid, ps). (cid, removeAll x ps)) (pr_providers r)"
  have "distinct (map fst ?swept)" using assms by (simp add: registry_ok_def comp_def case_prod_unfold)
  then have "cid \<in> set (map fst (filter (\<lambda>(_, ps). ps = []) ?swept)) \<longleftrightarrow> (\<exists>v. map_of ?swept cid = Some v \<and> v = [])"
    by (rule keys_filter)
  then show ?thesis
    unfolding expire_def Let_def fold_hm_remove map_of_swept by (simp add: fold_hm_remove map_of_swept split: option.splits)
qed

lemma expire_ok:
  assumes "registry_ok r"
  shows "registry_ok (expire x r)"
proof -
  have "distinct (map fst (map (\<lambda>(cid, ps). (cid, removeAll x ps)) (pr_providers r)))"
    using assms by (simp add: registry_ok_def comp_def case_prod_unfold)
  then have "distinct (map fst (pr_providers (expire x r)))" by (simp only: expire_def Let_def) (simp add: distinct_fold_hm_remove)
  moreover have "distinct (map fst (pr_timestamps (expire x r)))"
    using assms by (simp add: expire_def Let_def registry_ok_def distinct_hm_remove)
  ultimately show ?thesis
    using assms unfolding registry_ok_def expire_entry[OF assms] by (auto simp: distinct_removeAll split: option.splits if_splits)
qed

lemma expire_provides:
  assumes "registry_ok r"
  shows "provides (expire x r) cid who \<longleftrightarrow> provides r cid who \<and> who \<noteq> x"
  unfolding provides_def set_hm_get expire_entry[OF assms] by (auto split: option.splits if_splits simp: removeAll_filter_not_eq filter_empty_conv)

lemma expire_all:
  "registry_ok r \<Longrightarrow> registry_ok (fold expire xs r) \<and> (provides (fold expire xs r) cid who \<longleftrightarrow> provides r cid who \<and> who \<notin> set xs)"
  by (induction xs arbitrary: r) (auto simp: expire_ok expire_provides)

lemma registry_update_ok:
  assumes "registry_ok r" and "ps \<noteq> []" and "distinct ps" and "distinct (map fst ts)"
  shows "registry_ok (r\<lparr>pr_providers := hm_insert cid ps (pr_providers r), pr_timestamps := ts\<rparr>)"
proof -
  have "distinct (map fst (pr_providers r))" using assms(1) by (simp add: registry_ok_def)
  from hm.wf_insert[OF this] hm.lookup_insert[OF this] assms show ?thesis by (simp add: registry_ok_def)
qed

lemma add_provider_ok:
  assumes "registry_ok r"
  shows "registry_ok (add_provider now cid who r)"
proof -
  have "distinct (hm_get_or_default (pr_providers r) cid)"
    using assms by (auto simp: registry_ok_def hm_get_or_default_def split: option.splits)
  moreover have "distinct (map fst (hm_insert who now (pr_timestamps r)))"
    using assms by (intro hm.wf_insert) (simp add: registry_ok_def)
  ultimately show ?thesis
    unfolding add_provider_def by (intro registry_update_ok[OF assms]) (auto simp: hs_insert_def)
qed

lemma remove_provider_ok:
  assumes ok: "registry_ok r"
  shows "registry_ok (remove_provider cid who r)"
proof -
  have ts: "distinct (map fst (hm_remove who (pr_timestamps r)))" using ok by (simp add: registry_ok_def distinct_hm_remove)
  show ?thesis
  proof (cases "map_of (pr_providers r) cid")
    case (Some ps)
    then have "distinct (removeAll who ps)" using ok by (auto simp: registry_ok_def distinct_removeAll)
    then have "registry_ok (r\<lparr>pr_providers := hm_insert cid (removeAll who ps) (pr_providers r), pr_timestamps := hm_remove who (pr_timestamps r)\<rparr>)"
      if "removeAll who ps \<noteq> []" using registry_update_ok[OF ok that] ts by blast
    moreover have "registry_ok (r\<lparr>pr_providers := hm_remove cid (pr_providers r), pr_timestamps := hm_remove who (pr_timestamps r)\<rparr>)"
      using ok ts by (simp add: registry_ok_def distinct_hm_remove map_of_hm_remove)
    ultimately show ?thesis using Some by (simp add: remove_provider_def Let_def)
  qed (use ok ts in \<open>simp add: remove_provider_def registry_ok_def\<close>)
qed

text \<open>exactly which providers are found. A lookup returns the recorded providers of the content whose last announcement is at most the timeout
old, and also every recorded provider that has no announcement time. Withdrawing one content erases the announcement time of its
provider, so a provider that announced two contents and withdrew one is found for the other at every later time.\<close>

theorem find_providers_exact:
  "(registry_ok r \<longrightarrow>
      registry_ok (snd (find_providers now cid r)) \<and>
      (who \<in> set (fst (find_providers now cid r)) \<longleftrightarrow>
         provides r cid who \<and> (case map_of (pr_timestamps r) who of None \<Rightarrow> True | Some t \<Rightarrow> now - t \<le> pr_timeout r)))
   \<and> (registry_ok r \<longrightarrow> other \<noteq> cid \<longrightarrow>
      who \<in> set (fst (find_providers later cid (remove_provider other who (add_provider now cid who (add_provider before other who r))))))"
proof (intro conjI impI)
  have found: "registry_ok (snd (find_providers now cid r)) \<and>
      (who \<in> set (fst (find_providers now cid r)) \<longleftrightarrow>
         provides r cid who \<and> (case map_of (pr_timestamps r) who of None \<Rightarrow> True | Some t \<Rightarrow> now - t \<le> pr_timeout r))"
    if "registry_ok r" for r now
  proof -
    have "who \<in> set (map fst (filter (\<lambda>(_, t). now - t > pr_timeout r) (pr_timestamps r)))
        \<longleftrightarrow> (\<exists>t. map_of (pr_timestamps r) who = Some t \<and> now - t > pr_timeout r)"
      using that by (intro keys_filter) (simp add: registry_ok_def)
    then show ?thesis
      using expire_all[OF that, of "map fst (filter (\<lambda>(_, t). now - t > pr_timeout r) (pr_timestamps r))" cid who]
      unfolding find_providers_def cleanup_expired_providers_def Let_def fst_conv snd_conv provides_def by (auto simp: not_less split: option.splits)
  qed
  show "registry_ok (snd (find_providers now cid r))" if "registry_ok r" using found that by blast
  show "who \<in> set (fst (find_providers now cid r)) \<longleftrightarrow>
         provides r cid who \<and> (case map_of (pr_timestamps r) who of None \<Rightarrow> True | Some t \<Rightarrow> now - t \<le> pr_timeout r)"
    if "registry_ok r" using found that by blast
  assume ok: "registry_ok r" and other: "other \<noteq> cid"
  let ?t = "remove_provider other who (add_provider now cid who (add_provider before other who r))"
  have "registry_ok ?t" by (intro remove_provider_ok add_provider_ok ok)
  moreover have "provides ?t cid who" "map_of (pr_timestamps ?t) who = None"
    using other by (auto simp: provides_def set_hm_get remove_provider_def add_provider_def map_of_hm_remove map_of_hm_insert set_hs_insert Let_def
      split: option.splits)
  ultimately show "who \<in> set (fst (find_providers later cid ?t))" using found by simp
qed

theorem find_providers_exact_witness:
  "''p'' \<in> set (fst (find_providers (10 ^ 30) ''c'' (remove_provider ''d'' ''p'' (add_provider 2 ''c'' ''p'' (add_provider 1 ''d'' ''p'' new_provider)))))"
  using find_providers_exact[of new_provider 2 "''c''" "''p''" "''d''" "10 ^ 30" 1] by (simp add: registry_ok_def new_provider_def)

end
