(* ===== verification/Evm.thy ===== *)
theory Evm
  imports Storage
begin

text \<open>
  Contract execution as the node drives it (\<open>catalyst-cli/src/evm_revm.rs\<close> and \<open>evm.rs\<close>): the
  marker that carries a contract call through a ledger update, the database view given to the
  virtual machine, and the writes of its result back into the accounts. The virtual machine
  (\<open>revm\<close>) itself, the derivation of a created address and \<open>bincode\<close> are parameters.
\<close>

section \<open>Markers\<close>

datatype EvmTxKind = Deploy bytes | Call bytes bytes

record EvmTxPayload =
  ep_nonce :: u64
  ep_kind :: EvmTxKind

definition EVM_MARKER_PREFIX :: bytes where "EVM_MARKER_PREFIX = as_bytes ''EVM1''"

definition has_prefix :: "bytes \<Rightarrow> bytes \<Rightarrow> bool" where
  "has_prefix p bs \<longleftrightarrow> take (length p) bs = p"

definition encode_evm_marker :: "(EvmTxPayload \<Rightarrow> bytes) \<Rightarrow> EvmTxPayload \<Rightarrow> bytes \<Rightarrow> (string, bytes) result" where
  "encode_evm_marker ser_payload pl sig64 =
     (if length sig64 \<noteq> 64 then Inl ''sig must be 64 bytes''
      else
        let p = ser_payload pl
        in Inr (EVM_MARKER_PREFIX @ to_le_bytes (of_nat (length p) :: u32) @ p @ sig64))"

definition decode_evm_marker :: "(bytes \<Rightarrow> EvmTxPayload option) \<Rightarrow> bytes \<Rightarrow> (EvmTxPayload \<times> bytes) option" where
  "decode_evm_marker de_payload sg =
     (if length sg < length EVM_MARKER_PREFIX + 4 + 64 then None
      else if \<not> has_prefix EVM_MARKER_PREFIX sg then None
      else
        let plen = unat (from_le_bytes (take 4 (drop (length EVM_MARKER_PREFIX) sg)) :: u32);
            start = length EVM_MARKER_PREFIX + 4;
            stop = start + plen
        in if length sg \<noteq> stop + 64 then None
           else
             (case de_payload (take plen (drop start sg)) of
                None \<Rightarrow> None
              | Some pl \<Rightarrow> Some (pl, take 64 (drop stop sg))))"

lemma evm_marker_roundtrip:
  assumes "\<And>p. de_payload (ser_payload p) = Some p" and "length (ser_payload p) < 2 ^ 32"
    and "encode_evm_marker ser_payload p sig64 = Inr m"
  shows "decode_evm_marker de_payload m = Some (p, sig64)"
proof -
  have len: "length sig64 = 64" and m: "m = EVM_MARKER_PREFIX @ to_le_bytes (of_nat (length (ser_payload p)) :: u32) @ ser_payload p @ sig64"
    using assms(3) by (auto simp: encode_evm_marker_def Let_def split: if_splits)
  have "length EVM_MARKER_PREFIX = 4" by (simp add: EVM_MARKER_PREFIX_def)
  then show ?thesis
    using assms(1,2) len by (simp add: decode_evm_marker_def m has_prefix_def le_u32_len Let_def)
qed

section \<open>The database view\<close>

type_synonym u256 = "256 word"

definition key_evm_code :: "bytes \<Rightarrow> bytes" where "key_evm_code addr = as_bytes ''evm:code:'' @ addr"
definition key_evm_nonce :: "bytes \<Rightarrow> bytes" where "key_evm_nonce addr = as_bytes ''evm:nonce:'' @ addr"
definition key_evm_balance :: "bytes \<Rightarrow> bytes" where "key_evm_balance addr = as_bytes ''evm:balance:'' @ addr"
definition key_evm_storage :: "bytes \<Rightarrow> u256 \<Rightarrow> bytes" where
  "key_evm_storage addr slot = as_bytes ''evm:storage:'' @ addr @ to_be_bytes slot"
definition key_evm_last_return :: "bytes \<Rightarrow> bytes" where "key_evm_last_return addr = as_bytes ''evm:last_return:'' @ addr"
definition key_evm_last_logs :: "bytes \<Rightarrow> bytes" where "key_evm_last_logs addr = as_bytes ''evm:last_logs:'' @ addr"

definition decode_u64_le :: "bytes \<Rightarrow> u64 option" where
  "decode_u64_le b = (if length b \<noteq> 8 then None else Some (from_le_bytes b))"

definition decode_u256_be :: "bytes \<Rightarrow> u256 option" where
  "decode_u256_be b = (if length b \<noteq> 32 then None else Some (from_be_bytes b))"

record AccountInfo =
  ai_balance :: u256
  ai_nonce :: u64
  ai_code :: bytes

definition opt_or :: "'a option \<Rightarrow> 'a \<Rightarrow> 'a" where
  "opt_or x d = (case x of Some v \<Rightarrow> v | None \<Rightarrow> d)"

definition basic_ref :: "Store \<Rightarrow> bytes \<Rightarrow> AccountInfo option" where
  "basic_ref s addr =
     (let bal = opt_or (Option.bind (store_get s (key_evm_balance addr)) decode_u256_be) 0;
          non = opt_or (Option.bind (store_get s (key_evm_nonce addr)) decode_u64_le) 0;
          code = opt_or (store_get s (key_evm_code addr)) []
      in if bal = 0 \<and> non = 0 \<and> code = [] then None
         else Some \<lparr>ai_balance = bal, ai_nonce = non, ai_code = code\<rparr>)"

definition storage_ref :: "Store \<Rightarrow> bytes \<Rightarrow> u256 \<Rightarrow> u256" where
  "storage_ref s addr slot = opt_or (Option.bind (store_get s (key_evm_storage addr slot)) decode_u256_be) 0"

record evm_db =
  db_basic :: "bytes \<Rightarrow> AccountInfo option"
  db_storage :: "bytes \<Rightarrow> u256 \<Rightarrow> u256"

definition external_db :: "Store \<Rightarrow> evm_db" where
  "external_db s = \<lparr>db_basic = basic_ref s, db_storage = storage_ref s\<rparr>"

section \<open>Execution\<close>

datatype EvmExecError = EvmDb string | Revm string | EvmInvalid string

definition display_evm_error :: "EvmExecError \<Rightarrow> string" where
  "display_evm_error e = (case e of
       EvmDb m \<Rightarrow> ''db error: '' @ m | Revm m \<Rightarrow> ''revm error: '' @ m | EvmInvalid m \<Rightarrow> ''invalid input: '' @ m)"

datatype TxKind = TxCreate | TxCall bytes

record TxEnv =
  env_caller :: bytes
  env_nonce :: u64
  env_gas_limit :: u64
  env_kind :: TxKind
  env_data :: bytes
  env_chain_id :: u64

record StorageSlot =
  slot_key :: u256
  slot_present :: u256
  slot_changed :: bool

record EvmAccount =
  ea_balance :: u256
  ea_nonce :: u64
  ea_code :: "bytes option"
  ea_storage :: "StorageSlot list"

record EvmOutcome =
  eo_success :: bool
  eo_gas_used :: u64
  eo_output :: "bytes option"
  eo_logs :: bytes
  eo_created :: "bytes option"
  eo_runtime_code :: "bytes \<Rightarrow> bytes option"
  eo_debug :: string
  eo_state :: "(bytes \<times> EvmAccount) list"

type_synonym revm = "evm_db \<Rightarrow> TxEnv \<Rightarrow> (string, EvmOutcome) result"

record EvmExecInfo =
  xi_success :: bool
  xi_gas_used :: u64
  xi_return_data :: bytes
  xi_error :: "string option"

definition exec_info :: "EvmOutcome \<Rightarrow> EvmExecInfo" where
  "exec_info out =
     \<lparr>xi_success = eo_success out, xi_gas_used = eo_gas_used out, xi_return_data = opt_or (eo_output out) [],
      xi_error = (if eo_success out then None else Some (eo_debug out))\<rparr>"

definition persist_slot :: "bytes \<Rightarrow> StorageSlot \<Rightarrow> Store \<Rightarrow> Store" where
  "persist_slot addr sl s =
     (if slot_changed sl then store_set (key_evm_storage addr (slot_key sl)) (to_be_bytes (slot_present sl)) s else s)"

definition persist_account :: "bytes \<times> EvmAccount \<Rightarrow> Store \<Rightarrow> Store" where
  "persist_account p s =
     (case p of (addr, acc) \<Rightarrow>
        let s1 = store_set (key_evm_nonce addr) (to_le_bytes (ea_nonce acc))
                   (store_set (key_evm_balance addr) (to_be_bytes (ea_balance acc)) s);
            s2 = (case ea_code acc of
                    Some code \<Rightarrow> if code \<noteq> [] then store_set (key_evm_code addr) code s1 else s1
                  | None \<Rightarrow> s1)
        in fold (persist_slot addr) (ea_storage acc) s2)"

definition persist_state :: "(bytes \<times> EvmAccount) list \<Rightarrow> Store \<Rightarrow> Store" where
  "persist_state st s = fold persist_account st s"

definition evm_tx :: "bytes \<Rightarrow> u64 \<Rightarrow> u64 \<Rightarrow> TxKind \<Rightarrow> bytes \<Rightarrow> u64 \<Rightarrow> TxEnv" where
  "evm_tx from chain_id evm_nonce kind dat gas_limit =
     \<lparr>env_caller = from, env_nonce = evm_nonce, env_gas_limit = gas_limit, env_kind = kind, env_data = dat, env_chain_id = chain_id\<rparr>"

definition execute_deploy_and_persist ::
  "revm \<Rightarrow> (bytes \<Rightarrow> u64 \<Rightarrow> bytes) \<Rightarrow> bytes \<Rightarrow> u64 \<Rightarrow> u64 \<Rightarrow> bytes \<Rightarrow> u64 \<Rightarrow> Store
     \<Rightarrow> (EvmExecError, bytes \<times> EvmExecInfo) result \<times> Store" where
  "execute_deploy_and_persist transact create_address from chain_id protocol_nonce init_code gas_limit s =
     (if protocol_nonce = 0 then (Inl (EvmInvalid ''protocol nonce must be >= 1''), s)
      else
        let evm_nonce = protocol_nonce - 1 in
        (case transact (external_db s) (evm_tx from chain_id evm_nonce TxCreate init_code gas_limit) of
           Inl err \<Rightarrow> (Inl (Revm err), s)
         | Inr out \<Rightarrow>
             let created = opt_or (eo_created out) (create_address from evm_nonce);
                 s1 = persist_state (eo_state out) s;
                 s2 = (case eo_runtime_code out created of
                         Some code \<Rightarrow> store_set (key_evm_code created) code s1
                       | None \<Rightarrow> s1)
             in (Inr (created, exec_info out), s2)))"

definition execute_call_and_persist ::
  "revm \<Rightarrow> bytes \<Rightarrow> bytes \<Rightarrow> u64 \<Rightarrow> u64 \<Rightarrow> bytes \<Rightarrow> u64 \<Rightarrow> Store \<Rightarrow> (EvmExecError, EvmExecInfo) result \<times> Store" where
  "execute_call_and_persist transact from to chain_id protocol_nonce input gas_limit s =
     (if protocol_nonce = 0 then (Inl (EvmInvalid ''protocol nonce must be >= 1''), s)
      else
        (case transact (external_db s) (evm_tx from chain_id (protocol_nonce - 1) (TxCall to) input gas_limit) of
           Inl err \<Rightarrow> (Inl (Revm err), s)
         | Inr out \<Rightarrow>
             (Inr (exec_info out),
              store_set (key_evm_last_logs to) (eo_logs out)
                (store_set (key_evm_last_return to) (opt_or (eo_output out) []) (persist_state (eo_state out) s)))))"

section \<open>Execution stays in its own keys\<close>

definition evm_key :: "bytes \<Rightarrow> bool" where "evm_key k \<longleftrightarrow> has_prefix (as_bytes ''evm:'') k"

lemma evm_keys [simp]:
  "evm_key (key_evm_code a)" "evm_key (key_evm_nonce a)" "evm_key (key_evm_balance a)" "evm_key (key_evm_storage a sl)"
  "evm_key (key_evm_last_return a)" "evm_key (key_evm_last_logs a)"
  by (simp_all add: evm_key_def has_prefix_def key_evm_code_def key_evm_nonce_def key_evm_balance_def
      key_evm_storage_def key_evm_last_return_def key_evm_last_logs_def as_bytes_def)

text \<open>What a state change leaves alone: everything but the account keys of one kind.\<close>

definition touches :: "(bytes \<Rightarrow> bool) \<Rightarrow> Store \<Rightarrow> Store \<Rightarrow> bool" where
  "touches K s s' \<longleftrightarrow> (store_ok s \<longrightarrow> store_ok s' \<and> (\<forall>k. \<not> K k \<longrightarrow> store_get s' k = store_get s k))
     \<and> metadata s' = metadata s \<and> root_cache s' = root_cache s"

lemma touches_refl [simp, intro]: "touches K s s"
  by (simp add: touches_def)

lemma touches_trans [trans]: "touches K s t \<Longrightarrow> touches K t u \<Longrightarrow> touches K s u"
  by (auto simp: touches_def)

lemma touches_set: "K k \<Longrightarrow> touches K s (store_set k v s)"
  by (auto simp: touches_def acc.ok_put acc.get_put) (simp_all add: store_set_def)

lemma touches_fold: "(\<And>x t. x \<in> set xs \<Longrightarrow> touches K t (f x t)) \<Longrightarrow> touches K s (fold f xs s)"
  by (induction xs arbitrary: s) (auto intro: touches_trans)

lemma persist_state_touches: "touches evm_key s (persist_state st s)"
proof -
  have slot: "touches evm_key t (persist_slot addr sl t)" for addr sl t
    by (simp add: persist_slot_def touches_set)
  have "touches evm_key t (persist_account p t)" for p t
    by (cases p) (auto simp: persist_account_def Let_def split: option.split
        intro!: touches_trans[OF _ touches_fold[OF slot]] touches_trans[OF _ touches_set] touches_set)
  then show ?thesis unfolding persist_state_def by (rule touches_fold)
qed

text \<open>
  Whatever the virtual machine returns, executing a contract writes only keys of the contract
  name space: no balance, nonce, worker or fee credit of the ledger and no metadata changes.
\<close>

lemma deploy_touches:
  "touches evm_key s (snd (execute_deploy_and_persist transact ca from cid n code gas s))"
  by (auto simp: execute_deploy_and_persist_def Let_def persist_state_touches split: sum.split option.split
      intro!: touches_trans[OF _ touches_set] persist_state_touches)

lemma call_touches:
  "touches evm_key s (snd (execute_call_and_persist transact from to cid n inp gas s))"
  by (auto simp: execute_call_and_persist_def split: sum.split
      intro!: touches_trans[OF _ touches_set] persist_state_touches)

end
