(* ===== verification/Wire_Tx.thy ===== *)
theory Wire_Tx
  imports Codec
begin

text \<open>
  The protocol transaction of \<open>catalyst-core/src/protocol.rs\<close>: its data types, their wire
  codec, the versioned wire format (\<open>CTX1\<close>, \<open>CTX2\<close>, legacy), the signing payloads, the
  stateless validation, the fee floor and the seed-driven producer selection.

  \<open>bincode\<close> (the legacy format), Blake2b and SHA-256 are third-party code: they are arguments
  of the definitions that call them. An array \<open>[u8; 32]\<close> is a byte list; the predicates
  \<open>wf_\<dots>\<close> state the lengths that the Rust types fix.
\<close>

section \<open>Constants\<close>

definition TX_WIRE_MAGIC_V1 :: bytes where "TX_WIRE_MAGIC_V1 = as_bytes ''CTX1''"
definition TX_SIG_DOMAIN_V1 :: bytes where "TX_SIG_DOMAIN_V1 = as_bytes ''CATALYST_SIG_V1''"
definition TX_WIRE_MAGIC_V2 :: bytes where "TX_WIRE_MAGIC_V2 = as_bytes ''CTX2''"
definition TX_SIG_DOMAIN_V2 :: bytes where "TX_SIG_DOMAIN_V2 = as_bytes ''CATALYST_SIG_V2''"
definition MAX_TX_WIRE_BYTES :: nat where "MAX_TX_WIRE_BYTES = 64 * 1024"
definition MAX_TX_SIGNATURE_BYTES :: nat where "MAX_TX_SIGNATURE_BYTES = 8 * 1024"
definition MAX_TX_SENDER_PUBKEY_BYTES :: nat where "MAX_TX_SENDER_PUBKEY_BYTES = 4 * 1024"
definition MAX_TX_DATA_BYTES_SMALL :: nat where "MAX_TX_DATA_BYTES_SMALL = 60"
definition MAX_TX_DATA_BYTES_SMART_CONTRACT :: nat where "MAX_TX_DATA_BYTES_SMART_CONTRACT = 48 * 1024"
definition SCHNORR_V1 :: byte where "SCHNORR_V1 = 0"

section \<open>Data\<close>

datatype TransactionType =
    NonConfidentialTransfer
  | ConfidentialTransfer
  | DataStorageRequest
  | DataStorageRetrieve
  | SmartContract
  | WorkerRegistration

datatype EntryAmount =
    NonConfidential i64
  | Confidential (commitment: bytes) (range_proof: bytes)

record TxEntry =
  entry_public_key :: bytes
  entry_amount :: EntryAmount

record TransactionCore =
  tx_type :: TransactionType
  tx_entries :: "TxEntry list"
  nonce :: u64
  lock_time :: u32
  fees :: u64
  tx_data :: bytes

record TransactionV1 =
  v1_core :: TransactionCore
  v1_signature :: bytes
  v1_timestamp :: u64

record Transaction =
  core :: TransactionCore
  signature_scheme :: byte
  signature :: bytes
  sender_pubkey :: "bytes option"
  timestamp :: u64

section \<open>Field codecs\<close>

definition ser_tx_type :: "TransactionType \<Rightarrow> bytes" where
  "ser_tx_type t = ser_u8 (case t of
       NonConfidentialTransfer \<Rightarrow> 0
     | ConfidentialTransfer \<Rightarrow> 1
     | DataStorageRequest \<Rightarrow> 2
     | DataStorageRetrieve \<Rightarrow> 3
     | SmartContract \<Rightarrow> 4
     | WorkerRegistration \<Rightarrow> 5)"

definition de_tx_type :: "TransactionType reader" where
  "de_tx_type = pbind de_u8 (\<lambda>tag.
       if tag = 0 then preturn NonConfidentialTransfer
       else if tag = 1 then preturn ConfidentialTransfer
       else if tag = 2 then preturn DataStorageRequest
       else if tag = 3 then preturn DataStorageRetrieve
       else if tag = 4 then preturn SmartContract
       else if tag = 5 then preturn WorkerRegistration
       else pfail (Serialization (''invalid TransactionType tag: '' @ show_nat (unat tag))))"

definition ser_amount :: "EntryAmount \<Rightarrow> bytes" where
  "ser_amount a = (case a of
       NonConfidential v \<Rightarrow> ser_u8 0 @ ser_i64 v
     | Confidential c rp \<Rightarrow> ser_u8 1 @ ser_arr c @ serialize_vec ser_u8 rp)"

definition size_amount :: "EntryAmount \<Rightarrow> nat" where
  "size_amount a = (case a of
       NonConfidential v \<Rightarrow> 1 + 8
     | Confidential c rp \<Rightarrow> 1 + 32 + vec_size size_u8 rp)"

definition de_amount :: "EntryAmount reader" where
  "de_amount = pbind de_u8 (\<lambda>tag.
       if tag = 0 then pbind de_i64 (\<lambda>v. preturn (NonConfidential v))
       else if tag = 1 then
         pbind (de_arr 32) (\<lambda>c. pbind (deserialize_vec de_u8) (\<lambda>rp. preturn (Confidential c rp)))
       else pfail (Serialization (''invalid EntryAmount tag: '' @ show_nat (unat tag))))"

definition ser_entry :: "TxEntry \<Rightarrow> bytes" where
  "ser_entry e = ser_arr (entry_public_key e) @ ser_amount (entry_amount e)"

definition size_entry :: "TxEntry \<Rightarrow> nat" where
  "size_entry e = 0 + 32 + size_amount (entry_amount e)"

definition de_entry :: "TxEntry reader" where
  "de_entry = pbind (de_arr 32) (\<lambda>pk. pbind de_amount (\<lambda>a.
     preturn \<lparr>entry_public_key = pk, entry_amount = a\<rparr>))"

text \<open>\<open>AggregatedSignature\<close> wraps a byte vector and has its codec.\<close>

definition ser_sig :: "bytes \<Rightarrow> bytes" where "ser_sig s = serialize_vec ser_u8 s"
definition size_sig :: "bytes \<Rightarrow> nat" where "size_sig s = vec_size size_u8 s"
definition de_sig :: "bytes reader" where "de_sig = deserialize_vec de_u8"

definition ser_core :: "TransactionCore \<Rightarrow> bytes" where
  "ser_core c = ser_tx_type (tx_type c) @ serialize_vec ser_entry (tx_entries c) @ ser_u64 (nonce c)
     @ ser_u32 (lock_time c) @ ser_u64 (fees c) @ serialize_vec ser_u8 (tx_data c)"

definition size_core :: "TransactionCore \<Rightarrow> nat" where
  "size_core c = 0 + 1 + vec_size size_entry (tx_entries c) + 8 + 4 + 8 + vec_size size_u8 (tx_data c)"

definition de_core :: "TransactionCore reader" where
  "de_core =
     pbind de_tx_type (\<lambda>t. pbind (deserialize_vec de_entry) (\<lambda>es. pbind de_u64 (\<lambda>n.
     pbind de_u32 (\<lambda>lt. pbind de_u64 (\<lambda>f. pbind (deserialize_vec de_u8) (\<lambda>d.
     preturn \<lparr>tx_type = t, tx_entries = es, nonce = n, lock_time = lt, fees = f, tx_data = d\<rparr>))))))"

definition ser_tx_v1 :: "TransactionV1 \<Rightarrow> bytes" where
  "ser_tx_v1 t = ser_core (v1_core t) @ ser_sig (v1_signature t) @ ser_u64 (v1_timestamp t)"

definition size_tx_v1 :: "TransactionV1 \<Rightarrow> nat" where
  "size_tx_v1 t = 0 + size_core (v1_core t) + size_sig (v1_signature t) + 8"

definition de_tx_v1 :: "TransactionV1 reader" where
  "de_tx_v1 = pbind de_core (\<lambda>c. pbind de_sig (\<lambda>s. pbind de_u64 (\<lambda>ts.
     preturn \<lparr>v1_core = c, v1_signature = s, v1_timestamp = ts\<rparr>)))"

definition ser_tx :: "Transaction \<Rightarrow> bytes" where
  "ser_tx t = ser_core (core t) @ ser_u8 (signature_scheme t) @ ser_sig (signature t)
     @ ser_opt (serialize_vec ser_u8) (sender_pubkey t) @ ser_u64 (timestamp t)"

definition size_tx :: "Transaction \<Rightarrow> nat" where
  "size_tx t = 0 + size_core (core t) + 1 + size_sig (signature t)
     + opt_size (vec_size size_u8) (sender_pubkey t) + 8"

definition de_tx :: "Transaction reader" where
  "de_tx = pbind de_core (\<lambda>c. pbind de_u8 (\<lambda>sc. pbind de_sig (\<lambda>s.
     pbind (de_opt (deserialize_vec de_u8)) (\<lambda>pk. pbind de_u64 (\<lambda>ts.
     preturn \<lparr>core = c, signature_scheme = sc, signature = s, sender_pubkey = pk, timestamp = ts\<rparr>)))))"

section \<open>Signing payloads\<close>

definition transaction_signing_payload ::
  "(TransactionCore \<Rightarrow> (string, bytes) result) \<Rightarrow> TransactionCore \<Rightarrow> u64 \<Rightarrow> (string, bytes) result" where
  "transaction_signing_payload bincode c ts =
     (case bincode c of
        Inl e \<Rightarrow> Inl (''serialize core: '' @ e)
      | Inr out \<Rightarrow> Inr (out @ to_le_bytes ts))"

definition transaction_signing_payload_v1 :: "TransactionCore \<Rightarrow> u64 \<Rightarrow> u64 \<Rightarrow> bytes \<Rightarrow> bytes" where
  "transaction_signing_payload_v1 c ts chain_id genesis_hash =
     TX_SIG_DOMAIN_V1 @ to_le_bytes chain_id @ genesis_hash @ ser_core c @ to_le_bytes ts"

definition transaction_signing_payload_v2 ::
  "TransactionCore \<Rightarrow> u64 \<Rightarrow> u64 \<Rightarrow> bytes \<Rightarrow> byte \<Rightarrow> bytes option \<Rightarrow> bytes" where
  "transaction_signing_payload_v2 c ts chain_id genesis_hash scheme pk =
     TX_SIG_DOMAIN_V2 @ to_le_bytes chain_id @ genesis_hash @ [scheme]
     @ ser_opt (serialize_vec ser_u8) pk @ ser_core c @ to_le_bytes ts"

definition signing_payload_v1 :: "Transaction \<Rightarrow> u64 \<Rightarrow> bytes \<Rightarrow> bytes" where
  "signing_payload_v1 t chain_id genesis_hash =
     transaction_signing_payload_v1 (core t) (timestamp t) chain_id genesis_hash"

definition signing_payload_v2 :: "Transaction \<Rightarrow> u64 \<Rightarrow> bytes \<Rightarrow> bytes" where
  "signing_payload_v2 t chain_id genesis_hash =
     transaction_signing_payload_v2 (core t) (timestamp t) chain_id genesis_hash
       (signature_scheme t) (sender_pubkey t)"

section \<open>Wire format\<close>

definition encode_wire_tx_v1 :: "Transaction \<Rightarrow> bytes" where
  "encode_wire_tx_v1 t =
     (let v1 = \<lparr>v1_core = core t, v1_signature = signature t, v1_timestamp = timestamp t\<rparr>
      in TX_WIRE_MAGIC_V1 @ ser_tx_v1 v1)"

definition encode_wire_tx_v2 :: "Transaction \<Rightarrow> bytes" where
  "encode_wire_tx_v2 t = TX_WIRE_MAGIC_V2 @ ser_tx t"

definition tx_of_v1 :: "TransactionV1 \<Rightarrow> Transaction" where
  "tx_of_v1 v1 = \<lparr>core = v1_core v1, signature_scheme = SCHNORR_V1, signature = v1_signature v1,
     sender_pubkey = None, timestamp = v1_timestamp v1\<rparr>"

definition decode_wire_tx_any ::
  "(bytes \<Rightarrow> (string, TransactionV1) result) \<Rightarrow> bytes \<Rightarrow> (string, Transaction) result" where
  "decode_wire_tx_any bincode_de bs =
     (if length bs > MAX_TX_WIRE_BYTES then
        Inl (''tx too large: bytes='' @ show_nat (length bs) @ '' max='' @ show_nat MAX_TX_WIRE_BYTES)
      else if length bs \<ge> 4 \<and> take 4 bs = TX_WIRE_MAGIC_V2 then
        (case run_reader de_tx (drop 4 bs) of
           Inl e \<Rightarrow> Inl (''decode v2 tx: '' @ display_error e)
         | Inr t \<Rightarrow> Inr t)
      else if length bs \<ge> 4 \<and> take 4 bs = TX_WIRE_MAGIC_V1 then
        (case run_reader de_tx_v1 (drop 4 bs) of
           Inl e \<Rightarrow> Inl (''decode v1 tx: '' @ display_error e)
         | Inr v1 \<Rightarrow> Inr (tx_of_v1 v1))
      else
        (case bincode_de bs of
           Inl e \<Rightarrow> Inl (''decode legacy tx: '' @ e)
         | Inr v1 \<Rightarrow> Inr (tx_of_v1 v1)))"

definition tx_id_v1 :: "(bytes \<Rightarrow> bytes) \<Rightarrow> Transaction \<Rightarrow> bytes" where
  "tx_id_v1 blake2b512 t = take 32 (blake2b512 (encode_wire_tx_v1 t))"

definition tx_id_v2 :: "(bytes \<Rightarrow> bytes) \<Rightarrow> Transaction \<Rightarrow> bytes" where
  "tx_id_v2 blake2b512 t = take 32 (blake2b512 (encode_wire_tx_v2 t))"

section \<open>Fees and stateless validation\<close>

definition min_fee_for_core :: "TransactionCore \<Rightarrow> u64" where
  "min_fee_for_core c =
     (let base = (case tx_type c of
            NonConfidentialTransfer \<Rightarrow> 1
          | SmartContract \<Rightarrow> 5
          | WorkerRegistration \<Rightarrow> 1
          | _ \<Rightarrow> 1);
          per_entry = 1
      in saturating_add base (saturating_mul per_entry (of_nat (length (tx_entries c)))))"

definition min_fee :: "Transaction \<Rightarrow> u64" where
  "min_fee t = min_fee_for_core (core t)"

definition zero_marker_entry :: "string \<Rightarrow> TxEntry list \<Rightarrow> (string, unit) result" where
  "zero_marker_entry name es =
     (case es of
        [e] \<Rightarrow> (case entry_amount e of
                  NonConfidential v \<Rightarrow>
                    if v = 0 then Inr ()
                    else Inl (name @ '' entry amount must be NonConfidential(0)'')
                | _ \<Rightarrow> Inl (name @ '' entry amount must be NonConfidential(0)''))
      | _ \<Rightarrow> Inl (name @ '' must contain exactly 1 entry''))"

definition validate_entries :: "TransactionCore \<Rightarrow> (string, unit) result" where
  "validate_entries c =
     (case tx_type c of
        WorkerRegistration \<Rightarrow> zero_marker_entry ''WorkerRegistration'' (tx_entries c)
      | SmartContract \<Rightarrow> zero_marker_entry ''SmartContract'' (tx_entries c)
      | _ \<Rightarrow> if length (tx_entries c) < 2
             then Inl ''Transaction must contain at least 2 entries'' else Inr ())"

definition max_tx_data :: "TransactionType \<Rightarrow> nat" where
  "max_tx_data t = (case t of
       SmartContract \<Rightarrow> MAX_TX_DATA_BYTES_SMART_CONTRACT
     | _ \<Rightarrow> MAX_TX_DATA_BYTES_SMALL)"

definition validate_basic :: "Transaction \<Rightarrow> (string, unit) result" where
  "validate_basic t =
     (case validate_entries (core t) of
        Inl e \<Rightarrow> Inl e
      | Inr _ \<Rightarrow>
        if nonce (core t) = 0 then Inl ''Transaction nonce must be > 0''
        else if length (tx_data (core t)) > max_tx_data (tx_type (core t)) then
          Inl (''Transaction data field must be <= '' @ show_nat (max_tx_data (tx_type (core t)))
               @ '' bytes (got='' @ show_nat (length (tx_data (core t))) @ '')'')
        else if signature t = [] then Inl ''Transaction signature must be non-empty''
        else if length (signature t) > MAX_TX_SIGNATURE_BYTES then Inl ''Transaction signature is too large''
        else if (case sender_pubkey t of None \<Rightarrow> False | Some pk \<Rightarrow> length pk > MAX_TX_SENDER_PUBKEY_BYTES)
        then Inl ''Transaction sender_pubkey is too large''
        else Inr ())"

section \<open>Producer selection\<close>

definition xor32 :: "bytes \<Rightarrow> bytes \<Rightarrow> bytes" where
  "xor32 a b = map2 (XOR) a b"

definition prng_32 :: "(bytes \<Rightarrow> bytes) \<Rightarrow> bytes \<Rightarrow> bytes" where
  "prng_32 sha256 seed = take 32 (sha256 (seed @ as_bytes ''catalyst-prng-32''))"

definition select_producers_for_next_cycle ::
  "(bytes \<Rightarrow> bytes) \<Rightarrow> bytes list \<Rightarrow> bytes \<Rightarrow> nat \<Rightarrow> bytes list" where
  "select_producers_for_next_cycle sha256 worker_pool prev_root producer_count =
     (let r = prng_32 sha256 prev_root;
          scored = map (\<lambda>i. (xor32 i r, i)) worker_pool;
          sorted_scored = sort_key fst scored
      in map snd (take (min producer_count (length worker_pool)) sorted_scored))"

section \<open>The codecs are codecs\<close>

definition amount_ok :: "EntryAmount \<Rightarrow> bool" where
  "amount_ok a = (case a of
       NonConfidential v \<Rightarrow> True
     | Confidential c rp \<Rightarrow> length c = 32 \<and> vec_ok (\<lambda>_. True) rp)"

definition entry_ok :: "TxEntry \<Rightarrow> bool" where
  "entry_ok e \<longleftrightarrow> length (entry_public_key e) = 32 \<and> amount_ok (entry_amount e)"

definition core_ok :: "TransactionCore \<Rightarrow> bool" where
  "core_ok c \<longleftrightarrow> vec_ok entry_ok (tx_entries c) \<and> vec_ok (\<lambda>_. True) (tx_data c)"

definition tx_v1_ok :: "TransactionV1 \<Rightarrow> bool" where
  "tx_v1_ok t \<longleftrightarrow> core_ok (v1_core t) \<and> vec_ok (\<lambda>_. True) (v1_signature t)"

definition tx_ok :: "Transaction \<Rightarrow> bool" where
  "tx_ok t \<longleftrightarrow> core_ok (core t) \<and> vec_ok (\<lambda>_. True) (signature t)
     \<and> pred_option (vec_ok (\<lambda>_. True)) (sender_pubkey t)"

lemma de_tx_type_iff: "de_tx_type bs = Inr (t, rest) \<longleftrightarrow> bs = ser_tx_type t @ rest"
  by (cases bs; cases t) (auto simp: de_tx_type_def ser_tx_type_def ser_u8_def simp del: pbind_Inr_iff)

lemma de_amount_iff: "de_amount bs = Inr (a, rest) \<longleftrightarrow> bs = ser_amount a @ rest \<and> amount_ok a"
  by (cases bs; cases a)
    (auto simp: de_amount_def ser_amount_def amount_ok_def prim_codec_iffs ser_u8_def)

lemma size_amount_eq: "amount_ok a \<Longrightarrow> size_amount a = length (ser_amount a)"
  by (cases a) (auto simp: size_amount_def ser_amount_def amount_ok_def ser_lengths vec_u8.size)

lemma de_entry_iff: "de_entry bs = Inr (e, rest) \<longleftrightarrow> bs = ser_entry e @ rest \<and> entry_ok e"
  by (cases e) (auto simp: de_entry_def ser_entry_def entry_ok_def de_amount_iff prim_codec_iffs)

interpretation entryc: codec ser_entry de_entry size_entry entry_ok
  by unfold_locales
    (auto simp: de_entry_iff size_entry_def ser_entry_def entry_ok_def size_amount_eq ser_lengths)

interpretation vec_entry: codec "serialize_vec ser_entry" "deserialize_vec de_entry"
  "vec_size size_entry" "vec_ok entry_ok"
  by (rule entryc.codec_vec)

lemma de_core_iff: "de_core bs = Inr (c, rest) \<longleftrightarrow> bs = ser_core c @ rest \<and> core_ok c"
  by (cases c) (auto simp: de_core_def ser_core_def core_ok_def de_tx_type_iff vec_entry.dec_iff
      prim_codec_iffs)

lemma length_ser_tx_type [simp]: "length (ser_tx_type t) = 1"
  by (simp add: ser_tx_type_def ser_u8_def)

interpretation corec: codec ser_core de_core size_core core_ok
  by unfold_locales
    (auto simp: de_core_iff size_core_def ser_core_def core_ok_def vec_entry.size vec_u8.size ser_lengths)

interpretation tx1c: codec ser_tx_v1 de_tx_v1 size_tx_v1 tx_v1_ok
proof unfold_locales
  have iff: "de_tx_v1 bs = Inr (t, rest) \<longleftrightarrow> bs = ser_tx_v1 t @ rest \<and> tx_v1_ok t" for bs t rest
    by (cases t) (auto simp: de_tx_v1_def ser_tx_v1_def tx_v1_ok_def de_core_iff de_sig_def ser_sig_def
        prim_codec_iffs)
  show "tx_v1_ok t \<Longrightarrow> de_tx_v1 (ser_tx_v1 t @ rest) = Inr (t, rest)" for t rest
    by (simp add: iff)
  show "de_tx_v1 bs = Inr (t, rest) \<Longrightarrow> bs = ser_tx_v1 t @ rest \<and> tx_v1_ok t" for bs t rest
    by (simp add: iff)
  show "tx_v1_ok t \<Longrightarrow> size_tx_v1 t = length (ser_tx_v1 t)" for t
    by (simp add: size_tx_v1_def ser_tx_v1_def tx_v1_ok_def corec.size size_sig_def ser_sig_def
        vec_u8.size ser_lengths)
qed

interpretation txc: codec ser_tx de_tx size_tx tx_ok
proof unfold_locales
  have iff: "de_tx bs = Inr (t, rest) \<longleftrightarrow> bs = ser_tx t @ rest \<and> tx_ok t" for bs t rest
    by (cases t) (auto simp: de_tx_def ser_tx_def tx_ok_def de_core_iff de_sig_def ser_sig_def
        prim_codec_iffs)
  show "tx_ok t \<Longrightarrow> de_tx (ser_tx t @ rest) = Inr (t, rest)" for t rest
    by (simp add: iff)
  show "de_tx bs = Inr (t, rest) \<Longrightarrow> bs = ser_tx t @ rest \<and> tx_ok t" for bs t rest
    by (simp add: iff)
  show "tx_ok t \<Longrightarrow> size_tx t = length (ser_tx t)" for t
    by (simp add: size_tx_def ser_tx_def tx_ok_def corec.size size_sig_def ser_sig_def
        vec_u8.size opt_vec_u8.size ser_lengths)
qed

section \<open>What the Rust types fix\<close>

definition wf_entry :: "TxEntry \<Rightarrow> bool" where
  "wf_entry e \<longleftrightarrow> length (entry_public_key e) = 32
     \<and> (case entry_amount e of NonConfidential v \<Rightarrow> True | Confidential c rp \<Rightarrow> length c = 32)"

definition wf_tx :: "Transaction \<Rightarrow> bool" where
  "wf_tx t \<longleftrightarrow> (\<forall>e \<in> set (tx_entries (core t)). wf_entry e)"

lemma length_serialize_vec: "length (serialize_vec enc xs) = 4 + sum_list (map (\<lambda>x. length (enc x)) xs)"
  by (simp add: serialize_vec_def length_concat o_def)

lemma length_le_serialize_vec:
  assumes "\<And>x. 1 \<le> length (enc x)"
  shows "length xs + 4 \<le> length (serialize_vec enc xs)"
proof -
  have "length xs \<le> sum_list (map (\<lambda>x. length (enc x)) xs)"
  proof (induction xs)
    case (Cons x xs)
    then show ?case using assms[of x] by simp
  qed simp
  then show ?thesis by (simp add: length_serialize_vec)
qed

lemma length_serialize_vec_u8: "length (serialize_vec ser_u8 xs) = 4 + length xs"
  by (induction xs) (auto simp: length_serialize_vec ser_lengths)

lemma member_length_serialize_vec:
  "x \<in> set xs \<Longrightarrow> length (enc x) \<le> length (serialize_vec enc xs)"
  using member_le_sum_list[of "length (enc x)" "map (\<lambda>x. length (enc x)) xs"]
  by (auto simp: length_serialize_vec)

lemma length_ser_amount_pos: "1 \<le> length (ser_amount a)"
  by (cases a) (auto simp: ser_amount_def ser_lengths)

lemma wf_entry_ok:
  assumes "wf_entry e" and "length (ser_entry e) \<le> 1000000"
  shows "entry_ok e"
  using assms by (cases "entry_amount e")
    (auto simp: wf_entry_def entry_ok_def amount_ok_def ser_entry_def ser_amount_def ser_lengths
      length_serialize_vec_u8)

lemma wf_core_ok:
  assumes "\<forall>e \<in> set (tx_entries c). wf_entry e" and "length (ser_core c) \<le> 1000000"
  shows "core_ok c"
proof -
  have v: "length (serialize_vec ser_entry (tx_entries c)) \<le> 1000000"
    and d: "length (tx_data c) \<le> 1000000"
    using assms(2) by (auto simp: ser_core_def length_serialize_vec_u8)
  have "length (tx_entries c) + 4 \<le> length (serialize_vec ser_entry (tx_entries c))"
    by (rule length_le_serialize_vec) (use length_ser_amount_pos in \<open>auto simp: ser_entry_def add_increasing\<close>)
  moreover have "entry_ok e" if e: "e \<in> set (tx_entries c)" for e
  proof (rule wf_entry_ok)
    show "length (ser_entry e) \<le> 1000000"
      using member_length_serialize_vec[OF e, of ser_entry] v by simp
  qed (use assms(1) e in auto)
  ultimately show ?thesis using v d by (auto simp: core_ok_def)
qed

lemma wf_tx_ok:
  assumes "wf_tx t" and "length (ser_tx t) \<le> 1000000"
  shows "tx_ok t"
proof -
  have "core_ok (core t)"
    by (rule wf_core_ok) (use assms in \<open>auto simp: wf_tx_def ser_tx_def\<close>)
  with assms(2) show ?thesis
    by (auto simp: tx_ok_def ser_tx_def ser_sig_def ser_opt_def length_serialize_vec_u8
        split: option.splits)
qed

lemma magics:
  "length TX_WIRE_MAGIC_V1 = 4" "length TX_WIRE_MAGIC_V2 = 4" "TX_WIRE_MAGIC_V1 \<noteq> TX_WIRE_MAGIC_V2"
  by (simp_all add: TX_WIRE_MAGIC_V1_def TX_WIRE_MAGIC_V2_def)

section \<open>Properties of the wire format\<close>

text \<open>
  A transaction that fits the wire limit decodes from its v2 wire encoding to itself,
  whatever the legacy decoder does.
\<close>

theorem wire_v2_roundtrip:
  assumes "wf_tx t" and "length (encode_wire_tx_v2 t) \<le> MAX_TX_WIRE_BYTES"
  shows "decode_wire_tx_any bincode_de (encode_wire_tx_v2 t) = Inr t"
proof -
  have "tx_ok t"
    by (rule wf_tx_ok) (use assms in \<open>auto simp: encode_wire_tx_v2_def MAX_TX_WIRE_BYTES_def magics\<close>)
  then have "run_reader de_tx (ser_tx t) = Inr t"
    using txc.run_reader_enc[of t "[]"] by simp
  then show ?thesis
    using assms(2) by (simp add: decode_wire_tx_any_def encode_wire_tx_v2_def magics)
qed

definition transfer_example :: Transaction where
  "transfer_example = \<lparr>
     core = \<lparr>tx_type = NonConfidentialTransfer,
       tx_entries = [\<lparr>entry_public_key = replicate 32 1, entry_amount = NonConfidential (- 7)\<rparr>,
                     \<lparr>entry_public_key = replicate 32 2, entry_amount = NonConfidential 7\<rparr>],
       nonce = 1, lock_time = 0, fees = 3, tx_data = []\<rparr>,
     signature_scheme = SCHNORR_V1, signature = replicate 64 0, sender_pubkey = None,
     timestamp = 1700000000000\<rparr>"

lemma transfer_example_wire:
  "wf_tx transfer_example" "length (encode_wire_tx_v2 transfer_example) = 193"
  "length (encode_wire_tx_v1 transfer_example) = 191"
  by (simp_all add: wf_tx_def wf_entry_def transfer_example_def encode_wire_tx_v2_def encode_wire_tx_v1_def
      magics ser_tx_def ser_tx_v1_def ser_core_def ser_lengths ser_sig_def length_serialize_vec_u8 ser_opt_def
      length_serialize_vec[of ser_entry] ser_entry_def ser_amount_def)

theorem wire_v2_roundtrip_witness:
  "wf_tx transfer_example \<and> length (encode_wire_tx_v2 transfer_example) \<le> MAX_TX_WIRE_BYTES
   \<and> decode_wire_tx_any (\<lambda>_. Inl []) (encode_wire_tx_v2 transfer_example) = Inr transfer_example"
proof -
  have "length (encode_wire_tx_v2 transfer_example) \<le> MAX_TX_WIRE_BYTES"
    by (simp add: transfer_example_wire MAX_TX_WIRE_BYTES_def)
  then show ?thesis
    using wire_v2_roundtrip[of transfer_example] by (simp add: transfer_example_wire)
qed

text \<open>
  A transaction decodes from its v1 wire encoding to itself with the Schnorr scheme and no
  sender key: v1 carries neither field.
\<close>

theorem wire_v1_roundtrip:
  assumes "wf_tx t" and "length (encode_wire_tx_v1 t) \<le> MAX_TX_WIRE_BYTES"
  shows "decode_wire_tx_any bincode_de (encode_wire_tx_v1 t)
    = Inr (t\<lparr>signature_scheme := SCHNORR_V1, sender_pubkey := None\<rparr>)"
proof -
  let ?v1 = "\<lparr>v1_core = core t, v1_signature = signature t, v1_timestamp = timestamp t\<rparr>"
  have len: "length (ser_tx_v1 ?v1) \<le> 65532"
    using assms(2) by (simp add: encode_wire_tx_v1_def MAX_TX_WIRE_BYTES_def magics)
  have "core_ok (core t)"
    by (rule wf_core_ok) (use assms(1) len in \<open>auto simp: wf_tx_def ser_tx_v1_def\<close>)
  then have "tx_v1_ok ?v1"
    using len by (auto simp: tx_v1_ok_def ser_tx_v1_def ser_sig_def length_serialize_vec_u8)
  then have "run_reader de_tx_v1 (ser_tx_v1 ?v1) = Inr ?v1"
    using tx1c.run_reader_enc[of ?v1 "[]"] by simp
  then show ?thesis
    using assms(2) by (simp add: decode_wire_tx_any_def encode_wire_tx_v1_def magics tx_of_v1_def)
qed

theorem wire_v1_roundtrip_witness:
  "wf_tx transfer_example \<and> length (encode_wire_tx_v1 transfer_example) \<le> MAX_TX_WIRE_BYTES
   \<and> decode_wire_tx_any (\<lambda>_. Inl []) (encode_wire_tx_v1 transfer_example) = Inr transfer_example"
proof -
  have "length (encode_wire_tx_v1 transfer_example) \<le> MAX_TX_WIRE_BYTES"
    by (simp add: transfer_example_wire MAX_TX_WIRE_BYTES_def)
  then show ?thesis
    using wire_v1_roundtrip[of transfer_example "\<lambda>_. Inl []"]
    by (simp add: transfer_example_wire) (simp add: transfer_example_def)
qed

text \<open>
  The v2 format is canonical: bytes with the v2 magic that decode to a transaction are that
  transaction's own encoding, followed at most by bytes the decoder ignores. Two transactions
  never share an encoding, and the array lengths of the decoded value are those of its types.
\<close>

theorem wire_v2_canonical:
  assumes "decode_wire_tx_any bincode_de bs = Inr t" and "take 4 bs = TX_WIRE_MAGIC_V2"
  shows "\<exists>junk. bs = encode_wire_tx_v2 t @ junk \<and> wf_tx t"
proof -
  have "length (take 4 bs) = 4" using assms(2) by (simp add: magics)
  then have "4 \<le> length bs" by simp
  with assms have "run_reader de_tx (drop 4 bs) = Inr t"
    by (auto simp: decode_wire_tx_any_def split: if_splits sum.splits)
  then obtain junk where junk: "drop 4 bs = ser_tx t @ junk" and ok: "tx_ok t"
    by (auto simp: run_reader_def txc.dec_iff split: sum.splits)
  have "bs = take 4 bs @ drop 4 bs" by simp
  then have "bs = encode_wire_tx_v2 t @ junk"
    by (simp only: assms(2) junk) (simp add: encode_wire_tx_v2_def)
  moreover have "wf_tx t"
    using ok by (auto simp: tx_ok_def core_ok_def wf_tx_def wf_entry_def entry_ok_def amount_ok_def
        split: EntryAmount.splits)
  ultimately show ?thesis by blast
qed

theorem wire_v2_canonical_witness:
  "\<exists>junk. encode_wire_tx_v2 transfer_example = encode_wire_tx_v2 transfer_example @ junk
     \<and> wf_tx transfer_example"
proof (rule wire_v2_canonical[of "\<lambda>_. Inl []"])
  show "take 4 (encode_wire_tx_v2 transfer_example) = TX_WIRE_MAGIC_V2"
    by (simp add: encode_wire_tx_v2_def magics)
  have "run_reader de_tx (ser_tx transfer_example @ []) = Inr transfer_example"
    by (rule txc.run_reader_enc, rule wf_tx_ok)
      (use transfer_example_wire in \<open>auto simp: encode_wire_tx_v2_def magics\<close>)
  then show "decode_wire_tx_any (\<lambda>_. Inl []) (encode_wire_tx_v2 transfer_example) = Inr transfer_example"
    using transfer_example_wire
    by (simp add: decode_wire_tx_any_def encode_wire_tx_v2_def magics MAX_TX_WIRE_BYTES_def)
qed

section \<open>Properties of the signing payloads\<close>

text \<open>
  C35: The v2 signing payload binds everything a signature must cover: equal payloads come from
  the same chain, genesis, scheme, sender key, core and timestamp.
\<close>

theorem signing_payload_v2_binding:
  assumes "tx_ok t" and "tx_ok t'" and "length g = 32" and "length g' = 32"
    and "signing_payload_v2 t chain g = signing_payload_v2 t' chain' g'"
  shows "chain = chain' \<and> g = g' \<and> core t = core t' \<and> signature_scheme t = signature_scheme t'
    \<and> sender_pubkey t = sender_pubkey t' \<and> timestamp t = timestamp t'"
proof -
  let ?pk = "ser_opt (serialize_vec ser_u8)"
  have head: "to_le_bytes chain = to_le_bytes chain' \<and> g = g' \<and> signature_scheme t = signature_scheme t'"
    and tail: "?pk (sender_pubkey t) @ ser_core (core t) @ to_le_bytes (timestamp t)
      = ?pk (sender_pubkey t') @ ser_core (core t') @ to_le_bytes (timestamp t')"
    using assms(3-5) by (auto simp: signing_payload_v2_def transaction_signing_payload_v2_def)
  have ok: "pred_option (vec_ok (\<lambda>_. True)) (sender_pubkey t)" "core_ok (core t)"
    "pred_option (vec_ok (\<lambda>_. True)) (sender_pubkey t')" "core_ok (core t')"
    using assms(1,2) by (simp_all add: tx_ok_def)
  from opt_vec_u8.prefix_free[OF ok(1,3) tail] have pk: "sender_pubkey t = sender_pubkey t'"
    and rest: "ser_core (core t) @ to_le_bytes (timestamp t) = ser_core (core t') @ to_le_bytes (timestamp t')"
    by auto
  from corec.prefix_free[OF ok(2,4) rest] have "core t = core t'"
    "to_le_bytes (timestamp t) = to_le_bytes (timestamp t')" by auto
  with head pk show ?thesis by (simp add: to_le_bytes_inject)
qed

theorem signing_payload_v2_binding_witness:
  "tx_ok transfer_example \<and> signing_payload_v2 transfer_example 7 (replicate 32 3)
     = signing_payload_v2 transfer_example 7 (replicate 32 3)
   \<and> (7 :: u64) = 7 \<and> core transfer_example = core transfer_example"
proof -
  have "tx_ok transfer_example"
    by (rule wf_tx_ok) (use transfer_example_wire in \<open>auto simp: encode_wire_tx_v2_def magics\<close>)
  then show ?thesis
    using signing_payload_v2_binding[of transfer_example transfer_example "replicate 32 3" "replicate 32 3" 7 7]
    by simp
qed

text \<open>
  The two signing domains never meet: no v1 payload is a v2 payload, so a signature made
  for one format cannot be replayed as one for the other.
\<close>

theorem signing_domains_disjoint:
  "signing_payload_v1 t chain g \<noteq> signing_payload_v2 t' chain' g'"
  by (simp add: signing_payload_v1_def signing_payload_v2_def transaction_signing_payload_v1_def
      transaction_signing_payload_v2_def TX_SIG_DOMAIN_V1_def TX_SIG_DOMAIN_V2_def as_bytes_def)

section \<open>Properties of validation and selection\<close>

text \<open>
  Every contract transaction that passes the stateless validation fits the wire limit, as
  the comment on the contract data cap promises.
\<close>

theorem validated_contract_fits_wire:
  assumes "validate_basic t = Inr ()" and "tx_type (core t) = SmartContract" and "wf_tx t"
  shows "length (encode_wire_tx_v2 t) \<le> MAX_TX_WIRE_BYTES"
proof -
  have v: "validate_entries (core t) = Inr ()" and d: "length (tx_data (core t)) \<le> 48 * 1024"
    and s: "length (signature t) \<le> 8 * 1024"
    and pk: "case sender_pubkey t of None \<Rightarrow> True | Some p \<Rightarrow> length p \<le> 4 * 1024"
    using assms(1,2)
    by (auto simp: validate_basic_def max_tx_data_def MAX_TX_DATA_BYTES_SMART_CONTRACT_def
        MAX_TX_SIGNATURE_BYTES_def MAX_TX_SENDER_PUBKEY_BYTES_def split: sum.splits if_splits option.splits)
  from v assms(2) obtain e where e: "tx_entries (core t) = [e]" "entry_amount e = NonConfidential 0"
    by (auto simp: validate_entries_def zero_marker_entry_def
        split: list.splits EntryAmount.splits if_splits)
  then have "length (entry_public_key e) = 32" using assms(3) by (simp add: wf_tx_def wf_entry_def)
  then have "length (serialize_vec ser_entry (tx_entries (core t))) = 45"
    by (simp add: e length_serialize_vec ser_entry_def ser_amount_def ser_lengths)
  moreover have "length (ser_opt (serialize_vec ser_u8) (sender_pubkey t)) \<le> 4101"
    using pk by (auto simp: ser_opt_def ser_lengths length_serialize_vec_u8 split: option.splits)
  ultimately show ?thesis
    using d s by (simp add: encode_wire_tx_v2_def ser_tx_def ser_core_def ser_sig_def magics ser_lengths
        length_serialize_vec_u8 MAX_TX_WIRE_BYTES_def)
qed

definition contract_example :: Transaction where
  "contract_example = transfer_example\<lparr>core :=
     \<lparr>tx_type = SmartContract,
      tx_entries = [\<lparr>entry_public_key = replicate 32 1, entry_amount = NonConfidential 0\<rparr>],
      nonce = 1, lock_time = 0, fees = 6, tx_data = [96, 42]\<rparr>\<rparr>"

theorem validated_contract_fits_wire_witness:
  "validate_basic contract_example = Inr () \<and> tx_type (core contract_example) = SmartContract
   \<and> wf_tx contract_example \<and> length (encode_wire_tx_v2 contract_example) \<le> MAX_TX_WIRE_BYTES"
proof -
  have "validate_basic contract_example = Inr ()" "tx_type (core contract_example) = SmartContract"
    "wf_tx contract_example"
    by (simp_all add: contract_example_def transfer_example_def validate_basic_def validate_entries_def
        zero_marker_entry_def max_tx_data_def MAX_TX_DATA_BYTES_SMART_CONTRACT_def
        MAX_TX_SIGNATURE_BYTES_def wf_tx_def wf_entry_def)
  then show ?thesis using validated_contract_fits_wire[of contract_example] by simp
qed

lemma xor32_inject:
  "length a = length r \<Longrightarrow> length b = length r \<Longrightarrow> xor32 a r = xor32 b r \<longleftrightarrow> a = b"
proof (induction r arbitrary: a b)
  case (Cons x r)
  have "y XOR x = z XOR x \<longleftrightarrow> y = z" for y z :: byte
    by (metis xor.assoc xor_self_eq xor.right_neutral)
  with Cons show ?case by (cases a; cases b) (auto simp: xor32_def)
qed (simp add: xor32_def)

text \<open>
  The committee of a cycle is a function of the worker set: with 32-byte worker ids, each
  registered once, the selection has the requested size (at most the pool), draws distinct
  workers from the pool, and does not depend on the order in which a node lists the pool.
\<close>

theorem select_producers_order_free:
  assumes "distinct pool" and "\<forall>w \<in> set pool. length w = 32" and "mset pool' = mset pool"
    and "length (sha256 (root @ as_bytes ''catalyst-prng-32'')) = 32"
  shows "select_producers_for_next_cycle sha256 pool' root n = select_producers_for_next_cycle sha256 pool root n
    \<and> length (select_producers_for_next_cycle sha256 pool root n) = min n (length pool)
    \<and> distinct (select_producers_for_next_cycle sha256 pool root n)
    \<and> set (select_producers_for_next_cycle sha256 pool root n) \<subseteq> set pool"
proof -
  define r where "r = prng_32 sha256 root"
  define sc where "sc = (\<lambda>i. (xor32 i r, i))"
  have r32: "length r = 32" using assms(4) by (simp add: r_def prng_32_def)
  have inj: "inj_on fst (set (map sc pool'))"
    using assms(2,3) mset_eq_setD[OF assms(3)]
    by (auto simp: inj_on_def sc_def xor32_inject r32)
  have "sort_key fst (map sc pool') = sort_key fst (map sc pool)"
    using assms(3) inj by (intro sort_key_inj_key_eq) (auto simp: mset_map)
  moreover have "length pool' = length pool" using assms(3) by (metis size_mset)
  moreover have snds: "mset (map snd (sort_key fst (map sc pool))) = mset pool"
    by (simp add: sc_def multiset.map_comp o_def)
  moreover from snds have "distinct (map snd (sort_key fst (map sc pool)))"
    using assms(1) by (metis mset_eq_imp_distinct_iff)
  moreover from snds have "set (map snd (sort_key fst (map sc pool))) = set pool"
    by (rule mset_eq_setD)
  ultimately show ?thesis
    unfolding select_producers_for_next_cycle_def Let_def r_def[symmetric] sc_def[symmetric]
    by (auto simp: distinct_take simp flip: take_map dest: in_set_takeD)
qed

theorem select_producers_order_free_witness:
  "let pool = [replicate 32 1, replicate 32 2]; sha = (\<lambda>_. replicate 32 0) in
   distinct pool \<and> select_producers_for_next_cycle sha (rev pool) [] 1 = select_producers_for_next_cycle sha pool [] 1
   \<and> length (select_producers_for_next_cycle sha pool [] 1) = 1"
proof -
  have "distinct [replicate 32 1, replicate 32 (2 :: byte)]" by (simp add: numeral_eq_Suc)
  then show ?thesis
    using select_producers_order_free[of "[replicate 32 1, replicate 32 2]"
        "rev [replicate 32 1, replicate 32 2]" "\<lambda>_. replicate 32 0" "[]" 1]
    by (simp add: add_mset_commute)
qed

end
