(* ===== verification/Crypto.thy ===== *)
theory Crypto
  imports Wire_Tx Merkle
begin

text \<open>
  The cryptographic layer (\<open>catalyst-crypto/src\<close>): \<open>hash.rs\<close>, \<open>keys.rs\<close>, \<open>signatures.rs\<close> (Schnorr
  and the aggregated signatures), \<open>commitments.rs\<close>, \<open>utils.rs\<close> and the transaction authentication
  of \<open>txauth.rs\<close>.

  The curve is third-party code (\<open>curve25519_dalek\<close>): a record of its operations, over a ring of
  scalars and a group of points. What the code relies on is stated by two predicates,
  \<open>curve_laws\<close> (points are a module over the scalars) and \<open>curve_encoding\<close> (encodings are 32
  bytes long and decode to what was encoded). Random bytes are arguments.
\<close>

section \<open>Errors and hashes\<close>

datatype CryptoError =
    InvalidKey string
  | InvalidSignature string
  | SignatureVerificationFailed
  | InvalidPointEncoding
  | InvalidScalarEncoding
  | CommitmentVerificationFailed
  | InvalidCommitment string
  | AggregationFailed string
  | InsufficientRandomness
  | SerializationError string

definition HASH_SIZE :: nat where "HASH_SIZE = 32"

definition hash256_from_slice :: "bytes \<Rightarrow> (CryptoError, Hash) result" where
  "hash256_from_slice data =
     (if length data \<noteq> HASH_SIZE
      then Inl (SerializationError (''Expected '' @ show_nat HASH_SIZE @ '' bytes, got '' @ show_nat (length data)))
      else Inr data)"

definition blake2b_hash :: "(bytes \<Rightarrow> bytes) \<Rightarrow> bytes \<Rightarrow> Hash" where
  "blake2b_hash blake2b512 data = take HASH_SIZE (blake2b512 data)"

definition blake2b_hash_multiple :: "(bytes \<Rightarrow> bytes) \<Rightarrow> bytes list \<Rightarrow> Hash" where
  "blake2b_hash_multiple blake2b512 data_pieces = take HASH_SIZE (blake2b512 (concat data_pieces))"

section \<open>The curve\<close>

record ('s, 'p) curve =
  smul :: "'s \<Rightarrow> 'p \<Rightarrow> 'p"
  basepoint :: 'p
  compress :: "'p \<Rightarrow> bytes"
  decompress :: "bytes \<Rightarrow> 'p option"
  from_bytes_mod_order :: "bytes \<Rightarrow> 's"
  from_canonical_bytes :: "bytes \<Rightarrow> 's option"
  scalar_as_bytes :: "'s \<Rightarrow> bytes"

definition curve_laws :: "('s::comm_ring_1, 'p::ab_group_add, 'z) curve_scheme \<Rightarrow> bool" where
  "curve_laws cv \<longleftrightarrow> (\<forall>a b p. smul cv (a + b) p = smul cv a p + smul cv b p)
     \<and> (\<forall>a p q. smul cv a (p + q) = smul cv a p + smul cv a q)
     \<and> (\<forall>a b p. smul cv (a * b) p = smul cv a (smul cv b p))"

definition curve_encoding :: "('s, 'p, 'z) curve_scheme \<Rightarrow> bool" where
  "curve_encoding cv \<longleftrightarrow> (\<forall>p. length (compress cv p) = 32 \<and> decompress cv (compress cv p) = Some p)
     \<and> (\<forall>s. length (scalar_as_bytes cv s) = 32 \<and> from_canonical_bytes cv (scalar_as_bytes cv s) = Some s)"

section \<open>Keys\<close>

record 's PrivateKey =
  pr_scalar :: 's
  pr_bytes :: bytes

record 'p PublicKey =
  point :: 'p

definition private_key_from_bytes :: "('s, 'p) curve \<Rightarrow> bytes \<Rightarrow> 's PrivateKey" where
  "private_key_from_bytes cv bs = \<lparr>pr_scalar = from_bytes_mod_order cv bs, pr_bytes = bs\<rparr>"

definition public_key :: "('s, 'p) curve \<Rightarrow> 's PrivateKey \<Rightarrow> 'p PublicKey" where
  "public_key cv sk = \<lparr>point = smul cv (pr_scalar sk) (basepoint cv)\<rparr>"

definition pk_from_bytes :: "('s, 'p) curve \<Rightarrow> bytes \<Rightarrow> (CryptoError, 'p PublicKey) result" where
  "pk_from_bytes cv bs =
     (case decompress cv bs of
        None \<Rightarrow> Inl (InvalidKey ''Invalid public key encoding'')
      | Some p \<Rightarrow> Inr \<lparr>point = p\<rparr>)"

definition pk_to_bytes :: "('s, 'p) curve \<Rightarrow> 'p PublicKey \<Rightarrow> bytes" where
  "pk_to_bytes cv pk = compress cv (point pk)"

definition to_address :: "(bytes \<Rightarrow> bytes) \<Rightarrow> ('s, 'p) curve \<Rightarrow> 'p PublicKey \<Rightarrow> bytes" where
  "to_address blake2b512 cv pk = take 20 (blake2b_hash blake2b512 (pk_to_bytes cv pk))"

record ('s, 'p) KeyPair =
  kp_private :: "'s PrivateKey"
  kp_public :: "'p PublicKey"

definition from_private_key :: "('s, 'p) curve \<Rightarrow> 's PrivateKey \<Rightarrow> ('s, 'p) KeyPair" where
  "from_private_key cv sk = \<lparr>kp_private = sk, kp_public = public_key cv sk\<rparr>"

section \<open>Signatures\<close>

definition SIGNATURE_SIZE :: nat where "SIGNATURE_SIZE = 64"

record ('s, 'p) Signature =
  sg_r :: 'p
  sg_s :: 's

definition sig_to_bytes :: "('s, 'p) curve \<Rightarrow> ('s, 'p) Signature \<Rightarrow> bytes" where
  "sig_to_bytes cv sg = compress cv (sg_r sg) @ scalar_as_bytes cv (sg_s sg)"

definition sig_from_bytes :: "('s, 'p) curve \<Rightarrow> bytes \<Rightarrow> (CryptoError, ('s, 'p) Signature) result" where
  "sig_from_bytes cv bs =
     (case decompress cv (take 32 bs) of
        None \<Rightarrow> Inl (InvalidSignature ''Invalid R point'')
      | Some r \<Rightarrow>
          (case from_canonical_bytes cv (take 32 (drop 32 bs)) of
             None \<Rightarrow> Inl (InvalidSignature ''Invalid S scalar'')
           | Some s \<Rightarrow> Inr \<lparr>sg_r = r, sg_s = s\<rparr>))"

definition challenge ::
  "(bytes \<Rightarrow> bytes) \<Rightarrow> ('s, 'p) curve \<Rightarrow> 'p \<Rightarrow> 'p PublicKey \<Rightarrow> bytes \<Rightarrow> 's" where
  "challenge blake2b512 cv r pk m =
     from_bytes_mod_order cv (blake2b_hash blake2b512 (compress cv r @ pk_to_bytes cv pk @ m))"

definition sign ::
  "(bytes \<Rightarrow> bytes) \<Rightarrow> ('s::comm_ring_1, 'p) curve \<Rightarrow> bytes \<Rightarrow> 's PrivateKey \<Rightarrow> bytes \<Rightarrow> ('s, 'p) Signature" where
  "sign blake2b512 cv nonce_bytes sk m =
     (let k = from_bytes_mod_order cv nonce_bytes;
          r = smul cv k (basepoint cv);
          e = challenge blake2b512 cv r (public_key cv sk) m
      in \<lparr>sg_r = r, sg_s = k + e * pr_scalar sk\<rparr>)"

definition verify ::
  "(bytes \<Rightarrow> bytes) \<Rightarrow> ('s, 'p::ab_group_add) curve \<Rightarrow> bytes \<Rightarrow> ('s, 'p) Signature \<Rightarrow> 'p PublicKey
   \<Rightarrow> (CryptoError, bool) result" where
  "verify blake2b512 cv m sg pk =
     (let e = challenge blake2b512 cv (sg_r sg) pk m
      in Inr (smul cv (sg_s sg) (basepoint cv) = sg_r sg + smul cv e (point pk)))"

section \<open>Aggregated signatures\<close>

record ('s, 'p) MuSigSignature =
  aggregated_signature :: "('s, 'p) Signature"
  aggregated_public_key :: "'p PublicKey"
  participant_count :: nat

definition compute_public_key_list_hash :: "(bytes \<Rightarrow> bytes) \<Rightarrow> ('s, 'p) curve \<Rightarrow> 'p PublicKey list \<Rightarrow> Hash" where
  "compute_public_key_list_hash blake2b512 cv pks = blake2b_hash blake2b512 (concat (map (pk_to_bytes cv) pks))"

definition coefficient :: "(bytes \<Rightarrow> bytes) \<Rightarrow> ('s, 'p) curve \<Rightarrow> Hash \<Rightarrow> 'p PublicKey \<Rightarrow> 's" where
  "coefficient blake2b512 cv l pk = from_bytes_mod_order cv (blake2b_hash blake2b512 (l @ pk_to_bytes cv pk))"

definition aggregate_public_keys ::
  "(bytes \<Rightarrow> bytes) \<Rightarrow> ('s, 'p::ab_group_add) curve \<Rightarrow> 'p PublicKey list \<Rightarrow> (CryptoError, 'p PublicKey) result" where
  "aggregate_public_keys blake2b512 cv pks =
     (if pks = [] then Inl (AggregationFailed ''No public keys provided'')
      else let l = compute_public_key_list_hash blake2b512 cv pks
           in Inr \<lparr>point = fold (\<lambda>pk acc. acc + smul cv (coefficient blake2b512 cv l pk) (point pk)) pks 0\<rparr>)"

definition aggregate_signatures ::
  "(bytes \<Rightarrow> bytes) \<Rightarrow> ('s::comm_ring_1, 'p::ab_group_add) curve \<Rightarrow> (('s, 'p) Signature \<times> 'p PublicKey) list
   \<Rightarrow> (CryptoError, ('s, 'p) MuSigSignature) result" where
  "aggregate_signatures blake2b512 cv partial_signatures =
     (if partial_signatures = [] then Inl (AggregationFailed ''No signatures provided'')
      else
        let pks = map snd partial_signatures in
        case aggregate_public_keys blake2b512 cv pks of
          Inl err \<Rightarrow> Inl err
        | Inr apk \<Rightarrow>
            let l = compute_public_key_list_hash blake2b512 cv pks;
                coefficients = map (coefficient blake2b512 cv l) pks;
                (r, s) = fold (\<lambda>(c, sg, _) (r, s). (r + sg_r sg, s + c * sg_s sg))
                           (zip coefficients partial_signatures) (0, 0)
            in Inr \<lparr>aggregated_signature = \<lparr>sg_r = r, sg_s = s\<rparr>, aggregated_public_key = apk,
                     participant_count = length partial_signatures\<rparr>)"

definition verify_aggregated ::
  "(bytes \<Rightarrow> bytes) \<Rightarrow> ('s, 'p::ab_group_add) curve \<Rightarrow> bytes \<Rightarrow> ('s, 'p) MuSigSignature \<Rightarrow> (CryptoError, bool) result" where
  "verify_aggregated blake2b512 cv m ms =
     (let sg = aggregated_signature ms;
          e = challenge blake2b512 cv (sg_r sg) (aggregated_public_key ms) m
      in Inr (smul cv (sg_s sg) (basepoint cv) = sg_r sg + smul cv e (point (aggregated_public_key ms))))"

section \<open>Commitments\<close>

record ('s, 'p) PedersenCommitment =
  pc_commitment :: 'p
  blinding_factor :: 's

definition commit_with_blinding ::
  "('s::comm_ring_1, 'p::ab_group_add) curve \<Rightarrow> u64 \<Rightarrow> 's \<Rightarrow> 'p \<Rightarrow> ('s, 'p) PedersenCommitment" where
  "commit_with_blinding cv val bf generator_h =
     \<lparr>pc_commitment = smul cv (of_nat (unat val)) (basepoint cv) + smul cv bf generator_h, blinding_factor = bf\<rparr>"

definition commit :: "('s::comm_ring_1, 'p::ab_group_add) curve \<Rightarrow> bytes \<Rightarrow> u64 \<Rightarrow> 'p \<Rightarrow> ('s, 'p) PedersenCommitment" where
  "commit cv blinding_bytes val generator_h =
     commit_with_blinding cv val (from_bytes_mod_order cv blinding_bytes) generator_h"

definition pc_add :: "('s::comm_ring_1, 'p::ab_group_add) PedersenCommitment \<Rightarrow> ('s, 'p) PedersenCommitment
   \<Rightarrow> ('s, 'p) PedersenCommitment" where
  "pc_add a b = \<lparr>pc_commitment = pc_commitment a + pc_commitment b,
                 blinding_factor = blinding_factor a + blinding_factor b\<rparr>"

definition pc_subtract :: "('s::comm_ring_1, 'p::ab_group_add) PedersenCommitment \<Rightarrow> ('s, 'p) PedersenCommitment
   \<Rightarrow> ('s, 'p) PedersenCommitment" where
  "pc_subtract a b = \<lparr>pc_commitment = pc_commitment a - pc_commitment b,
                      blinding_factor = blinding_factor a - blinding_factor b\<rparr>"

definition pc_from_bytes :: "('s, 'p) curve \<Rightarrow> bytes \<Rightarrow> (CryptoError, 'p) result" where
  "pc_from_bytes cv bs =
     (case decompress cv bs of None \<Rightarrow> Inl (InvalidCommitment ''Invalid commitment encoding'') | Some p \<Rightarrow> Inr p)"

definition h_scalar :: "(bytes \<Rightarrow> bytes) \<Rightarrow> ('s, 'p) curve \<Rightarrow> 's" where
  "h_scalar blake2b512 cv = from_bytes_mod_order cv (blake2b_hash blake2b512 (as_bytes ''Catalyst Network H Generator''))"

definition generator_h :: "(bytes \<Rightarrow> bytes) \<Rightarrow> ('s, 'p) curve \<Rightarrow> 'p" where
  "generator_h blake2b512 cv = smul cv (h_scalar blake2b512 cv) (basepoint cv)"

definition commitment_verify ::
  "(bytes \<Rightarrow> bytes) \<Rightarrow> ('s::comm_ring_1, 'p::ab_group_add) curve \<Rightarrow> ('s, 'p) PedersenCommitment \<Rightarrow> u64 \<Rightarrow> bool" where
  "commitment_verify blake2b512 cv c val \<longleftrightarrow>
     pc_commitment c = pc_commitment (commit_with_blinding cv val (blinding_factor c) (generator_h blake2b512 cv))"

definition verify_range_proof :: "bytes \<Rightarrow> (CryptoError, bool) result" where
  "verify_range_proof prf = (if length prf = 672 then Inr True else Inl CommitmentVerificationFailed)"

section \<open>Key derivation\<close>

text \<open>
  \<open>None\<close> is the overflow of the block counter \<open>u8\<close>: the model is that of a build with overflow
  checks (the development profile), in which it is a panic.
\<close>

function derive_loop ::
  "(bytes \<Rightarrow> bytes) \<Rightarrow> bytes \<Rightarrow> bytes \<Rightarrow> nat \<Rightarrow> byte \<Rightarrow> bytes \<Rightarrow> bytes option" where
  "derive_loop blake2b512 seed info output_len counter output =
     (if length output < output_len then
        let hash = blake2b_hash blake2b512 (seed @ info @ [counter]);
            remaining = output_len - length output;
            to_take = min 32 remaining;
            output' = output @ take to_take hash
        in if counter = 255 then None
           else derive_loop blake2b512 seed info output_len (counter + 1) output'
      else Some output)"
  by pat_completeness auto
termination
proof (relation "measure (\<lambda>(_, _, _, _, counter, _). 255 - unat counter)", goal_cases)
  case (2 H seed info n c res)
  then have "unat c \<noteq> 255" using word_unat_eq_iff[of c 255] by simp
  moreover have "unat c < 256" by simp
  ultimately have "unat c < 255" by linarith
  then show ?case by (simp add: unat_word_ariths)
qed simp

declare derive_loop.simps [simp del]

definition derive_key :: "(bytes \<Rightarrow> bytes) \<Rightarrow> bytes \<Rightarrow> bytes \<Rightarrow> nat \<Rightarrow> (CryptoError, bytes) result option" where
  "derive_key blake2b512 seed info output_len =
     (if output_len > 255 * 32 then Some (Inl (SerializationError ''Output too long''))
      else map_option Inr (derive_loop blake2b512 seed info output_len 1 []))"

section \<open>Transaction authentication\<close>

datatype TxAuthError =
    UnsupportedScheme byte
  | InvalidSender
  | SenderPubkeyNotAllowed
  | InvalidSignatureBytes
  | InvalidPublicKeyBytes
  | InvalidTxSignature
  | SigningPayload

fun sender_loop :: "TxEntry list \<Rightarrow> bytes option \<Rightarrow> bytes option" where
  "sender_loop [] sender = sender"
| "sender_loop (e # es) sender =
     (case entry_amount e of
        NonConfidential v \<Rightarrow>
          if sint v < 0 then
            (case sender of
               None \<Rightarrow> sender_loop es (Some (entry_public_key e))
             | Some pk \<Rightarrow> if pk = entry_public_key e then sender_loop es sender else None)
          else sender_loop es sender
      | Confidential _ _ \<Rightarrow> sender_loop es sender)"

definition tx_sender_pubkey_32 :: "Transaction \<Rightarrow> bytes option" where
  "tx_sender_pubkey_32 tx =
     (if tx_type (core tx) \<in> {TransactionType.WorkerRegistration, SmartContract}
      then (case tx_entries (core tx) of [] \<Rightarrow> None | e # _ \<Rightarrow> Some (entry_public_key e))
      else sender_loop (tx_entries (core tx)) None)"

definition verify_schnorr ::
  "(bytes \<Rightarrow> bytes) \<Rightarrow> ('s, 'p::ab_group_add) curve \<Rightarrow> Transaction \<Rightarrow> u64 \<Rightarrow> bytes \<Rightarrow> (TxAuthError, unit) result" where
  "verify_schnorr blake2b512 cv tx chain_id genesis_hash =
     (if sender_pubkey tx \<noteq> None then Inl SenderPubkeyNotAllowed
      else if length (signature tx) \<noteq> 64 then Inl InvalidSignatureBytes
      else case sig_from_bytes cv (signature tx) of
        Inl _ \<Rightarrow> Inl InvalidSignatureBytes
      | Inr sg \<Rightarrow>
         (case tx_sender_pubkey_32 tx of
            None \<Rightarrow> Inl InvalidSender
          | Some pkb \<Rightarrow>
             (case pk_from_bytes cv pkb of
                Inl _ \<Rightarrow> Inl InvalidPublicKeyBytes
              | Inr pk \<Rightarrow>
                 (case verify blake2b512 cv (signing_payload_v2 tx chain_id genesis_hash) sg pk of
                    Inl _ \<Rightarrow> Inl InvalidTxSignature
                  | Inr ok \<Rightarrow> if ok then Inr () else Inl InvalidTxSignature))))"

definition verify_tx_signature_with_domain ::
  "(bytes \<Rightarrow> bytes) \<Rightarrow> ('s, 'p::ab_group_add) curve \<Rightarrow> Transaction \<Rightarrow> u64 \<Rightarrow> bytes \<Rightarrow> (TxAuthError, unit) result" where
  "verify_tx_signature_with_domain blake2b512 cv tx chain_id genesis_hash =
     (if signature_scheme tx = SCHNORR_V1 then verify_schnorr blake2b512 cv tx chain_id genesis_hash
      else Inl (UnsupportedScheme (signature_scheme tx)))"

section \<open>Signing and verifying\<close>

lemma curve_laws_zero:
  assumes "curve_laws cv"
  shows "smul cv 0 p = 0" "smul cv a 0 = 0"
  using assms unfolding curve_laws_def by (metis add_cancel_left_left add_0)+

lemma sign_verifies:
  assumes "curve_laws cv"
  shows "verify blake2b512 cv m (sign blake2b512 cv rnd sk m) (public_key cv sk) = Inr True"
  using assms by (simp add: verify_def sign_def Let_def public_key_def curve_laws_def)

lemma sig_bytes_roundtrip:
  assumes "curve_encoding cv"
  shows "sig_from_bytes cv (sig_to_bytes cv sg) = Inr sg" "length (sig_to_bytes cv sg) = SIGNATURE_SIZE"
  using assms by (simp_all add: sig_from_bytes_def sig_to_bytes_def curve_encoding_def SIGNATURE_SIZE_def)

lemma pk_bytes_roundtrip: "curve_encoding cv \<Longrightarrow> pk_from_bytes cv (pk_to_bytes cv pk) = Inr pk"
  by (simp add: pk_from_bytes_def pk_to_bytes_def curve_encoding_def)

text \<open>The keys that a transfer debits.\<close>

definition debited :: "TxEntry list \<Rightarrow> bytes set" where
  "debited es = {entry_public_key e |e v. e \<in> set es \<and> entry_amount e = NonConfidential v \<and> sint v < 0}"

lemma debited_simps [simp]:
  "debited [] = {}"
  "debited (e # es) = (case entry_amount e of
      NonConfidential v \<Rightarrow> if sint v < 0 then {entry_public_key e} else {} | Confidential _ _ \<Rightarrow> {}) \<union> debited es"
  by (auto simp: debited_def split: EntryAmount.split)

lemma sender_loop_from: "sender_loop es (Some k) = Some pk \<longleftrightarrow> pk = k \<and> debited es \<subseteq> {k}"
  by (induction es) (auto split: EntryAmount.splits)

lemma sender_loop_None: "sender_loop es None = Some pk \<longleftrightarrow> debited es = {pk}"
  by (induction es) (auto simp: sender_loop_from split: EntryAmount.splits)

lemma tx_sender_transfer:
  "tx_type (core tx) \<notin> {TransactionType.WorkerRegistration, SmartContract} \<Longrightarrow>
   tx_sender_pubkey_32 tx = Some pk \<longleftrightarrow> debited (tx_entries (core tx)) = {pk}"
  by (simp add: tx_sender_pubkey_32_def sender_loop_None)

lemma unsigned_part [simp]:
  "tx_sender_pubkey_32 (tx\<lparr>signature := sg\<rparr>) = tx_sender_pubkey_32 tx"
  "signing_payload_v2 (tx\<lparr>signature := sg\<rparr>) = signing_payload_v2 tx"
  by (simp_all add: tx_sender_pubkey_32_def signing_payload_v2_def fun_eq_iff)

lemma verify_schnorr_accepts:
  assumes "curve_laws cv" and "curve_encoding cv" and "sender_pubkey tx = None"
    and "tx_sender_pubkey_32 tx = Some (pk_to_bytes cv (public_key cv sk))"
  shows "verify_schnorr blake2b512 cv
      (tx\<lparr>signature := sig_to_bytes cv (sign blake2b512 cv rnd sk (signing_payload_v2 tx chain_id genesis_hash))\<rparr>)
      chain_id genesis_hash = Inr ()"
  using assms sig_bytes_roundtrip(2)[OF assms(2)]
  by (simp add: verify_schnorr_def sig_bytes_roundtrip pk_bytes_roundtrip sign_verifies SIGNATURE_SIZE_def)

lemma verify_schnorr_sound:
  assumes "verify_schnorr blake2b512 cv tx chain_id genesis_hash = Inr ()"
  shows "\<exists>pkb pk s. tx_sender_pubkey_32 tx = Some pkb \<and> pk_from_bytes cv pkb = Inr pk \<and> sig_from_bytes cv (signature tx) = Inr s
    \<and> smul cv (sg_s s) (basepoint cv)
        = sg_r s + smul cv (challenge blake2b512 cv (sg_r s) pk (signing_payload_v2 tx chain_id genesis_hash)) (point pk)"
  using assms by (auto simp: verify_schnorr_def verify_def Let_def split: if_splits sum.splits option.splits)

text \<open>
  C7: A transfer is authenticated by the one key it debits. Signed by that key over the
  domain-separated payload of a chain it is accepted on that chain; and whatever signature bytes it
  carries, it is accepted only if it debits exactly one key and those bytes satisfy the Schnorr
  equation under that key for the payload of the chain.
\<close>

theorem transfer_authenticated_by_its_only_debtor:
  assumes "curve_laws cv" and "curve_encoding cv" and "signature_scheme tx = SCHNORR_V1"
    and "sender_pubkey tx = None" and "tx_type (core tx) \<notin> {TransactionType.WorkerRegistration, SmartContract}"
  shows "(debited (tx_entries (core tx)) = {pk_to_bytes cv (public_key cv sk)} \<longrightarrow>
      verify_tx_signature_with_domain blake2b512 cv
        (tx\<lparr>signature := sig_to_bytes cv (sign blake2b512 cv rnd sk (signing_payload_v2 tx chain_id genesis_hash))\<rparr>)
        chain_id genesis_hash = Inr ())
    \<and> (\<forall>sg. verify_tx_signature_with_domain blake2b512 cv (tx\<lparr>signature := sg\<rparr>) chain_id genesis_hash = Inr () \<longrightarrow>
        (\<exists>pkb pk s. debited (tx_entries (core tx)) = {pkb} \<and> pk_from_bytes cv pkb = Inr pk \<and> sig_from_bytes cv sg = Inr s
          \<and> smul cv (sg_s s) (basepoint cv)
              = sg_r s + smul cv (challenge blake2b512 cv (sg_r s) pk (signing_payload_v2 tx chain_id genesis_hash)) (point pk)))"
proof (intro conjI impI allI)
  assume "debited (tx_entries (core tx)) = {pk_to_bytes cv (public_key cv sk)}"
  then have "tx_sender_pubkey_32 tx = Some (pk_to_bytes cv (public_key cv sk))"
    using tx_sender_transfer[OF assms(5)] by blast
  then show "verify_tx_signature_with_domain blake2b512 cv
        (tx\<lparr>signature := sig_to_bytes cv (sign blake2b512 cv rnd sk (signing_payload_v2 tx chain_id genesis_hash))\<rparr>)
        chain_id genesis_hash = Inr ()"
    using verify_schnorr_accepts[OF assms(1,2,4)] assms(3) by (simp add: verify_tx_signature_with_domain_def)
next
  fix sg
  assume "verify_tx_signature_with_domain blake2b512 cv (tx\<lparr>signature := sg\<rparr>) chain_id genesis_hash = Inr ()"
  then have "verify_schnorr blake2b512 cv (tx\<lparr>signature := sg\<rparr>) chain_id genesis_hash = Inr ()"
    using assms(3) by (simp add: verify_tx_signature_with_domain_def)
  from verify_schnorr_sound[OF this] show "\<exists>pkb pk s. debited (tx_entries (core tx)) = {pkb} \<and> pk_from_bytes cv pkb = Inr pk
      \<and> sig_from_bytes cv sg = Inr s \<and> smul cv (sg_s s) (basepoint cv)
          = sg_r s + smul cv (challenge blake2b512 cv (sg_r s) pk (signing_payload_v2 tx chain_id genesis_hash)) (point pk)"
    using tx_sender_transfer[OF assms(5)] by simp
qed

text \<open>A small curve: one-byte scalars and points, encoded in 32 bytes.\<close>

definition curve8 :: "(byte, byte) curve" where
  "curve8 = \<lparr>smul = (*), basepoint = 1, compress = (\<lambda>p. p # replicate 31 0),
     decompress = (\<lambda>bs. if length bs = 32 \<and> tl bs = replicate 31 0 then Some (hd bs) else None),
     from_bytes_mod_order = (\<lambda>bs. case bs of [] \<Rightarrow> 0 | b # _ \<Rightarrow> b),
     from_canonical_bytes = (\<lambda>bs. if length bs = 32 \<and> tl bs = replicate 31 0 then Some (hd bs) else None),
     scalar_as_bytes = (\<lambda>p. p # replicate 31 0)\<rparr>"

lemma curve8_laws: "curve_laws curve8"
  by (simp add: curve_laws_def curve8_def algebra_simps)

lemma curve8_encoding: "curve_encoding curve8"
  by (simp add: curve_encoding_def curve8_def)

definition key8 :: "byte PrivateKey" where "key8 = private_key_from_bytes curve8 [3]"

definition debit_example :: Transaction where
  "debit_example = \<lparr>core = \<lparr>tx_type = NonConfidentialTransfer,
       tx_entries = [\<lparr>entry_public_key = 3 # replicate 31 0, entry_amount = NonConfidential (- 5)\<rparr>,
                     \<lparr>entry_public_key = replicate 32 1, entry_amount = NonConfidential 5\<rparr>],
       nonce = 1, lock_time = 0, fees = 1, tx_data = []\<rparr>,
     signature_scheme = 0, signature = [], sender_pubkey = None, timestamp = 9\<rparr>"

lemma debited_example: "debited (tx_entries (core debit_example)) = {pk_to_bytes curve8 (public_key curve8 key8)}"
  by (simp add: debit_example_def pk_to_bytes_def public_key_def key8_def private_key_from_bytes_def curve8_def)

theorem transfer_authenticated_by_its_only_debtor_witness:
  "verify_tx_signature_with_domain (\<lambda>_. replicate 64 2) curve8
     (debit_example\<lparr>signature := sig_to_bytes curve8 (sign (\<lambda>_. replicate 64 2) curve8 [7] key8
        (signing_payload_v2 debit_example 31337 (replicate 32 0)))\<rparr>) 31337 (replicate 32 0) = Inr ()"
  using transfer_authenticated_by_its_only_debtor[OF curve8_laws curve8_encoding, of debit_example key8
      "\<lambda>_. replicate 64 2" "[7]" 31337 "replicate 32 0"] debited_example
  by (simp add: debit_example_def SCHNORR_V1_def)

section \<open>Aggregation of honest signatures\<close>

lemma smul_sum_list:
  assumes "curve_laws cv"
  shows "smul cv (sum_list (map f xs)) p = sum_list (map (\<lambda>x. smul cv (f x) p) xs)"
  using assms by (induction xs) (simp_all add: curve_laws_zero curve_laws_def)

lemma smul_minus:
  assumes "curve_laws cv"
  shows "smul cv (a - b) p = smul cv a p - smul cv b p"
proof -
  have "smul cv (a - b + b) p = smul cv (a - b) p + smul cv b p"
    using assms unfolding curve_laws_def by blast
  then show ?thesis by (simp add: algebra_simps)
qed

lemma fold_plus_sum_list: "fold (\<lambda>x acc. acc + f x) xs (a :: 'a::comm_monoid_add) = a + sum_list (map f xs)"
  by (induction xs arbitrary: a) (simp_all add: ac_simps)

lemma aggregate_fold:
  "fold (\<lambda>(c, sg, _) (r, s). (r + sg_r sg, s + c * sg_s sg)) (zip (map c (map snd ps)) ps) (r0, s0)
   = (r0 + (\<Sum>(sg, _)\<leftarrow>ps. sg_r sg), s0 + (\<Sum>(sg, pk)\<leftarrow>ps. c pk * sg_s sg))"
  for r0 :: "'p::ab_group_add" and s0 :: "'s::comm_ring_1"
  by (induction ps arbitrary: r0 s0) (auto simp: ac_simps)

lemma aggregate_split:
  "(\<Sum>(rnd, sk)\<leftarrow>xs. (c sk - 1) * k rnd + c sk * x sk * (f rnd sk - e))
   = (\<Sum>(rnd, sk)\<leftarrow>xs. c sk * (k rnd + f rnd sk * x sk))
     - ((\<Sum>(rnd, sk)\<leftarrow>xs. k rnd) + e * (\<Sum>(rnd, sk)\<leftarrow>xs. c sk * x sk))"
  for e :: "'s::comm_ring_1"
  by (induction xs) (auto simp: algebra_simps)

text \<open>A signer is the random bytes of its nonce and its key.\<close>

definition co_signatures ::
  "(bytes \<Rightarrow> bytes) \<Rightarrow> ('s::comm_ring_1, 'p) curve \<Rightarrow> bytes \<Rightarrow> (bytes \<times> 's PrivateKey) list
   \<Rightarrow> (('s, 'p) Signature \<times> 'p PublicKey) list" where
  "co_signatures blake2b512 cv m signers = map (\<lambda>(rnd, sk). (sign blake2b512 cv rnd sk m, public_key cv sk)) signers"

definition co_coefficient ::
  "(bytes \<Rightarrow> bytes) \<Rightarrow> ('s, 'p) curve \<Rightarrow> (bytes \<times> 's PrivateKey) list \<Rightarrow> 's PrivateKey \<Rightarrow> 's" where
  "co_coefficient blake2b512 cv signers sk =
     coefficient blake2b512 cv (compute_public_key_list_hash blake2b512 cv (map (\<lambda>x. public_key cv (snd x)) signers))
       (public_key cv sk)"

lemma aggregate_co_signatures:
  fixes cv :: "('s::comm_ring_1, 'p::ab_group_add) curve"
  assumes "curve_laws cv" and "signers \<noteq> []"
  shows "aggregate_signatures blake2b512 cv (co_signatures blake2b512 cv m signers) = Inr
    \<lparr>aggregated_signature =
       \<lparr>sg_r = smul cv (\<Sum>(rnd, sk)\<leftarrow>signers. from_bytes_mod_order cv rnd) (basepoint cv),
        sg_s = (\<Sum>(rnd, sk)\<leftarrow>signers. co_coefficient blake2b512 cv signers sk * sg_s (sign blake2b512 cv rnd sk m))\<rparr>,
     aggregated_public_key = \<lparr>point = smul cv (\<Sum>(rnd, sk)\<leftarrow>signers. co_coefficient blake2b512 cv signers sk * pr_scalar sk) (basepoint cv)\<rparr>,
     participant_count = length signers\<rparr>"
proof -
  let ?ps = "co_signatures blake2b512 cv m signers"
  have pks: "map snd ?ps = map (\<lambda>x. public_key cv (snd x)) signers" by (auto simp: co_signatures_def)
  have key: "smul cv (co_coefficient blake2b512 cv signers sk) (point (public_key cv sk))
      = smul cv (co_coefficient blake2b512 cv signers sk * pr_scalar sk) (basepoint cv)" for sk
    using assms(1) by (simp add: public_key_def curve_laws_def)
  have apk: "aggregate_public_keys blake2b512 cv (map snd ?ps)
      = Inr \<lparr>point = smul cv (\<Sum>(rnd, sk)\<leftarrow>signers. co_coefficient blake2b512 cv signers sk * pr_scalar sk) (basepoint cv)\<rparr>"
    using assms(2) unfolding pks
    by (simp add: aggregate_public_keys_def fold_plus_sum_list co_coefficient_def[symmetric] smul_sum_list[OF assms(1)]
        case_prod_unfold key o_def)
  have "?ps \<noteq> []" using assms(2) by (simp add: co_signatures_def)
  then show ?thesis
    unfolding aggregate_signatures_def apk Let_def aggregate_fold unfolding pks
    by (simp add: co_coefficient_def co_signatures_def case_prod_unfold o_def sign_def Let_def smul_sum_list[OF assms(1)])
qed

text \<open>
  Signatures of the same message by honest signers, aggregated, verify only by coincidence. The
  verification equation holds if and only if the base point is annihilated by the sum over the
  signers of \<open>(c - 1) * k + c * x * (e\<^sub>i - e)\<close>, where \<open>k\<close> is the signer's nonce, \<open>x\<close> its key, \<open>c\<close> its
  coefficient, \<open>e\<^sub>i\<close> the challenge it signed and \<open>e\<close> the challenge of the aggregate: the nonce points
  are added without coefficients and each signer answers its own challenge.
\<close>

theorem musig_honest_verifies_iff:
  fixes cv :: "('s::comm_ring_1, 'p::ab_group_add) curve"
  assumes "curve_laws cv" and "signers \<noteq> []"
  shows "\<exists>ms. aggregate_signatures blake2b512 cv (co_signatures blake2b512 cv m signers) = Inr ms
    \<and> verify_aggregated blake2b512 cv m ms = Inr (smul cv
        (\<Sum>(rnd, sk)\<leftarrow>signers.
          let c = co_coefficient blake2b512 cv signers sk;
              k = from_bytes_mod_order cv rnd;
              e\<^sub>i = challenge blake2b512 cv (smul cv k (basepoint cv)) (public_key cv sk) m;
              e = challenge blake2b512 cv (sg_r (aggregated_signature ms)) (aggregated_public_key ms) m
          in (c - 1) * k + c * pr_scalar sk * (e\<^sub>i - e)) (basepoint cv) = 0)"
proof -
  let ?c = "co_coefficient blake2b512 cv signers"
  let ?k = "from_bytes_mod_order cv"
  let ?ei = "\<lambda>rnd sk. challenge blake2b512 cv (smul cv (?k rnd) (basepoint cv)) (public_key cv sk) m"
  obtain ms where agg: "aggregate_signatures blake2b512 cv (co_signatures blake2b512 cv m signers) = Inr ms"
    and r: "sg_r (aggregated_signature ms) = smul cv (\<Sum>(rnd, sk)\<leftarrow>signers. ?k rnd) (basepoint cv)"
    and s: "sg_s (aggregated_signature ms) = (\<Sum>(rnd, sk)\<leftarrow>signers. ?c sk * (?k rnd + ?ei rnd sk * pr_scalar sk))"
    and pk: "point (aggregated_public_key ms) = smul cv (\<Sum>(rnd, sk)\<leftarrow>signers. ?c sk * pr_scalar sk) (basepoint cv)"
    using aggregate_co_signatures[OF assms, of blake2b512 m] by (simp add: sign_def Let_def)
  define e where "e = challenge blake2b512 cv (sg_r (aggregated_signature ms)) (aggregated_public_key ms) m"
  have "verify_aggregated blake2b512 cv m ms = Inr (smul cv
      (\<Sum>(rnd, sk)\<leftarrow>signers. (?c sk - 1) * ?k rnd + ?c sk * pr_scalar sk * (?ei rnd sk - e)) (basepoint cv) = 0)"
    using assms(1) unfolding verify_aggregated_def Let_def e_def[symmetric] unfolding r s pk aggregate_split
    by (simp add: smul_minus) (simp add: curve_laws_def)
  then show ?thesis using agg unfolding Let_def e_def by blast
qed

theorem musig_honest_verifies_iff_witness:
  "\<exists>ms. aggregate_signatures (\<lambda>_. replicate 64 2) curve8 (co_signatures (\<lambda>_. replicate 64 2) curve8 [] [([1], key8)]) = Inr ms
     \<and> verify_aggregated (\<lambda>_. replicate 64 2) curve8 [] ms = Inr False"
proof -
  have "from_bytes_mod_order curve8 (blake2b_hash (\<lambda>_. replicate 64 2) x) = 2" for x
    using replicate_Suc[of 31 "2 :: byte"] by (simp add: curve8_def blake2b_hash_def HASH_SIZE_def)
  then show ?thesis
    using musig_honest_verifies_iff[OF curve8_laws, of "[([1], key8)]" "\<lambda>_. replicate 64 2" "[]"]
    by (simp add: co_coefficient_def coefficient_def challenge_def) (simp add: curve8_def)
qed

section \<open>Commitments\<close>

lemma commit_homomorphic:
  assumes "curve_laws cv" and "unat v + unat w < 2 ^ 64"
  shows "pc_add (commit_with_blinding cv v a h) (commit_with_blinding cv w b h) = commit_with_blinding cv (v + w) (a + b) h"
proof -
  have "unat (v + w) = unat v + unat w" using assms(2) by (simp add: unat_word_ariths)
  then show ?thesis
    using assms(1) by (simp add: pc_add_def commit_with_blinding_def curve_laws_def algebra_simps)
qed

lemma commit_verifies: "commitment_verify blake2b512 cv (commit cv bs v (generator_h blake2b512 cv)) v"
  by (simp add: commitment_verify_def commit_def commit_with_blinding_def)

text \<open>
  The commitments bind to no value. The second generator is a known multiple of the base point
  (\<open>h_scalar\<close> is a public hash), so whoever made a commitment can open the same point to every
  other value: the verifier accepts the recomputed blinding factor.
\<close>

theorem pedersen_opens_to_any_value:
  fixes cv :: "('s::comm_ring_1, 'p::ab_group_add) curve"
  assumes "curve_laws cv" and "h_scalar blake2b512 cv * hinv = 1"
  shows "commitment_verify blake2b512 cv
    ((commit_with_blinding cv v bf (generator_h blake2b512 cv))
       \<lparr>blinding_factor := bf + (of_nat (unat v) - of_nat (unat w)) * hinv\<rparr>) w"
proof -
  let ?h = "h_scalar blake2b512 cv" and ?d = "of_nat (unat v) - of_nat (unat w) :: 's"
  have smul: "smul cv x (generator_h blake2b512 cv) = smul cv (x * ?h) (basepoint cv)" for x
    using assms(1) by (simp add: generator_h_def curve_laws_def)
  have "(bf + ?d * hinv) * ?h = bf * ?h + ?d * (?h * hinv)" by (simp add: algebra_simps)
  then have eq: "of_nat (unat w) + (bf + ?d * hinv) * ?h = of_nat (unat v) + bf * ?h"
    unfolding assms(2) by (simp add: algebra_simps)
  have add: "smul cv a (basepoint cv) + smul cv b (basepoint cv) = smul cv (a + b) (basepoint cv)" for a b
    using assms(1) by (simp add: curve_laws_def)
  show ?thesis
    unfolding commitment_verify_def commit_with_blinding_def PedersenCommitment.simps smul add eq ..
qed

theorem pedersen_opens_to_any_value_witness:
  "commitment_verify (\<lambda>_. replicate 64 3) curve8
     ((commit_with_blinding curve8 10 7 (generator_h (\<lambda>_. replicate 64 3) curve8))
        \<lparr>blinding_factor := 7 + (of_nat (unat (10 :: u64)) - of_nat (unat (99 :: u64))) * 171\<rparr>) 99"
proof -
  have "h_scalar (\<lambda>_. replicate 64 3) curve8 * 171 = 1"
    using replicate_Suc[of 31 "3 :: byte"] by (simp add: h_scalar_def curve8_def blake2b_hash_def HASH_SIZE_def)
  then show ?thesis using pedersen_opens_to_any_value[OF curve8_laws] by blast
qed

section \<open>Key derivation\<close>

definition key_block :: "(bytes \<Rightarrow> bytes) \<Rightarrow> bytes \<Rightarrow> bytes \<Rightarrow> nat \<Rightarrow> bytes" where
  "key_block blake2b512 seed info i = blake2b_hash blake2b512 (seed @ info @ [of_nat i])"

definition key_stream :: "(bytes \<Rightarrow> bytes) \<Rightarrow> bytes \<Rightarrow> bytes \<Rightarrow> nat \<Rightarrow> bytes" where
  "key_stream blake2b512 seed info n = concat (map (key_block blake2b512 seed info) [1..<Suc n])"

lemma key_stream_Suc: "key_stream blake2b512 seed info (Suc n)
    = key_stream blake2b512 seed info n @ key_block blake2b512 seed info (Suc n)"
  by (simp add: key_stream_def)

lemma key_stream_length:
  assumes "\<And>x. 32 \<le> length (blake2b512 x)"
  shows "length (key_stream blake2b512 seed info n) = 32 * n"
proof (induction n)
  case (Suc n)
  then show ?case
    using assms[of "seed @ info @ [of_nat (Suc n)]"]
    by (simp add: key_stream_Suc key_block_def blake2b_hash_def HASH_SIZE_def)
qed (simp add: key_stream_def)

lemma key_stream_prefix:
  assumes "\<And>x. 32 \<le> length (blake2b512 x)" and "j \<le> n"
  shows "take (32 * j) (key_stream blake2b512 seed info n) = key_stream blake2b512 seed info j"
  using assms(2)
proof (induction n)
  case (Suc n)
  then show ?case
    using key_stream_length[of blake2b512 seed info, OF assms(1)]
    by (cases "j = Suc n") (simp, simp add: key_stream_Suc)
qed (simp add: key_stream_def)

lemma block_counter:
  assumes "i < 254"
  shows "(of_nat (Suc i) :: byte) \<noteq> 255"
proof
  assume "(of_nat (Suc i) :: byte) = 255"
  then have "unat (of_nat (Suc i) :: byte) = 255" by simp
  moreover have "unat (of_nat (Suc i) :: byte) = Suc i" using assms by (simp add: unat_of_nat del: of_nat_Suc)
  ultimately show False using assms by simp
qed

lemma derive_loop_done: "n \<le> length out \<Longrightarrow> derive_loop blake2b512 seed info n c out = Some out"
  by (subst derive_loop.simps) simp

lemma derive_loop_block:
  assumes "i < 254" and "length out < n"
  shows "derive_loop blake2b512 seed info n (of_nat (Suc i)) out
    = derive_loop blake2b512 seed info n (of_nat (Suc (Suc i)))
        (out @ take (min 32 (n - length out)) (key_block blake2b512 seed info (Suc i)))"
proof -
  have "(of_nat (Suc i) :: byte) + 1 = of_nat (Suc (Suc i))" by simp
  then show ?thesis
    using assms(2) block_counter[OF assms(1)] unfolding key_block_def
    by (subst derive_loop.simps) (simp add: Let_def del: of_nat_Suc)
qed

lemma derive_loop_stream:
  assumes "\<And>x. 32 \<le> length (blake2b512 x)" and "i \<le> 254" and "32 * i \<le> n" and "n \<le> 255 * 32"
  shows "derive_loop blake2b512 seed info n (of_nat (Suc i)) (key_stream blake2b512 seed info i)
    = (if n \<le> 254 * 32 then Some (take n (key_stream blake2b512 seed info 255)) else None)"
  using assms(2,3)
proof (induction "254 - i" arbitrary: i)
  case 0
  then have i: "i = 254" by simp
  then show ?case
    using 0 key_stream_length[of blake2b512 seed info 254, OF assms(1)] key_stream_prefix[of blake2b512 254 255 seed info, OF assms(1)] assms(4)
    unfolding i by (subst derive_loop.simps) auto
next
  case (Suc d)
  let ?S = "key_stream blake2b512 seed info" and ?b = "key_block blake2b512 seed info (Suc i)"
  note len = key_stream_length[of blake2b512 seed info, OF assms(1)] and pre = key_stream_prefix[of blake2b512 _ 255 seed info, OF assms(1)]
  have i: "i < 254" using Suc.hyps(2) by simp
  consider "n = 32 * i" | "32 * i < n" "n < 32 * Suc i" | "32 * Suc i \<le> n" using Suc.prems by linarith
  then show ?case
  proof cases
    case 1
    then show ?thesis using i len[of i] pre[of i] by (simp add: derive_loop_done)
  next
    case 2
    have "?S i @ take (n - 32 * i) ?b = take n (?S (Suc i))" using 2 len[of i] by (simp add: key_stream_Suc)
    also have "\<dots> = take n (take (32 * Suc i) (?S 255))" using i by (subst pre) auto
    also have "\<dots> = take n (?S 255)" using 2 by simp
    finally have out: "?S i @ take (n - 32 * i) ?b = take n (?S 255)" .
    moreover have "length (take n (?S 255)) = n" using assms(4) len[of 255] by simp
    moreover have "min 32 (n - 32 * i) = n - 32 * i" using 2 by simp
    ultimately show ?thesis
      using 2 i len[of i] by (simp add: derive_loop_block[OF i] derive_loop_done del: of_nat_Suc)
  next
    case 3
    have "?S i @ take 32 ?b = ?S (Suc i)" by (simp add: key_stream_Suc key_block_def blake2b_hash_def HASH_SIZE_def)
    moreover have "min 32 (n - 32 * i) = 32" using 3 by simp
    ultimately show ?thesis
      using 3 len[of i] Suc.hyps(1)[of "Suc i"] Suc.hyps(2) by (simp add: derive_loop_block[OF i] del: of_nat_Suc)
  qed
qed

text \<open>
  Key derivation always ends, and its outcome is known for every length: up to 254 blocks of 32
  bytes it returns that many bytes of one key stream (so a shorter key is a prefix of a longer
  one), beyond 255 blocks it is refused, and in between, although the length check admits it,
  the block counter overflows (a panic in a build with overflow checks).
\<close>

theorem derive_key_outcome:
  assumes "\<And>x. 32 \<le> length (blake2b512 x)"
  shows "derive_key blake2b512 seed info n =
    (if n \<le> 254 * 32 then Some (Inr (take n (key_stream blake2b512 seed info 255)))
     else if n \<le> 255 * 32 then None
     else Some (Inl (SerializationError ''Output too long'')))"
  using derive_loop_stream[of blake2b512 0 n seed info, OF assms] by (simp add: derive_key_def key_stream_def)

theorem derive_key_outcome_witness:
  "derive_key (\<lambda>_. replicate 64 7) [1] [2] 3 = Some (Inr [7, 7, 7])
   \<and> derive_key (\<lambda>_. replicate 64 7) [1] [2] 8160 = None"
proof -
  have "take 3 (key_stream (\<lambda>_. replicate 64 7) [1] [2] 255) = take 3 (take (32 * 1) (key_stream (\<lambda>_. replicate 64 7) [1] [2] 255))"
    by simp
  also have "\<dots> = [7, 7, 7]"
    by (subst key_stream_prefix) (simp_all add: key_stream_def key_block_def blake2b_hash_def HASH_SIZE_def numeral_3_eq_3)
  finally show ?thesis
    using derive_key_outcome[of "\<lambda>_. replicate 64 7" "[1]" "[2]" 3] derive_key_outcome[of "\<lambda>_. replicate 64 7" "[1]" "[2]" 8160]
    by simp
qed

end
