(* ===== verification/Finality.thy ===== *)
theory Finality
  imports Phases Crypto
begin

text \<open>
  Finality certificates (\<open>catalyst-consensus/src/lsu_finality.rs\<close>) and certified state roots
  (\<open>state_root_finality.rs\<close>): the digests that producers sign, the certificates that collect
  their signatures, and their verification against a ledger update. The curve and the hash are
  parameters, as in theory \<open>Crypto\<close>, and so is \<open>hex::decode\<close>.

  The loop over the votes is the same in both modules up to its checks; its contract is the
  locale \<open>tally\<close>. Quorum intersection comes from the locale \<open>majority_quorum\<close>.
\<close>

section \<open>Finality certificates\<close>

definition FINALITY_CERT_STYLE_INDIVIDUAL :: byte where "FINALITY_CERT_STYLE_INDIVIDUAL = 1"
definition MAX_FINALITY_VOTES :: nat where "MAX_FINALITY_VOTES = 256"

datatype LsuFinalityVerifyError =
    BadFormat | TooManyVotes | EmptyCommittee | LsuHashMismatch | CommitteeHashMismatch | VoteListHashMismatch
  | DuplicateVoter | VoterNotInCommittee | VoterNotInVoteList | InsufficientQuorum | InvalidPublicKey
  | InvalidVoteSignatureBytes | InvalidVoteSignature | HashError

definition finality_domain_padded :: bytes where
  "finality_domain_padded = take 16 (as_bytes ''CATALYST_LSUFC'' @ replicate 16 0)"

definition blake2b512_trunc32 :: "(bytes \<Rightarrow> bytes) \<Rightarrow> bytes \<Rightarrow> Hash" where
  "blake2b512_trunc32 blake2b512 data = take 32 (blake2b512 data)"

definition parse_producer_hex32 :: "(string \<Rightarrow> bytes option) \<Rightarrow> string \<Rightarrow> bytes option" where
  "parse_producer_hex32 hex_decode s =
     (if length s \<noteq> 64 then None
      else case hex_decode s of
        None \<Rightarrow> None
      | Some v \<Rightarrow> if length v \<noteq> 32 then None else Some v)"

fun committee_keys :: "(string \<Rightarrow> bytes option) \<Rightarrow> ProducerId list \<Rightarrow> bytes option" where
  "committee_keys hex_decode [] = Some []"
| "committee_keys hex_decode (pid # ids) =
     (case parse_producer_hex32 hex_decode pid of
        None \<Rightarrow> None
      | Some k \<Rightarrow> map_option (\<lambda>raw. k @ raw) (committee_keys hex_decode ids))"

definition committee_hash_ordered_producer_list ::
  "(bytes \<Rightarrow> bytes) \<Rightarrow> (string \<Rightarrow> bytes option) \<Rightarrow> ProducerId list \<Rightarrow> Hash option" where
  "committee_hash_ordered_producer_list blake2b512 hex_decode plist =
     (if plist = [] then None
      else map_option (blake2b512_trunc32 blake2b512) (committee_keys hex_decode plist))"

definition cert_preimage :: "u64 \<Rightarrow> Hash \<Rightarrow> u64 \<Rightarrow> Hash \<Rightarrow> Hash \<Rightarrow> Hash \<Rightarrow> bytes" where
  "cert_preimage chain_id genesis_hash cyc lsu_hash committee_hash vote_list_hash =
     finality_domain_padded @ [1] @ to_le_bytes chain_id @ genesis_hash @ to_le_bytes cyc
     @ lsu_hash @ committee_hash @ vote_list_hash"

definition h_cert_v1 ::
  "(bytes \<Rightarrow> bytes) \<Rightarrow> u64 \<Rightarrow> Hash \<Rightarrow> u64 \<Rightarrow> Hash \<Rightarrow> Hash \<Rightarrow> Hash \<Rightarrow> Hash" where
  "h_cert_v1 blake2b512 chain_id genesis_hash cyc lsu_hash committee_hash vote_list_hash =
     blake2b512_trunc32 blake2b512
       (cert_preimage chain_id genesis_hash cyc lsu_hash committee_hash vote_list_hash)"

definition bft_vote_threshold :: "nat \<Rightarrow> nat" where
  "bft_vote_threshold n = (if n = 0 then 2 ^ 64 - 1 else (2 * n + 2) div 3)"

record ProducerFinalityVote =
  fv_producer_id :: ProducerId
  fv_signature :: bytes

record LsuFinalityCertificateV1 =
  fc_version :: byte
  fc_style :: byte
  fc_chain_id :: u64
  fc_genesis_hash :: Hash
  fc_cycle :: u64
  fc_lsu_hash :: Hash
  fc_committee_hash :: Hash
  fc_vote_list_hash :: Hash
  fc_votes :: "ProducerFinalityVote list"

definition from_lsu_and_votes ::
  "(bytes \<Rightarrow> bytes) \<Rightarrow> (string \<Rightarrow> bytes option) \<Rightarrow> LedgerStateUpdate \<Rightarrow> u64 \<Rightarrow> Hash \<Rightarrow> Hash \<Rightarrow> ProducerFinalityVote list
   \<Rightarrow> (LsuFinalityVerifyError, LsuFinalityCertificateV1) result" where
  "from_lsu_and_votes blake2b512 hex_decode lsu chain_id genesis_hash lsu_hash votes =
     (case committee_hash_ordered_producer_list blake2b512 hex_decode (lsu_producer_list lsu) of
        None \<Rightarrow> Inl EmptyCommittee
      | Some committee_hash \<Rightarrow> Inr
          \<lparr>fc_version = 1, fc_style = FINALITY_CERT_STYLE_INDIVIDUAL, fc_chain_id = chain_id,
           fc_genesis_hash = genesis_hash, fc_cycle = lsu_cycle_number lsu, fc_lsu_hash = lsu_hash,
           fc_committee_hash = committee_hash,
           fc_vote_list_hash = hash_producer_list_merkle blake2b512 (lsu_vote_list lsu), fc_votes = votes\<rparr>)"

text \<open>The signature part of a vote, as in \<open>verify_finality_attestation\<close>.\<close>

definition verify_vote_signature ::
  "(bytes \<Rightarrow> bytes) \<Rightarrow> (string \<Rightarrow> bytes option) \<Rightarrow> ('s, 'p::ab_group_add) curve \<Rightarrow> Hash \<Rightarrow> ProducerId \<Rightarrow> bytes
   \<Rightarrow> (LsuFinalityVerifyError, unit) result" where
  "verify_vote_signature blake2b512 hex_decode cv h pid sg =
     (case parse_producer_hex32 hex_decode pid of
        None \<Rightarrow> Inl InvalidPublicKey
      | Some pk_bytes \<Rightarrow>
         (case pk_from_bytes cv pk_bytes of
            Inl _ \<Rightarrow> Inl InvalidPublicKey
          | Inr pk \<Rightarrow>
              if length sg \<noteq> 64 then Inl InvalidVoteSignatureBytes
              else case sig_from_bytes cv sg of
                Inl _ \<Rightarrow> Inl InvalidVoteSignatureBytes
              | Inr s \<Rightarrow>
                 (case verify blake2b512 cv h s pk of
                    Inl _ \<Rightarrow> Inl InvalidVoteSignature
                  | Inr ok \<Rightarrow> if ok then Inr () else Inl InvalidVoteSignature)))"

definition check_vote ::
  "(bytes \<Rightarrow> bytes) \<Rightarrow> (string \<Rightarrow> bytes option) \<Rightarrow> ('s, 'p::ab_group_add) curve \<Rightarrow> LedgerStateUpdate \<Rightarrow> Hash
   \<Rightarrow> ProducerFinalityVote \<Rightarrow> (LsuFinalityVerifyError, unit) result" where
  "check_vote blake2b512 hex_decode cv lsu h v =
     (if fv_producer_id v \<notin> set (lsu_producer_list lsu) then Inl VoterNotInCommittee
      else if fv_producer_id v \<notin> set (lsu_vote_list lsu) then Inl VoterNotInVoteList
      else verify_vote_signature blake2b512 hex_decode cv h (fv_producer_id v) (fv_signature v))"

fun count_votes ::
  "(bytes \<Rightarrow> bytes) \<Rightarrow> (string \<Rightarrow> bytes option) \<Rightarrow> ('s, 'p::ab_group_add) curve \<Rightarrow> LedgerStateUpdate \<Rightarrow> Hash
   \<Rightarrow> ProducerFinalityVote list \<Rightarrow> ProducerId set \<Rightarrow> nat \<Rightarrow> (LsuFinalityVerifyError, nat) result" where
  "count_votes blake2b512 hex_decode cv lsu h [] seen valid = Inr valid"
| "count_votes blake2b512 hex_decode cv lsu h (v # vs) seen valid =
     (if fv_producer_id v \<in> seen then Inl DuplicateVoter
      else case check_vote blake2b512 hex_decode cv lsu h v of
        Inl err \<Rightarrow> Inl err
      | Inr _ \<Rightarrow> count_votes blake2b512 hex_decode cv lsu h vs (insert (fv_producer_id v) seen) (valid + 1))"

definition cert_digest :: "(bytes \<Rightarrow> bytes) \<Rightarrow> LsuFinalityCertificateV1 \<Rightarrow> Hash" where
  "cert_digest blake2b512 cert =
     h_cert_v1 blake2b512 (fc_chain_id cert) (fc_genesis_hash cert) (fc_cycle cert) (fc_lsu_hash cert)
       (fc_committee_hash cert) (fc_vote_list_hash cert)"

definition verify_lsu_finality_certificate ::
  "(bytes \<Rightarrow> bytes) \<Rightarrow> (string \<Rightarrow> bytes option) \<Rightarrow> ('s, 'p::ab_group_add) curve \<Rightarrow> LsuFinalityCertificateV1
   \<Rightarrow> LedgerStateUpdate \<Rightarrow> (LsuFinalityVerifyError, unit) result" where
  "verify_lsu_finality_certificate blake2b512 hex_decode cv cert lsu =
     (if fc_version cert \<noteq> 1 \<or> fc_style cert \<noteq> FINALITY_CERT_STYLE_INDIVIDUAL then Inl BadFormat
      else if length (fc_votes cert) > MAX_FINALITY_VOTES then Inl TooManyVotes
      else if hash_data blake2b512 ser_lsu lsu \<noteq> fc_lsu_hash cert \<or> lsu_cycle_number lsu \<noteq> fc_cycle cert
      then Inl LsuHashMismatch
      else case committee_hash_ordered_producer_list blake2b512 hex_decode (lsu_producer_list lsu) of
        None \<Rightarrow> Inl EmptyCommittee
      | Some committee_hash \<Rightarrow>
          if committee_hash \<noteq> fc_committee_hash cert then Inl CommitteeHashMismatch
          else if hash_producer_list_merkle blake2b512 (lsu_vote_list lsu) \<noteq> fc_vote_list_hash cert
          then Inl VoteListHashMismatch
          else case count_votes blake2b512 hex_decode cv lsu (cert_digest blake2b512 cert) (fc_votes cert) {} 0 of
            Inl err \<Rightarrow> Inl err
          | Inr valid \<Rightarrow>
              if valid < bft_vote_threshold (length (lsu_producer_list lsu)) then Inl InsufficientQuorum
              else Inr ())"

definition verify_finality_attestation ::
  "(bytes \<Rightarrow> bytes) \<Rightarrow> (string \<Rightarrow> bytes option) \<Rightarrow> ('s, 'p::ab_group_add) curve \<Rightarrow> u64 \<Rightarrow> Hash \<Rightarrow> u64 \<Rightarrow> Hash \<Rightarrow> Hash \<Rightarrow> Hash
   \<Rightarrow> ProducerId \<Rightarrow> bytes \<Rightarrow> (LsuFinalityVerifyError, unit) result" where
  "verify_finality_attestation blake2b512 hex_decode cv chain_id genesis_hash cyc lsu_hash committee_hash vote_list_hash
     pid sg =
     verify_vote_signature blake2b512 hex_decode cv
       (h_cert_v1 blake2b512 chain_id genesis_hash cyc lsu_hash committee_hash vote_list_hash) pid sg"

section \<open>Certified state roots\<close>

definition MAX_STATE_ROOT_ATTESTATIONS :: nat where "MAX_STATE_ROOT_ATTESTATIONS = 256"

datatype StateRootVerifyError =
    SrBadFormat | SrTooManyAttestations | SrEmptyCommittee | SrLsuHashMismatch | SrCommitteeHashMismatch
  | SrDuplicateAttester | SrAttesterNotInCommittee | SrInsufficientQuorum | SrInvalidPublicKey
  | SrInvalidSignatureBytes | SrInvalidSignature | SrHashError

definition state_root_domain_padded :: bytes where
  "state_root_domain_padded = take 16 (as_bytes ''CATALYST_LSUROOT'' @ replicate 16 0)"

definition root_preimage :: "u64 \<Rightarrow> Hash \<Rightarrow> u64 \<Rightarrow> Hash \<Rightarrow> Hash \<Rightarrow> Hash \<Rightarrow> bytes" where
  "root_preimage chain_id genesis_hash cyc lsu_hash committee_hash state_root =
     state_root_domain_padded @ [1] @ to_le_bytes chain_id @ genesis_hash @ to_le_bytes cyc
     @ lsu_hash @ committee_hash @ state_root"

definition h_root_v1 ::
  "(bytes \<Rightarrow> bytes) \<Rightarrow> u64 \<Rightarrow> Hash \<Rightarrow> u64 \<Rightarrow> Hash \<Rightarrow> Hash \<Rightarrow> Hash \<Rightarrow> Hash" where
  "h_root_v1 blake2b512 chain_id genesis_hash cyc lsu_hash committee_hash state_root =
     blake2b512_trunc32 blake2b512
       (root_preimage chain_id genesis_hash cyc lsu_hash committee_hash state_root)"

record StateRootAttestation =
  sa_producer_id :: ProducerId
  sa_signature :: bytes

record LsuStateRootCertificateV1 =
  rc_version :: byte
  rc_chain_id :: u64
  rc_genesis_hash :: Hash
  rc_cycle :: u64
  rc_lsu_hash :: Hash
  rc_state_root :: Hash
  rc_committee_hash :: Hash
  rc_attestations :: "StateRootAttestation list"

definition from_lsu_and_attestations ::
  "(bytes \<Rightarrow> bytes) \<Rightarrow> (string \<Rightarrow> bytes option) \<Rightarrow> LedgerStateUpdate \<Rightarrow> u64 \<Rightarrow> Hash \<Rightarrow> Hash \<Rightarrow> Hash
   \<Rightarrow> StateRootAttestation list \<Rightarrow> (StateRootVerifyError, LsuStateRootCertificateV1) result" where
  "from_lsu_and_attestations blake2b512 hex_decode lsu chain_id genesis_hash lsu_hash state_root atts =
     (case committee_hash_ordered_producer_list blake2b512 hex_decode (lsu_producer_list lsu) of
        None \<Rightarrow> Inl SrEmptyCommittee
      | Some committee_hash \<Rightarrow> Inr
          \<lparr>rc_version = 1, rc_chain_id = chain_id, rc_genesis_hash = genesis_hash, rc_cycle = lsu_cycle_number lsu,
           rc_lsu_hash = lsu_hash, rc_state_root = state_root, rc_committee_hash = committee_hash,
           rc_attestations = atts\<rparr>)"

definition verify_root_signature ::
  "(bytes \<Rightarrow> bytes) \<Rightarrow> (string \<Rightarrow> bytes option) \<Rightarrow> ('s, 'p::ab_group_add) curve \<Rightarrow> Hash \<Rightarrow> ProducerId \<Rightarrow> bytes
   \<Rightarrow> (StateRootVerifyError, unit) result" where
  "verify_root_signature blake2b512 hex_decode cv h pid sg =
     (case parse_producer_hex32 hex_decode pid of
        None \<Rightarrow> Inl SrInvalidPublicKey
      | Some pk_bytes \<Rightarrow>
         (case pk_from_bytes cv pk_bytes of
            Inl _ \<Rightarrow> Inl SrInvalidPublicKey
          | Inr pk \<Rightarrow>
              if length sg \<noteq> 64 then Inl SrInvalidSignatureBytes
              else case sig_from_bytes cv sg of
                Inl _ \<Rightarrow> Inl SrInvalidSignatureBytes
              | Inr s \<Rightarrow>
                 (case verify blake2b512 cv h s pk of
                    Inl _ \<Rightarrow> Inl SrInvalidSignature
                  | Inr ok \<Rightarrow> if ok then Inr () else Inl SrInvalidSignature)))"

definition check_attestation ::
  "(bytes \<Rightarrow> bytes) \<Rightarrow> (string \<Rightarrow> bytes option) \<Rightarrow> ('s, 'p::ab_group_add) curve \<Rightarrow> LedgerStateUpdate \<Rightarrow> Hash
   \<Rightarrow> StateRootAttestation \<Rightarrow> (StateRootVerifyError, unit) result" where
  "check_attestation blake2b512 hex_decode cv lsu h a =
     (if sa_producer_id a \<notin> set (lsu_producer_list lsu) then Inl SrAttesterNotInCommittee
      else verify_root_signature blake2b512 hex_decode cv h (sa_producer_id a) (sa_signature a))"

fun count_attestations ::
  "(bytes \<Rightarrow> bytes) \<Rightarrow> (string \<Rightarrow> bytes option) \<Rightarrow> ('s, 'p::ab_group_add) curve \<Rightarrow> LedgerStateUpdate \<Rightarrow> Hash
   \<Rightarrow> StateRootAttestation list \<Rightarrow> ProducerId set \<Rightarrow> nat \<Rightarrow> (StateRootVerifyError, nat) result" where
  "count_attestations blake2b512 hex_decode cv lsu h [] seen valid = Inr valid"
| "count_attestations blake2b512 hex_decode cv lsu h (a # as) seen valid =
     (if sa_producer_id a \<in> seen then Inl SrDuplicateAttester
      else case check_attestation blake2b512 hex_decode cv lsu h a of
        Inl err \<Rightarrow> Inl err
      | Inr _ \<Rightarrow> count_attestations blake2b512 hex_decode cv lsu h as (insert (sa_producer_id a) seen) (valid + 1))"

definition root_digest :: "(bytes \<Rightarrow> bytes) \<Rightarrow> LsuStateRootCertificateV1 \<Rightarrow> Hash" where
  "root_digest blake2b512 cert =
     h_root_v1 blake2b512 (rc_chain_id cert) (rc_genesis_hash cert) (rc_cycle cert) (rc_lsu_hash cert)
       (rc_committee_hash cert) (rc_state_root cert)"

definition verify_lsu_state_root_certificate ::
  "(bytes \<Rightarrow> bytes) \<Rightarrow> (string \<Rightarrow> bytes option) \<Rightarrow> ('s, 'p::ab_group_add) curve \<Rightarrow> LsuStateRootCertificateV1
   \<Rightarrow> LedgerStateUpdate \<Rightarrow> (StateRootVerifyError, unit) result" where
  "verify_lsu_state_root_certificate blake2b512 hex_decode cv cert lsu =
     (if rc_version cert \<noteq> 1 then Inl SrBadFormat
      else if length (rc_attestations cert) > MAX_STATE_ROOT_ATTESTATIONS then Inl SrTooManyAttestations
      else if hash_data blake2b512 ser_lsu lsu \<noteq> rc_lsu_hash cert \<or> lsu_cycle_number lsu \<noteq> rc_cycle cert
      then Inl SrLsuHashMismatch
      else case committee_hash_ordered_producer_list blake2b512 hex_decode (lsu_producer_list lsu) of
        None \<Rightarrow> Inl SrEmptyCommittee
      | Some committee_hash \<Rightarrow>
          if committee_hash \<noteq> rc_committee_hash cert then Inl SrCommitteeHashMismatch
          else case count_attestations blake2b512 hex_decode cv lsu (root_digest blake2b512 cert) (rc_attestations cert) {} 0 of
            Inl err \<Rightarrow> Inl err
          | Inr valid \<Rightarrow>
              if valid < bft_vote_threshold (length (lsu_producer_list lsu)) then Inl SrInsufficientQuorum
              else Inr ())"

definition verify_state_root_attestation ::
  "(bytes \<Rightarrow> bytes) \<Rightarrow> (string \<Rightarrow> bytes option) \<Rightarrow> ('s, 'p::ab_group_add) curve \<Rightarrow> u64 \<Rightarrow> Hash \<Rightarrow> u64 \<Rightarrow> Hash \<Rightarrow> Hash \<Rightarrow> Hash
   \<Rightarrow> ProducerId \<Rightarrow> bytes \<Rightarrow> (StateRootVerifyError, unit) result" where
  "verify_state_root_attestation blake2b512 hex_decode cv chain_id genesis_hash cyc lsu_hash committee_hash state_root
     pid sg =
     verify_root_signature blake2b512 hex_decode cv
       (h_root_v1 blake2b512 chain_id genesis_hash cyc lsu_hash committee_hash state_root) pid sg"

section \<open>Counting votes\<close>

text \<open>
  The contract of both loops: a list of votes is accepted if and only if the voters are distinct
  and every single vote passes its check, and then all of them are counted.
\<close>

locale tally =
  fixes count :: "'v list \<Rightarrow> 'k set \<Rightarrow> nat \<Rightarrow> 'e + nat"
    and voter :: "'v \<Rightarrow> 'k" and check :: "'v \<Rightarrow> 'e + unit" and duplicate :: 'e
  assumes count_Nil: "count [] seen n = Inr n"
    and count_Cons: "count (v # vs) seen n =
      (if voter v \<in> seen then Inl duplicate
       else case check v of Inl err \<Rightarrow> Inl err | Inr _ \<Rightarrow> count vs (insert (voter v) seen) (n + 1))"
begin

lemma count_Inr_iff:
  "count vs seen n = Inr m \<longleftrightarrow>
     m = n + length vs \<and> distinct (map voter vs) \<and> voter ` set vs \<inter> seen = {} \<and> (\<forall>v \<in> set vs. check v = Inr ())"
proof (induction vs arbitrary: seen n)
  case (Cons v vs)
  have "count (v # vs) seen n = Inr m \<longleftrightarrow>
      voter v \<notin> seen \<and> check v = Inr () \<and> count vs (insert (voter v) seen) (n + 1) = Inr m"
    unfolding count_Cons by (auto split: sum.splits)
  then show ?case unfolding Cons.IH by auto
qed (auto simp: count_Nil)

lemma quorum_Inr_iff:
  "(case count vs {} 0 of Inl err \<Rightarrow> Inl err | Inr valid \<Rightarrow> if valid < need then Inl short else Inr ()) = Inr () \<longleftrightarrow>
     distinct (map voter vs) \<and> (\<forall>v \<in> set vs. check v = Inr ()) \<and> need \<le> length vs"
proof (cases "count vs {} 0")
  case (Inl err)
  then show ?thesis using count_Inr_iff[of vs "{}" 0 "length vs"] by auto
next
  case (Inr valid)
  then show ?thesis using count_Inr_iff[of vs "{}" 0 valid] by auto
qed

end

interpretation cert_tally: tally "count_votes blake2b512 hex_decode cv lsu h" fv_producer_id
  "check_vote blake2b512 hex_decode cv lsu h" DuplicateVoter for blake2b512 hex_decode cv lsu h
  by unfold_locales simp_all

interpretation root_tally: tally "count_attestations blake2b512 hex_decode cv lsu h" sa_producer_id
  "check_attestation blake2b512 hex_decode cv lsu h" SrDuplicateAttester for blake2b512 hex_decode cv lsu h
  by unfold_locales simp_all

lemma cert_accepted_iff:
  "verify_lsu_finality_certificate blake2b512 hex_decode cv cert lsu = Inr () \<longleftrightarrow>
     fc_version cert = 1 \<and> fc_style cert = FINALITY_CERT_STYLE_INDIVIDUAL \<and> length (fc_votes cert) \<le> MAX_FINALITY_VOTES
     \<and> fc_lsu_hash cert = hash_data blake2b512 ser_lsu lsu \<and> fc_cycle cert = lsu_cycle_number lsu
     \<and> committee_hash_ordered_producer_list blake2b512 hex_decode (lsu_producer_list lsu) = Some (fc_committee_hash cert)
     \<and> fc_vote_list_hash cert = hash_producer_list_merkle blake2b512 (lsu_vote_list lsu)
     \<and> distinct (map fv_producer_id (fc_votes cert))
     \<and> (\<forall>v \<in> set (fc_votes cert). check_vote blake2b512 hex_decode cv lsu (cert_digest blake2b512 cert) v = Inr ())
     \<and> bft_vote_threshold (length (lsu_producer_list lsu)) \<le> length (fc_votes cert)"
  unfolding verify_lsu_finality_certificate_def
  by (cases "committee_hash_ordered_producer_list blake2b512 hex_decode (lsu_producer_list lsu)")
    (auto simp: cert_tally.quorum_Inr_iff not_less)

lemma root_accepted_iff:
  "verify_lsu_state_root_certificate blake2b512 hex_decode cv cert lsu = Inr () \<longleftrightarrow>
     rc_version cert = 1 \<and> length (rc_attestations cert) \<le> MAX_STATE_ROOT_ATTESTATIONS
     \<and> rc_lsu_hash cert = hash_data blake2b512 ser_lsu lsu \<and> rc_cycle cert = lsu_cycle_number lsu
     \<and> committee_hash_ordered_producer_list blake2b512 hex_decode (lsu_producer_list lsu) = Some (rc_committee_hash cert)
     \<and> distinct (map sa_producer_id (rc_attestations cert))
     \<and> (\<forall>a \<in> set (rc_attestations cert).
          check_attestation blake2b512 hex_decode cv lsu (root_digest blake2b512 cert) a = Inr ())
     \<and> bft_vote_threshold (length (lsu_producer_list lsu)) \<le> length (rc_attestations cert)"
  unfolding verify_lsu_state_root_certificate_def
  by (cases "committee_hash_ordered_producer_list blake2b512 hex_decode (lsu_producer_list lsu)")
    (auto simp: root_tally.quorum_Inr_iff not_less)

section \<open>Quorum intersection\<close>

lemma bft_threshold_bounds:
  "n < 2 * bft_vote_threshold n" "0 < n \<Longrightarrow> 2 * n \<le> 3 * bft_vote_threshold n" "0 < n \<Longrightarrow> bft_vote_threshold n \<le> n"
  by (auto simp: bft_vote_threshold_def)

interpretation bft: majority_quorum "set plist" "bft_vote_threshold (length plist)" for plist :: "ProducerId list"
proof
  show "card (set plist) < 2 * bft_vote_threshold (length plist)"
    using card_length[of plist] bft_threshold_bounds(1)[of "length plist"] by simp
qed simp

lemma bft_honest_in_common:
  assumes "bft.quorum plist A" and "bft.quorum plist B"
    and "plist \<noteq> []" and "3 * card (faulty \<inter> set plist) < length plist"
  shows "\<exists>pid \<in> A \<inter> B. pid \<notin> faulty"
proof (rule ccontr)
  assume "\<not> (\<exists>pid \<in> A \<inter> B. pid \<notin> faulty)"
  then have "A \<inter> B \<subseteq> faulty \<inter> set plist" using assms(1) by (auto simp: bft.quorum_def)
  then have "card (A \<inter> B) \<le> card (faulty \<inter> set plist)" by (rule card_mono[rotated]) simp
  then show False
    using bft.overlap_card[OF assms(1,2)] bft_threshold_bounds(2)[of "length plist"] card_length[of plist] assms(3,4)
    by simp
qed

section \<open>Agreement\<close>

lemma check_vote_Inr:
  "check_vote blake2b512 hex_decode cv lsu (cert_digest blake2b512 cert) v = Inr () \<Longrightarrow>
     fv_producer_id v \<in> set (lsu_producer_list lsu)
     \<and> verify_finality_attestation blake2b512 hex_decode cv (fc_chain_id cert) (fc_genesis_hash cert) (fc_cycle cert)
         (fc_lsu_hash cert) (fc_committee_hash cert) (fc_vote_list_hash cert) (fv_producer_id v) (fv_signature v) = Inr ()"
  by (auto simp: check_vote_def verify_finality_attestation_def cert_digest_def split: if_splits)

lemma check_attestation_Inr:
  "check_attestation blake2b512 hex_decode cv lsu (root_digest blake2b512 cert) a = Inr () \<Longrightarrow>
     sa_producer_id a \<in> set (lsu_producer_list lsu)
     \<and> verify_state_root_attestation blake2b512 hex_decode cv (rc_chain_id cert) (rc_genesis_hash cert) (rc_cycle cert)
         (rc_lsu_hash cert) (rc_committee_hash cert) (rc_state_root cert) (sa_producer_id a) (sa_signature a) = Inr ()"
  by (auto simp: check_attestation_def verify_state_root_attestation_def root_digest_def split: if_splits)

text \<open>The voters of an accepted certificate are a quorum of its committee.\<close>

lemma cert_voters_quorum:
  assumes "verify_lsu_finality_certificate blake2b512 hex_decode cv cert lsu = Inr ()"
  shows "bft.quorum (lsu_producer_list lsu) (fv_producer_id ` set (fc_votes cert))"
proof -
  note acc = assms[unfolded cert_accepted_iff]
  have "card (fv_producer_id ` set (fc_votes cert)) = length (fc_votes cert)"
    using acc by (metis distinct_card length_map list.set_map)
  moreover have "\<forall>v \<in> set (fc_votes cert). fv_producer_id v \<in> set (lsu_producer_list lsu)"
    using acc check_vote_Inr by blast
  ultimately show ?thesis using acc by (auto simp: bft.quorum_def)
qed

lemma root_attesters_quorum:
  assumes "verify_lsu_state_root_certificate blake2b512 hex_decode cv cert lsu = Inr ()"
  shows "bft.quorum (lsu_producer_list lsu) (sa_producer_id ` set (rc_attestations cert))"
proof -
  note acc = assms[unfolded root_accepted_iff]
  have "card (sa_producer_id ` set (rc_attestations cert)) = length (rc_attestations cert)"
    using acc by (metis distinct_card length_map list.set_map)
  moreover have "\<forall>a \<in> set (rc_attestations cert). sa_producer_id a \<in> set (lsu_producer_list lsu)"
    using acc check_attestation_Inr by blast
  ultimately show ?thesis using acc by (auto simp: bft.quorum_def)
qed

lemma accepted_committee_nonempty:
  "verify_lsu_finality_certificate blake2b512 hex_decode cv cert lsu = Inr () \<Longrightarrow> lsu_producer_list lsu \<noteq> []"
  "verify_lsu_state_root_certificate blake2b512 hex_decode cv rc lsu = Inr () \<Longrightarrow> lsu_producer_list lsu \<noteq> []"
  by (auto simp: cert_accepted_iff root_accepted_iff committee_hash_ordered_producer_list_def)



section \<open>What the signed digests bind\<close>

lemma le_bytes_inject: "to_le_bytes x = to_le_bytes y \<longleftrightarrow> x = y" for x y :: u64
  by (metis from_to_le_bytes_u(2))

lemma domains_differ:
  "finality_domain_padded \<noteq> state_root_domain_padded"
  "length finality_domain_padded = 16" "length state_root_domain_padded = 16"
  by (simp_all add: finality_domain_padded_def state_root_domain_padded_def as_bytes_def)

text \<open>
  A signature never counts for anything but what was signed: as far as the digest does not
  collide on the two messages, a finality digest determines chain, genesis, cycle, update,
  committee and vote list; a state-root digest determines chain, genesis, cycle, update,
  committee and root; and no finality digest is a state-root digest.
\<close>

theorem finality_digests_bind:
  assumes "\<forall>x \<in> {g, l, c, v, g', l', c', v'}. length x = 32"
    and "inj_on (blake2b512_trunc32 blake2b512)
      {cert_preimage ch g cy l c v, cert_preimage ch' g' cy' l' c' v', root_preimage ch g cy l c v, root_preimage ch' g' cy' l' c' v'}"
  shows "(h_cert_v1 blake2b512 ch g cy l c v = h_cert_v1 blake2b512 ch' g' cy' l' c' v' \<longleftrightarrow>
       (ch, g, cy, l, c, v) = (ch', g', cy', l', c', v'))
    \<and> (h_root_v1 blake2b512 ch g cy l c v = h_root_v1 blake2b512 ch' g' cy' l' c' v' \<longleftrightarrow>
       (ch, g, cy, l, c, v) = (ch', g', cy', l', c', v'))
    \<and> h_cert_v1 blake2b512 ch g cy l c v \<noteq> h_root_v1 blake2b512 ch' g' cy' l' c' v'"
proof -
  note inj = assms(2)[THEN inj_on_eq_iff] and len = assms(1)
  have "cert_preimage ch g cy l c v = cert_preimage ch' g' cy' l' c' v' \<longleftrightarrow>
      (ch, g, cy, l, c, v) = (ch', g', cy', l', c', v')"
    "root_preimage ch g cy l c v = root_preimage ch' g' cy' l' c' v' \<longleftrightarrow>
      (ch, g, cy, l, c, v) = (ch', g', cy', l', c', v')"
    "cert_preimage ch g cy l c v \<noteq> root_preimage ch' g' cy' l' c' v'"
    using len by (auto simp: cert_preimage_def root_preimage_def domains_differ le_bytes_inject)
  then show ?thesis unfolding h_cert_v1_def h_root_v1_def by (simp add: inj)
qed

theorem finality_digests_bind_witness:
  "h_cert_v1 (\<lambda>bs. bs) 1 (replicate 32 0) 7 (replicate 32 0) (replicate 32 0) (replicate 32 0)
   \<noteq> h_cert_v1 (\<lambda>bs. bs) 2 (replicate 32 0) 7 (replicate 32 0) (replicate 32 0) (replicate 32 0)"
proof -
  let ?z = "replicate 32 0 :: bytes"
  have pre: "blake2b512_trunc32 (\<lambda>bs. bs) (cert_preimage ch ?z 7 ?z ?z ?z) = finality_domain_padded @ 1 # to_le_bytes ch @ replicate 7 0"
    "blake2b512_trunc32 (\<lambda>bs. bs) (root_preimage ch ?z 7 ?z ?z ?z) = state_root_domain_padded @ 1 # to_le_bytes ch @ replicate 7 0"
    for ch by (simp_all add: blake2b512_trunc32_def cert_preimage_def root_preimage_def domains_differ)
  have "inj_on (blake2b512_trunc32 (\<lambda>bs. bs)) {cert_preimage 1 ?z 7 ?z ?z ?z, cert_preimage 2 ?z 7 ?z ?z ?z,
      root_preimage 1 ?z 7 ?z ?z ?z, root_preimage 2 ?z 7 ?z ?z ?z}"
    using domains_differ(1)[symmetric] by (auto simp: inj_on_def pre domains_differ le_bytes_inject)
  then show ?thesis
    using finality_digests_bind[of ?z ?z ?z ?z ?z ?z ?z ?z "\<lambda>bs. bs" 1 7 2 7] by simp
qed

section \<open>Completeness\<close>

lemma vote_signature_accepted:
  assumes "curve_laws cv" and "curve_encoding cv"
    and "parse_producer_hex32 hex_decode pid = Some (pk_to_bytes cv (public_key cv sk))"
  shows "verify_vote_signature blake2b512 hex_decode cv h pid (sig_to_bytes cv (sign blake2b512 cv rnd sk h)) = Inr ()"
    and "verify_root_signature blake2b512 hex_decode cv h pid (sig_to_bytes cv (sign blake2b512 cv rnd sk h)) = Inr ()"
  using assms sig_bytes_roundtrip(2)[OF assms(2)]
  by (simp_all add: verify_vote_signature_def verify_root_signature_def pk_bytes_roundtrip sig_bytes_roundtrip
      sign_verifies SIGNATURE_SIZE_def)

text \<open>
  Enough honest votes make a certificate that verifies: built for an update from distinct
  members of its committee and vote list, each of whom signed the certificate's digest with the
  key that its id names, and reaching two thirds of the committee, it is accepted.
\<close>

theorem honest_certificate_verifies:
  assumes "curve_laws cv" and "curve_encoding cv"
    and "from_lsu_and_votes blake2b512 hex_decode lsu chain_id genesis_hash (hash_data blake2b512 ser_lsu lsu) votes = Inr cert"
    and "distinct (map fv_producer_id votes)" and "length votes \<le> MAX_FINALITY_VOTES"
    and "bft_vote_threshold (length (lsu_producer_list lsu)) \<le> length votes"
    and "\<And>v. v \<in> set votes \<Longrightarrow> fv_producer_id v \<in> set (lsu_producer_list lsu) \<inter> set (lsu_vote_list lsu)
      \<and> (\<exists>sk rnd. parse_producer_hex32 hex_decode (fv_producer_id v) = Some (pk_to_bytes cv (public_key cv sk))
          \<and> fv_signature v = sig_to_bytes cv (sign blake2b512 cv rnd sk (cert_digest blake2b512 cert)))"
  shows "verify_lsu_finality_certificate blake2b512 hex_decode cv cert lsu = Inr ()"
proof -
  have "check_vote blake2b512 hex_decode cv lsu (cert_digest blake2b512 cert) v = Inr ()" if "v \<in> set votes" for v
    using assms(7)[OF that] vote_signature_accepted(1)[OF assms(1,2)] by (auto simp: check_vote_def)
  then show ?thesis
    using assms(3-6) unfolding cert_accepted_iff by (auto simp: from_lsu_and_votes_def split: option.splits)
qed

text \<open>A committee of one producer, whose id is the encoding of its key.\<close>

definition final_id :: ProducerId where "final_id = replicate 64 CHR ''0''"

definition final_hex :: "string \<Rightarrow> bytes option" where
  "final_hex s = (if s = final_id then Some (3 # replicate 31 0) else None)"

definition two64 :: "bytes \<Rightarrow> bytes" where "two64 bs = replicate 64 2"

definition final_lsu :: LedgerStateUpdate where
  "final_lsu = lsu_example\<lparr>lsu_producer_list := [final_id], lsu_vote_list := [final_id]\<rparr>"

definition final_sig :: bytes where
  "final_sig = sig_to_bytes curve8 (sign two64 curve8 [7] key8 (replicate 32 2))"

definition final_cert :: LsuFinalityCertificateV1 where
  "final_cert = \<lparr>fc_version = 1, fc_style = 1, fc_chain_id = 5, fc_genesis_hash = replicate 32 0, fc_cycle = 7,
     fc_lsu_hash = replicate 32 2, fc_committee_hash = replicate 32 2,
     fc_vote_list_hash = hash_producer_list_merkle two64 [final_id],
     fc_votes = [\<lparr>fv_producer_id = final_id, fv_signature = final_sig\<rparr>]\<rparr>"

definition final_root :: LsuStateRootCertificateV1 where
  "final_root = \<lparr>rc_version = 1, rc_chain_id = 5, rc_genesis_hash = replicate 32 0, rc_cycle = 7,
     rc_lsu_hash = replicate 32 2, rc_state_root = replicate 32 9, rc_committee_hash = replicate 32 2,
     rc_attestations = [\<lparr>sa_producer_id = final_id, sa_signature = final_sig\<rparr>]\<rparr>"

lemma final_parse: "parse_producer_hex32 final_hex final_id = Some (pk_to_bytes curve8 (public_key curve8 key8))"
  by (simp add: parse_producer_hex32_def final_hex_def pk_to_bytes_def public_key_def key8_def private_key_from_bytes_def
      curve8_def) (simp add: final_id_def)

lemma final_digests: "cert_digest two64 c = replicate 32 2" "root_digest two64 r = replicate 32 2"
  "hash_data two64 ser_lsu lsu = replicate 32 2"
  "committee_hash_ordered_producer_list two64 final_hex [final_id] = Some (replicate 32 2)"
  using final_parse
  by (simp_all add: cert_digest_def h_cert_v1_def root_digest_def h_root_v1_def blake2b512_trunc32_def two64_def
      hash_data_def blake32_def committee_hash_ordered_producer_list_def)

lemma utf8_valid_replicate: "b < 0x80 \<Longrightarrow> utf8_valid (replicate n b)"
  by (induction n) simp_all

lemma final_lsu_ok: "lsu_ok final_lsu"
  by (simp add: final_lsu_def lsu_example_def lsu_ok_def partial_ok_def as_bytes_def final_id_def utf8_valid_replicate)

lemma final_accepted:
  "verify_lsu_finality_certificate two64 final_hex curve8 final_cert final_lsu = Inr ()"
  "verify_lsu_state_root_certificate two64 final_hex curve8 final_root final_lsu = Inr ()"
  using vote_signature_accepted[OF curve8_laws curve8_encoding final_parse, of two64 "replicate 32 2" "[7]"]
  unfolding cert_accepted_iff root_accepted_iff final_digests
  by (simp_all add: final_cert_def final_root_def final_lsu_def lsu_example_def final_digests check_vote_def
      check_attestation_def final_sig_def bft_vote_threshold_def MAX_FINALITY_VOTES_def MAX_STATE_ROOT_ATTESTATIONS_def
      FINALITY_CERT_STYLE_INDIVIDUAL_def)



theorem honest_certificate_verifies_witness:
  "verify_lsu_finality_certificate two64 final_hex curve8 final_cert final_lsu = Inr ()"
proof (rule honest_certificate_verifies[OF curve8_laws curve8_encoding])
  show "from_lsu_and_votes two64 final_hex final_lsu 5 (replicate 32 0) (hash_data two64 ser_lsu final_lsu)
      [\<lparr>fv_producer_id = final_id, fv_signature = final_sig\<rparr>] = Inr final_cert"
    by (simp add: from_lsu_and_votes_def final_lsu_def lsu_example_def final_digests final_cert_def
        FINALITY_CERT_STYLE_INDIVIDUAL_def)
qed (use final_parse in \<open>auto simp: final_lsu_def MAX_FINALITY_VOTES_def bft_vote_threshold_def final_digests final_sig_def\<close>)

end
