(* ===== verification/Limits.thy ===== *)
theory Limits
  imports Prelude
begin

text \<open>
  Consensus policy values and gates (\<open>catalyst-cli/src/consensus_limits.rs\<close>). An environment is a
  partial function from variable names to their values; \<open>str::trim\<close>, \<open>to_ascii_lowercase\<close> and
  \<open>parse\<close> of the standard library are modelled on UTF-8 bytes.
\<close>

section \<open>Strings of the standard library\<close>

type_synonym environment = "string \<Rightarrow> string option"

text \<open>One white-space character at the front, in UTF-8.\<close>

definition ascii_space :: "char \<Rightarrow> bool" where
  "ascii_space c \<longleftrightarrow> of_char c \<in> {9, 10, 11, 12, 13, 32 :: nat}"

fun skip_space :: "string \<Rightarrow> string option" where
  "skip_space [] = None"
| "skip_space (c # s) =
     (if ascii_space c then Some s
      else case map of_char (take 2 s) :: nat list of
        [] \<Rightarrow> None
      | b # r \<Rightarrow>
          if of_char c = (0xC2 :: nat) \<and> b \<in> {0x85, 0xA0} then Some (drop 1 s)
          else case r of
            [] \<Rightarrow> None
          | d # _ \<Rightarrow>
              if (of_char c, b, d) = (0xE1 :: nat, 0x9A, 0x80) \<or> (of_char c, b, d) = (0xE3 :: nat, 0x80, 0x80)
                 \<or> (of_char c, b, d) = (0xE2 :: nat, 0x81, 0x9F)
                 \<or> (of_char c, b) = (0xE2 :: nat, 0x80) \<and> (0x80 \<le> d \<and> d \<le> 0x8A \<or> d \<in> {0xA8, 0xA9, 0xAF})
              then Some (drop 2 s) else None)"

lemma skip_space_shorter: "skip_space s = Some r \<Longrightarrow> length r < length s"
  by (cases s) (auto split: if_splits list.splits)

function trim_start :: "string \<Rightarrow> string" where
  "trim_start s = (case skip_space s of None \<Rightarrow> s | Some r \<Rightarrow> trim_start r)"
  by pat_completeness auto
termination by (relation "measure length") (auto dest: skip_space_shorter)

declare trim_start.simps [simp del]

text \<open>White space at the end is one white-space character whose removal leaves the text before it.\<close>

definition ends_in_space :: "string \<Rightarrow> nat \<Rightarrow> bool" where
  "ends_in_space s n \<longleftrightarrow> n \<le> length s \<and> skip_space (drop (length s - n) s) = Some []"

function trim_end :: "string \<Rightarrow> string" where
  "trim_end s =
     (if s = [] then []
      else if ends_in_space s 1 then trim_end (take (length s - 1) s)
      else if ends_in_space s 2 then trim_end (take (length s - 2) s)
      else if ends_in_space s 3 then trim_end (take (length s - 3) s)
      else s)"
  by pat_completeness auto
termination
  by (relation "measure length") (simp_all add: length_greater_0_conv[symmetric] del: length_greater_0_conv)

declare trim_end.simps [simp del]

definition trim :: "string \<Rightarrow> string" where "trim s = trim_end (trim_start s)"

definition to_ascii_lowercase :: "string \<Rightarrow> string" where
  "to_ascii_lowercase s =
     map (\<lambda>c. if 65 \<le> (of_char c :: nat) \<and> of_char c \<le> (90 :: nat) then char_of (of_char c + 32 :: nat) else c) s"

definition is_digit :: "char \<Rightarrow> bool" where
  "is_digit c \<longleftrightarrow> 48 \<le> (of_char c :: nat) \<and> of_char c \<le> (57 :: nat)"

definition parse_nat :: "string \<Rightarrow> nat option" where
  "parse_nat s =
     (let t = (case s of [] \<Rightarrow> [] | c # r \<Rightarrow> if c = CHR ''+'' then r else s)
      in if t = [] \<or> \<not> list_all is_digit t then None
         else Some (foldl (\<lambda>n c. 10 * n + (of_char c - 48)) 0 t))"

definition parse_u64 :: "string \<Rightarrow> u64 option" where
  "parse_u64 s = Option.bind (parse_nat s) (\<lambda>n. if n < 2 ^ 64 then Some (of_nat n) else None)"

definition parse_u32 :: "string \<Rightarrow> u32 option" where
  "parse_u32 s = Option.bind (parse_nat s) (\<lambda>n. if n < 2 ^ 32 then Some (of_nat n) else None)"

text \<open>The idiom \<open>env::var(name).ok().and_then(|s| s.trim().parse().ok()).filter(ok).unwrap_or(default)\<close>.\<close>

definition env_u64 :: "environment \<Rightarrow> string \<Rightarrow> (u64 \<Rightarrow> bool) \<Rightarrow> u64 \<Rightarrow> u64" where
  "env_u64 env name ok dflt =
     (case Option.bind (env name) (\<lambda>s. parse_u64 (trim s)) of
        Some v \<Rightarrow> if ok v then v else dflt
      | None \<Rightarrow> dflt)"

definition env_u32 :: "environment \<Rightarrow> string \<Rightarrow> (u32 \<Rightarrow> bool) \<Rightarrow> u32 \<Rightarrow> u32" where
  "env_u32 env name ok dflt =
     (case Option.bind (env name) (\<lambda>s. parse_u32 (trim s)) of
        Some v \<Rightarrow> if ok v then v else dflt
      | None \<Rightarrow> dflt)"

section \<open>Limits from the environment\<close>

definition DEFAULT_MAX_REPLAY_CYCLES :: u64 where "DEFAULT_MAX_REPLAY_CYCLES = 1000000"

definition tx_batch_follower_wait_budget_default :: "u64 \<Rightarrow> u64" where
  "tx_batch_follower_wait_budget_default cycle_ms = max (saturating_sub cycle_ms 8000) 12000"

definition tx_batch_follower_wait_budget_ms :: "environment \<Rightarrow> u64 \<Rightarrow> u64" where
  "tx_batch_follower_wait_budget_ms env cycle_ms =
     (case Option.bind (env ''CATALYST_TX_BATCH_WAIT_BUDGET_MS'') parse_u64 of
        Some v \<Rightarrow> v
      | None \<Rightarrow> tx_batch_follower_wait_budget_default cycle_ms)"

definition parse_max_replay_cycles_str :: "string \<Rightarrow> u64" where
  "parse_max_replay_cycles_str s = (case parse_u64 (trim s) of Some v \<Rightarrow> v | None \<Rightarrow> DEFAULT_MAX_REPLAY_CYCLES)"

definition max_replay_cycles_from_env :: "environment \<Rightarrow> u64" where
  "max_replay_cycles_from_env env =
     (case env ''CATALYST_MAX_REPLAY_CYCLES'' of
        Some s \<Rightarrow> parse_max_replay_cycles_str s
      | None \<Rightarrow> DEFAULT_MAX_REPLAY_CYCLES)"

definition env_flag :: "string option \<Rightarrow> bool \<Rightarrow> bool" where
  "env_flag var configured =
     (case var of
        None \<Rightarrow> configured
      | Some s \<Rightarrow>
          let t = trim s in
          if t = [] then configured
          else if to_ascii_lowercase t \<in> {''1'', ''true'', ''yes''} then True
          else if to_ascii_lowercase t \<in> {''0'', ''false'', ''no''} then False
          else configured)"

definition effective_require_lsu_finality :: "environment \<Rightarrow> bool \<Rightarrow> bool" where
  "effective_require_lsu_finality env configured = env_flag (env ''CATALYST_REQUIRE_LSU_FINALITY'') configured"

definition effective_require_state_root_finality :: "environment \<Rightarrow> bool \<Rightarrow> bool" where
  "effective_require_state_root_finality env configured =
     env_flag (env ''CATALYST_REQUIRE_STATE_ROOT_FINALITY'') configured"

section \<open>Wall-clock gates\<close>

definition ledger_cycle_index :: "u64 \<Rightarrow> u64 \<Rightarrow> u64" where
  "ledger_cycle_index now_ms cycle_duration_ms = (if cycle_duration_ms = 0 then 0 else now_ms div cycle_duration_ms)"

definition ledger_cycle_skew_vs_wall :: "u64 \<Rightarrow> u64 \<Rightarrow> u64 \<Rightarrow> int" where
  "ledger_cycle_skew_vs_wall message_cycle wall_now_ms cycle_duration_ms =
     (if cycle_duration_ms = 0 then 0
      else int (unat message_cycle) - int (unat (ledger_cycle_index wall_now_ms cycle_duration_ms)))"

definition p2p_tx_batch_max_cycle_slack :: "environment \<Rightarrow> u64" where
  "p2p_tx_batch_max_cycle_slack env = env_u64 env ''CATALYST_P2P_TX_BATCH_MAX_CYCLE_SLACK'' (\<lambda>v. v \<le> 128) 3"

definition p2p_tx_batch_cycle_allows_ingress :: "u64 \<Rightarrow> u64 \<Rightarrow> u64 \<Rightarrow> u64 \<Rightarrow> bool" where
  "p2p_tx_batch_cycle_allows_ingress message_cycle wall_now_ms cycle_duration_ms slack =
     (if cycle_duration_ms = 0 then True
      else
        let w = ledger_cycle_index wall_now_ms cycle_duration_ms;
            lo = saturating_sub w slack;
            hi = saturating_add w slack
        in message_cycle \<ge> lo \<and> message_cycle \<le> hi)"

definition p2p_lsu_cycle_max_wall_lead :: "environment \<Rightarrow> u64" where
  "p2p_lsu_cycle_max_wall_lead env =
     env_u64 env ''CATALYST_P2P_LSU_MAX_WALL_LEAD'' (\<lambda>v. v > 0 \<and> v \<le> 2000000) 8192"

definition p2p_lsu_cycle_within_wall_lead :: "u64 \<Rightarrow> u64 \<Rightarrow> u64 \<Rightarrow> u64 \<Rightarrow> bool" where
  "p2p_lsu_cycle_within_wall_lead cyc wall_now_ms cycle_duration_ms max_lead_cycles =
     (if cycle_duration_ms = 0 then True
      else cyc \<le> saturating_add (ledger_cycle_index wall_now_ms cycle_duration_ms) max_lead_cycles)"

definition stale_observed_head_reset_ms :: "environment \<Rightarrow> u64" where
  "stale_observed_head_reset_ms env =
     env_u64 env ''CATALYST_STALE_OBSERVED_HEAD_RESET_MS'' (\<lambda>v. v > 0 \<and> v \<le> 3600000) 60000"

definition stale_observed_head_max_forgivable_gap :: "environment \<Rightarrow> u64" where
  "stale_observed_head_max_forgivable_gap env =
     env_u64 env ''CATALYST_STALE_OBSERVED_HEAD_MAX_FORGIVABLE_GAP'' (\<lambda>v. v \<le> 1000) 3"

definition round_failure_confirmation_grace_ms :: "environment \<Rightarrow> u64" where
  "round_failure_confirmation_grace_ms env =
     env_u64 env ''CATALYST_ROUND_FAILURE_CONFIRMATION_GRACE_MS'' (\<lambda>v. v > 0 \<and> v \<le> 60000) 4000"

definition round_failure_confirmation_deadline_ms :: "u64 \<Rightarrow> u64 \<Rightarrow> u64 \<Rightarrow> u64 \<Rightarrow> u64" where
  "round_failure_confirmation_deadline_ms now_ms grace_ms cyc cycle_duration_ms =
     (let fixed_deadline = saturating_add now_ms grace_ms in
      if cycle_duration_ms = 0 then fixed_deadline
      else max fixed_deadline (saturating_mul (saturating_add cyc 1) cycle_duration_ms))"

definition reconcile_circuit_break_threshold :: "environment \<Rightarrow> u32" where
  "reconcile_circuit_break_threshold env =
     env_u32 env ''CATALYST_RECONCILE_CIRCUIT_BREAK_THRESHOLD'' (\<lambda>v. v > 0 \<and> v \<le> 1000) 5"

definition reconcile_circuit_break_window_ms :: "environment \<Rightarrow> u64" where
  "reconcile_circuit_break_window_ms env =
     env_u64 env ''CATALYST_RECONCILE_CIRCUIT_BREAK_WINDOW_MS'' (\<lambda>v. v > 0 \<and> v \<le> 3600000) 30000"

definition mempool_rebroadcast_min_interval_ms :: "environment \<Rightarrow> u64" where
  "mempool_rebroadcast_min_interval_ms env =
     env_u64 env ''CATALYST_MEMPOOL_REBROADCAST_MIN_MS'' (\<lambda>v. v > 0 \<and> v \<le> 3600000) 60000"

section \<open>Batch commitments and deadlines\<close>

definition parse_tx_batch_commit_value :: "bytes \<Rightarrow> (Hash \<times> u32) option" where
  "parse_tx_batch_commit_value bs =
     (if length bs \<noteq> 36 then None else Some (take 32 bs, from_le_bytes (take 4 (drop 32 bs))))"

definition encode_tx_batch_commit_value :: "Hash \<Rightarrow> u32 \<Rightarrow> bytes" where
  "encode_tx_batch_commit_value batch_hash tx_count = batch_hash @ to_le_bytes tx_count"

definition tx_batch_follower_deadline_ms :: "u64 \<Rightarrow> u64 \<Rightarrow> u64 \<Rightarrow> u64 \<Rightarrow> u64" where
  "tx_batch_follower_deadline_ms now_ms cyc cycle_ms budget_ms =
     (let cycle_end_ms = saturating_mul (saturating_add cyc 1) cycle_ms
      in min (saturating_add now_ms budget_ms) (saturating_sub cycle_end_ms 2000))"

definition tx_batch_follower_hard_stop_ms :: "u64 \<Rightarrow> u64 \<Rightarrow> u64" where
  "tx_batch_follower_hard_stop_ms cyc cycle_ms = saturating_sub (saturating_mul (saturating_add cyc 1) cycle_ms) 500"

datatype EmptyConstructionResolution = AgreedEmpty | LeaderMissFatal | FollowerRefuseEmpty

definition resolve_empty_construction_takeaway :: "(Hash \<times> u32) option \<Rightarrow> bool \<Rightarrow> EmptyConstructionResolution" where
  "resolve_empty_construction_takeaway commit_meta is_leader =
     (if map_option snd commit_meta = Some 0 then AgreedEmpty
      else if is_leader then LeaderMissFatal
      else FollowerRefuseEmpty)"

section \<open>What the gates decide\<close>

lemma unat_below: "unat (w :: u64) < 2 ^ 64"
  using unsigned_less[of w] by simp

lemma env_u64_range: "\<lbrakk>ok dflt; v = env_u64 env name ok dflt\<rbrakk> \<Longrightarrow> ok v"
  by (auto simp: env_u64_def split: option.splits)

lemma env_u32_range: "\<lbrakk>ok dflt; v = env_u32 env name ok dflt\<rbrakk> \<Longrightarrow> ok v"
  by (auto simp: env_u32_def split: option.splits)

text \<open>Every limit stays in its documented range, whatever the environment says.\<close>

lemma limits_in_range:
  "p2p_tx_batch_max_cycle_slack env \<le> 128"
  "0 < p2p_lsu_cycle_max_wall_lead env" "p2p_lsu_cycle_max_wall_lead env \<le> 2000000"
  "0 < stale_observed_head_reset_ms env" "stale_observed_head_reset_ms env \<le> 3600000"
  "stale_observed_head_max_forgivable_gap env \<le> 1000"
  "0 < round_failure_confirmation_grace_ms env" "round_failure_confirmation_grace_ms env \<le> 60000"
  "0 < reconcile_circuit_break_threshold env" "reconcile_circuit_break_threshold env \<le> 1000"
  "0 < reconcile_circuit_break_window_ms env" "reconcile_circuit_break_window_ms env \<le> 3600000"
  "0 < mempool_rebroadcast_min_interval_ms env" "mempool_rebroadcast_min_interval_ms env \<le> 3600000"
  using env_u64_range[OF _ p2p_tx_batch_max_cycle_slack_def]
    env_u64_range[OF _ p2p_lsu_cycle_max_wall_lead_def]
    env_u64_range[OF _ stale_observed_head_reset_ms_def]
    env_u64_range[OF _ stale_observed_head_max_forgivable_gap_def]
    env_u64_range[OF _ round_failure_confirmation_grace_ms_def]
    env_u32_range[OF _ reconcile_circuit_break_threshold_def]
    env_u64_range[OF _ reconcile_circuit_break_window_ms_def]
    env_u64_range[OF _ mempool_rebroadcast_min_interval_ms_def]
  by simp_all

lemma saturating_sub_mono: "c \<le> b \<Longrightarrow> saturating_sub a b \<le> saturating_sub a c"
  by (simp add: word_le_nat_alt unat_saturating_sub)

text \<open>A follower gives up softly before its hard stop, and a failed round waits out its own slot.\<close>

lemma follower_deadlines_ordered:
  "tx_batch_follower_deadline_ms now_ms cyc cycle_ms budget_ms \<le> tx_batch_follower_hard_stop_ms cyc cycle_ms"
  unfolding tx_batch_follower_deadline_ms_def tx_batch_follower_hard_stop_ms_def Let_def
  by (rule min.coboundedI2) (rule saturating_sub_mono, simp)

lemma confirmation_deadline_floor:
  "saturating_add now_ms grace_ms \<le> round_failure_confirmation_deadline_ms now_ms grace_ms cyc cycle_ms"
  "cycle_ms \<noteq> 0 \<Longrightarrow> saturating_mul (saturating_add cyc 1) cycle_ms
     \<le> round_failure_confirmation_deadline_ms now_ms grace_ms cyc cycle_ms"
  by (simp_all add: round_failure_confirmation_deadline_ms_def Let_def)

lemma tx_batch_commit_value_roundtrip:
  "length batch_hash = 32 \<Longrightarrow>
   parse_tx_batch_commit_value (encode_tx_batch_commit_value batch_hash tx_count) = Some (batch_hash, tx_count)"
  by (simp add: parse_tx_batch_commit_value_def encode_tx_batch_commit_value_def)

text \<open>
  The ingress gates mean what they say on unbounded integers: a batch message passes exactly if
  its cycle is within the slack of the wall-clock cycle on either side, a ledger update exactly if
  its cycle leads the wall-clock cycle by at most the cap, and the machine arithmetic never
  wraps.
\<close>

theorem ingress_gates_exact:
  assumes "dur \<noteq> 0"
  shows "(p2p_tx_batch_cycle_allows_ingress cyc now dur slack \<longleftrightarrow>
       \<bar>ledger_cycle_skew_vs_wall cyc now dur\<bar> \<le> int (unat slack))
    \<and> (p2p_lsu_cycle_within_wall_lead cyc now dur lead \<longleftrightarrow>
       ledger_cycle_skew_vs_wall cyc now dur \<le> int (unat lead))
    \<and> unat (ledger_cycle_index now dur) = unat now div unat dur"
proof -
  let ?w = "ledger_cycle_index now dur"
  have hi: "cyc \<le> saturating_add ?w x \<longleftrightarrow> unat cyc \<le> unat ?w + unat x" for x
    using unat_below[of cyc] by (auto simp: word_le_nat_alt unat_saturating_add)
  have lo: "saturating_sub ?w x \<le> cyc \<longleftrightarrow> unat ?w \<le> unat cyc + unat x" for x
    by (auto simp: word_le_nat_alt unat_saturating_sub)
  have "(int a - int b \<le> int x \<longleftrightarrow> a \<le> b + x) \<and> (\<bar>int a - int b\<bar> \<le> int x \<longleftrightarrow> b \<le> a + x \<and> a \<le> b + x)" for a b x
    by linarith
  moreover have "unat ?w = unat now div unat dur"
    using assms by (simp add: ledger_cycle_index_def unat_div_distrib)
  ultimately show ?thesis
    unfolding p2p_tx_batch_cycle_allows_ingress_def p2p_lsu_cycle_within_wall_lead_def
      ledger_cycle_skew_vs_wall_def Let_def if_not_P[OF assms] hi lo by metis
qed

theorem ingress_gates_exact_witness:
  "(20000 :: u64) \<noteq> 0 \<and> p2p_tx_batch_cycle_allows_ingress 7 100000 20000 3
   \<and> \<not> p2p_lsu_cycle_within_wall_lead 9 100000 20000 3"
  using ingress_gates_exact[of 20000 7 100000 3 3] ingress_gates_exact[of 20000 9 100000 3 3]
  by (simp add: ledger_cycle_skew_vs_wall_def ledger_cycle_index_def)

end
