(* ===== verification/Fork_Choice.thy ===== *)
theory Fork_Choice
  imports Finality Limits Storage
begin

text \<open>
  Fork choice between ledger updates of one cycle (\<open>catalyst-cli/src/fork_choice.rs\<close>) and the
  gates of the node built on it (\<open>catalyst-cli/src/node.rs\<close>): reading the local head, certificates
  found in the content store, the apply gate, the history of applied updates and the decision
  whether to produce at all.

  The content store is a partial function from content ids to bytes; \<open>bincode\<close> decoding of the
  two certificates is a parameter, with the hash, hex and curve parameters of \<open>Finality\<close> in one
  record. Logging and counters are left out.
\<close>

section \<open>Candidates\<close>

datatype ForkChoiceTier = TierNone | QuorumInferred | Certified

instantiation ForkChoiceTier :: linorder
begin

definition tier_rank :: "ForkChoiceTier \<Rightarrow> nat" where
  "tier_rank t = (case t of TierNone \<Rightarrow> 0 | QuorumInferred \<Rightarrow> 1 | Certified \<Rightarrow> 2)"

definition less_eq_ForkChoiceTier :: "ForkChoiceTier \<Rightarrow> ForkChoiceTier \<Rightarrow> bool" where
  "less_eq_ForkChoiceTier a b \<longleftrightarrow> tier_rank a \<le> tier_rank b"

definition less_ForkChoiceTier :: "ForkChoiceTier \<Rightarrow> ForkChoiceTier \<Rightarrow> bool" where
  "less_ForkChoiceTier a b \<longleftrightarrow> tier_rank a < tier_rank b"

instance
proof
  show "a = b" if "a \<le> b" "b \<le> a" for a b :: ForkChoiceTier
    using that by (cases a; cases b) (simp_all add: less_eq_ForkChoiceTier_def tier_rank_def)
qed (auto simp: less_eq_ForkChoiceTier_def less_ForkChoiceTier_def)

end

record ForkChoiceCandidate =
  cand_cycle :: u64
  cand_hash :: Hash
  cand_tier :: ForkChoiceTier
  state_root_certified :: bool

definition fork_choice_bft_vote_threshold :: "nat \<Rightarrow> nat" where
  "fork_choice_bft_vote_threshold n = (if n = 0 then 2 ^ 64 - 1 else (2 * n + 2) div 3)"

definition lsu_has_bft_vote_quorum :: "LedgerStateUpdate \<Rightarrow> bool" where
  "lsu_has_bft_vote_quorum lsu =
     (let n = length (lsu_producer_list lsu) in
      if n = 0 then False
      else if \<exists>v \<in> set (lsu_vote_list lsu). v \<notin> set (lsu_producer_list lsu) then False
      else length (remdups (lsu_vote_list lsu)) \<ge> fork_choice_bft_vote_threshold n)"

definition effective_fork_choice_tier :: "LedgerStateUpdate \<Rightarrow> bool \<Rightarrow> bool \<Rightarrow> ForkChoiceTier" where
  "effective_fork_choice_tier lsu certified certified_only =
     (if certified then Certified
      else if certified_only then TierNone
      else if lsu_has_bft_vote_quorum lsu then QuorumInferred
      else TierNone)"

definition new_candidate :: "u64 \<Rightarrow> Hash \<Rightarrow> LedgerStateUpdate \<Rightarrow> bool \<Rightarrow> bool \<Rightarrow> bool \<Rightarrow> ForkChoiceCandidate" where
  "new_candidate cyc lsu_hash lsu certified certified_only root_certified =
     \<lparr>cand_cycle = cyc, cand_hash = lsu_hash, cand_tier = effective_fork_choice_tier lsu certified certified_only,
      state_root_certified = root_certified\<rparr>"

datatype CertifiedEquivocationPolicy = StallAndAlert | TieBreak

definition allow_cert_equivocation_tiebreak_from_env :: "environment \<Rightarrow> bool" where
  "allow_cert_equivocation_tiebreak_from_env env =
     (case env ''CATALYST_ALLOW_CERT_EQUIVOCATION_TIEBREAK'' of
        Some s \<Rightarrow> to_ascii_lowercase (trim s) \<in> {''1'', ''true'', ''yes''}
      | None \<Rightarrow> False)"

definition certified_equivocation_policy :: "environment \<Rightarrow> bool \<Rightarrow> CertifiedEquivocationPolicy" where
  "certified_equivocation_policy env certified_only =
     (if certified_only \<and> \<not> allow_cert_equivocation_tiebreak_from_env env then StallAndAlert else TieBreak)"

definition certified_hash_metadata_key :: "u64 \<Rightarrow> string" where
  "certified_hash_metadata_key cyc = ''consensus:certified_lsu_hash:'' @ show_nat (unat cyc)"

datatype CertifiedHashRegister = RegisterOk | ConflictingCertified Hash Hash

definition register_certified_hash :: "Hash option \<Rightarrow> Hash \<Rightarrow> CertifiedHashRegister" where
  "register_certified_hash stored new_hash =
     (case stored of
        None \<Rightarrow> RegisterOk
      | Some existing \<Rightarrow> if existing = new_hash then RegisterOk else ConflictingCertified existing new_hash)"

datatype ForkChoicePrefer = PreferLeft | PreferRight | PreferTie

definition fork_choice_prefer :: "ForkChoiceCandidate \<Rightarrow> ForkChoiceCandidate \<Rightarrow> ForkChoicePrefer" where
  "fork_choice_prefer a b =
     (if cand_hash a = cand_hash b then PreferTie
      else if cand_tier a > cand_tier b then PreferLeft
      else if cand_tier a < cand_tier b then PreferRight
      else case (state_root_certified a, state_root_certified b) of
        (True, False) \<Rightarrow> PreferLeft
      | (False, True) \<Rightarrow> PreferRight
      | _ \<Rightarrow> if cand_hash a < cand_hash b then PreferLeft else PreferRight)"

definition incoming_beats_stored :: "ForkChoiceCandidate \<Rightarrow> ForkChoiceCandidate \<Rightarrow> bool" where
  "incoming_beats_stored incoming stored \<longleftrightarrow> fork_choice_prefer incoming stored = PreferLeft"

definition incoming_weaker_than_stored :: "ForkChoiceCandidate \<Rightarrow> ForkChoiceCandidate \<Rightarrow> bool" where
  "incoming_weaker_than_stored incoming stored \<longleftrightarrow> fork_choice_prefer incoming stored = PreferRight"

section \<open>Decoding text of metadata\<close>

text \<open>
  \<open>String::from_utf8_lossy\<close>: the length of the sequence at the front and whether it is valid; an
  invalid one becomes the replacement character.
\<close>

definition byte_at :: "bytes \<Rightarrow> nat \<Rightarrow> byte" where "byte_at bs i = (if i < length bs then bs ! i else 0)"

definition utf8_second :: "byte \<Rightarrow> byte \<Rightarrow> bool" where
  "utf8_second b c \<longleftrightarrow>
     (if b = 0xE0 then 0xA0 \<le> c \<and> c \<le> 0xBF
      else if b = 0xED then 0x80 \<le> c \<and> c \<le> 0x9F
      else if b = 0xF0 then 0x90 \<le> c \<and> c \<le> 0xBF
      else if b = 0xF4 then 0x80 \<le> c \<and> c \<le> 0x8F
      else utf8_cont c)"

definition utf8_front :: "bytes \<Rightarrow> nat \<times> bool" where
  "utf8_front bs =
     (let b = byte_at bs 0 in
      if b < 0x80 then (1, True)
      else if 0xC2 \<le> b \<and> b \<le> 0xDF then (if utf8_cont (byte_at bs 1) then (2, True) else (1, False))
      else if 0xE0 \<le> b \<and> b \<le> 0xEF then
        (if \<not> utf8_second b (byte_at bs 1) then (1, False)
         else if \<not> utf8_cont (byte_at bs 2) then (2, False) else (3, True))
      else if 0xF0 \<le> b \<and> b \<le> 0xF4 then
        (if \<not> utf8_second b (byte_at bs 1) then (1, False)
         else if \<not> utf8_cont (byte_at bs 2) then (2, False)
         else if \<not> utf8_cont (byte_at bs 3) then (3, False) else (4, True))
      else (1, False))"

lemma utf8_front_pos: "0 < fst (utf8_front bs)"
  by (simp add: utf8_front_def Let_def)

function from_utf8_lossy :: "bytes \<Rightarrow> string" where
  "from_utf8_lossy bs =
     (if bs = [] then []
      else case utf8_front bs of
        (n, good) \<Rightarrow> string_of_bytes (if good then take n bs else [0xEF, 0xBF, 0xBD]) @ from_utf8_lossy (drop n bs))"
  by pat_completeness auto
termination
proof (relation "measure length", goal_cases)
  case (2 bs n good)
  then show ?case using utf8_front_pos[of bs] by (cases bs) (auto dest: sym[of "(n, good)"])
qed simp

declare from_utf8_lossy.simps [simp del]

definition hex_digit :: "nat \<Rightarrow> char" where
  "hex_digit n = ''0123456789abcdef'' ! n"

definition hex_encode :: "bytes \<Rightarrow> string" where
  "hex_encode bs = concat (map (\<lambda>b. [hex_digit (unat b div 16), hex_digit (unat b mod 16)]) bs)"

section \<open>The local head\<close>

definition u64_of_meta :: "bytes option \<Rightarrow> u64 option" where
  "u64_of_meta mb = Option.bind mb (\<lambda>b. if length b = 8 then Some (from_le_bytes b) else None)"

definition local_applied_cycle :: "Store \<Rightarrow> u64" where
  "local_applied_cycle s =
     (case metadata s ''consensus:last_applied_cycle'' of
        None \<Rightarrow> 0
      | Some b \<Rightarrow> if length b \<noteq> 8 then 0 else from_le_bytes b)"

definition meta_32 :: "Store \<Rightarrow> string \<Rightarrow> Hash option" where
  "meta_32 s key = (case metadata s key of None \<Rightarrow> None | Some b \<Rightarrow> if length b \<noteq> 32 then None else Some b)"

definition meta_string :: "Store \<Rightarrow> string \<Rightarrow> string option" where
  "meta_string s key =
     (case metadata s key of
        None \<Rightarrow> None
      | Some b \<Rightarrow> let t = from_utf8_lossy b in if t = [] then None else Some t)"

definition local_applied_state_root :: "Store \<Rightarrow> Hash" where
  "local_applied_state_root s =
     (case root_cache s of
        Some r \<Rightarrow> r
      | None \<Rightarrow>
          (case metadata s ''consensus:last_applied_state_root'' of
             Some b \<Rightarrow> if length b = 32 then b else replicate 32 0
           | None \<Rightarrow> replicate 32 0))"

definition load_stored_certified_hash_at_cycle :: "Store \<Rightarrow> u64 \<Rightarrow> Hash option" where
  "load_stored_certified_hash_at_cycle s cyc = meta_32 s (certified_hash_metadata_key cyc)"

definition local_applied_lsu_hash :: "Store \<Rightarrow> Hash option" where
  "local_applied_lsu_hash s = meta_32 s ''consensus:last_applied_lsu_hash''"

definition should_defer_production_when_behind :: "u64 \<Rightarrow> u64 \<Rightarrow> bool" where
  "should_defer_production_when_behind applied observed_head \<longleftrightarrow> observed_head > applied"

definition should_reset_stale_observed_head :: "u64 \<Rightarrow> u64 \<Rightarrow> bool \<Rightarrow> u64 \<Rightarrow> u64 \<Rightarrow> bool" where
  "should_reset_stale_observed_head elapsed_ms budget_ms peer_confirmed_reachable gap max_forgivable_gap =
     (if gap > max_forgivable_gap then False
      else elapsed_ms > (if peer_confirmed_reachable then saturating_mul budget_ms 5 else budget_ms))"

definition rotating_batch_leader :: "ProducerId list \<Rightarrow> u64 \<Rightarrow> ProducerId option" where
  "rotating_batch_leader selected cyc =
     (if selected = [] then None else Some (selected ! (unat cyc mod length selected)))"

section \<open>Certificates found locally\<close>

record ('s, 'p) externals =
  blake2b :: "bytes \<Rightarrow> bytes"
  hex_decode :: "string \<Rightarrow> bytes option"
  curve25519 :: "('s, 'p) curve"
  decode_finality_cert :: "bytes \<Rightarrow> LsuFinalityCertificateV1 option"
  decode_root_cert :: "bytes \<Rightarrow> LsuStateRootCertificateV1 option"

type_synonym dfs = "string \<Rightarrow> bytes option"

definition key_of_cycle :: "string \<Rightarrow> u64 \<Rightarrow> string" where
  "key_of_cycle prefix cyc = prefix @ show_nat (unat cyc)"

definition lsu_has_verified_finality_cert ::
  "('s, 'p::ab_group_add) externals \<Rightarrow> Store \<Rightarrow> dfs \<Rightarrow> LedgerStateUpdate \<Rightarrow> u64 \<Rightarrow> string \<Rightarrow> bool" where
  "lsu_has_verified_finality_cert x s dfs lsu cyc finality_cid_hint =
     (case (if finality_cid_hint \<noteq> [] then Some finality_cid_hint
            else meta_string s (key_of_cycle ''consensus:lsu_finality_cid:'' cyc)) of
        None \<Rightarrow> False
      | Some cid \<Rightarrow>
          (case Option.bind (dfs cid) (decode_finality_cert x) of
             None \<Rightarrow> False
           | Some cert \<Rightarrow> verify_lsu_finality_certificate (blake2b x) (hex_decode x) (curve25519 x) cert lsu = Inr ()))"

definition lsu_has_verified_state_root_cert ::
  "('s, 'p::ab_group_add) externals \<Rightarrow> Store \<Rightarrow> dfs \<Rightarrow> LedgerStateUpdate \<Rightarrow> u64 \<Rightarrow> bool" where
  "lsu_has_verified_state_root_cert x s dfs lsu cyc =
     (case meta_string s (key_of_cycle ''consensus:lsu_state_root_cid:'' cyc) of
        None \<Rightarrow> False
      | Some cid \<Rightarrow>
          (case Option.bind (dfs cid) (decode_root_cert x) of
             None \<Rightarrow> False
           | Some cert \<Rightarrow> verify_lsu_state_root_certificate (blake2b x) (hex_decode x) (curve25519 x) cert lsu = Inr ()))"

definition fork_choice_candidate_for_lsu ::
  "('s, 'p::ab_group_add) externals \<Rightarrow> Store \<Rightarrow> dfs option \<Rightarrow> LedgerStateUpdate \<Rightarrow> u64 \<Rightarrow> Hash \<Rightarrow> string \<Rightarrow> bool
     \<Rightarrow> ForkChoiceCandidate" where
  "fork_choice_candidate_for_lsu x s dfs lsu cyc lsu_hash finality_cid_hint certified_only =
     (let certified = (case dfs of Some d \<Rightarrow> lsu_has_verified_finality_cert x s d lsu cyc finality_cid_hint | None \<Rightarrow> False);
          root_certified = (case dfs of Some d \<Rightarrow> lsu_has_verified_state_root_cert x s d lsu cyc | None \<Rightarrow> False)
      in new_candidate cyc lsu_hash lsu certified certified_only root_certified)"

definition load_fork_choice_candidate_at_cycle ::
  "('s, 'p::ab_group_add) externals \<Rightarrow> Store \<Rightarrow> dfs option \<Rightarrow> u64 \<Rightarrow> bool \<Rightarrow> ForkChoiceCandidate option" where
  "load_fork_choice_candidate_at_cycle x s dfs cyc certified_only =
     (case meta_32 s (key_of_cycle ''consensus:lsu_hash:'' cyc) of
        None \<Rightarrow> None
      | Some lsu_hash \<Rightarrow>
          (case metadata s (key_of_cycle ''consensus:lsu:'' cyc) of
             None \<Rightarrow> None
           | Some lsu_bytes \<Rightarrow>
               (case run_reader de_lsu lsu_bytes of
                  Inl _ \<Rightarrow> None
                | Inr lsu \<Rightarrow>
                    if lsu_cycle_number lsu \<noteq> cyc then None
                    else Some (fork_choice_candidate_for_lsu x s dfs lsu cyc lsu_hash [] certified_only))))"

definition fork_choice_reject_weaker_incoming ::
  "('s, 'p::ab_group_add) externals \<Rightarrow> Store \<Rightarrow> dfs option \<Rightarrow> ForkChoiceCandidate \<Rightarrow> bool \<Rightarrow> bool" where
  "fork_choice_reject_weaker_incoming x s dfs incoming certified_only =
     (case load_fork_choice_candidate_at_cycle x s dfs (cand_cycle incoming) certified_only of
        None \<Rightarrow> False
      | Some stored \<Rightarrow>
          if cand_hash stored = cand_hash incoming then False
          else incoming_weaker_than_stored incoming stored)"

section \<open>The apply gate and the history of updates\<close>

datatype ForkChoiceApplyGate = Allow | RejectWeaker | RejectNonCertified | StallCertifiedEquivocation

definition fork_choice_apply_gate ::
  "('s, 'p::ab_group_add) externals \<Rightarrow> environment \<Rightarrow> dfs option \<Rightarrow> LedgerStateUpdate \<Rightarrow> u64 \<Rightarrow> Hash \<Rightarrow> string \<Rightarrow> bool
     \<Rightarrow> Store \<Rightarrow> ForkChoiceApplyGate \<times> Store" where
  "fork_choice_apply_gate x env dfs lsu cyc lsu_hash finality_cid_hint certified_only s =
     (let certified = (case dfs of Some d \<Rightarrow> lsu_has_verified_finality_cert x s d lsu cyc finality_cid_hint | None \<Rightarrow> False);
          root_certified = (case dfs of Some d \<Rightarrow> lsu_has_verified_state_root_cert x s d lsu cyc | None \<Rightarrow> False);
          incoming = new_candidate cyc lsu_hash lsu certified certified_only root_certified
      in if certified_only \<and> cand_tier incoming \<noteq> Certified then (RejectNonCertified, s)
         else
           let stored_cert = load_stored_certified_hash_at_cycle s cyc;
               (stall, s1) =
                 (if certified then
                    (case register_certified_hash stored_cert lsu_hash of
                       RegisterOk \<Rightarrow>
                         (False, if stored_cert = None then store_set_meta (certified_hash_metadata_key cyc) lsu_hash s else s)
                     | ConflictingCertified existing new_hash \<Rightarrow>
                         (certified_equivocation_policy env certified_only = StallAndAlert, s))
                  else (False, s))
           in if stall then (StallCertifiedEquivocation, s1)
              else if fork_choice_reject_weaker_incoming x s1 dfs incoming certified_only then (RejectWeaker, s1)
              else (Allow, s1))"

text \<open>The decision of \<open>try_reorg_stronger_lsu_at_applied_cycle\<close> to reconcile an already applied cycle.\<close>

definition reorg_wanted ::
  "('s, 'p::ab_group_add) externals \<Rightarrow> Store \<Rightarrow> dfs option \<Rightarrow> LedgerStateUpdate \<Rightarrow> u64 \<Rightarrow> Hash \<Rightarrow> string \<Rightarrow> bool \<Rightarrow> bool" where
  "reorg_wanted x s dfs lsu cyc expected_lsu_hash finality_cid_hint certified_only =
     (if local_applied_cycle s \<noteq> cyc then False
      else case local_applied_lsu_hash s of
        None \<Rightarrow> False
      | Some applied_hash \<Rightarrow>
          if applied_hash = expected_lsu_hash then False
          else
            let incoming = fork_choice_candidate_for_lsu x s dfs lsu cyc expected_lsu_hash finality_cid_hint certified_only;
                fallback = \<lparr>cand_cycle = cyc, cand_hash = applied_hash, cand_tier = TierNone, state_root_certified = False\<rparr>;
                applied_candidate =
                  (case load_fork_choice_candidate_at_cycle x s dfs cyc certified_only of
                     Some c \<Rightarrow> if cand_hash c = applied_hash then c else fallback
                   | None \<Rightarrow> fallback)
            in incoming_beats_stored incoming applied_candidate)"

definition cycle_by_lsu_hash_key :: "Hash \<Rightarrow> string" where
  "cycle_by_lsu_hash_key lsu_hash = ''consensus:cycle_by_lsu_hash:'' @ hex_encode lsu_hash"

definition persist_lsu_history ::
  "('s, 'p::ab_group_add) externals \<Rightarrow> dfs option \<Rightarrow> u64 \<Rightarrow> bytes \<Rightarrow> Hash \<Rightarrow> string \<Rightarrow> Hash \<Rightarrow> string \<Rightarrow> bool \<Rightarrow> Store \<Rightarrow> Store" where
  "persist_lsu_history x dfs cyc lsu_bytes lsu_hash cid state_root finality_cid_hint certified_only s =
     (let write_canonical_slot =
            (case run_reader de_lsu lsu_bytes of
               Inl _ \<Rightarrow> True
             | Inr lsu \<Rightarrow>
                 \<not> fork_choice_reject_weaker_incoming x s dfs
                     (fork_choice_candidate_for_lsu x s dfs lsu cyc lsu_hash finality_cid_hint certified_only) certified_only);
          already_settled_same_recipe =
            (metadata s (key_of_cycle ''consensus:lsu_hash:'' cyc) = Some lsu_hash
             \<and> metadata s (key_of_cycle ''consensus:lsu_state_root:'' cyc) \<noteq> None);
          s1 = (if write_canonical_slot then
                  let s2 = store_set_meta (key_of_cycle ''consensus:lsu_hash:'' cyc) lsu_hash
                             (store_set_meta (key_of_cycle ''consensus:lsu:'' cyc) lsu_bytes s)
                  in if already_settled_same_recipe then s2
                     else
                       let s3 = (if cid \<noteq> [] then store_set_meta (key_of_cycle ''consensus:lsu_cid:'' cyc) (as_bytes cid) s2 else s2)
                       in store_set_meta (key_of_cycle ''consensus:lsu_state_root:'' cyc) state_root s3
                else s)
      in store_set_meta (cycle_by_lsu_hash_key lsu_hash) (to_le_bytes cyc) s1)"

section \<open>The outcome does not depend on the order of arrival\<close>

text \<open>
  What a preference must satisfy for a node that keeps the better of two candidates to end with
  the same one whatever the order in which it sees them.
\<close>

locale preference =
  fixes beats :: "'c \<Rightarrow> 'c \<Rightarrow> bool" and S :: "'c set"
  assumes asym: "a \<in> S \<Longrightarrow> b \<in> S \<Longrightarrow> beats a b \<Longrightarrow> \<not> beats b a"
    and transitive: "a \<in> S \<Longrightarrow> b \<in> S \<Longrightarrow> c \<in> S \<Longrightarrow> beats a b \<Longrightarrow> beats b c \<Longrightarrow> beats a c"
    and total: "a \<in> S \<Longrightarrow> b \<in> S \<Longrightarrow> a \<noteq> b \<Longrightarrow> beats a b \<or> beats b a"
begin

definition keep :: "'c \<Rightarrow> 'c list \<Rightarrow> 'c" where
  "keep x xs = foldl (\<lambda>stored incoming. if beats incoming stored then incoming else stored) x xs"

lemma keep_wins:
  "x \<in> S \<Longrightarrow> set xs \<subseteq> S \<Longrightarrow>
   keep x xs \<in> insert x (set xs) \<and> (\<forall>y \<in> insert x (set xs). y \<noteq> keep x xs \<longrightarrow> beats (keep x xs) y)"
proof (induction xs arbitrary: x)
  case (Cons y ys)
  let ?z = "if beats y x then y else x"
  have z: "?z \<in> S" and step: "keep x (y # ys) = keep ?z ys" using Cons.prems by (auto simp: keep_def)
  have IH: "keep ?z ys \<in> insert ?z (set ys)" "\<forall>w \<in> insert ?z (set ys). w \<noteq> keep ?z ys \<longrightarrow> beats (keep ?z ys) w"
    using Cons.IH[OF z] Cons.prems(2) by auto
  have k: "keep ?z ys \<in> S" using IH(1) z Cons.prems(2) by auto
  have win: "beats (keep ?z ys) w" if w: "w \<in> {x, y}" "w \<noteq> keep ?z ys" for w
  proof (cases "w = ?z")
    case True
    then show ?thesis using IH(2) w(2) by blast
  next
    case False
    then have "beats ?z w" using total[of x y] Cons.prems w(1) by auto
    then show ?thesis
      using IH(2) transitive[OF k z, of w] Cons.prems w(1) by (cases "?z = keep ?z ys") auto
  qed
  show ?case unfolding step using IH win by auto
qed (simp add: keep_def)

lemma keep_order_free:
  assumes "x \<in> S" "set xs \<subseteq> S" "insert x (set xs) = insert y (set ys)"
  shows "keep x xs = keep y ys"
proof (rule ccontr)
  assume ne: "keep x xs \<noteq> keep y ys"
  have y: "y \<in> S" "set ys \<subseteq> S" using assms by auto
  have "beats (keep x xs) (keep y ys)" "beats (keep y ys) (keep x xs)"
    using keep_wins[OF assms(1,2)] keep_wins[OF y] ne unfolding assms(3) by metis+
  moreover have "keep x xs \<in> S" "keep y ys \<in> S" using keep_wins[OF assms(1,2)] keep_wins[OF y] assms(1,2) y by auto
  ultimately show False using asym by blast
qed

end

lemma beats_iff:
  "incoming_beats_stored a b \<longleftrightarrow>
     cand_hash a \<noteq> cand_hash b \<and>
     (cand_tier b < cand_tier a \<or> cand_tier a = cand_tier b
        \<and> (state_root_certified a \<and> \<not> state_root_certified b
           \<or> state_root_certified a = state_root_certified b \<and> cand_hash a < cand_hash b))"
  unfolding incoming_beats_stored_def fork_choice_prefer_def
  by (cases "state_root_certified a"; cases "state_root_certified b") (auto simp: not_less_iff_gr_or_eq)

lemma beats_asym: "incoming_beats_stored a b \<Longrightarrow> \<not> incoming_beats_stored b a"
  unfolding beats_iff by (metis less_asym)

lemma beats_trans:
  "incoming_beats_stored a b \<Longrightarrow> incoming_beats_stored b c \<Longrightarrow> cand_hash a \<noteq> cand_hash c \<Longrightarrow> incoming_beats_stored a c"
  unfolding beats_iff by (metis less_trans)

lemma beats_total: "cand_hash a \<noteq> cand_hash b \<Longrightarrow> incoming_beats_stored a b \<or> incoming_beats_stored b a"
  unfolding beats_iff by (metis linorder_less_linear)

interpretation fc: preference incoming_beats_stored "{c. ev (cand_hash c) = c}"
  for ev :: "Hash \<Rightarrow> ForkChoiceCandidate"
proof unfold_locales
  have hash: "cand_hash a \<noteq> cand_hash b" if "a \<in> {c. ev (cand_hash c) = c}" "b \<in> {c. ev (cand_hash c) = c}" "a \<noteq> b" for a b
    using that by force
  show "incoming_beats_stored a c"
    if "a \<in> {c. ev (cand_hash c) = c}" "c \<in> {c. ev (cand_hash c) = c}" "incoming_beats_stored a b" "incoming_beats_stored b c" for a b c
    using that beats_trans[OF that(3,4)] hash[OF that(1,2)] beats_asym[OF that(3)] by (cases "a = c") simp_all
  show "incoming_beats_stored a b \<or> incoming_beats_stored b a"
    if "a \<in> {c. ev (cand_hash c) = c}" "b \<in> {c. ev (cand_hash c) = c}" "a \<noteq> b" for a b
    by (rule beats_total[OF hash[OF that]])
qed (rule beats_asym)

definition settle_fork :: "ForkChoiceCandidate \<Rightarrow> ForkChoiceCandidate list \<Rightarrow> ForkChoiceCandidate" where
  "settle_fork x xs = foldl (\<lambda>stored incoming. if incoming_beats_stored incoming stored then incoming else stored) x xs"



section \<open>One certified update per cycle\<close>

text \<open>
  A history of a node under the production policy, as far as one cycle is concerned: calls of the
  apply gate for that cycle, in any order and with any evidence, and between them any other
  activity that leaves the record of the first certified hash alone. The list holds the
  hashes the gate allowed.
\<close>

inductive gate_run ::
  "('s, 'p::ab_group_add) externals \<Rightarrow> environment \<Rightarrow> u64 \<Rightarrow> Store \<Rightarrow> Hash list \<Rightarrow> Store \<Rightarrow> bool"
  for x :: "('s, 'p) externals" and env :: environment and cyc :: u64 where
  start: "gate_run x env cyc s [] s"
| other: "gate_run x env cyc s hs s1 \<Longrightarrow>
    metadata s2 (certified_hash_metadata_key cyc) = metadata s1 (certified_hash_metadata_key cyc) \<Longrightarrow>
    gate_run x env cyc s hs s2"
| gate: "gate_run x env cyc s hs s1 \<Longrightarrow> length h = 32 \<Longrightarrow>
    fork_choice_apply_gate x env dfs lsu cyc h hint True s1 = (g, s2) \<Longrightarrow>
    gate_run x env cyc s (if g = Allow then h # hs else hs) s2"

lemma tier_certified_iff: "effective_fork_choice_tier lsu certified True = Certified \<longleftrightarrow> certified"
  by (simp add: effective_fork_choice_tier_def)

lemma load_certified_set:
  "length h = 32 \<Longrightarrow> load_stored_certified_hash_at_cycle (store_set_meta (certified_hash_metadata_key cyc) h s) cyc = Some h"
  by (simp add: load_stored_certified_hash_at_cycle_def meta_32_def store_set_meta_def)

lemma gate_registers:
  assumes "fork_choice_apply_gate x env dfs lsu cyc h hint True s = (g, s')" and "length h = 32"
    and "\<not> allow_cert_equivocation_tiebreak_from_env env"
  shows "load_stored_certified_hash_at_cycle s cyc \<noteq> None \<Longrightarrow>
      load_stored_certified_hash_at_cycle s' cyc = load_stored_certified_hash_at_cycle s cyc"
    and "g = Allow \<Longrightarrow> load_stored_certified_hash_at_cycle s' cyc = Some h"
  using assms
  by (auto simp: fork_choice_apply_gate_def Let_def new_candidate_def tier_certified_iff register_certified_hash_def
      certified_equivocation_policy_def load_certified_set split: if_splits option.splits prod.splits)

lemma gate_run_registered:
  assumes "gate_run x env cyc s hs s'" and "\<not> allow_cert_equivocation_tiebreak_from_env env"
  shows "h \<in> set hs \<Longrightarrow> load_stored_certified_hash_at_cycle s' cyc = Some h"
  using assms
proof (induction arbitrary: h rule: gate_run.induct)
  case (other s hs s1 s2)
  then show ?case by (simp add: load_stored_certified_hash_at_cycle_def meta_32_def)
next
  case (gate s hs s1 h' dfs lsu hint g s2)
  note reg = gate_registers[OF gate.hyps(3,2) gate.prems(2)]
  show ?case
  proof (cases "g = Allow \<and> h = h'")
    case True
    then show ?thesis using reg(2) by simp
  next
    case False
    then have "h \<in> set hs" using gate.prems(1) by (auto split: if_splits)
    then have "load_stored_certified_hash_at_cycle s1 cyc = Some h" using gate.IH gate.prems(2) by simp
    then show ?thesis using reg(1) by simp
  qed
qed simp


definition final_externals :: "(byte, byte) externals" where
  "final_externals = \<lparr>blake2b = two64, hex_decode = final_hex, curve25519 = curve8,
     decode_finality_cert = (\<lambda>_. Some final_cert), decode_root_cert = (\<lambda>_. None)\<rparr>"

definition empty_store :: Store where
  "empty_store = \<lparr>accounts = [], metadata = Map.empty, root_cache = None\<rparr>"


section \<open>History and production\<close>

text \<open>A settled pair of update hash and state root survives every later message about the same update.\<close>

lemma prefix_keys_differ:
  "key_of_cycle ''consensus:lsu_state_root:'' c \<noteq> key_of_cycle ''consensus:lsu_hash:'' d"
  "key_of_cycle ''consensus:lsu_state_root:'' c \<noteq> key_of_cycle ''consensus:lsu:'' d"
  "key_of_cycle ''consensus:lsu_state_root:'' c \<noteq> key_of_cycle ''consensus:lsu_cid:'' d"
  "key_of_cycle ''consensus:lsu_state_root:'' c \<noteq> cycle_by_lsu_hash_key h"
  by (simp_all add: key_of_cycle_def cycle_by_lsu_hash_key_def)

lemma settled_root_kept:
  assumes "metadata s (key_of_cycle ''consensus:lsu_hash:'' cyc) = Some h"
    and "metadata s (key_of_cycle ''consensus:lsu_state_root:'' cyc) = Some r"
  shows "metadata (persist_lsu_history x dfs cyc bs h cid r' hint co s) (key_of_cycle ''consensus:lsu_state_root:'' cyc) = Some r"
  using assms prefix_keys_differ by (simp add: persist_lsu_history_def Let_def store_set_meta_def)

lemma mod_shift: "j < n \<Longrightarrow> (f + (j + (n - f mod n)) mod n) mod n = (j :: nat)"
proof -
  assume j: "j < n"
  have "n * (f div n) + f mod n = f" "f mod n < n" using j by simp_all
  then have "f + (j + (n - f mod n)) = j + (n + n * (f div n))" by linarith
  then have "(f + (j + (n - f mod n))) mod n = j" using j by (simp add: add.assoc[symmetric])
  then show ?thesis unfolding mod_add_right_eq .
qed

lemma mod_shift_inject:
  "(f + i) mod n = (f + k) mod n \<Longrightarrow> i < n \<Longrightarrow> k < n \<Longrightarrow> i = (k :: nat)"
proof (induction i k rule: linorder_wlog)
  case (le i k)
  then have "n dvd (f + k) - (f + i)" by (metis add_le_mono1 add.commute mod_eq_dvd_iff_nat)
  then show ?case using le by (auto dest: dvd_imp_le)
qed simp

text \<open>
  In any stretch of as many cycles as there are producers, every producer leads exactly one; a
  stuck leader can hold back only its own share.
\<close>

lemma leader_rotates:
  assumes "distinct selected" and "p \<in> set selected" and "unat first + length selected \<le> 2 ^ 64"
  shows "\<exists>!i. i < length selected \<and> rotating_batch_leader selected (first + of_nat i) = Some p"
proof -
  let ?n = "length selected"
  have n: "0 < ?n" using assms(2) by (cases selected) auto
  obtain j where j: "j < ?n" "selected ! j = p" using assms(2) by (auto simp: in_set_conv_nth)
  have idx: "unat (first + of_nat i) = unat first + i" if "i < ?n" for i
    using that assms(3) by (simp add: unat_word_ariths unat_of_nat)
  have lead: "rotating_batch_leader selected (first + of_nat i) = Some p \<longleftrightarrow> (unat first + i) mod ?n = j" if "i < ?n" for i
    using that n j nth_eq_iff_index_eq[OF assms(1), of "(unat first + i) mod ?n" j]
    by (auto simp: rotating_batch_leader_def idx)
  let ?i = "(j + (?n - unat first mod ?n)) mod ?n"
  have at: "(unat first + ?i) mod ?n = j" by (rule mod_shift[OF j(1)])
  have lt: "?i < ?n" using n by simp
  show ?thesis
  proof (rule ex1I)
    show "?i < ?n \<and> rotating_batch_leader selected (first + of_nat ?i) = Some p"
      using lead[OF lt] at lt by blast
    fix i assume i: "i < ?n \<and> rotating_batch_leader selected (first + of_nat i) = Some p"
    then have eq: "(unat first + i) mod ?n = (unat first + ?i) mod ?n" using lead[of i] at by metis
    show "i = ?i" by (rule mod_shift_inject[OF eq conjunct1[OF i] lt])
  qed
qed

end
