(* ===== verification/Accounts.thy ===== *)
theory Accounts
  imports Evm Fork_Choice
begin

text \<open>
  The accounts of the ledger (\<open>catalyst-cli/src/node.rs\<close>): the keys under which balances, nonces,
  workers and fee credits are stored, their readers and writers on the store of \<open>Storage\<close>, the
  constants and rules of the token economy, and genesis.
\<close>

section \<open>Constants\<close>

definition DEFAULT_EVM_GAS_LIMIT :: u64 where "DEFAULT_EVM_GAS_LIMIT = 8000000"
definition FAUCET_PRIVATE_KEY_BYTES :: bytes where "FAUCET_PRIVATE_KEY_BYTES = replicate 32 250"
definition META_PROTOCOL_CHAIN_ID :: string where "META_PROTOCOL_CHAIN_ID = ''protocol:chain_id''"
definition META_PROTOCOL_NETWORK_ID :: string where "META_PROTOCOL_NETWORK_ID = ''protocol:network_id''"
definition META_PROTOCOL_GENESIS_HASH :: string where "META_PROTOCOL_GENESIS_HASH = ''protocol:genesis_hash''"
definition TOKENOMICS_BLOCK_REWARD_ATOMS :: u64 where "TOKENOMICS_BLOCK_REWARD_ATOMS = 1000000000"
definition TOKENOMICS_FEE_BURN_BPS :: u64 where "TOKENOMICS_FEE_BURN_BPS = 7000"
definition TOKENOMICS_FEE_TO_REWARD_POOL_BPS :: u64 where "TOKENOMICS_FEE_TO_REWARD_POOL_BPS = 3000"
definition TOKENOMICS_FEE_TO_TREASURY_BPS :: u64 where "TOKENOMICS_FEE_TO_TREASURY_BPS = 0"
definition TOKENOMICS_WAITING_POOL_REWARD_BPS :: u64 where "TOKENOMICS_WAITING_POOL_REWARD_BPS = 3000"
definition TOKENOMICS_FEE_CREDITS_ENABLED :: bool where "TOKENOMICS_FEE_CREDITS_ENABLED = True"
definition TOKENOMICS_FEE_CREDITS_WARMUP_DAYS :: u64 where "TOKENOMICS_FEE_CREDITS_WARMUP_DAYS = 14"
definition TOKENOMICS_FEE_CREDITS_ACCRUAL_ATOMS_PER_DAY :: u64 where "TOKENOMICS_FEE_CREDITS_ACCRUAL_ATOMS_PER_DAY = 200"
definition TOKENOMICS_FEE_CREDITS_MAX_BALANCE_ATOMS :: u64 where "TOKENOMICS_FEE_CREDITS_MAX_BALANCE_ATOMS = 6000"
definition TOKENOMICS_FEE_CREDITS_DAILY_SPEND_CAP_ATOMS :: u64 where "TOKENOMICS_FEE_CREDITS_DAILY_SPEND_CAP_ATOMS = 300"
definition TOKENOMICS_WAITING_ELIGIBILITY_CHURN_PENALTY_DAYS :: u64 where "TOKENOMICS_WAITING_ELIGIBILITY_CHURN_PENALTY_DAYS = 3"
definition TOKENOMICS_CYCLE_SECONDS :: u64 where "TOKENOMICS_CYCLE_SECONDS = 20"

lemmas tokenomics_defs =
  TOKENOMICS_BLOCK_REWARD_ATOMS_def TOKENOMICS_FEE_BURN_BPS_def TOKENOMICS_FEE_TO_REWARD_POOL_BPS_def
  TOKENOMICS_FEE_TO_TREASURY_BPS_def TOKENOMICS_WAITING_POOL_REWARD_BPS_def TOKENOMICS_FEE_CREDITS_ENABLED_def
  TOKENOMICS_FEE_CREDITS_WARMUP_DAYS_def TOKENOMICS_FEE_CREDITS_ACCRUAL_ATOMS_PER_DAY_def
  TOKENOMICS_FEE_CREDITS_MAX_BALANCE_ATOMS_def TOKENOMICS_FEE_CREDITS_DAILY_SPEND_CAP_ATOMS_def
  TOKENOMICS_WAITING_ELIGIBILITY_CHURN_PENALTY_DAYS_def TOKENOMICS_CYCLE_SECONDS_def

definition split_cycle_fees :: "u64 \<Rightarrow> u64 \<times> u64 \<times> u64" where
  "split_cycle_fees total_fees =
     (let to_rewards = saturating_mul total_fees TOKENOMICS_FEE_TO_REWARD_POOL_BPS div 10000;
          to_treasury = saturating_mul total_fees TOKENOMICS_FEE_TO_TREASURY_BPS div 10000;
          used = min (saturating_add to_rewards to_treasury) total_fees;
          burned = saturating_sub total_fees used
      in (burned, to_rewards, to_treasury))"

section \<open>Keys and values\<close>

definition balance_key_for_pubkey :: "bytes \<Rightarrow> bytes" where "balance_key_for_pubkey pk = as_bytes ''bal:'' @ pk"
definition ROOT_CYCLE_COUNTER_KEY :: bytes where "ROOT_CYCLE_COUNTER_KEY = as_bytes ''__root_cycle_counter__''"
definition worker_key_for_pubkey :: "bytes \<Rightarrow> bytes" where "worker_key_for_pubkey pk = as_bytes ''workers:'' @ pk"
definition fee_credit_balance_key_for_pubkey :: "bytes \<Rightarrow> bytes" where
  "fee_credit_balance_key_for_pubkey pk = as_bytes ''feecred:bal:'' @ pk"
definition fee_credit_first_seen_cycle_key_for_pubkey :: "bytes \<Rightarrow> bytes" where
  "fee_credit_first_seen_cycle_key_for_pubkey pk = as_bytes ''wfs:'' @ pk"
definition worker_last_registration_cycle_key_for_pubkey :: "bytes \<Rightarrow> bytes" where
  "worker_last_registration_cycle_key_for_pubkey pk = as_bytes ''wlr:'' @ pk"
definition fee_credit_daily_spend_key_for_pubkey :: "bytes \<Rightarrow> bytes" where
  "fee_credit_daily_spend_key_for_pubkey pk = as_bytes ''fcd:'' @ pk"
definition nonce_key_for_pubkey :: "bytes \<Rightarrow> bytes" where "nonce_key_for_pubkey pk = as_bytes ''nonce:'' @ pk"

definition decode_i64 :: "bytes \<Rightarrow> i64 option" where
  "decode_i64 b = (if length b \<noteq> 8 then None else Some (from_le_bytes b))"

definition decode_u64 :: "bytes \<Rightarrow> u64 option" where
  "decode_u64 b = (if length b \<noteq> 8 then None else Some (from_le_bytes b))"

definition encode_i64 :: "i64 \<Rightarrow> bytes" where "encode_i64 v = to_le_bytes v"
definition encode_u64 :: "u64 \<Rightarrow> bytes" where "encode_u64 v = to_le_bytes v"

definition write_root_cycle_counter :: "u64 \<Rightarrow> Store \<Rightarrow> Store" where
  "write_root_cycle_counter cyc s = store_set ROOT_CYCLE_COUNTER_KEY (to_le_bytes cyc) s"

definition get_balance_i64 :: "Store \<Rightarrow> bytes \<Rightarrow> i64" where
  "get_balance_i64 s pk = opt_or (Option.bind (store_get s (balance_key_for_pubkey pk)) decode_i64) 0"

definition set_balance_i64 :: "bytes \<Rightarrow> i64 \<Rightarrow> Store \<Rightarrow> Store" where
  "set_balance_i64 pk v s = store_set (balance_key_for_pubkey pk) (to_le_bytes v) s"

definition get_nonce_u64 :: "Store \<Rightarrow> bytes \<Rightarrow> u64" where
  "get_nonce_u64 s pk = opt_or (Option.bind (store_get s (nonce_key_for_pubkey pk)) decode_u64) 0"

definition set_nonce_u64 :: "bytes \<Rightarrow> u64 \<Rightarrow> Store \<Rightarrow> Store" where
  "set_nonce_u64 pk v s = store_set (nonce_key_for_pubkey pk) (to_le_bytes v) s"

section \<open>Fee credits\<close>

record FeeCreditDailySpend =
  day_bucket :: u64
  spent_atoms :: u64

definition default_daily :: FeeCreditDailySpend where "default_daily = \<lparr>day_bucket = 0, spent_atoms = 0\<rparr>"

datatype TxStatus = Pending | Selected | Applied | Dropped

record TxMeta =
  tm_tx_id :: Hash
  tm_status :: TxStatus
  tm_received_at_ms :: u64
  tm_sender :: "bytes option"
  tm_nonce :: u64
  tm_fees :: u64
  tm_selected_cycle :: "u64 option"
  tm_applied_cycle :: "u64 option"
  tm_applied_lsu_hash :: "Hash option"
  tm_applied_state_root :: "Hash option"
  tm_applied_success :: "bool option"
  tm_applied_error :: "string option"
  tm_evm_gas_used :: "u64 option"
  tm_evm_return :: "bytes option"

text \<open>
  What the node takes from other code: the digests and certificates of \<open>externals\<close>, SHA-256, the
  virtual machine and the address it creates, and \<open>bincode\<close> on the records kept in accounts,
  in metadata and in contract calls.
\<close>

record ('s, 'p) node_env =
  ext :: "('s, 'p) externals"
  sha :: "bytes \<Rightarrow> bytes"
  transact :: revm
  create_address :: "bytes \<Rightarrow> u64 \<Rightarrow> bytes"
  ser_daily :: "FeeCreditDailySpend \<Rightarrow> bytes"
  de_daily :: "bytes \<Rightarrow> FeeCreditDailySpend option"
  ser_payload :: "EvmTxPayload \<Rightarrow> bytes"
  de_payload :: "bytes \<Rightarrow> EvmTxPayload option"
  de_kind :: "bytes \<Rightarrow> EvmTxKind option"
  ser_tx :: "Transaction \<Rightarrow> bytes"
  de_tx :: "bytes \<Rightarrow> Transaction option"
  ser_txs :: "Transaction list \<Rightarrow> bytes"
  ser_txids :: "Hash list \<Rightarrow> bytes"
  de_txids :: "bytes \<Rightarrow> Hash list option"
  ser_meta :: "TxMeta \<Rightarrow> bytes"
  de_meta :: "bytes \<Rightarrow> TxMeta option"

definition cycles_per_day :: u64 where
  "cycles_per_day = (let secs = max TOKENOMICS_CYCLE_SECONDS 1 in max (86400 div secs) 1)"

definition fee_credit_day_bucket :: "u64 \<Rightarrow> u64" where
  "fee_credit_day_bucket cyc = cyc div cycles_per_day"

definition get_fee_credit_balance_u64 :: "Store \<Rightarrow> bytes \<Rightarrow> u64" where
  "get_fee_credit_balance_u64 s pk = opt_or (Option.bind (store_get s (fee_credit_balance_key_for_pubkey pk)) decode_u64) 0"

definition set_fee_credit_balance_u64 :: "bytes \<Rightarrow> u64 \<Rightarrow> Store \<Rightarrow> Store" where
  "set_fee_credit_balance_u64 pk v s = store_set (fee_credit_balance_key_for_pubkey pk) (encode_u64 v) s"

definition get_fee_credit_daily_spend :: "('s, 'p) node_env \<Rightarrow> Store \<Rightarrow> bytes \<Rightarrow> FeeCreditDailySpend" where
  "get_fee_credit_daily_spend nx s pk =
     (case store_get s (fee_credit_daily_spend_key_for_pubkey pk) of
        None \<Rightarrow> default_daily
      | Some b \<Rightarrow> opt_or (de_daily nx b) default_daily)"

definition set_fee_credit_daily_spend :: "('s, 'p) node_env \<Rightarrow> bytes \<Rightarrow> FeeCreditDailySpend \<Rightarrow> Store \<Rightarrow> Store" where
  "set_fee_credit_daily_spend nx pk daily s = store_set (fee_credit_daily_spend_key_for_pubkey pk) (ser_daily nx daily) s"

definition fee_credit_spendable_for_cycle :: "('s, 'p) node_env \<Rightarrow> Store \<Rightarrow> bytes \<Rightarrow> u64 \<Rightarrow> u64 \<Rightarrow> u64" where
  "fee_credit_spendable_for_cycle nx s pk fee_due cyc =
     (if \<not> TOKENOMICS_FEE_CREDITS_ENABLED \<or> fee_due = 0 then 0
      else
        let bal = get_fee_credit_balance_u64 s pk in
        if bal = 0 then 0
        else
          let day = fee_credit_day_bucket cyc;
              daily = get_fee_credit_daily_spend nx s pk;
              spent_today = (if day_bucket daily = day then spent_atoms daily else 0);
              daily_remaining = saturating_sub TOKENOMICS_FEE_CREDITS_DAILY_SPEND_CAP_ATOMS spent_today
          in min (min fee_due bal) daily_remaining)"

definition apply_fee_credit_spend_for_cycle :: "('s, 'p) node_env \<Rightarrow> bytes \<Rightarrow> u64 \<Rightarrow> u64 \<Rightarrow> Store \<Rightarrow> u64 \<times> Store" where
  "apply_fee_credit_spend_for_cycle nx pk spend_atoms cyc s =
     (if spend_atoms = 0 then (0, s)
      else
        let allowed = fee_credit_spendable_for_cycle nx s pk spend_atoms cyc in
        if allowed = 0 then (0, s)
        else
          let bal = get_fee_credit_balance_u64 s pk;
              s1 = set_fee_credit_balance_u64 pk (saturating_sub bal allowed) s;
              day = fee_credit_day_bucket cyc;
              daily0 = get_fee_credit_daily_spend nx s1 pk;
              daily = (if day_bucket daily0 \<noteq> day then \<lparr>day_bucket = day, spent_atoms = 0\<rparr> else daily0)
          in (allowed,
              set_fee_credit_daily_spend nx pk (daily\<lparr>spent_atoms := saturating_add (spent_atoms daily) allowed\<rparr>) s1))"

section \<open>Markers and workers\<close>

definition is_worker_reg_marker :: "bytes \<Rightarrow> bool" where "is_worker_reg_marker sg = has_prefix (as_bytes ''WRKREG1'') sg"
definition is_evm_marker :: "bytes \<Rightarrow> bool" where "is_evm_marker sg = has_prefix (as_bytes ''EVM1'') sg"

definition lsu_contains_evm :: "LedgerStateUpdate \<Rightarrow> bool" where
  "lsu_contains_evm lsu = list_ex (\<lambda>e. is_evm_marker (te_signature e)) (pu_transaction_entries (lsu_partial_update lsu))"

definition pubkey_to_evm_addr20 :: "bytes \<Rightarrow> bytes" where "pubkey_to_evm_addr20 pk = take 20 (drop 12 pk)"
definition evm_code_key :: "bytes \<Rightarrow> bytes" where "evm_code_key addr20 = as_bytes ''evm:code:'' @ addr20"
definition evm_last_return_key :: "bytes \<Rightarrow> bytes" where "evm_last_return_key addr20 = as_bytes ''evm:last_return:'' @ addr20"

definition load_workers_from_state :: "Store \<Rightarrow> bytes list" where
  "load_workers_from_state s =
     sort_dedup (List.map_filter (\<lambda>(k, v).
       if \<not> has_prefix (as_bytes ''workers:'') k then None
       else if v \<noteq> [1] then None
       else if length k \<noteq> 8 + 32 then None
       else Some (drop 8 k)) (accounts s))"

definition ensure_worker_first_seen_cycle :: "bytes \<Rightarrow> u64 \<Rightarrow> Store \<Rightarrow> Store" where
  "ensure_worker_first_seen_cycle pk cyc s =
     (let key = fee_credit_first_seen_cycle_key_for_pubkey pk
      in if store_get s key = None then store_set key (to_le_bytes cyc) s else s)"

definition set_worker_last_registration_cycle :: "bytes \<Rightarrow> u64 \<Rightarrow> Store \<Rightarrow> Store" where
  "set_worker_last_registration_cycle pk cyc s =
     store_set (worker_last_registration_cycle_key_for_pubkey pk) (to_le_bytes cyc) s"

definition get_worker_last_registration_cycle :: "Store \<Rightarrow> bytes \<Rightarrow> u64 option" where
  "get_worker_last_registration_cycle s pk =
     Option.bind (store_get s (worker_last_registration_cycle_key_for_pubkey pk)) decode_u64"

definition get_worker_first_seen_cycle :: "Store \<Rightarrow> bytes \<Rightarrow> u64 option" where
  "get_worker_first_seen_cycle s pk = Option.bind (store_get s (fee_credit_first_seen_cycle_key_for_pubkey pk)) decode_u64"

definition waiting_worker_is_eligible :: "Store \<Rightarrow> bytes \<Rightarrow> u64 \<Rightarrow> bool" where
  "waiting_worker_is_eligible s pk cyc =
     (case get_worker_first_seen_cycle s pk of
        None \<Rightarrow> False
      | Some first_seen \<Rightarrow>
          let warmup_cycles = saturating_mul TOKENOMICS_FEE_CREDITS_WARMUP_DAYS cycles_per_day in
          if cyc < saturating_add first_seen warmup_cycles then False
          else
            (case get_worker_last_registration_cycle s pk of
               None \<Rightarrow> True
             | Some last_reg \<Rightarrow>
                 let churn_cycles = saturating_mul TOKENOMICS_WAITING_ELIGIBILITY_CHURN_PENALTY_DAYS cycles_per_day
                 in \<not> cyc < saturating_add last_reg churn_cycles))"

section \<open>Chain identity and genesis\<close>

datatype FaucetMode = FaucetDisabled | FaucetDeterministic | FaucetConfigured

record ProtocolConfig =
  pc_chain_id :: u64
  pc_network_id :: string
  pc_faucet_mode :: FaucetMode
  pc_allow_deterministic_faucet :: bool
  pc_faucet_pubkey_hex :: "string option"
  pc_faucet_balance :: i64

record GenesisDescriptor =
  gd_mode :: string
  gd_chain_id :: u64
  gd_network_id :: string
  gd_faucet_pubkey :: bytes
  gd_faucet_balance :: i64

definition ser_genesis :: "GenesisDescriptor \<Rightarrow> bytes" where
  "ser_genesis g = serialize_string (gd_mode g) @ ser_u64 (gd_chain_id g) @ serialize_string (gd_network_id g)
     @ ser_arr (gd_faucet_pubkey g) @ ser_i64 (gd_faucet_balance g)"

definition faucet_genesis_params :: "('s, 'p) node_env \<Rightarrow> ProtocolConfig \<Rightarrow> (string, bytes \<times> i64) result" where
  "faucet_genesis_params nx cfg =
     (case pc_faucet_mode cfg of
        FaucetDeterministic \<Rightarrow>
          if \<not> pc_allow_deterministic_faucet cfg then
            Inl ''deterministic faucet is disabled by config (set protocol.allow_deterministic_faucet=true to allow it)''
          else
            let cv = curve25519 (ext nx);
                pk = pk_to_bytes cv (public_key cv (private_key_from_bytes cv FAUCET_PRIVATE_KEY_BYTES))
            in if sint (pc_faucet_balance cfg) \<le> 0 then Inl ''protocol.faucet_balance must be > 0''
               else Inr (pk, pc_faucet_balance cfg)
      | FaucetConfigured \<Rightarrow>
          (case pc_faucet_pubkey_hex cfg of
             None \<Rightarrow> Inl ''protocol.faucet_pubkey_hex must be set when protocol.faucet_mode=configured''
           | Some h \<Rightarrow>
               (case parse_hex_32 (hex_decode (ext nx)) h of
                  None \<Rightarrow> Inl ''protocol.faucet_pubkey_hex must be 32 bytes hex (64 chars)''
                | Some pk \<Rightarrow>
                    if sint (pc_faucet_balance cfg) \<le> 0 then Inl ''protocol.faucet_balance must be > 0''
                    else Inr (pk, pc_faucet_balance cfg)))
      | FaucetDisabled \<Rightarrow> Inr (replicate 32 0, 0))"

definition load_chain_id_u64 :: "Store \<Rightarrow> u64" where
  "load_chain_id_u64 s = opt_or (u64_of_meta (metadata s META_PROTOCOL_CHAIN_ID)) 31337"

definition load_genesis_hash_32 :: "Store \<Rightarrow> Hash" where
  "load_genesis_hash_32 s =
     (case metadata s META_PROTOCOL_GENESIS_HASH of
        None \<Rightarrow> replicate 32 0
      | Some b \<Rightarrow> if length b \<noteq> 32 then replicate 32 0 else b)"

definition set_meta_if_absent :: "string \<Rightarrow> bytes \<Rightarrow> Store \<Rightarrow> Store" where
  "set_meta_if_absent k v s = (if metadata s k = None then store_set_meta k v s else s)"

definition fund_faucet :: "bytes \<Rightarrow> i64 \<Rightarrow> Store \<Rightarrow> Store" where
  "fund_faucet pk bal s =
     (if 0 < sint bal \<and> pk \<noteq> replicate 32 0 \<and> store_get s (balance_key_for_pubkey pk) = None
      then set_nonce_u64 pk 0 (set_balance_i64 pk bal s)
      else s)"

definition ensure_chain_identity_and_genesis ::
  "('s, 'p) node_env \<Rightarrow> ProtocolConfig \<Rightarrow> Store \<Rightarrow> (string, unit) result \<times> Store" where
  "ensure_chain_identity_and_genesis nx cfg s =
     (let s1 = set_meta_if_absent META_PROTOCOL_NETWORK_ID (as_bytes (pc_network_id cfg))
                 (set_meta_if_absent META_PROTOCOL_CHAIN_ID (to_le_bytes (pc_chain_id cfg)) s)
      in if metadata s1 META_PROTOCOL_GENESIS_HASH \<noteq> None then (Inr (), s1)
         else
           let already = opt_or (u64_of_meta (metadata s1 ''consensus:last_applied_cycle'')) 0 in
           (case faucet_genesis_params nx cfg of
              Inl err \<Rightarrow> (Inl err, s1)
            | Inr (pk, bal) \<Rightarrow>
                let g = (\<lambda>mode. \<lparr>gd_mode = mode, gd_chain_id = pc_chain_id cfg, gd_network_id = pc_network_id cfg,
                           gd_faucet_pubkey = pk, gd_faucet_balance = bal\<rparr>);
                    stamp = (\<lambda>mode. store_set_meta META_PROTOCOL_GENESIS_HASH (hash_data (blake2b (ext nx)) ser_genesis (g mode)))
                in if already = 0 then (Inr (), stamp ''fresh'' (snd (store_commit (sha nx) (fund_faucet pk bal s1))))
                   else (Inr (), stamp ''legacy'' s1)))"

definition verify_protocol_tx_signature_with_domain :: "('s, 'p::ab_group_add) node_env \<Rightarrow> Store \<Rightarrow> Transaction \<Rightarrow> bool" where
  "verify_protocol_tx_signature_with_domain nx s tx =
     (verify_tx_signature_with_domain (blake2b (ext nx)) (curve25519 (ext nx)) tx (load_chain_id_u64 s) (load_genesis_hash_32 s)
        = Inr ())"

section \<open>Readers after writers\<close>

lemmas key_defs = balance_key_for_pubkey_def nonce_key_for_pubkey_def worker_key_for_pubkey_def
  fee_credit_balance_key_for_pubkey_def fee_credit_first_seen_cycle_key_for_pubkey_def
  worker_last_registration_cycle_key_for_pubkey_def fee_credit_daily_spend_key_for_pubkey_def ROOT_CYCLE_COUNTER_KEY_def

text \<open>The name spaces whose contents the accounting follows, and that the keys of the ledger do not overlap.\<close>

definition bal_key :: "bytes \<Rightarrow> bool" where "bal_key k \<longleftrightarrow> has_prefix (as_bytes ''bal:'') k"
definition credit_key :: "bytes \<Rightarrow> bool" where "credit_key k \<longleftrightarrow> has_prefix (as_bytes ''feecred:bal:'') k"
definition daily_key :: "bytes \<Rightarrow> bool" where "daily_key k \<longleftrightarrow> has_prefix (as_bytes ''fcd:'') k"
definition nonce_key :: "bytes \<Rightarrow> bool" where "nonce_key k \<longleftrightarrow> has_prefix (as_bytes ''nonce:'') k"

lemmas key_kinds = bal_key_def credit_key_def daily_key_def nonce_key_def evm_key_def

lemma bal_key_simps [simp]:
  "bal_key (balance_key_for_pubkey pk)"
  "\<not> bal_key (nonce_key_for_pubkey pk)"
  "\<not> bal_key (worker_key_for_pubkey pk)"
  "\<not> bal_key (fee_credit_balance_key_for_pubkey pk)"
  "\<not> bal_key (fee_credit_first_seen_cycle_key_for_pubkey pk)"
  "\<not> bal_key (worker_last_registration_cycle_key_for_pubkey pk)"
  "\<not> bal_key (fee_credit_daily_spend_key_for_pubkey pk)"
  "\<not> bal_key (ROOT_CYCLE_COUNTER_KEY)"
  by (simp_all add: key_kinds key_defs has_prefix_def as_bytes_def)

lemma credit_key_simps [simp]:
  "\<not> credit_key (balance_key_for_pubkey pk)"
  "\<not> credit_key (nonce_key_for_pubkey pk)"
  "\<not> credit_key (worker_key_for_pubkey pk)"
  "credit_key (fee_credit_balance_key_for_pubkey pk)"
  "\<not> credit_key (fee_credit_first_seen_cycle_key_for_pubkey pk)"
  "\<not> credit_key (worker_last_registration_cycle_key_for_pubkey pk)"
  "\<not> credit_key (fee_credit_daily_spend_key_for_pubkey pk)"
  "\<not> credit_key (ROOT_CYCLE_COUNTER_KEY)"
  by (simp_all add: key_kinds key_defs has_prefix_def as_bytes_def)

lemma daily_key_simps [simp]:
  "\<not> daily_key (balance_key_for_pubkey pk)"
  "\<not> daily_key (nonce_key_for_pubkey pk)"
  "\<not> daily_key (worker_key_for_pubkey pk)"
  "\<not> daily_key (fee_credit_balance_key_for_pubkey pk)"
  "\<not> daily_key (fee_credit_first_seen_cycle_key_for_pubkey pk)"
  "\<not> daily_key (worker_last_registration_cycle_key_for_pubkey pk)"
  "daily_key (fee_credit_daily_spend_key_for_pubkey pk)"
  "\<not> daily_key (ROOT_CYCLE_COUNTER_KEY)"
  by (simp_all add: key_kinds key_defs has_prefix_def as_bytes_def)

lemma nonce_key_simps [simp]:
  "\<not> nonce_key (balance_key_for_pubkey pk)"
  "nonce_key (nonce_key_for_pubkey pk)"
  "\<not> nonce_key (worker_key_for_pubkey pk)"
  "\<not> nonce_key (fee_credit_balance_key_for_pubkey pk)"
  "\<not> nonce_key (fee_credit_first_seen_cycle_key_for_pubkey pk)"
  "\<not> nonce_key (worker_last_registration_cycle_key_for_pubkey pk)"
  "\<not> nonce_key (fee_credit_daily_spend_key_for_pubkey pk)"
  "\<not> nonce_key (ROOT_CYCLE_COUNTER_KEY)"
  by (simp_all add: key_kinds key_defs has_prefix_def as_bytes_def)

lemma evm_key_simps [simp]:
  "\<not> evm_key (balance_key_for_pubkey pk)"
  "\<not> evm_key (nonce_key_for_pubkey pk)"
  "\<not> evm_key (worker_key_for_pubkey pk)"
  "\<not> evm_key (fee_credit_balance_key_for_pubkey pk)"
  "\<not> evm_key (fee_credit_first_seen_cycle_key_for_pubkey pk)"
  "\<not> evm_key (worker_last_registration_cycle_key_for_pubkey pk)"
  "\<not> evm_key (fee_credit_daily_spend_key_for_pubkey pk)"
  "\<not> evm_key (ROOT_CYCLE_COUNTER_KEY)"
  by (simp_all add: key_kinds key_defs has_prefix_def as_bytes_def)

lemma evm_keys_apart [simp]: "evm_key k \<Longrightarrow> \<not> bal_key k" "evm_key k \<Longrightarrow> \<not> credit_key k" "evm_key k \<Longrightarrow> \<not> daily_key k" "evm_key k \<Longrightarrow> \<not> nonce_key k"
  by (cases k; cases "tl k"; cases "tl (tl k)"; simp add: key_kinds has_prefix_def as_bytes_def)+

lemma decode_encode [simp]:
  "decode_i64 (to_le_bytes v) = Some v" "decode_u64 (to_le_bytes w) = Some w" "decode_u64 (encode_u64 w) = Some w"
  by (simp_all add: decode_i64_def decode_u64_def encode_u64_def)

lemma opt_or_simps [simp]: "opt_or (Some v) d = v" "opt_or None d = d"
  by (simp_all add: opt_or_def)

lemma get_set_balance:
  "store_ok s \<Longrightarrow> get_balance_i64 (set_balance_i64 pk v s) = (get_balance_i64 s)(pk := v)"
  by (auto simp: get_balance_i64_def set_balance_i64_def acc.get_put fun_eq_iff balance_key_for_pubkey_def)

lemma get_set_nonce: "store_ok s \<Longrightarrow> get_nonce_u64 (set_nonce_u64 pk v s) = (get_nonce_u64 s)(pk := v)"
  by (auto simp: get_nonce_u64_def set_nonce_u64_def acc.get_put fun_eq_iff nonce_key_for_pubkey_def)

lemma get_set_fee_credit:
  "store_ok s \<Longrightarrow> get_fee_credit_balance_u64 (set_fee_credit_balance_u64 pk v s) = (get_fee_credit_balance_u64 s)(pk := v)"
  by (auto simp: get_fee_credit_balance_u64_def set_fee_credit_balance_u64_def acc.get_put fun_eq_iff
      fee_credit_balance_key_for_pubkey_def)

definition daily_codec :: "('s, 'p) node_env \<Rightarrow> bool" where
  "daily_codec nx \<longleftrightarrow> (\<forall>d. de_daily nx (ser_daily nx d) = Some d)"

lemma get_set_daily:
  "store_ok s \<Longrightarrow> daily_codec nx \<Longrightarrow>
   get_fee_credit_daily_spend nx (set_fee_credit_daily_spend nx pk d s) = (get_fee_credit_daily_spend nx s)(pk := d)"
  by (auto simp: get_fee_credit_daily_spend_def set_fee_credit_daily_spend_def acc.get_put fun_eq_iff
      fee_credit_daily_spend_key_for_pubkey_def daily_codec_def)

text \<open>
  The split of the fees of a cycle is exact: what is burned, what goes to the reward pool and
  what goes to the treasury always add up to the fees, the treasury gets nothing and the reward
  pool gets the floor of 30 per cent as long as the product fits 64 bits, and never more.
\<close>

theorem split_cycle_fees_exact:
  assumes "split_cycle_fees collected = (burned, rewards, treasury)"
  shows "unat burned + unat rewards + unat treasury = unat collected \<and> treasury = 0
    \<and> unat rewards \<le> unat collected * 3 div 10 \<and> (unat collected * 3000 < 2 ^ 64 \<longrightarrow> unat rewards = unat collected * 3 div 10)"
proof -
  have t: "treasury = 0" and r: "rewards = saturating_mul collected 3000 div 10000"
    and b: "burned = saturating_sub collected (min (saturating_add rewards treasury) collected)"
    using assms by (auto simp: split_cycle_fees_def Let_def tokenomics_defs saturating_mul_def)
  have ur: "unat rewards = min (2 ^ 64 - 1) (unat collected * 3000) div 10000"
    by (simp add: r unat_div saturating_unats)
  have le: "unat rewards \<le> unat collected * 3 div 10"
    unfolding ur by (rule order.trans[OF div_le_mono[of _ "unat collected * 3000"]]) (simp_all add: min_def)
  have "unat burned = unat collected - unat rewards"
    using le by (simp add: b t saturating_unats min_def word_le_nat_alt)
  moreover have "unat collected * 3000 < 2 ^ 64 \<Longrightarrow> unat rewards = unat collected * 3 div 10"
    by (simp add: ur min_def)
  ultimately show ?thesis using le t by simp
qed

theorem split_cycle_fees_exact_witness:
  "split_cycle_fees 105 = (74, 31, 0) \<and> unat (74 :: u64) + unat (31 :: u64) + unat (0 :: u64) = unat (105 :: u64)"
proof -
  have "split_cycle_fees 105 = (74, 31, 0)"
    by (simp add: split_cycle_fees_def tokenomics_defs saturating_mul_def saturating_add_def saturating_sub_def)
  from split_cycle_fees_exact[OF this] this show ?thesis by simp
qed

end
