(* ===== verification/Mempool.thy ===== *)
theory Mempool
  imports Accounts
begin

text \<open>
  Transactions on their way into a cycle: gossip messages and batches and the in-memory pool
  (\<open>catalyst-cli/src/tx.rs\<close>), the pool kept in metadata, admission checks and the selection of a
  batch (\<open>catalyst-cli/src/node.rs\<close>). Times are parameters; an \<open>Instant\<close> is a number of ticks.
\<close>

section \<open>From protocol to consensus entries\<close>

definition tx_sender_pubkey :: "Transaction \<Rightarrow> bytes option" where
  "tx_sender_pubkey tx =
     (if tx_type (core tx) \<in> {TransactionType.WorkerRegistration, SmartContract}
      then (case tx_entries (core tx) of [] \<Rightarrow> None | e # _ \<Rightarrow> Some (entry_public_key e))
      else sender_loop (tx_entries (core tx)) None)"

definition first_pubkey :: "Transaction \<Rightarrow> bytes" where
  "first_pubkey tx = (case tx_entries (core tx) of [] \<Rightarrow> replicate 32 0 | e # _ \<Rightarrow> entry_public_key e)"

definition evm_payload_of :: "('s, 'p) node_env \<Rightarrow> Transaction \<Rightarrow> EvmTxPayload" where
  "evm_payload_of nx tx =
     \<lparr>ep_nonce = nonce (core tx), ep_kind = opt_or (de_kind nx (tx_data (core tx))) (Call (replicate 20 0) [])\<rparr>"

definition tx_boundary_signature :: "('s, 'p) node_env \<Rightarrow> Transaction \<Rightarrow> bytes" where
  "tx_boundary_signature nx tx =
     (case tx_type (core tx) of
        TransactionType.WorkerRegistration \<Rightarrow> as_bytes ''WRKREG1'' @ signature tx
      | SmartContract \<Rightarrow>
          (case encode_evm_marker (ser_payload nx) (evm_payload_of nx tx) (signature tx) of
             Inl _ \<Rightarrow> signature tx
           | Inr m \<Rightarrow> m)
      | _ \<Rightarrow> signature tx)"

definition fee_debit_entries :: "u64 \<Rightarrow> bytes \<Rightarrow> bytes \<Rightarrow> TransactionEntry list" where
  "fee_debit_entries fee sender sg =
     (if fee = 0 then []
      else if 2 ^ 63 \<le> unat fee then []
      else [\<lparr>te_public_key = sender, te_amount = - fee, te_signature = sg\<rparr>])"

definition plain_entries :: "bytes \<Rightarrow> TxEntry list \<Rightarrow> TransactionEntry list" where
  "plain_entries sg es =
     List.map_filter (\<lambda>e. case entry_amount e of
         NonConfidential v \<Rightarrow> Some \<lparr>te_public_key = entry_public_key e, te_amount = v, te_signature = sg\<rparr>
       | Confidential _ _ \<Rightarrow> None) es"

definition to_consensus_entries :: "('s, 'p) node_env \<Rightarrow> Transaction \<Rightarrow> TransactionEntry list" where
  "to_consensus_entries nx tx =
     (let sg = tx_boundary_signature nx tx in
      if tx_type (core tx) \<in> {TransactionType.WorkerRegistration, SmartContract} then
        \<lparr>te_public_key = first_pubkey tx, te_amount = 0, te_signature = sg\<rparr>
          # fee_debit_entries (fees (core tx)) (first_pubkey tx) sg
      else
        plain_entries sg (tx_entries (core tx))
          @ (case tx_sender_pubkey tx of Some sender \<Rightarrow> fee_debit_entries (fees (core tx)) sender sg | None \<Rightarrow> []))"

section \<open>Messages\<close>

record TxGossip =
  tg_tx_id :: Hash
  tg_entries :: "TransactionEntry list"
  tg_created_at_ms :: u64

definition new_tx_gossip :: "('s, 'p) node_env \<Rightarrow> TransactionEntry list \<Rightarrow> u64 \<Rightarrow> TxGossip" where
  "new_tx_gossip nx es created_at_ms =
     \<lparr>tg_tx_id = hash_data (blake2b (ext nx)) (serialize_vec ser_tentry) es, tg_entries = es, tg_created_at_ms = created_at_ms\<rparr>"

record ProtocolTxGossip =
  pg_tx_id :: Hash
  pg_tx :: Transaction
  pg_received_at_ms :: u64

definition new_protocol_gossip :: "('s, 'p) node_env \<Rightarrow> Transaction \<Rightarrow> u64 \<Rightarrow> ProtocolTxGossip" where
  "new_protocol_gossip nx tx received_at_ms =
     \<lparr>pg_tx_id = tx_id_v2 (blake2b (ext nx)) tx, pg_tx = tx, pg_received_at_ms = received_at_ms\<rparr>"

definition validate_gossip :: "ProtocolTxGossip \<Rightarrow> u64 \<Rightarrow> (string, unit) result" where
  "validate_gossip msg now_secs =
     (let c = core (pg_tx msg) in
      case validate_basic (pg_tx msg) of
        Inl e \<Rightarrow> Inl e
      | Inr _ \<Rightarrow>
          if nonce c = 0 then Inl ''Transaction nonce must be > 0''
          else if fees c < min_fee (pg_tx msg) then
            Inl (''Transaction fee too low: fees='' @ show_nat (unat (fees c)) @ '' min_required='' @ show_nat (unat (min_fee (pg_tx msg))))
          else if now_secs < ucast (lock_time c) then
            Inl (''Transaction not yet unlocked: lock_time='' @ show_nat (unat (lock_time c)) @ '' now='' @ show_nat (unat now_secs))
          else Inr ())"

record TxBatch =
  tb_cycle :: u64
  tb_batch_hash :: Hash
  tb_entries :: "TransactionEntry list"

definition new_tx_batch :: "('s, 'p) node_env \<Rightarrow> u64 \<Rightarrow> TransactionEntry list \<Rightarrow> TxBatch" where
  "new_tx_batch nx cyc es =
     \<lparr>tb_cycle = cyc, tb_batch_hash = hash_data (blake2b (ext nx)) (serialize_vec ser_tentry) es, tb_entries = es\<rparr>"

record ProtocolTxBatch =
  pb_cycle :: u64
  pb_batch_hash :: Hash
  pb_txs :: "Transaction list"

definition new_protocol_tx_batch :: "('s, 'p) node_env \<Rightarrow> u64 \<Rightarrow> Transaction list \<Rightarrow> ProtocolTxBatch" where
  "new_protocol_tx_batch nx cyc txs =
     \<lparr>pb_cycle = cyc, pb_batch_hash = take 32 (blake2b (ext nx) (ser_txs nx txs)), pb_txs = txs\<rparr>"

definition verify_hash :: "('s, 'p) node_env \<Rightarrow> ProtocolTxBatch \<Rightarrow> bool" where
  "verify_hash nx b = (pb_batch_hash (new_protocol_tx_batch nx (pb_cycle b) (pb_txs b)) = pb_batch_hash b)"

definition protocol_tx_batch_disagrees_with_commit :: "ProtocolTxBatch \<Rightarrow> Hash \<times> u32 \<Rightarrow> bool" where
  "protocol_tx_batch_disagrees_with_commit b pinned =
     (case pinned of (h, tx_count) \<Rightarrow> pb_batch_hash b \<noteq> h \<or> (of_nat (length (pb_txs b)) :: u32) \<noteq> tx_count)"

section \<open>The pool in memory\<close>

record MempoolItem =
  mi_entries :: "TransactionEntry list"
  mi_sender :: "bytes option"
  mi_nonce :: "u64 option"
  mi_tx :: "Transaction option"
  mi_inserted_at :: nat

record Mempool =
  by_id :: "(Hash \<times> MempoolItem) list"
  mp_ttl :: nat
  max_txs :: nat
  max_per_sender :: nat
  drops_full :: u64
  drops_per_sender :: u64

definition new_mempool :: "environment \<Rightarrow> nat \<Rightarrow> nat \<Rightarrow> Mempool" where
  "new_mempool env ttl max_txs0 =
     \<lparr>by_id = [], mp_ttl = ttl, max_txs = max max_txs0 1,
      max_per_sender = max (unat (opt_or (Option.bind (env ''CATALYST_MEMPOOL_MAX_PER_SENDER'') parse_u64) 64)) 1,
      drops_full = 0, drops_per_sender = 0\<rparr>"

definition evict_expired :: "nat \<Rightarrow> Mempool \<Rightarrow> Mempool" where
  "evict_expired now m = m\<lparr>by_id := filter (\<lambda>(_, v). now - mi_inserted_at v \<le> mp_ttl m) (by_id m)\<rparr>"

definition mempool_insert :: "nat \<Rightarrow> TxGossip \<Rightarrow> Mempool \<Rightarrow> bool \<times> Mempool" where
  "mempool_insert now msg m0 =
     (let m = evict_expired now m0 in
      if max_txs m \<le> length (by_id m) then (False, m)
      else if map_of (by_id m) (tg_tx_id msg) \<noteq> None then (False, m)
      else (True, m\<lparr>by_id := hm_insert (tg_tx_id msg)
              \<lparr>mi_entries = tg_entries msg, mi_sender = None, mi_nonce = None, mi_tx = None, mi_inserted_at = now\<rparr> (by_id m)\<rparr>))"

definition sender_count :: "bytes \<Rightarrow> Mempool \<Rightarrow> nat" where
  "sender_count sender m = length (filter (\<lambda>(_, item). mi_sender item = Some sender) (by_id m))"

definition insert_protocol :: "('s, 'p) node_env \<Rightarrow> nat \<Rightarrow> u64 \<Rightarrow> ProtocolTxGossip \<Rightarrow> Mempool \<Rightarrow> bool \<times> Mempool" where
  "insert_protocol nx now now_secs msg m0 =
     (case validate_gossip msg now_secs of
        Inl _ \<Rightarrow> (False, m0)
      | Inr _ \<Rightarrow>
          let m = evict_expired now m0;
              sender = tx_sender_pubkey (pg_tx msg)
          in if max_txs m \<le> length (by_id m) then (False, m\<lparr>drops_full := saturating_add (drops_full m) 1\<rparr>)
             else if map_of (by_id m) (pg_tx_id msg) \<noteq> None then (False, m)
             else if (case sender of Some pk \<Rightarrow> max_per_sender m \<le> sender_count pk m | None \<Rightarrow> False)
             then (False, m\<lparr>drops_per_sender := saturating_add (drops_per_sender m) 1\<rparr>)
             else (True, m\<lparr>by_id := hm_insert (pg_tx_id msg)
                    \<lparr>mi_entries = to_consensus_entries nx (pg_tx msg), mi_sender = sender,
                     mi_nonce = Some (nonce (core (pg_tx msg))), mi_tx = Some (pg_tx msg), mi_inserted_at = now\<rparr> (by_id m)\<rparr>))"

definition max_nonce_for_sender :: "bytes \<Rightarrow> Mempool \<Rightarrow> u64 option" where
  "max_nonce_for_sender sender m =
     fold (\<lambda>(_, item) acc.
       case (mi_sender item, mi_nonce item) of
         (Some pk, Some n) \<Rightarrow> if pk = sender then Some (case acc of Some a \<Rightarrow> max a n | None \<Rightarrow> n) else acc
       | _ \<Rightarrow> acc) (by_id m) None"

definition freeze_and_drain_entries :: "nat \<Rightarrow> nat \<Rightarrow> Mempool \<Rightarrow> TransactionEntry list \<times> Mempool" where
  "freeze_and_drain_entries now max_entries m0 =
     (let m = evict_expired now m0
      in (take max_entries (concat (map (\<lambda>(_, item). mi_entries item) (by_id m))), m\<lparr>by_id := []\<rparr>))"

fun take_protocol_txs :: "nat \<Rightarrow> (Hash \<times> MempoolItem) list \<Rightarrow> Hash list \<Rightarrow> Transaction list \<Rightarrow> Transaction list" where
  "take_protocol_txs n items [] out = out"
| "take_protocol_txs n items (k # ks) out =
     (if n \<le> length out then out
      else take_protocol_txs n items ks
             (case Option.bind (map_of items k) mi_tx of Some tx \<Rightarrow> out @ [tx] | None \<Rightarrow> out))"

definition snapshot_protocol_txs :: "nat \<Rightarrow> nat \<Rightarrow> Mempool \<Rightarrow> Transaction list \<times> Mempool" where
  "snapshot_protocol_txs now n m0 =
     (let m = evict_expired now m0 in (take_protocol_txs n (by_id m) (sort (map fst (by_id m))) [], m))"

section \<open>Admission\<close>

definition tx_is_sane :: "TransactionEntry list \<Rightarrow> bool" where
  "tx_is_sane es \<longleftrightarrow> es \<noteq> [] \<and> sint (sum_list (map te_amount es)) \<le> 0"

definition saturating_sub_i64 :: "i64 \<Rightarrow> i64 \<Rightarrow> i64" where
  "saturating_sub_i64 a b = i64_of_int (max i64_min (min i64_max (sint a - sint b)))"

definition add_delta :: "bytes \<Rightarrow> i64 \<Rightarrow> (bytes \<times> i64) list \<Rightarrow> (bytes \<times> i64) list" where
  "add_delta pk v ds = hm_insert pk (saturating_add_i64 (opt_or (map_of ds pk) 0) v) ds"

definition deltas_funded :: "Store \<Rightarrow> (bytes \<times> i64) list \<Rightarrow> bool" where
  "deltas_funded s ds =
     list_all (\<lambda>(pk, d). sint d < 0 \<longrightarrow> \<not> sint (saturating_add_i64 (get_balance_i64 s pk) d) < 0) ds"

definition tx_is_funded :: "Store \<Rightarrow> TransactionEntry list \<Rightarrow> bool" where
  "tx_is_funded s es = deltas_funded s (fold (\<lambda>e. add_delta (te_public_key e) (te_amount e)) es [])"

fun public_amounts :: "TxEntry list \<Rightarrow> (bytes \<times> i64) list option" where
  "public_amounts [] = Some []"
| "public_amounts (e # es) =
     (case entry_amount e of
        NonConfidential v \<Rightarrow> map_option (Cons (entry_public_key e, v)) (public_amounts es)
      | Confidential _ _ \<Rightarrow> None)"

definition protocol_tx_is_funded_with_fee_credits :: "('s, 'p) node_env \<Rightarrow> Store \<Rightarrow> Transaction \<Rightarrow> u64 \<Rightarrow> bool" where
  "protocol_tx_is_funded_with_fee_credits nx s tx cyc =
     (case tx_sender_pubkey tx of
        None \<Rightarrow> False
      | Some sender \<Rightarrow>
          (case public_amounts (tx_entries (core tx)) of
             None \<Rightarrow> False
           | Some amounts \<Rightarrow>
               let ds = fold (\<lambda>(pk, v). add_delta pk v) amounts [];
                   fee0 = fees (core tx);
                   fee_due = (if TOKENOMICS_FEE_CREDITS_ENABLED \<and> 0 < fee0
                              then saturating_sub fee0 (fee_credit_spendable_for_cycle nx s sender fee0 cyc) else fee0)
               in if 2 ^ 63 \<le> unat fee_due then False
                  else deltas_funded s (if 0 < fee_due
                         then hm_insert sender (saturating_sub_i64 (opt_or (map_of ds sender) 0) fee_due) ds
                         else ds)))"

definition tx_nonce_expected_next :: "Store \<Rightarrow> bytes \<Rightarrow> u64 option \<Rightarrow> u64" where
  "tx_nonce_expected_next s sender pending_max_nonce =
     (let cur = get_nonce_u64 s sender
      in saturating_add (case pending_max_nonce of Some n \<Rightarrow> max n cur | None \<Rightarrow> cur) 1)"

section \<open>Selecting the batch of a cycle\<close>

record selection =
  sim_balances :: "(bytes \<times> i64) list"
  sim_nonces :: "(bytes \<times> u64) list"
  sim_credits :: "(bytes \<times> u64) list"
  sim_spent :: "(bytes \<times> u64) list"
  sel_out :: "Transaction list"
  used_entries :: nat

definition preload_balances :: "Store \<Rightarrow> TxEntry list \<Rightarrow> (bytes \<times> i64) list \<Rightarrow> (bytes \<times> i64) list" where
  "preload_balances s es bals =
     map (\<lambda>(pk, b). (pk, if b = 0 then get_balance_i64 s pk else b))
       (fold (\<lambda>e m. if map_of m (entry_public_key e) = None then hm_insert (entry_public_key e) 0 m else m) es bals)"

definition cached :: "bytes \<Rightarrow> u64 \<Rightarrow> (bytes \<times> u64) list \<Rightarrow> u64 \<times> (bytes \<times> u64) list" where
  "cached pk v m = (case map_of m pk of Some w \<Rightarrow> (w, m) | None \<Rightarrow> (v, hm_insert pk v m))"

definition simulate_fee :: "('s, 'p) node_env \<Rightarrow> Store \<Rightarrow> u64 \<Rightarrow> bytes \<Rightarrow> u64 \<Rightarrow> selection \<Rightarrow> u64 \<times> selection" where
  "simulate_fee nx s cyc sender fee st =
     (if TOKENOMICS_FEE_CREDITS_ENABLED \<and> 0 < fee then
        let (bal, credits) = cached sender (get_fee_credit_balance_u64 s sender) (sim_credits st);
            day = fee_credit_day_bucket cyc;
            daily = get_fee_credit_daily_spend nx s sender;
            (spent, spents) = cached sender (if day_bucket daily = day then spent_atoms daily else 0) (sim_spent st);
            remaining = saturating_sub TOKENOMICS_FEE_CREDITS_DAILY_SPEND_CAP_ATOMS spent;
            credit_spend = min (min fee bal) remaining
        in (if 0 < credit_spend then saturating_sub fee credit_spend else fee, st\<lparr>sim_credits := credits, sim_spent := spents\<rparr>)
      else (fee, st))"

definition commit_credits :: "bytes \<Rightarrow> u64 \<Rightarrow> u64 \<Rightarrow> selection \<Rightarrow> selection" where
  "commit_credits sender fee fee_due st =
     (if TOKENOMICS_FEE_CREDITS_ENABLED \<and> fee_due < fee then
        let credit_spend = saturating_sub fee fee_due
        in st\<lparr>sim_credits := hm_insert sender (saturating_sub (opt_or (map_of (sim_credits st) sender) 0) credit_spend) (sim_credits st),
              sim_spent := hm_insert sender (saturating_add (opt_or (map_of (sim_spent st) sender) 0) credit_spend) (sim_spent st)\<rparr>
      else st)"

definition take_tx :: "('s, 'p) node_env \<Rightarrow> nat \<Rightarrow> bytes \<Rightarrow> Transaction \<Rightarrow> (bytes \<times> i64) list \<Rightarrow> u64 \<Rightarrow> selection \<Rightarrow> selection" where
  "take_tx nx max_entries sender tx deltas fee_due st =
     (let entry_count = length (to_consensus_entries nx tx) in
      if \<not> list_all (\<lambda>(pk, d). 0 \<le> sint (saturating_add_i64 (opt_or (map_of (sim_balances st) pk) 0) d)) deltas then st
      else if max_entries < used_entries st + entry_count then st
      else
        let st1 = st\<lparr>sim_balances := fold (\<lambda>(pk, d) m. hm_insert pk (saturating_add_i64 (opt_or (map_of m pk) 0) d) m)
                       deltas (sim_balances st)\<rparr>;
            st2 = commit_credits sender (fees (core tx)) fee_due st1
        in st2\<lparr>sim_nonces := hm_insert sender (nonce (core tx)) (sim_nonces st2),
               used_entries := used_entries st2 + entry_count, sel_out := sel_out st2 @ [tx]\<rparr>)"

definition passes_checks :: "('s, 'p::ab_group_add) node_env \<Rightarrow> Store \<Rightarrow> u64 \<Rightarrow> Transaction \<Rightarrow> bool" where
  "passes_checks nx s now_secs tx \<longleftrightarrow>
     validate_basic tx = Inr () \<and> \<not> fees (core tx) < min_fee tx \<and> \<not> now_secs < ucast (lock_time (core tx))
     \<and> verify_protocol_tx_signature_with_domain nx s tx"

definition select_step ::
  "('s, 'p::ab_group_add) node_env \<Rightarrow> Store \<Rightarrow> u64 \<Rightarrow> nat \<Rightarrow> u64 \<Rightarrow> Transaction \<Rightarrow> selection \<Rightarrow> selection" where
  "select_step nx s cyc max_entries now_secs tx st =
     (if \<not> passes_checks nx s now_secs tx then st
      else
        (case tx_sender_pubkey tx of
           None \<Rightarrow> st
         | Some sender \<Rightarrow>
             let st1 = (if map_of (sim_nonces st) sender = None
                        then st\<lparr>sim_nonces := hm_insert sender (get_nonce_u64 s sender) (sim_nonces st)\<rparr> else st);
                 expected = saturating_add (opt_or (map_of (sim_nonces st1) sender) 0) 1
             in if nonce (core tx) \<noteq> expected then st1
                else
                  let st2 = st1\<lparr>sim_balances := preload_balances s (tx_entries (core tx)) (sim_balances st1)\<rparr> in
                  (case public_amounts (tx_entries (core tx)) of
                     None \<Rightarrow> st2
                   | Some amounts \<Rightarrow>
                       let (fee_due, st3) = simulate_fee nx s cyc sender (fees (core tx)) st2 in
                       if 2 ^ 63 \<le> unat fee_due then st3
                       else take_tx nx max_entries sender tx
                              (amounts @ (if 0 < fee_due then [(sender, - fee_due)] else [])) fee_due st3)))"

definition tx_order :: "('s, 'p) node_env \<Rightarrow> Transaction \<Rightarrow> Hash" where
  "tx_order nx tx = hash_data (blake2b (ext nx)) (serialize_vec ser_u8) (ser_tx nx tx)"

definition select_run ::
  "('s, 'p::ab_group_add) node_env \<Rightarrow> Store \<Rightarrow> u64 \<Rightarrow> nat \<Rightarrow> u64 \<Rightarrow> Transaction list \<Rightarrow> selection \<Rightarrow> selection" where
  "select_run nx s cyc max_entries now_secs txs st = fold (select_step nx s cyc max_entries now_secs) txs st"

definition validate_and_select_protocol_txs_for_construction ::
  "('s, 'p::ab_group_add) node_env \<Rightarrow> Store \<Rightarrow> u64 \<Rightarrow> Transaction list \<Rightarrow> nat \<Rightarrow> u64 \<Rightarrow> Transaction list" where
  "validate_and_select_protocol_txs_for_construction nx s cyc txs max_entries now_ms =
     sel_out (select_run nx s cyc max_entries (now_ms div 1000) (sort_key (tx_order nx) txs)
       \<lparr>sim_balances = [], sim_nonces = [], sim_credits = [], sim_spent = [], sel_out = [], used_entries = 0\<rparr>)"

section \<open>The pool kept in metadata\<close>

definition mempool_tx_key :: "Hash \<Rightarrow> string" where "mempool_tx_key txid = ''mempool:tx:'' @ hex_encode txid"
definition tx_raw_key :: "Hash \<Rightarrow> string" where "tx_raw_key txid = ''tx:raw:'' @ hex_encode txid"
definition tx_meta_key :: "Hash \<Rightarrow> string" where "tx_meta_key txid = ''tx:meta:'' @ hex_encode txid"
definition cycle_txids_key :: "u64 \<Rightarrow> string" where "cycle_txids_key cyc = ''tx:cycle:'' @ show_nat (unat cyc) @ '':txids''"

definition mempool_txid :: "('s, 'p) node_env \<Rightarrow> Transaction \<Rightarrow> Hash" where
  "mempool_txid nx tx = tx_id_v2 (blake2b (ext nx)) tx"

definition store_delete_meta :: "string \<Rightarrow> Store \<Rightarrow> Store" where
  "store_delete_meta k s = s\<lparr>metadata := (metadata s)(k := None)\<rparr>"

definition load_txids :: "('s, 'p) node_env \<Rightarrow> Store \<Rightarrow> string \<Rightarrow> Hash list" where
  "load_txids nx s key = opt_or (Option.bind (metadata s key) (de_txids nx)) []"

definition load_mempool_txids :: "('s, 'p) node_env \<Rightarrow> Store \<Rightarrow> Hash list" where
  "load_mempool_txids nx s = load_txids nx s ''mempool:txids''"

definition save_mempool_txids :: "('s, 'p) node_env \<Rightarrow> Hash list \<Rightarrow> Store \<Rightarrow> Store" where
  "save_mempool_txids nx ids s = store_set_meta ''mempool:txids'' (ser_txids nx (sort_dedup ids)) s"

definition load_cycle_txids :: "('s, 'p) node_env \<Rightarrow> Store \<Rightarrow> u64 \<Rightarrow> Hash list" where
  "load_cycle_txids nx s cyc = load_txids nx s (cycle_txids_key cyc)"

definition persist_cycle_txids :: "('s, 'p) node_env \<Rightarrow> u64 \<Rightarrow> Hash list \<Rightarrow> Store \<Rightarrow> Store" where
  "persist_cycle_txids nx cyc ids s = store_set_meta (cycle_txids_key cyc) (ser_txids nx (sort_dedup ids)) s"

definition pending_meta :: "Hash \<Rightarrow> u64 \<Rightarrow> Transaction \<Rightarrow> TxMeta" where
  "pending_meta txid now_ms tx =
     \<lparr>tm_tx_id = txid, tm_status = Pending, tm_received_at_ms = now_ms, tm_sender = tx_sender_pubkey tx,
      tm_nonce = nonce (core tx), tm_fees = fees (core tx), tm_selected_cycle = None, tm_applied_cycle = None,
      tm_applied_lsu_hash = None, tm_applied_state_root = None, tm_applied_success = None, tm_applied_error = None,
      tm_evm_gas_used = None, tm_evm_return = None\<rparr>"

definition load_meta :: "('s, 'p) node_env \<Rightarrow> Store \<Rightarrow> Hash \<Rightarrow> TxMeta option" where
  "load_meta nx s txid = Option.bind (metadata s (tx_meta_key txid)) (de_meta nx)"

definition persist_mempool_tx :: "('s, 'p) node_env \<Rightarrow> u64 \<Rightarrow> Transaction \<Rightarrow> Store \<Rightarrow> Store" where
  "persist_mempool_tx nx now_ms tx s =
     (let txid = mempool_txid nx tx;
          s1 = store_set_meta (tx_raw_key txid) (ser_tx nx tx) (store_set_meta (mempool_tx_key txid) (ser_tx nx tx) s);
          m0 = opt_or (load_meta nx s1 txid) (pending_meta txid now_ms tx);
          m = (if tm_status m0 = Applied then m0
               else m0\<lparr>tm_status := Pending, tm_received_at_ms := max (tm_received_at_ms m0) now_ms,
                       tm_sender := (case tm_sender m0 of Some pk \<Rightarrow> Some pk | None \<Rightarrow> tx_sender_pubkey tx),
                       tm_nonce := max (tm_nonce m0) (nonce (core tx)), tm_fees := max (tm_fees m0) (fees (core tx))\<rparr>);
          s2 = store_set_meta (tx_meta_key txid) (ser_meta nx m) s1;
          ids = load_mempool_txids nx s2
      in if txid \<in> set ids then s2 else save_mempool_txids nx (ids @ [txid]) s2)"

definition delete_persisted_mempool_tx :: "('s, 'p) node_env \<Rightarrow> Hash \<Rightarrow> Store \<Rightarrow> Store" where
  "delete_persisted_mempool_tx nx txid s =
     (let s1 = store_delete_meta (mempool_tx_key txid) s
      in save_mempool_txids nx (filter (\<lambda>x. x \<noteq> txid) (load_mempool_txids nx s1)) s1)"

definition update_tx_meta_status_selected :: "('s, 'p) node_env \<Rightarrow> u64 \<Rightarrow> Transaction \<Rightarrow> u64 \<Rightarrow> Store \<Rightarrow> Store" where
  "update_tx_meta_status_selected nx now_ms tx cyc s =
     (let txid = mempool_txid nx tx;
          m0 = opt_or (load_meta nx s txid) (pending_meta txid now_ms tx);
          m = (if tm_status m0 \<noteq> Applied then m0\<lparr>tm_status := Selected, tm_selected_cycle := Some cyc\<rparr> else m0)
      in store_set_meta (tx_meta_key txid) (ser_meta nx m) s)"

definition stale_or_invalid :: "('s, 'p::ab_group_add) node_env \<Rightarrow> Store \<Rightarrow> Hash \<Rightarrow> bool" where
  "stale_or_invalid nx s txid =
     (case Option.bind (metadata s (mempool_tx_key txid)) (de_tx nx) of
        None \<Rightarrow> True
      | Some tx \<Rightarrow>
          validate_basic tx \<noteq> Inr () \<or> \<not> verify_protocol_tx_signature_with_domain nx s tx
          \<or> (case tx_sender_pubkey tx of None \<Rightarrow> True | Some sender \<Rightarrow> nonce (core tx) \<le> get_nonce_u64 s sender))"

definition prune_persisted_mempool :: "('s, 'p::ab_group_add) node_env \<Rightarrow> Store \<Rightarrow> Store" where
  "prune_persisted_mempool nx s =
     fold (\<lambda>txid t. if stale_or_invalid nx t txid then delete_persisted_mempool_tx nx txid t else t) (load_mempool_txids nx s) s"

definition rehydrate_one :: "('s, 'p::ab_group_add) node_env \<Rightarrow> nat \<Rightarrow> u64 \<Rightarrow> Hash \<Rightarrow> Store \<times> Mempool \<Rightarrow> Store \<times> Mempool" where
  "rehydrate_one nx now now_ms txid sm =
     (case sm of (s, m) \<Rightarrow>
        (case Option.bind (metadata s (mempool_tx_key txid)) (de_tx nx) of
           None \<Rightarrow> (s, m)
         | Some tx \<Rightarrow>
             if validate_basic tx \<noteq> Inr () \<or> \<not> verify_protocol_tx_signature_with_domain nx s tx
             then (delete_persisted_mempool_tx nx txid s, m)
             else if now_ms div 1000 < ucast (lock_time (core tx)) then (s, m)
             else
               (case tx_sender_pubkey tx of
                  None \<Rightarrow> (delete_persisted_mempool_tx nx txid s, m)
                | Some sender \<Rightarrow>
                    if nonce (core tx) \<noteq> tx_nonce_expected_next s sender (max_nonce_for_sender sender m) then
                      (if nonce (core tx) \<le> get_nonce_u64 s sender then delete_persisted_mempool_tx nx txid s else s, m)
                    else (s, snd (insert_protocol nx now (now_ms div 1000) (new_protocol_gossip nx tx now_ms) m)))))"

definition rehydrate_mempool_from_storage :: "('s, 'p::ab_group_add) node_env \<Rightarrow> nat \<Rightarrow> u64 \<Rightarrow> Store \<Rightarrow> Mempool \<Rightarrow> Store \<times> Mempool" where
  "rehydrate_mempool_from_storage nx now now_ms s m =
     fold (rehydrate_one nx now now_ms) (sort_dedup (load_mempool_txids nx s)) (s, m)"

definition should_skip_mempool_rebroadcast :: "(Hash \<times> u64) list \<Rightarrow> Hash \<Rightarrow> u64 \<Rightarrow> u64 \<Rightarrow> bool" where
  "should_skip_mempool_rebroadcast last_broadcast txid now_ms min_interval_ms =
     (case map_of last_broadcast txid of
        Some sent_at \<Rightarrow> saturating_sub now_ms sent_at < min_interval_ms
      | None \<Rightarrow> False)"

definition rebroadcast_one ::
  "('s, 'p::ab_group_add) node_env \<Rightarrow> Store \<Rightarrow> u64 \<Rightarrow> u64 \<Rightarrow> Hash \<Rightarrow> (Hash \<times> u64) list \<times> ProtocolTxGossip list
     \<Rightarrow> (Hash \<times> u64) list \<times> ProtocolTxGossip list" where
  "rebroadcast_one nx s min_interval_ms now_ms txid acc =
     (case acc of (last_broadcast, sent) \<Rightarrow>
        if should_skip_mempool_rebroadcast last_broadcast txid now_ms min_interval_ms then acc
        else
          (case Option.bind (metadata s (mempool_tx_key txid)) (de_tx nx) of
             None \<Rightarrow> acc
           | Some tx \<Rightarrow>
               if validate_basic tx \<noteq> Inr () \<or> \<not> verify_protocol_tx_signature_with_domain nx s tx then acc
               else if now_ms div 1000 < ucast (lock_time (core tx)) then acc
               else if (case tx_sender_pubkey tx of Some sender \<Rightarrow> nonce (core tx) \<le> get_nonce_u64 s sender | None \<Rightarrow> False) then acc
               else (hm_insert txid now_ms last_broadcast, sent @ [new_protocol_gossip nx tx now_ms])))"

definition rebroadcast_persisted_mempool ::
  "('s, 'p::ab_group_add) node_env \<Rightarrow> environment \<Rightarrow> u64 \<Rightarrow> Store \<Rightarrow> (Hash \<times> u64) list
     \<Rightarrow> (Hash \<times> u64) list \<times> ProtocolTxGossip list" where
  "rebroadcast_persisted_mempool nx env now_ms s last_broadcast =
     (let ids = sort_dedup (load_mempool_txids nx s)
      in fold (rebroadcast_one nx s (mempool_rebroadcast_min_interval_ms env) now_ms) ids
           (filter (\<lambda>(txid, _). txid \<in> set ids) last_broadcast, []))"

end
