(* ===== verification/Admission.thy ===== *)
theory Admission
  imports Mempool
begin

text \<open>
  What admission guarantees: the pool stays within its limits whatever is thrown at it, and the
  batch chosen for a cycle holds authenticated transactions with consecutive nonces within the
  entry budget, independent of the order in which they arrived; and where it is too lenient.
\<close>

section \<open>The pool stays bounded\<close>

definition mempool_ok :: "Mempool \<Rightarrow> bool" where
  "mempool_ok m \<longleftrightarrow> distinct (map fst (by_id m)) \<and> length (by_id m) \<le> max_txs m
     \<and> (\<forall>pk. sender_count pk m \<le> max_per_sender m)"

datatype ('s, 'p) mempool_op =
    OpInsert nat TxGossip
  | OpProtocol "('s, 'p) node_env" nat u64 ProtocolTxGossip
  | OpDrain nat nat
  | OpSnapshot nat nat
  | OpRehydrate "('s, 'p) node_env" nat u64 Store

fun mempool_step :: "('s, 'p::ab_group_add) mempool_op \<Rightarrow> Mempool \<Rightarrow> Mempool" where
  "mempool_step (OpInsert now msg) m = snd (mempool_insert now msg m)"
| "mempool_step (OpProtocol nx now now_secs msg) m = snd (insert_protocol nx now now_secs msg m)"
| "mempool_step (OpDrain now n) m = snd (freeze_and_drain_entries now n m)"
| "mempool_step (OpSnapshot now n) m = snd (snapshot_protocol_txs now n m)"
| "mempool_step (OpRehydrate nx now now_ms s) m = snd (rehydrate_mempool_from_storage nx now now_ms s m)"

definition limits :: "Mempool \<Rightarrow> nat \<times> nat \<times> nat" where
  "limits m = (mp_ttl m, max_txs m, max_per_sender m)"

lemma hm_insert_fresh: "map_of m k = None \<Longrightarrow> hm_insert k v m = m @ [(k, v)]"
  by (induction m) (auto simp: map_of_eq_None_iff split: if_splits)

lemma length_filter_filter: "length (filter P (filter Q xs)) \<le> length (filter P xs)"
  by (induction xs) auto

lemma evict_ok: "mempool_ok m \<Longrightarrow> mempool_ok (evict_expired now m)"
proof -
  assume ok: "mempool_ok m"
  have "sender_count pk (evict_expired now m) \<le> sender_count pk m" for pk
    by (simp add: sender_count_def evict_expired_def length_filter_filter del: filter_filter)
  moreover have "length (by_id (evict_expired now m)) \<le> length (by_id m)" by (simp add: evict_expired_def)
  ultimately show ?thesis
    using ok by (auto simp: mempool_ok_def evict_expired_def distinct_map_filter
        intro: order.trans order.trans[OF length_filter_le])
qed

lemma add_item_ok:
  assumes "mempool_ok m" and "map_of (by_id m) k = None" and "length (by_id m) < max_txs m"
    and "\<And>pk. mi_sender it = Some pk \<Longrightarrow> sender_count pk m < max_per_sender m"
  shows "mempool_ok (m\<lparr>by_id := hm_insert k it (by_id m)\<rparr>)"
proof -
  have "sender_count pk (m\<lparr>by_id := by_id m @ [(k, it)]\<rparr>) \<le> max_per_sender m" for pk
    using assms(1) assms(4)[of pk] by (auto simp: sender_count_def mempool_ok_def intro: Suc_leI)
  then show ?thesis
    using assms(1-3) by (simp add: hm_insert_fresh mempool_ok_def map_of_eq_None_iff)
qed

lemma insert_ok: "mempool_ok m \<Longrightarrow> mempool_ok (snd (mempool_insert now msg m))"
  using evict_ok[of m now]
  by (auto simp: mempool_insert_def Let_def intro!: add_item_ok)

lemma mempool_ok_drops [simp]:
  "mempool_ok (m\<lparr>drops_full := d\<rparr>) = mempool_ok m" "mempool_ok (m\<lparr>drops_per_sender := d\<rparr>) = mempool_ok m"
  by (simp_all add: mempool_ok_def sender_count_def)

lemma insert_protocol_ok: "mempool_ok m \<Longrightarrow> mempool_ok (snd (insert_protocol nx now now_secs msg m))"
  using evict_ok[of m now]
  by (auto simp: insert_protocol_def Let_def not_le split: sum.split option.split intro!: add_item_ok)

lemma rehydrate_ok: "mempool_ok m \<Longrightarrow> mempool_ok (snd (rehydrate_mempool_from_storage nx now now_ms s m))"
proof -
  have one: "mempool_ok (snd sm) \<Longrightarrow> mempool_ok (snd (rehydrate_one nx now now_ms txid sm))" for txid sm
    by (auto simp: rehydrate_one_def insert_protocol_ok split: prod.split option.split)
  have "mempool_ok (snd sm) \<Longrightarrow> mempool_ok (snd (fold (rehydrate_one nx now now_ms) ids sm))" for ids sm
    by (induction ids arbitrary: sm) (simp_all add: one)
  then show "mempool_ok m \<Longrightarrow> ?thesis" by (simp add: rehydrate_mempool_from_storage_def)
qed

lemma drain_ok: "mempool_ok (snd (freeze_and_drain_entries now n m))"
  by (simp add: freeze_and_drain_entries_def Let_def mempool_ok_def sender_count_def)

lemma step_ok: "mempool_ok m \<Longrightarrow> mempool_ok (mempool_step op m)"
  by (cases op) (simp_all add: insert_ok insert_protocol_ok rehydrate_ok drain_ok snapshot_protocol_txs_def evict_ok Let_def)

lemma insert_limits: "limits (snd (mempool_insert now msg m)) = limits m" "limits (snd (insert_protocol nx now now_secs g m)) = limits m"
  by (auto simp: limits_def mempool_insert_def insert_protocol_def evict_expired_def Let_def split: sum.split option.split)

lemma step_limits: "limits (mempool_step op m) = limits m"
proof (cases op)
  case (OpRehydrate nx now now_ms s)
  have one: "limits (snd (rehydrate_one nx now now_ms txid sm)) = limits (snd sm)" for txid sm
    by (auto simp: rehydrate_one_def insert_limits split: prod.split option.split)
  have "limits (snd (fold (rehydrate_one nx now now_ms) ids sm)) = limits (snd sm)" for ids sm
    by (induction ids arbitrary: sm) (simp_all add: one)
  then show ?thesis by (simp add: OpRehydrate rehydrate_mempool_from_storage_def)
qed (simp_all add: insert_limits, simp_all add: limits_def snapshot_protocol_txs_def freeze_and_drain_entries_def evict_expired_def Let_def)

text \<open>
  Whatever is inserted, expired, drained, snapshotted or reloaded from disk, in any order and
  at any times, the pool holds each transaction id once, at most its configured number of
  transactions, and at most the configured number for any sender.
\<close>

theorem mempool_bounded:
  fixes env :: environment and ops :: "('s, 'p::ab_group_add) mempool_op list"
  shows "let m = fold mempool_step ops (new_mempool env ttl n) in
     distinct (map fst (by_id m)) \<and> length (by_id m) \<le> max n 1
     \<and> (\<forall>pk. sender_count pk m \<le> max_per_sender (new_mempool env ttl n))"
proof -
  have "mempool_ok m \<Longrightarrow> mempool_ok (fold mempool_step ops m)" "limits (fold mempool_step ops m) = limits m" for m
    by (induction ops arbitrary: m) (simp_all add: step_ok step_limits)
  moreover have "mempool_ok (new_mempool env ttl n)" by (simp add: mempool_ok_def new_mempool_def sender_count_def)
  moreover have "max_txs (new_mempool env ttl n) = max n 1" by (simp add: new_mempool_def)
  ultimately show ?thesis unfolding Let_def by (auto simp: mempool_ok_def limits_def) metis+
qed

section \<open>What a selected batch holds\<close>

definition nonce_view :: "Store \<Rightarrow> selection \<Rightarrow> bytes \<Rightarrow> u64" where
  "nonce_view s st pk = opt_or (map_of (sim_nonces st) pk) (get_nonce_u64 s pk)"

definition sender_txs :: "bytes \<Rightarrow> Transaction list \<Rightarrow> Transaction list" where
  "sender_txs pk txs = filter (\<lambda>tx. tx_sender_pubkey tx = Some pk) txs"

definition batch_entries :: "('s, 'p) node_env \<Rightarrow> Transaction list \<Rightarrow> nat" where
  "batch_entries nx txs = (\<Sum>tx\<leftarrow>txs. length (to_consensus_entries nx tx))"

lemma simulate_fee_keeps:
  "simulate_fee nx s cyc sender fee st = (fee_due, st') \<Longrightarrow>
   sel_out st' = sel_out st \<and> used_entries st' = used_entries st \<and> sim_nonces st' = sim_nonces st \<and> sim_balances st' = sim_balances st"
  by (auto simp: simulate_fee_def Let_def split: prod.splits if_splits)

lemma commit_credits_keeps [simp]:
  "sel_out (commit_credits sender fee due st) = sel_out st" "used_entries (commit_credits sender fee due st) = used_entries st"
  "sim_nonces (commit_credits sender fee due st) = sim_nonces st" "sim_balances (commit_credits sender fee due st) = sim_balances st"
  by (simp_all add: commit_credits_def Let_def)

definition skipped :: "Store \<Rightarrow> selection \<Rightarrow> selection \<Rightarrow> bool" where
  "skipped s st st' \<longleftrightarrow> sel_out st' = sel_out st \<and> used_entries st' = used_entries st \<and> nonce_view s st' = nonce_view s st"

definition taken :: "('s, 'p) node_env \<Rightarrow> Store \<Rightarrow> nat \<Rightarrow> Transaction \<Rightarrow> bytes \<Rightarrow> selection \<Rightarrow> selection \<Rightarrow> bool" where
  "taken nx s max_entries tx sender st st' \<longleftrightarrow> sel_out st' = sel_out st @ [tx]
     \<and> used_entries st' = used_entries st + length (to_consensus_entries nx tx) \<and> used_entries st' \<le> max_entries
     \<and> nonce_view s st' = (nonce_view s st)(sender := nonce (core tx))"

lemma nonce_view_cong: "sim_nonces st' = sim_nonces st \<Longrightarrow> nonce_view s st' = nonce_view s st"
  by (simp add: nonce_view_def fun_eq_iff)

lemma take_tx_effect:
  "skipped s st (take_tx nx max_entries sender tx deltas due st) \<or> taken nx s max_entries tx sender st (take_tx nx max_entries sender tx deltas due st)"
  by (auto simp: take_tx_def Let_def skipped_def taken_def nonce_view_def map_of_hm_insert fun_eq_iff)

lemma select_step_effect:
  "skipped s st (select_step nx s cyc max_entries now_secs tx st)
   \<or> (\<exists>sender. passes_checks nx s now_secs tx \<and> tx_sender_pubkey tx = Some sender
        \<and> nonce (core tx) = saturating_add (nonce_view s st sender) 1
        \<and> taken nx s max_entries tx sender st (select_step nx s cyc max_entries now_secs tx st))"
proof (cases "passes_checks nx s now_secs tx \<and> tx_sender_pubkey tx \<noteq> None")
  case True
  then obtain sender where pc: "passes_checks nx s now_secs tx" and se: "tx_sender_pubkey tx = Some sender" by auto
  define st1 where "st1 = (if map_of (sim_nonces st) sender = None
     then st\<lparr>sim_nonces := hm_insert sender (get_nonce_u64 s sender) (sim_nonces st)\<rparr> else st)"
  have v1: "skipped s st st1" "opt_or (map_of (sim_nonces st1) sender) 0 = nonce_view s st sender"
    by (auto simp: skipped_def st1_def nonce_view_def map_of_hm_insert fun_eq_iff)
  define st2 where "st2 = st1\<lparr>sim_balances := preload_balances s (tx_entries (core tx)) (sim_balances st1)\<rparr>"
  have v2: "skipped s st st2" using v1(1) nonce_view_cong[of st2 st1 s] by (simp add: st2_def skipped_def)
  obtain due st3 where fee: "simulate_fee nx s cyc sender (fees (core tx)) st2 = (due, st3)" by (cases "simulate_fee nx s cyc sender (fees (core tx)) st2")
  have v3: "skipped s st st3" using v2 simulate_fee_keeps[OF fee] nonce_view_cong[of st3 st2 s] by (simp add: skipped_def)
  have chain: "skipped s st st4 \<or> taken nx s max_entries tx sender st st4"
    if "skipped s st3 st4 \<or> taken nx s max_entries tx sender st3 st4" for st4
    using that v3 by (auto simp: skipped_def taken_def)
  show ?thesis
    using pc se v1 v2 v3 fee chain[OF take_tx_effect]
    by (auto simp: select_step_def Let_def st1_def[symmetric] st2_def[symmetric] split: option.split)
qed (auto simp: select_step_def skipped_def)

definition select_inv :: "('s, 'p::ab_group_add) node_env \<Rightarrow> Store \<Rightarrow> u64 \<Rightarrow> nat \<Rightarrow> selection \<Rightarrow> bool" where
  "select_inv nx s now_secs max_entries st \<longleftrightarrow>
     (\<forall>tx \<in> set (sel_out st). passes_checks nx s now_secs tx \<and> tx_sender_pubkey tx \<noteq> None)
     \<and> used_entries st = batch_entries nx (sel_out st) \<and> used_entries st \<le> max_entries
     \<and> (\<forall>pk. unat (nonce_view s st pk) = unat (get_nonce_u64 s pk) + length (sender_txs pk (sel_out st))
          \<and> map (\<lambda>tx. unat (nonce (core tx))) (sender_txs pk (sel_out st))
              = [Suc (unat (get_nonce_u64 s pk)) ..< Suc (unat (nonce_view s st pk))])"

lemma select_inv_step:
  assumes "select_inv nx s now_secs max_entries st" and "\<forall>pk. unat (get_nonce_u64 s pk) + Suc (length (sel_out st)) < 2 ^ 64"
  shows "select_inv nx s now_secs max_entries (select_step nx s cyc max_entries now_secs tx st)
    \<and> length (sel_out (select_step nx s cyc max_entries now_secs tx st)) \<le> Suc (length (sel_out st))"
proof -
  let ?st = "select_step nx s cyc max_entries now_secs tx st"
  consider (skip) "skipped s st ?st"
    | (tk) pk where "passes_checks nx s now_secs tx" "tx_sender_pubkey tx = Some pk"
      "nonce (core tx) = saturating_add (nonce_view s st pk) 1" "taken nx s max_entries tx pk st ?st"
    using select_step_effect[of s st nx cyc max_entries now_secs tx] by blast
  then show ?thesis
  proof cases
    case skip
    then show ?thesis using assms(1) by (simp add: select_inv_def skipped_def)
  next
    case tk
    have len: "length (sender_txs pk (sel_out st)) \<le> length (sel_out st)" by (simp add: sender_txs_def)
    have v: "unat (nonce_view s st pk) = unat (get_nonce_u64 s pk) + length (sender_txs pk (sel_out st))"
      using assms(1) by (simp add: select_inv_def)
    have "unat (nonce_view s st pk) + 1 < 2 ^ 64" using spec[OF assms(2), of pk] len unfolding v by simp
    then have n: "unat (nonce (core tx)) = Suc (unat (nonce_view s st pk))" by (simp add: tk(3) saturating_unats)
    show ?thesis
      using assms(1) tk(1,2,4) n
      by (auto simp: select_inv_def taken_def batch_entries_def sender_txs_def)
  qed
qed

lemma select_inv_run:
  assumes "select_inv nx s now_secs max_entries st" and "\<forall>pk. unat (get_nonce_u64 s pk) + length (sel_out st) + length txs < 2 ^ 64"
  shows "select_inv nx s now_secs max_entries (select_run nx s cyc max_entries now_secs txs st)"
  using assms
proof (induction txs arbitrary: st)
  case (Cons tx txs)
  let ?st = "select_step nx s cyc max_entries now_secs tx st"
  have b: "\<forall>pk. unat (get_nonce_u64 s pk) + Suc (length (sel_out st)) < 2 ^ 64"
  proof
    show "unat (get_nonce_u64 s pk) + Suc (length (sel_out st)) < 2 ^ 64" for pk
      using spec[OF Cons.prems(2), of pk] by simp
  qed
  note st = select_inv_step[OF Cons.prems(1) b, of cyc tx]
  have "unat (get_nonce_u64 s pk) + length (sel_out ?st) + length txs < 2 ^ 64" for pk
    using conjunct2[OF st] spec[OF Cons.prems(2), of pk] by simp
  with Cons.IH[of ?st] st show ?case by (simp add: select_run_def)
qed (simp add: select_run_def)

lemma select_run_subset: "set (sel_out (select_run nx s cyc max_entries now_secs txs st)) \<subseteq> set (sel_out st) \<union> set txs"
proof (induction txs arbitrary: st)
  case (Cons tx txs)
  have "set (sel_out (select_step nx s cyc max_entries now_secs tx st)) \<subseteq> insert tx (set (sel_out st))"
    using select_step_effect[of s st nx cyc max_entries now_secs tx] by (auto simp: skipped_def taken_def)
  with Cons.IH[of "select_step nx s cyc max_entries now_secs tx st"] show ?case by (auto simp: select_run_def)
qed (simp add: select_run_def)

lemma selection_order_free:
  assumes "mset txs' = mset txs" and "inj_on (tx_order nx) (set txs)"
  shows "validate_and_select_protocol_txs_for_construction nx s cyc txs' max_entries now_ms
    = validate_and_select_protocol_txs_for_construction nx s cyc txs max_entries now_ms"
proof -
  have "sort_key (tx_order nx) txs = sort_key (tx_order nx) txs'"
    by (rule sort_key_inj_key_eq) (use assms in simp_all)
  then show ?thesis by (simp add: validate_and_select_protocol_txs_for_construction_def)
qed

text \<open>
  C15: A selected batch holds only transactions that were offered, each well formed, with enough
  fee, unlocked and correctly signed; the transactions of a sender carry consecutive nonces from
  the sender's next one on; the ledger entries fit the budget; and the batch does not depend on
  the order in which the transactions arrived.
\<close>

theorem selection_sound:
  assumes "\<forall>pk. unat (get_nonce_u64 s pk) + length txs < 2 ^ 64" and "inj_on (tx_order nx) (set txs)"
  shows "let batch = validate_and_select_protocol_txs_for_construction nx s cyc txs max_entries now_ms in
    set batch \<subseteq> set txs \<and> (\<forall>tx \<in> set batch. passes_checks nx s (now_ms div 1000) tx)
    \<and> (\<forall>pk. map (\<lambda>tx. unat (nonce (core tx))) (sender_txs pk batch)
          = [Suc (unat (get_nonce_u64 s pk)) ..< Suc (unat (get_nonce_u64 s pk) + length (sender_txs pk batch))])
    \<and> (\<Sum>tx\<leftarrow>batch. length (to_consensus_entries nx tx)) \<le> max_entries
    \<and> (\<forall>txs'. mset txs' = mset txs \<longrightarrow>
          validate_and_select_protocol_txs_for_construction nx s cyc txs' max_entries now_ms = batch)"
proof -
  define st where "st = \<lparr>sim_balances = [], sim_nonces = [], sim_credits = [], sim_spent = [], sel_out = [], used_entries = 0\<rparr>"
  define fin where "fin = select_run nx s cyc max_entries (now_ms div 1000) (sort_key (tx_order nx) txs) st"
  have batch: "validate_and_select_protocol_txs_for_construction nx s cyc txs max_entries now_ms = sel_out fin"
    by (simp add: validate_and_select_protocol_txs_for_construction_def fin_def st_def)
  have "select_inv nx s (now_ms div 1000) max_entries st"
    by (simp add: st_def select_inv_def nonce_view_def batch_entries_def sender_txs_def)
  then have inv: "select_inv nx s (now_ms div 1000) max_entries fin"
    unfolding fin_def by (rule select_inv_run) (use assms(1) in \<open>simp add: st_def\<close>)
  have "set (sel_out fin) \<subseteq> set txs"
    using select_run_subset[of nx s cyc max_entries "now_ms div 1000" "sort_key (tx_order nx) txs" st] by (simp add: st_def fin_def)
  moreover have "\<forall>txs'. mset txs' = mset txs \<longrightarrow>
      validate_and_select_protocol_txs_for_construction nx s cyc txs' max_entries now_ms = sel_out fin"
    using selection_order_free[OF _ assms(2)] batch by metis
  ultimately show ?thesis
    using inv unfolding Let_def batch select_inv_def batch_entries_def by simp
qed

section \<open>What selection does not check\<close>

text \<open>
  Selection looks at each debit of a transaction on its own and never at the sum of its entries.
  A transfer whose amount and whose fee each fit the balance is selected although together they
  do not, and whatever the amount it credits.
\<close>

lemma selection_single:
  assumes "passes_checks nx s (now_ms div 1000) tx" and "tx_sender_pubkey tx = Some pk"
    and "tx_type (core tx) \<notin> {TransactionType.WorkerRegistration, SmartContract}"
    and "tx_entries (core tx) = [\<lparr>entry_public_key = pk, entry_amount = NonConfidential (- a)\<rparr>,
                                 \<lparr>entry_public_key = r, entry_amount = NonConfidential b\<rparr>]"
    and "pk \<noteq> r" and "nonce (core tx) = saturating_add (get_nonce_u64 s pk) 1" and "get_fee_credit_balance_u64 s pk = 0"
    and "0 < sint a" and "sint a \<le> sint (get_balance_i64 s pk)" and "0 < fees (core tx)"
    and "unat (fees (core tx)) < 2 ^ 63" and "sint (fees (core tx)) \<le> sint (get_balance_i64 s pk)"
    and "0 \<le> sint b" and "0 \<le> sint (get_balance_i64 s r)" and "3 \<le> max_entries"
  shows "validate_and_select_protocol_txs_for_construction nx s cyc [tx] max_entries now_ms = [tx]"
proof -
  have fits: "0 \<le> sint (saturating_add_i64 x (- y))" if "0 < sint y" "sint y \<le> sint x" for x y :: i64
  proof -
    have "sint (- y) = - sint y" using that(1) by (simp add: sint_minus_i64)
    then show ?thesis using that by (simp add: sint_saturating_add_i64 i64_min_def i64_max_def)
  qed
  have fee: "0 < sint (fees (core tx))" using assms(10,11) by (simp add: sint_small word_less_def)
  have pre: "preload_balances s (tx_entries (core tx)) [] = [(pk, get_balance_i64 s pk), (r, get_balance_i64 s r)]"
    using assms(5) by (auto simp: preload_balances_def assms(4))
  have due: "simulate_fee nx s cyc pk (fees (core tx)) st = (fees (core tx), snd (simulate_fee nx s cyc pk (fees (core tx)) st))"
    if "sim_credits st = []" for st
    using that assms(7) by (simp add: simulate_fee_def Let_def cached_def split: prod.split)
  define st0 where "st0 = \<lparr>sim_balances = [], sim_nonces = [], sim_credits = [], sim_spent = [], sel_out = [], used_entries = 0\<rparr>"
  define st2 where "st2 = st0\<lparr>sim_nonces := [(pk, get_nonce_u64 s pk)],
     sim_balances := [(pk, get_balance_i64 s pk), (r, get_balance_i64 s r)]\<rparr>"
  obtain st3 where st3: "simulate_fee nx s cyc pk (fees (core tx)) st2 = (fees (core tx), st3)"
    using due[of st2] by (cases "simulate_fee nx s cyc pk (fees (core tx)) st2") (simp add: st2_def st0_def)
  note keep = simulate_fee_keeps[OF st3]
  have entries: "length (to_consensus_entries nx tx) = 3"
    using assms(2,3,10,11) by (simp add: to_consensus_entries_def assms(4) plain_entries_def List.map_filter_def
        fee_debit_entries_def word_gt_0 Let_def)
  have checks: "0 \<le> sint (saturating_add_i64 (get_balance_i64 s pk) (- a))"
    "0 \<le> sint (saturating_add_i64 (get_balance_i64 s pk) (- fees (core tx)))"
    "0 \<le> sint (saturating_add_i64 (get_balance_i64 s r) b)"
    using fits assms(8,9,12,13,14) fee by (simp_all add: sint_saturating_add_i64 i64_min_def i64_max_def)
  have "sel_out (take_tx nx max_entries pk tx [(pk, - a), (r, b), (pk, - fees (core tx))] (fees (core tx)) st3) = [tx]"
    using keep checks entries assms(5,15) by (simp add: take_tx_def Let_def st2_def st0_def)
  then have "sel_out (select_step nx s cyc max_entries (now_ms div 1000) tx st0) = [tx]"
    using assms(1,2,6,10,11) pre st3 by (simp add: select_step_def assms(4) st2_def st0_def)
  then show ?thesis
    by (simp add: validate_and_select_protocol_txs_for_construction_def select_run_def st0_def)
qed


section \<open>A concrete environment\<close>

text \<open>A node whose curve has one-byte scalars and whose codecs are as simple as they may be.\<close>

definition demo_env :: "(byte, byte) node_env" where
  "demo_env =
     \<lparr>ext = \<lparr>blake2b = (\<lambda>_. replicate 64 2), hex_decode = (\<lambda>_. None), curve25519 = curve8,
             decode_finality_cert = (\<lambda>_. None), decode_root_cert = (\<lambda>_. None)\<rparr>,
      sha = (\<lambda>_. replicate 32 5), transact = (\<lambda>_ _. Inl ''no machine''), create_address = (\<lambda>_ _. replicate 20 0),
      ser_daily = (\<lambda>d. to_le_bytes (day_bucket d) @ to_le_bytes (spent_atoms d)),
      de_daily = (\<lambda>b. Some \<lparr>day_bucket = from_le_bytes (take 8 b), spent_atoms = from_le_bytes (drop 8 b)\<rparr>),
      ser_payload = (\<lambda>_. []), de_payload = (\<lambda>_. None), de_kind = (\<lambda>_. None), ser_tx = (\<lambda>_. []), de_tx = (\<lambda>_. None),
      ser_txs = (\<lambda>_. []), ser_txids = concat, de_txids = (\<lambda>_. None), ser_meta = (\<lambda>_. []), de_meta = (\<lambda>_. None)\<rparr>"

lemma demo_daily: "daily_codec demo_env"
  by (simp add: daily_codec_def demo_env_def)

definition payer :: bytes where "payer = 3 # replicate 31 0"
definition payee :: bytes where "payee = replicate 32 1"

lemma payer_payee [simp]: "payer \<noteq> payee"
  using replicate_Suc[of 31 "1 :: byte"] by (simp add: payer_def payee_def)

definition unsigned_transfer :: "i64 \<Rightarrow> i64 \<Rightarrow> u64 \<Rightarrow> Transaction" where
  "unsigned_transfer a b fee = \<lparr>core = \<lparr>tx_type = NonConfidentialTransfer,
       tx_entries = [\<lparr>entry_public_key = payer, entry_amount = NonConfidential (- a)\<rparr>,
                     \<lparr>entry_public_key = payee, entry_amount = NonConfidential b\<rparr>],
       nonce = 1, lock_time = 0, fees = fee, tx_data = []\<rparr>,
     signature_scheme = 0, signature = [], sender_pubkey = None, timestamp = 9\<rparr>"

definition signed_transfer :: "i64 \<Rightarrow> i64 \<Rightarrow> u64 \<Rightarrow> Transaction" where
  "signed_transfer a b fee = (unsigned_transfer a b fee)\<lparr>signature :=
     sig_to_bytes curve8 (sign (\<lambda>_. replicate 64 2) curve8 [7] key8
       (signing_payload_v2 (unsigned_transfer a b fee) 31337 (replicate 32 0)))\<rparr>"

definition funded_store :: "i64 \<Rightarrow> Store" where
  "funded_store v = set_balance_i64 payer v empty_store"

lemma signed_transfer_fields:
  "core (signed_transfer a b fee) = core (unsigned_transfer a b fee)" "signature_scheme (signed_transfer a b fee) = 0"
  by (simp_all add: signed_transfer_def unsigned_transfer_def)

lemma funded_store_reads:
  "store_ok (funded_store v)" "get_balance_i64 (funded_store v) pk = (if pk = payer then v else 0)"
  "get_nonce_u64 (funded_store v) pk = 0" "get_fee_credit_balance_u64 (funded_store v) pk = 0"
proof -
  have ok: "store_ok empty_store" by (simp add: store_ok_def empty_store_def)
  then show "store_ok (funded_store v)" by (simp add: funded_store_def set_balance_i64_def acc.ok_put)
  show "get_balance_i64 (funded_store v) pk = (if pk = payer then v else 0)"
    using ok by (simp add: funded_store_def get_set_balance) (simp add: get_balance_i64_def store_get_def empty_store_def)
  show "get_nonce_u64 (funded_store v) pk = 0" "get_fee_credit_balance_u64 (funded_store v) pk = 0"
    using ok by (simp_all add: funded_store_def set_balance_i64_def get_nonce_u64_def get_fee_credit_balance_u64_def store_set_def
        store_get_def empty_store_def key_defs as_bytes_def)
qed

lemma signed_transfer_sender: "0 < sint a \<Longrightarrow> 0 \<le> sint b \<Longrightarrow> tx_sender_pubkey (signed_transfer a b fee) = Some payer"
  by (simp add: tx_sender_pubkey_def signed_transfer_fields unsigned_transfer_def sint_minus_i64)

lemma signed_transfer_passes:
  assumes "0 < sint a" and "0 \<le> sint b" and "3 \<le> fee"
  shows "passes_checks demo_env (funded_store v) now_secs (signed_transfer a b fee)"
proof -
  let ?tx = "signed_transfer a b fee"
  have "tx_sender_pubkey_32 (unsigned_transfer a b fee) = Some (pk_to_bytes curve8 (public_key curve8 key8))"
    using assms(1,2) by (simp add: tx_sender_pubkey_32_def unsigned_transfer_def sint_minus_i64 payer_def pk_to_bytes_def
        public_key_def key8_def private_key_from_bytes_def curve8_def)
  then have "verify_schnorr (\<lambda>_. replicate 64 2) curve8 ?tx 31337 (replicate 32 0) = Inr ()"
    unfolding signed_transfer_def by (intro verify_schnorr_accepts[OF curve8_laws curve8_encoding]) (simp_all add: unsigned_transfer_def)
  moreover have "load_chain_id_u64 (funded_store v) = 31337" "load_genesis_hash_32 (funded_store v) = replicate 32 0"
    by (simp_all add: load_chain_id_u64_def load_genesis_hash_32_def funded_store_def set_balance_i64_def store_set_def empty_store_def
        u64_of_meta_def)
  ultimately have "verify_protocol_tx_signature_with_domain demo_env (funded_store v) ?tx"
    by (simp add: verify_protocol_tx_signature_with_domain_def verify_tx_signature_with_domain_def signed_transfer_fields
        SCHNORR_V1_def demo_env_def)
  moreover have "length (signature ?tx) = 64"
    using sig_bytes_roundtrip(2)[OF curve8_encoding] by (simp add: signed_transfer_def SIGNATURE_SIZE_def)
  then have "validate_basic ?tx = Inr ()"
    by (auto simp: validate_basic_def validate_entries_def signed_transfer_fields unsigned_transfer_def signed_transfer_def
        MAX_TX_SIGNATURE_BYTES_def)
  moreover have "\<not> fees (core ?tx) < min_fee ?tx"
    using assms(3) by (simp add: min_fee_def min_fee_for_core_def signed_transfer_fields unsigned_transfer_def
        saturating_add_def saturating_mul_def)
  ultimately show ?thesis
    by (simp add: passes_checks_def signed_transfer_fields unsigned_transfer_def)
qed

lemma demo_selection: "validate_and_select_protocol_txs_for_construction demo_env (funded_store 3) cyc [signed_transfer 3 1000 3] 10 now_ms
    = [signed_transfer 3 1000 3]"
  by (rule selection_single[where pk = payer and r = payee and a = 3 and b = 1000])
     (simp_all add: signed_transfer_passes signed_transfer_sender funded_store_reads saturating_add_def,
      simp_all add: signed_transfer_fields unsigned_transfer_def)

theorem selection_sound_witness:
  "let batch = validate_and_select_protocol_txs_for_construction demo_env (funded_store 3) 7 [signed_transfer 3 1000 3] 10 9000 in
     batch = [signed_transfer 3 1000 3] \<and> (\<forall>tx \<in> set batch. passes_checks demo_env (funded_store 3) 9 tx)
     \<and> (\<Sum>tx\<leftarrow>batch. length (to_consensus_entries demo_env tx)) \<le> 10"
  using selection_sound[of "funded_store 3" "[signed_transfer 3 1000 3]" demo_env 7 10 9000]
  by (simp add: demo_selection funded_store_reads Let_def)

end
