(* ===== verification/Retention.thy ===== *)
theory Retention
  imports Admission
begin

text \<open>
  What a node keeps of its past: the pruning of old history (\<open>catalyst-cli/src/pruning.rs\<close>) and the
  checkpoints a fork reconcile starts from (\<open>catalyst-cli/src/checkpoint.rs\<close>). The clock and the
  environment are parameters. A database snapshot is the frozen store under its name; \<open>Snapshots\<close>
  models how one is written and read back. Storage calls of this layer succeed, and logging is
  left out.
\<close>

section \<open>Pruning\<close>

record PruneCfg =
  prune_enabled :: bool
  keep_cycles :: u64
  interval_secs :: u64
  batch_cycles :: u64

record PruneReport =
  pruned_from_cycle :: u64
  pruned_to_cycle :: u64
  deleted_cycles :: u64
  deleted_tx_entries :: u64
  deleted_keys :: u64

definition META_PRUNED_UP_TO_CYCLE :: string where "META_PRUNED_UP_TO_CYCLE = ''storage:history_pruned_up_to_cycle''"
definition META_LAST_PRUNE_RUN_MS :: string where "META_LAST_PRUNE_RUN_MS = ''storage:history_prune_last_run_ms''"

definition decode_bool :: "bytes \<Rightarrow> bool option" where
  "decode_bool b = (if length b \<noteq> 1 then None else Some (hd b \<noteq> 0))"

definition load_prune_cfg :: "Store \<Rightarrow> PruneCfg" where
  "load_prune_cfg s =
     \<lparr>prune_enabled = opt_or (Option.bind (metadata s ''storage:history_prune_enabled'') decode_bool) False,
      keep_cycles = opt_or (u64_of_meta (metadata s ''storage:history_keep_cycles'')) 0,
      interval_secs = max (opt_or (u64_of_meta (metadata s ''storage:history_prune_interval_seconds'')) 300) 1,
      batch_cycles = max (opt_or (u64_of_meta (metadata s ''storage:history_prune_batch_cycles'')) 1000) 1\<rparr>"

text \<open>The deletions for one cycle, and how many transaction entries and keys they count.\<close>

definition delete_tx_entry :: "Hash \<Rightarrow> Store \<Rightarrow> Store" where
  "delete_tx_entry txid s = store_delete_meta (tx_meta_key txid) (store_delete_meta (tx_raw_key txid) s)"

definition consensus_history_keys :: "u64 \<Rightarrow> string list" where
  "consensus_history_keys cyc =
     map (\<lambda>p. key_of_cycle p cyc)
       [''consensus:lsu:'', ''consensus:lsu_hash:'', ''consensus:lsu_cid:'', ''consensus:lsu_state_root:'', ''consensus:tx_batch_commit:'']"

definition prune_cycle :: "('s, 'p) node_env \<Rightarrow> u64 \<Rightarrow> u64 \<times> u64 \<times> Store \<Rightarrow> u64 \<times> u64 \<times> Store" where
  "prune_cycle nx cyc st =
     (case st of (txs, keys, s) \<Rightarrow>
        let txids = load_cycle_txids nx s cyc;
            s1 = store_delete_meta (cycle_txids_key cyc) (fold delete_tx_entry txids s);
            txs' = ((\<lambda>n. saturating_add n 1) ^^ length txids) txs;
            keys' = saturating_add (((\<lambda>n. saturating_add n 2) ^^ length txids) keys) 1;
            lsu_hash = meta_32 s1 (key_of_cycle ''consensus:lsu_hash:'' cyc);
            s2 = fold store_delete_meta (consensus_history_keys cyc) s1;
            keys'' = saturating_add (saturating_add keys' 4) 1
        in case lsu_hash of
             Some h \<Rightarrow> (txs', saturating_add keys'' 1, store_delete_meta (cycle_by_lsu_hash_key h) s2)
           | None \<Rightarrow> (txs', keys'', s2))"

definition cycles_upto :: "u64 \<Rightarrow> u64 \<Rightarrow> u64 list" where
  "cycles_upto a b = map of_nat [unat a..<Suc (unat b)]"

definition prune_target :: "Store \<Rightarrow> u64 \<Rightarrow> u64" where
  "prune_target s keep =
     saturating_sub (saturating_sub (opt_or (u64_of_meta (metadata s ''consensus:last_applied_cycle'')) 0) keep) 1"

definition prune_start :: "Store \<Rightarrow> u64" where
  "prune_start s = (case u64_of_meta (metadata s META_PRUNED_UP_TO_CYCLE) of Some done_to \<Rightarrow> saturating_add done_to 1 | None \<Rightarrow> 0)"

definition prune_once :: "('s, 'p) node_env \<Rightarrow> u64 \<Rightarrow> u64 \<Rightarrow> Store \<Rightarrow> PruneReport option \<times> Store" where
  "prune_once nx keep batch s =
     (if keep = 0 then (None, s)
      else
        let prune_up_to = prune_target s keep in
        if prune_up_to = 0 then (None, s)
        else
          let start = prune_start s in
          if start > prune_up_to then (None, s)
          else
            let final = min prune_up_to (saturating_add start (saturating_sub batch 1)) in
            (case fold (prune_cycle nx) (cycles_upto start final) (0, 0, s) of
               (txs, keys, s1) \<Rightarrow>
                 (Some \<lparr>pruned_from_cycle = start, pruned_to_cycle = final,
                        deleted_cycles = saturating_add (saturating_sub final start) 1,
                        deleted_tx_entries = txs, deleted_keys = keys\<rparr>,
                  store_set_meta META_PRUNED_UP_TO_CYCLE (to_le_bytes final) s1)))"

definition maybe_prune_history :: "('s, 'p) node_env \<Rightarrow> u64 \<Rightarrow> Store \<Rightarrow> Store" where
  "maybe_prune_history nx now_ms s =
     (let cfg = load_prune_cfg s in
      if \<not> prune_enabled cfg then s
      else
        let last_run = opt_or (u64_of_meta (metadata s META_LAST_PRUNE_RUN_MS)) 0 in
        if saturating_sub now_ms last_run < saturating_mul (interval_secs cfg) 1000 then s
        else snd (prune_once nx (keep_cycles cfg) (batch_cycles cfg) (store_set_meta META_LAST_PRUNE_RUN_MS (to_le_bytes now_ms) s)))"

section \<open>Checkpoints\<close>

definition META_CHECKPOINT_LATEST_CYCLE :: string where "META_CHECKPOINT_LATEST_CYCLE = ''consensus:checkpoint:latest_cycle''"

definition checkpoint_meta_key :: "u64 \<Rightarrow> string" where "checkpoint_meta_key cyc = key_of_cycle ''consensus:checkpoint:'' cyc"
definition snapshot_name_for_cycle :: "u64 \<Rightarrow> string" where "snapshot_name_for_cycle cyc = key_of_cycle ''consensus_checkpoint_'' cyc"

record CheckpointRecord =
  cp_cycle :: u64
  cp_state_root :: Hash
  cp_lsu_hash :: Hash
  cp_snapshot_name :: string

definition encode_checkpoint_blob :: "CheckpointRecord \<Rightarrow> bytes" where
  "encode_checkpoint_blob r = to_le_bytes (cp_cycle r) @ cp_state_root r @ cp_lsu_hash r @ as_bytes (cp_snapshot_name r)"

definition decode_checkpoint_blob :: "bytes \<Rightarrow> CheckpointRecord option" where
  "decode_checkpoint_blob b =
     (if length b < 72 then None
      else if \<not> utf8_valid (drop 72 b) then None
      else if drop 72 b = [] then None
      else Some \<lparr>cp_cycle = from_le_bytes (take 8 b), cp_state_root = take 32 (drop 8 b), cp_lsu_hash = take 32 (drop 40 b),
                 cp_snapshot_name = string_of_bytes (drop 72 b)\<rparr>)"

definition checkpoint_every_cycles_from_env :: "environment \<Rightarrow> u64" where
  "checkpoint_every_cycles_from_env env =
     env_u64 env ''CATALYST_CHECKPOINT_EVERY_CYCLES'' (\<lambda>v. 0 < v \<and> v \<le> 1000000) 32"

definition should_write_checkpoint_at_cycle :: "u64 \<Rightarrow> u64 \<Rightarrow> bool" where
  "should_write_checkpoint_at_cycle cyc every \<longleftrightarrow> 0 < every \<and> 0 < cyc \<and> cyc mod every = 0"

record node_db =
  db_store :: Store
  db_snapshots :: "(string \<times> Store) list"
  startup_checkpoint_written :: bool

definition create_db_snapshot :: "string \<Rightarrow> node_db \<Rightarrow> node_db" where
  "create_db_snapshot name db = db\<lparr>db_snapshots := hm_insert name (db_store db) (db_snapshots db)\<rparr>"

definition load_db_snapshot :: "string \<Rightarrow> node_db \<Rightarrow> node_db option" where
  "load_db_snapshot name db =
     (case map_of (db_snapshots db) name of
        None \<Rightarrow> None
      | Some frozen \<Rightarrow> Some (db\<lparr>db_store := frozen\<lparr>root_cache := root_cache (db_store db)\<rparr>\<rparr>))"

definition write_checkpoint :: "u64 \<Rightarrow> Hash \<Rightarrow> Hash \<Rightarrow> node_db \<Rightarrow> node_db" where
  "write_checkpoint cyc state_root lsu_hash db =
     (let name = snapshot_name_for_cycle cyc;
          db1 = create_db_snapshot name db;
          r = \<lparr>cp_cycle = cyc, cp_state_root = state_root, cp_lsu_hash = lsu_hash, cp_snapshot_name = name\<rparr>
      in db1\<lparr>db_store := store_set_meta META_CHECKPOINT_LATEST_CYCLE (to_le_bytes cyc)
             (store_set_meta (checkpoint_meta_key cyc) (encode_checkpoint_blob r) (db_store db1))\<rparr>)"

definition maybe_write_checkpoint_after_apply :: "environment \<Rightarrow> u64 \<Rightarrow> Hash \<Rightarrow> Hash \<Rightarrow> node_db \<Rightarrow> node_db" where
  "maybe_write_checkpoint_after_apply env cyc state_root lsu_hash db =
     (if \<not> should_write_checkpoint_at_cycle cyc (checkpoint_every_cycles_from_env env) then db
      else write_checkpoint cyc state_root lsu_hash db)"

definition load_checkpoint_at_cycle :: "Store \<Rightarrow> u64 \<Rightarrow> CheckpointRecord option" where
  "load_checkpoint_at_cycle s cyc = Option.bind (metadata s (checkpoint_meta_key cyc)) decode_checkpoint_blob"

fun first_some :: "('a \<Rightarrow> 'b option) \<Rightarrow> 'a list \<Rightarrow> 'b option" where
  "first_some f [] = None"
| "first_some f (x # xs) = (case f x of Some y \<Rightarrow> Some y | None \<Rightarrow> first_some f xs)"

definition find_latest_checkpoint_at_or_below :: "Store \<Rightarrow> u64 \<Rightarrow> CheckpointRecord option" where
  "find_latest_checkpoint_at_or_below s max_cycle =
     (case u64_of_meta (metadata s META_CHECKPOINT_LATEST_CYCLE) of
        None \<Rightarrow> None
      | Some latest \<Rightarrow>
          if latest = 0 \<or> latest > max_cycle
          then first_some (load_checkpoint_at_cycle s) (rev (cycles_upto (max (saturating_sub max_cycle 4096) 1) max_cycle))
          else load_checkpoint_at_cycle s latest)"

record SavedCycleMeta =
  saved_cycle :: u64
  saved_lsu :: "bytes option"
  saved_hash :: "bytes option"
  saved_root :: "bytes option"
  saved_cid :: "bytes option"

definition save_cycle_meta :: "Store \<Rightarrow> u64 \<Rightarrow> SavedCycleMeta option" where
  "save_cycle_meta s n =
     (let m = \<lparr>saved_cycle = n, saved_lsu = metadata s (key_of_cycle ''consensus:lsu:'' n),
               saved_hash = metadata s (key_of_cycle ''consensus:lsu_hash:'' n),
               saved_root = metadata s (key_of_cycle ''consensus:lsu_state_root:'' n),
               saved_cid = metadata s (key_of_cycle ''consensus:lsu_cid:'' n)\<rparr>
      in if saved_lsu m \<noteq> None \<or> saved_root m \<noteq> None then Some m else None)"

definition put_opt :: "string \<Rightarrow> bytes option \<Rightarrow> Store \<Rightarrow> Store" where
  "put_opt key mb s = (case mb of Some b \<Rightarrow> store_set_meta key b s | None \<Rightarrow> s)"

definition rewrite_cycle_meta :: "SavedCycleMeta \<Rightarrow> Store \<Rightarrow> Store" where
  "rewrite_cycle_meta m s =
     put_opt (key_of_cycle ''consensus:lsu_cid:'' (saved_cycle m)) (saved_cid m)
       (put_opt (key_of_cycle ''consensus:lsu_state_root:'' (saved_cycle m)) (saved_root m)
         (put_opt (key_of_cycle ''consensus:lsu_hash:'' (saved_cycle m)) (saved_hash m)
           (put_opt (key_of_cycle ''consensus:lsu:'' (saved_cycle m)) (saved_lsu m) s)))"

definition cycles_before :: "u64 \<Rightarrow> u64 \<Rightarrow> u64 list" where
  "cycles_before a b = map of_nat [unat a..<unat b]"

definition restore_reconcile_from_checkpoint :: "CheckpointRecord \<Rightarrow> u64 \<Rightarrow> node_db \<Rightarrow> node_db option" where
  "restore_reconcile_from_checkpoint r current_head db =
     (let saved = List.map_filter (save_cycle_meta (db_store db))
                    (cycles_before (saturating_add (cp_cycle r) 1) (saturating_add current_head 1)) in
      case load_db_snapshot (cp_snapshot_name r) db of
        None \<Rightarrow> None
      | Some db1 \<Rightarrow>
          let s1 = (db_store db1)\<lparr>root_cache := Some (cp_state_root r)\<rparr>;
              s2 = store_set_meta ''consensus:last_applied_lsu_hash'' (cp_lsu_hash r)
                     (store_set_meta ''consensus:last_applied_state_root'' (cp_state_root r)
                       (store_set_meta ''consensus:last_applied_cycle'' (to_le_bytes (cp_cycle r)) s1))
          in Some (db1\<lparr>db_store := fold rewrite_cycle_meta saved s2\<rparr>))"

definition lsu_metadata_present :: "Store \<Rightarrow> u64 \<Rightarrow> bool" where
  "lsu_metadata_present s cyc \<longleftrightarrow> metadata s (key_of_cycle ''consensus:lsu:'' cyc) \<noteq> None"

definition reconcile_checkpoint_for_missing_prefix :: "Store \<Rightarrow> u64 \<Rightarrow> u64 \<Rightarrow> CheckpointRecord option" where
  "reconcile_checkpoint_for_missing_prefix s target_cycle pruned_up_to =
     (if target_cycle \<le> 1 then None
      else
        (case find_latest_checkpoint_at_or_below s (saturating_sub target_cycle 1) of
           None \<Rightarrow> None
         | Some cp \<Rightarrow>
             if cp_cycle cp = 0 then None
             else if list_all (lsu_metadata_present s) (cycles_before (saturating_add (max (cp_cycle cp) pruned_up_to) 1) target_cycle)
             then Some cp
             else None))"

section \<open>Keys and frames\<close>

lemma show_nat_value: "foldl (\<lambda>n c. n * 10 + (of_char c - 48)) 0 (show_nat n) = n"
proof (induction n rule: less_induct)
  case (less n)
  show ?case
  proof (cases "n < 10")
    case True
    then show ?thesis by (simp add: show_nat.simps[of n])
  next
    case False
    have "of_char (char_of (48 + n mod 10) :: char) - 48 = n mod 10" by simp
    moreover have "n div 10 < n" using False by simp
    ultimately show ?thesis using False less[of "n div 10"] by (simp add: show_nat.simps[of n])
  qed
qed

lemma show_nat_inject [simp]: "show_nat m = show_nat n \<longleftrightarrow> m = n"
  by (metis show_nat_value)

lemma key_of_cycle_inject [simp]: "key_of_cycle p a = key_of_cycle p b \<longleftrightarrow> a = b"
  by (simp add: key_of_cycle_def word_unat_eq_iff)

text \<open>An operation that writes metadata under some keys only.\<close>

definition keyed :: "string \<Rightarrow> string \<Rightarrow> bool" where "keyed p k \<longleftrightarrow> take (length p) k = p"

definition meta_touches :: "(string \<Rightarrow> bool) \<Rightarrow> Store \<Rightarrow> Store \<Rightarrow> bool" where
  "meta_touches K s t \<longleftrightarrow> accounts t = accounts s \<and> root_cache t = root_cache s \<and> (\<forall>k. \<not> K k \<longrightarrow> metadata t k = metadata s k)"

lemma meta_touches_refl: "meta_touches K s s"
  by (simp add: meta_touches_def)

lemma meta_touches_trans: "meta_touches K s t \<Longrightarrow> meta_touches K t u \<Longrightarrow> meta_touches K s u"
  by (simp add: meta_touches_def)

lemma meta_touches_mono: "meta_touches K s t \<Longrightarrow> (\<And>k. K k \<Longrightarrow> L k) \<Longrightarrow> meta_touches L s t"
  by (auto simp: meta_touches_def)

lemma meta_touches_set: "K k \<Longrightarrow> meta_touches K s (store_set_meta k v s)" "K k \<Longrightarrow> meta_touches K s (store_delete_meta k s)"
  by (auto simp: meta_touches_def store_set_meta_def store_delete_meta_def)

lemma meta_touches_fold: "(\<And>x t. x \<in> set xs \<Longrightarrow> meta_touches K t (f x t)) \<Longrightarrow> meta_touches K s (fold f xs s)"
  by (induction xs arbitrary: s) (simp_all add: meta_touches_refl, blast intro: meta_touches_trans)

section \<open>What pruning removes\<close>

definition pruned_key :: "u64 \<Rightarrow> u64 \<Rightarrow> string \<Rightarrow> bool" where
  "pruned_key a b k \<longleftrightarrow> keyed ''tx:'' k \<or> keyed ''consensus:cycle_by_lsu_hash:'' k
     \<or> (\<exists>c. a \<le> c \<and> c \<le> b \<and> k \<in> set (consensus_history_keys c))"

lemma prune_cycle_touches:
  "a \<le> c \<Longrightarrow> c \<le> b \<Longrightarrow> meta_touches (pruned_key a b) s (snd (snd (prune_cycle nx c (i, j, s))))"
proof -
  assume c: "a \<le> c" "c \<le> b"
  have tx: "meta_touches (pruned_key a b) t (delete_tx_entry txid t)" for txid t
    unfolding delete_tx_entry_def
    by (rule meta_touches_trans[OF meta_touches_set(2) meta_touches_set(2)]) (simp_all add: pruned_key_def keyed_def tx_raw_key_def tx_meta_key_def)
  have ids: "meta_touches (pruned_key a b) t (store_delete_meta (cycle_txids_key c) t)" for t
    by (rule meta_touches_set) (simp add: pruned_key_def keyed_def cycle_txids_key_def)
  have hist: "meta_touches (pruned_key a b) t (fold store_delete_meta (consensus_history_keys c) t)" for t
    by (rule meta_touches_fold, rule meta_touches_set(2)) (use c in \<open>auto simp: pruned_key_def\<close>)
  have by_hash: "meta_touches (pruned_key a b) t (store_delete_meta (cycle_by_lsu_hash_key h) t)" for t h
    by (rule meta_touches_set) (simp add: pruned_key_def keyed_def cycle_by_lsu_hash_key_def)
  have "meta_touches (pruned_key a b) s (fold store_delete_meta (consensus_history_keys c)
      (store_delete_meta (cycle_txids_key c) (fold delete_tx_entry txids s)))" for txids
    by (rule meta_touches_trans[OF meta_touches_fold[OF tx] meta_touches_trans[OF ids hist]])
  then show ?thesis
    by (auto simp: prune_cycle_def Let_def split: option.split intro: meta_touches_trans[OF _ by_hash])
qed

lemma prune_cycle_deletes: "k \<in> set (consensus_history_keys c) \<Longrightarrow> metadata (snd (snd (prune_cycle nx c (i, j, s)))) k = None"
proof -
  assume k: "k \<in> set (consensus_history_keys c)"
  have "metadata (fold store_delete_meta ks t) k = (if k \<in> set ks then None else metadata t k)" for ks t
    by (induction ks arbitrary: t) (auto simp: store_delete_meta_def)
  then show ?thesis using k by (auto simp: prune_cycle_def Let_def store_delete_meta_def split: option.split)
qed

lemma prune_cycles:
  assumes "\<forall>c \<in> set cs. a \<le> c \<and> c \<le> b"
  shows "meta_touches (pruned_key a b) s (snd (snd (fold (prune_cycle nx) cs (i, j, s))))"
    and "c \<in> set cs \<Longrightarrow> k \<in> set (consensus_history_keys c) \<Longrightarrow> metadata (snd (snd (fold (prune_cycle nx) cs (i, j, s)))) k = None"
proof -
  have all: "meta_touches (pruned_key a b) s (snd (snd (fold (prune_cycle nx) cs (i, j, s))))" if "\<forall>c \<in> set cs. a \<le> c \<and> c \<le> b" for a b cs i j s
    using that
  proof (induction cs arbitrary: i j s)
    case (Cons c cs)
    obtain i' j' s' where p: "prune_cycle nx c (i, j, s) = (i', j', s')" by (metis surj_pair)
    have "meta_touches (pruned_key a b) s s'" using prune_cycle_touches[of a c b s nx i j] Cons.prems p by simp
    with Cons.IH[of s' i' j'] Cons.prems p show ?case by (auto intro: meta_touches_trans)
  qed (simp add: meta_touches_refl)
  then show "meta_touches (pruned_key a b) s (snd (snd (fold (prune_cycle nx) cs (i, j, s))))" using assms by blast
  have none: "metadata (snd (snd (fold (prune_cycle nx) cs (i, j, s)))) k = None" if "metadata s k = None" for cs i j s k
    using that
  proof (induction cs arbitrary: i j s)
    case (Cons c cs)
    obtain i' j' s' where p: "prune_cycle nx c (i, j, s) = (i', j', s')" by (metis surj_pair)
    have fold_none: "metadata t k = None \<Longrightarrow> metadata (fold f xs t) k = None"
      if "\<And>x t. metadata t k = None \<Longrightarrow> metadata (f x t) k = None" for f :: "'z \<Rightarrow> Store \<Rightarrow> Store" and xs t
      using that by (induction xs arbitrary: t) auto
    have "metadata s' k = None"
    proof -
      have "metadata (store_delete_meta q t) k = None" if "metadata t k = None" for q t using that by (simp add: store_delete_meta_def)
      then have "metadata (snd (snd (prune_cycle nx c (i, j, s)))) k = None"
        using Cons.prems by (simp add: prune_cycle_def Let_def delete_tx_entry_def fold_none split: option.split)
      with p show ?thesis by simp
    qed
    with Cons.IH p show ?case by simp
  qed simp
  show "metadata (snd (snd (fold (prune_cycle nx) cs (i, j, s)))) k = None" if "c \<in> set cs" "k \<in> set (consensus_history_keys c)"
    using that
  proof (induction cs arbitrary: i j s)
    case (Cons d cs)
    obtain i' j' s' where p: "prune_cycle nx d (i, j, s) = (i', j', s')" by (metis surj_pair)
    show ?case using Cons prune_cycle_deletes[of k c nx i j s] none[of s' k cs i' j'] p by auto
  qed simp
qed

lemma set_cycles_upto: "set (cycles_upto a b) = {c. a \<le> c \<and> c \<le> b}"
proof -
  have "c \<in> set (cycles_upto a b) \<longleftrightarrow> unat a \<le> unat c \<and> unat c \<le> unat b" for c
  proof
    assume "c \<in> set (cycles_upto a b)"
    then obtain n where n: "c = of_nat n" "unat a \<le> n" "n \<le> unat b" by (auto simp: cycles_upto_def)
    moreover have "n < 2 ^ 64" using n(3) unsigned_less[of b, where ?'a = nat] by simp
    ultimately show "unat a \<le> unat c \<and> unat c \<le> unat b" by (simp add: unat_of_nat)
  next
    assume "unat a \<le> unat c \<and> unat c \<le> unat b"
    then have "unat c \<in> set [unat a..<Suc (unat b)]" by auto
    then show "c \<in> set (cycles_upto a b)" unfolding cycles_upto_def set_map by (intro image_eqI[of _ _ "unat c"]) simp_all
  qed
  then show ?thesis by (auto simp: word_le_nat_alt)
qed

lemma history_key_prefix:
  assumes "k \<in> set (consensus_history_keys c)"
  shows "\<not> keyed ''tx:'' k" "\<not> keyed ''consensus:cycle_by_lsu_hash:'' k"
    "k \<in> set (consensus_history_keys d) \<Longrightarrow> c = d"
proof -
  have cases: "k = key_of_cycle ''consensus:lsu:'' c \<or> k = key_of_cycle ''consensus:lsu_hash:'' c \<or> k = key_of_cycle ''consensus:lsu_cid:'' c
      \<or> k = key_of_cycle ''consensus:lsu_state_root:'' c \<or> k = key_of_cycle ''consensus:tx_batch_commit:'' c"
    using assms by (simp add: consensus_history_keys_def)
  show "\<not> keyed ''tx:'' k" using cases by (elim disjE) (simp_all add: key_of_cycle_def keyed_def)
  show "\<not> keyed ''consensus:cycle_by_lsu_hash:'' k" using cases by (elim disjE) (simp_all add: key_of_cycle_def keyed_def)
  have differ: "key_of_cycle p c \<noteq> key_of_cycle q d" if "take n p \<noteq> take n q" "n \<le> length p" "n \<le> length q" for p q n
  proof
    assume "key_of_cycle p c = key_of_cycle q d"
    then have "take n (p @ show_nat (unat c)) = take n (q @ show_nat (unat d))" by (simp add: key_of_cycle_def)
    with that show False by simp
  qed
  show "c = d" if "k \<in> set (consensus_history_keys d)"
    using cases that differ[where n = 14] differ[where n = 15] by (elim disjE) (simp_all add: consensus_history_keys_def)
qed

lemma history_key_kept:
  assumes "k \<in> set (consensus_history_keys c)" and "b < c"
  shows "\<not> pruned_key a b k"
proof
  assume "pruned_key a b k"
  then obtain d where "d \<le> b" "k \<in> set (consensus_history_keys d)"
    using history_key_prefix(1,2)[OF assms(1)] by (auto simp: pruned_key_def)
  with history_key_prefix(3)[OF assms(1)] assms(2) show False by (auto dest: leD)
qed

lemma not_pruned_keys:
  "\<not> pruned_key a b ''consensus:last_applied_cycle''" "\<not> pruned_key a b ''consensus:last_applied_state_root''"
  "\<not> pruned_key a b ''consensus:last_applied_lsu_hash''" "\<not> pruned_key a b META_PRUNED_UP_TO_CYCLE"
  by (simp_all add: pruned_key_def consensus_history_keys_def key_of_cycle_def keyed_def META_PRUNED_UP_TO_CYCLE_def)

definition history_head :: "Store \<Rightarrow> u64" where
  "history_head s = opt_or (u64_of_meta (metadata s ''consensus:last_applied_cycle'')) 0"

lemma unat_prune_target: "unat (prune_target s keep) = unat (history_head s) - unat keep - 1"
  by (simp add: prune_target_def history_head_def unat_saturating_sub)

lemma prune_once_cases:
  obtains (idle) "prune_once nx keep batch s = (None, s)" "keep = 0 \<or> prune_target s keep = 0 \<or> prune_start s > prune_target s keep"
  | (run) rep t fin where "keep \<noteq> 0" "prune_target s keep \<noteq> 0" "prune_start s \<le> prune_target s keep"
      "fin = min (prune_target s keep) (saturating_add (prune_start s) (saturating_sub batch 1))"
      "prune_once nx keep batch s = (Some rep, store_set_meta META_PRUNED_UP_TO_CYCLE (to_le_bytes fin) t)"
      "pruned_from_cycle rep = prune_start s" "pruned_to_cycle rep = fin"
      "t = snd (snd (fold (prune_cycle nx) (cycles_upto (prune_start s) fin) (0, 0, s)))"
proof (cases "keep = 0 \<or> prune_target s keep = 0 \<or> prune_start s > prune_target s keep")
  case True
  then show ?thesis using idle by (auto simp: prune_once_def Let_def)
next
  case False
  define fin where "fin = min (prune_target s keep) (saturating_add (prune_start s) (saturating_sub batch 1))"
  obtain i j t where p: "fold (prune_cycle nx) (cycles_upto (prune_start s) fin) (0, 0, s) = (i, j, t)" by (metis surj_pair)
  show ?thesis
    by (rule run[of fin _ t]) (use False p in \<open>auto simp: prune_once_def Let_def fin_def[symmetric]\<close>)
qed

lemma prune_once_touches:
  "meta_touches (\<lambda>k. k = META_PRUNED_UP_TO_CYCLE
       \<or> pruned_key (prune_start s) (min (prune_target s keep) (saturating_add (prune_start s) (saturating_sub batch 1))) k)
     s (snd (prune_once nx keep batch s))"
proof (rule prune_once_cases[of nx keep batch s])
  fix rep t fin
  assume a: "fin = min (prune_target s keep) (saturating_add (prune_start s) (saturating_sub batch 1))"
    "prune_once nx keep batch s = (Some rep, store_set_meta META_PRUNED_UP_TO_CYCLE (to_le_bytes fin) t)"
    "t = snd (snd (fold (prune_cycle nx) (cycles_upto (prune_start s) fin) (0, 0, s)))"
  have "meta_touches (pruned_key (prune_start s) fin) s t"
    unfolding a(3) by (rule prune_cycles(1)) (auto simp: set_cycles_upto)
  then show ?thesis using a(2) unfolding a(1)[symmetric] by (auto simp: meta_touches_def store_set_meta_def)
qed (auto simp: meta_touches_refl)

lemma history_key_not_mark:
  "k \<in> set (consensus_history_keys c) \<Longrightarrow> k \<noteq> META_PRUNED_UP_TO_CYCLE \<and> k \<noteq> META_LAST_PRUNE_RUN_MS"
  by (auto simp: consensus_history_keys_def key_of_cycle_def META_PRUNED_UP_TO_CYCLE_def META_LAST_PRUNE_RUN_MS_def)

lemma prune_once_keeps:
  assumes "unat (history_head s) \<le> unat c + unat keep" and "k \<in> set (consensus_history_keys c)"
  shows "metadata (snd (prune_once nx keep batch s)) k = metadata s k"
proof (rule prune_once_cases[of nx keep batch s])
  assume "prune_target s keep \<noteq> 0"
  then have "unat (prune_target s keep) < unat c" using assms(1) unat_prune_target[of s keep] by (simp add: unat_gt_0[symmetric])
  then have "min (prune_target s keep) (saturating_add (prune_start s) (saturating_sub batch 1)) < c"
    by (simp add: word_less_nat_alt min_def word_le_nat_alt)
  then have "\<not> pruned_key (prune_start s) (min (prune_target s keep) (saturating_add (prune_start s) (saturating_sub batch 1))) k"
    by (rule history_key_kept[OF assms(2)])
  then show ?thesis using prune_once_touches[of s keep batch nx] history_key_not_mark[OF assms(2)] by (simp add: meta_touches_def)
qed simp

lemma prune_once_frame:
  "accounts (snd (prune_once nx keep batch s)) = accounts s" "root_cache (snd (prune_once nx keep batch s)) = root_cache s"
  "k \<in> {''consensus:last_applied_cycle'', ''consensus:last_applied_state_root'', ''consensus:last_applied_lsu_hash''} \<Longrightarrow>
     metadata (snd (prune_once nx keep batch s)) k = metadata s k"
  using prune_once_touches[of s keep batch nx] not_pruned_keys by (auto simp: meta_touches_def META_PRUNED_UP_TO_CYCLE_def)

lemma maybe_prune_frame:
  "accounts (maybe_prune_history nx now_ms s) = accounts s" "root_cache (maybe_prune_history nx now_ms s) = root_cache s"
  "k \<in> {''consensus:last_applied_cycle'', ''consensus:last_applied_state_root'', ''consensus:last_applied_lsu_hash''} \<Longrightarrow>
     metadata (maybe_prune_history nx now_ms s) k = metadata s k"
  "k \<in> set (consensus_history_keys (history_head s)) \<Longrightarrow> metadata (maybe_prune_history nx now_ms s) k = metadata s k"
proof -
  let ?s = "store_set_meta META_LAST_PRUNE_RUN_MS (to_le_bytes now_ms) s"
  show "accounts (maybe_prune_history nx now_ms s) = accounts s" "root_cache (maybe_prune_history nx now_ms s) = root_cache s"
    by (simp_all add: maybe_prune_history_def Let_def prune_once_frame store_set_meta_def)
  show "metadata (maybe_prune_history nx now_ms s) k = metadata s k"
    if "k \<in> {''consensus:last_applied_cycle'', ''consensus:last_applied_state_root'', ''consensus:last_applied_lsu_hash''}"
    using that by (auto simp: maybe_prune_history_def Let_def prune_once_frame(3) store_set_meta_def META_LAST_PRUNE_RUN_MS_def)
  have head: "history_head ?s = history_head s" by (simp add: history_head_def store_set_meta_def META_LAST_PRUNE_RUN_MS_def)
  show "metadata (maybe_prune_history nx now_ms s) k = metadata s k" if "k \<in> set (consensus_history_keys (history_head s))"
    using prune_once_keeps[of ?s "history_head s" _ k nx, OF _ that] history_key_not_mark[OF that]
    by (simp add: maybe_prune_history_def Let_def head) (simp add: store_set_meta_def)
qed


definition pruned_store :: Store where
  "pruned_store = store_set_meta (key_of_cycle ''consensus:lsu:'' 1) [7]
     (store_set_meta ''consensus:last_applied_cycle'' (to_le_bytes (100 :: u64)) empty_store)"

lemma pruned_store_facts: "prune_start pruned_store = 0" "prune_target pruned_store 10 = 89" "history_head pruned_store = 100"
  by (simp_all add: pruned_store_def prune_start_def prune_target_def history_head_def store_set_meta_def empty_store_def u64_of_meta_def
      META_PRUNED_UP_TO_CYCLE_def key_of_cycle_def saturating_sub_def)


section \<open>How far pruning gets\<close>

definition prune_runs :: "('s, 'p) node_env \<Rightarrow> u64 \<Rightarrow> u64 \<Rightarrow> nat \<Rightarrow> Store \<Rightarrow> Store" where
  "prune_runs nx keep batch n = (\<lambda>s. snd (prune_once nx keep batch s)) ^^ n"

lemma prune_run_step:
  fixes nx :: "('s, 'p) node_env"
  assumes "keep \<noteq> 0" "prune_target s keep \<noteq> 0" "unat (prune_start s) \<le> Suc (unat (prune_target s keep))" "1 \<le> batch"
  defines "t \<equiv> snd (prune_once nx keep batch s)"
  shows "prune_target t keep = prune_target s keep"
    and "unat (prune_start t) = min (Suc (unat (prune_target s keep))) (unat (prune_start s) + unat batch)"
    and "\<And>c k. unat (prune_start s) + unat batch \<le> unat c \<Longrightarrow> k \<in> set (consensus_history_keys c) \<Longrightarrow> metadata t k = metadata s k"
proof -
  define fin where "fin = min (prune_target s keep) (saturating_add (prune_start s) (saturating_sub batch 1))"
  have touch: "meta_touches (\<lambda>k. k = META_PRUNED_UP_TO_CYCLE \<or> pruned_key (prune_start s) fin k) s t"
    using prune_once_touches[of s keep batch nx] by (simp add: t_def fin_def)
  then show "prune_target t keep = prune_target s keep"
    using not_pruned_keys(1)[of "prune_start s" fin] by (simp add: prune_target_def meta_touches_def META_PRUNED_UP_TO_CYCLE_def)
  have small: "unat (prune_target s keep) + 1 < 2 ^ 64"
    using unat_prune_target[of s keep] assms(1) unsigned_less[of "history_head s", where ?'a = nat] by (simp add: unat_gt_0[symmetric])
  show "unat (prune_start t) = min (Suc (unat (prune_target s keep))) (unat (prune_start s) + unat batch)"
  proof (rule prune_once_cases[of nx keep batch s])
    assume "prune_once nx keep batch s = (None, s)" "keep = 0 \<or> prune_target s keep = 0 \<or> prune_start s > prune_target s keep"
    then show ?thesis using assms(1-4) by (auto simp: word_less_nat_alt t_def)
  next
    fix rep u fin'
    assume "prune_start s \<le> prune_target s keep" "fin' = min (prune_target s keep) (saturating_add (prune_start s) (saturating_sub batch 1))"
      "prune_once nx keep batch s = (Some rep, store_set_meta META_PRUNED_UP_TO_CYCLE (to_le_bytes fin') u)"
    then have "prune_start t = saturating_add fin 1" by (simp add: t_def fin_def prune_start_def store_set_meta_def u64_of_meta_def)
    moreover have "unat fin = min (unat (prune_target s keep)) (unat (prune_start s) + unat batch - 1)"
      using small assms(4) by (auto simp: fin_def min_def word_le_nat_alt unat_saturating_add unat_saturating_sub)
    ultimately show ?thesis using small assms(4) by (simp add: unat_saturating_add word_le_nat_alt)
  qed
  fix c k
  assume c: "unat (prune_start s) + unat batch \<le> unat c" "k \<in> set (consensus_history_keys c)"
  have "fin < c" using c(1) assms(4) by (auto simp: fin_def min_def word_le_nat_alt word_less_nat_alt unat_saturating_add unat_saturating_sub)
  then have "\<not> pruned_key (prune_start s) fin k" by (rule history_key_kept[OF c(2)])
  moreover have "k \<noteq> META_PRUNED_UP_TO_CYCLE" using history_key_not_mark[OF c(2)] by simp
  ultimately show "metadata t k = metadata s k" using touch by (simp add: meta_touches_def)
qed

text \<open>
  Pruning reaches its target, batch_cycles at a time, and no faster: n runs on a store whose
  head stands still advance the mark by n times batch_cycles until everything older than the kept
  cycles is gone, after which runs change nothing. Until they reach a cycle they leave its history
  alone; as the first run starts at cycle 0, a chain whose first cycle is c keeps all its history
  for the first c / batch_cycles runs.
\<close>

theorem pruning_progress_exact:
  assumes "keep \<noteq> 0" and "prune_target s keep \<noteq> 0" and "unat (prune_start s) \<le> Suc (unat (prune_target s keep))" and "1 \<le> batch"
  shows "unat (prune_start (prune_runs nx keep batch n s)) = min (Suc (unat (prune_target s keep))) (unat (prune_start s) + n * unat batch)
     \<and> (\<forall>c k. unat (prune_start s) + n * unat batch \<le> unat c \<and> k \<in> set (consensus_history_keys c)
          \<longrightarrow> metadata (prune_runs nx keep batch n s) k = metadata s k)"
proof -
  have "prune_target (prune_runs nx keep batch n s) keep = prune_target s keep
     \<and> unat (prune_start (prune_runs nx keep batch n s)) = min (Suc (unat (prune_target s keep))) (unat (prune_start s) + n * unat batch)
     \<and> (\<forall>c k. unat (prune_start s) + n * unat batch \<le> unat c \<and> k \<in> set (consensus_history_keys c)
          \<longrightarrow> metadata (prune_runs nx keep batch n s) k = metadata s k)"
  proof (induction n)
    case 0
    then show ?case using assms(3) by (simp add: prune_runs_def)
  next
    case (Suc n)
    define u where "u = prune_runs nx keep batch n s"
    have u: "prune_runs nx keep batch (Suc n) s = snd (prune_once nx keep batch u)" by (simp add: u_def prune_runs_def)
    have IH: "prune_target u keep = prune_target s keep"
      "unat (prune_start u) = min (Suc (unat (prune_target s keep))) (unat (prune_start s) + n * unat batch)"
      "\<And>c k. unat (prune_start s) + n * unat batch \<le> unat c \<Longrightarrow> k \<in> set (consensus_history_keys c) \<Longrightarrow> metadata u k = metadata s k"
      using Suc by (auto simp: u_def)
    have step: "prune_target u keep \<noteq> 0" "unat (prune_start u) \<le> Suc (unat (prune_target u keep))" using IH(1,2) assms(2) by auto
    note st = prune_run_step[OF assms(1) step assms(4), where nx = nx]
    have "metadata (snd (prune_once nx keep batch u)) k = metadata s k"
      if "unat (prune_start s) + Suc n * unat batch \<le> unat c" "k \<in> set (consensus_history_keys c)" for c k
    proof -
      have "unat (prune_start u) + unat batch \<le> unat c" "unat (prune_start s) + n * unat batch \<le> unat c" using that(1) IH(2) by auto
      then show ?thesis using st(3)[OF _ that(2)] IH(3)[OF _ that(2)] by simp
    qed
    moreover have "unat (prune_start (snd (prune_once nx keep batch u)))
        = min (Suc (unat (prune_target s keep))) (unat (prune_start s) + Suc n * unat batch)"
      using st(2) IH(1,2) by auto
    ultimately show ?case unfolding u using st(1)[unfolded IH(1)] by blast
  qed
  then show ?thesis by simp
qed

theorem pruning_progress_exact_witness:
  "unat (prune_start (prune_runs demo_env 10 3 4 pruned_store)) = 12 \<and> unat (prune_start (prune_runs demo_env 10 3 50 pruned_store)) = 90"
  using pruning_progress_exact[of 10 pruned_store 3, where nx = demo_env and n = 4]
    pruning_progress_exact[of 10 pruned_store 3, where nx = demo_env and n = 50]
  by (simp add: pruned_store_facts)

section \<open>Checkpoints bridge a missing prefix\<close>

lemma checkpoint_blob_roundtrip:
  assumes "length (cp_state_root r) = 32" and "length (cp_lsu_hash r) = 32"
    and "cp_snapshot_name r \<noteq> []" and "utf8_valid (as_bytes (cp_snapshot_name r))"
  shows "decode_checkpoint_blob (encode_checkpoint_blob r) = Some r"
  using assms by (simp add: decode_checkpoint_blob_def encode_checkpoint_blob_def) (simp add: as_bytes_def)

lemma utf8_ascii: "\<forall>c \<in> set s. of_char c < (128 :: nat) \<Longrightarrow> utf8_valid (as_bytes s)"
  by (induction s) (simp_all add: as_bytes_def word_less_nat_alt unat_of_nat)

lemma show_nat_digits: "c \<in> set (show_nat n) \<Longrightarrow> of_char c < (58 :: nat)"
proof (induction n rule: less_induct)
  case (less n)
  then show ?case using less.IH[of "n div 10"] by (cases "n < 10") (auto simp: show_nat.simps[of n])
qed

lemma snapshot_name_valid: "utf8_valid (as_bytes (snapshot_name_for_cycle c))" "snapshot_name_for_cycle c \<noteq> []"
proof -
  have "utf8_valid (as_bytes (''consensus_checkpoint_'' @ show_nat (unat c)))"
    by (rule utf8_ascii) (auto dest: show_nat_digits)
  then show "utf8_valid (as_bytes (snapshot_name_for_cycle c))" "snapshot_name_for_cycle c \<noteq> []"
    by (simp_all add: snapshot_name_for_cycle_def key_of_cycle_def)
qed

lemma set_cycles_before: "set (cycles_before a b) = {c. a \<le> c \<and> c < b}"
proof -
  have "c \<in> set (cycles_before a b) \<longleftrightarrow> unat a \<le> unat c \<and> unat c < unat b" for c
  proof
    assume "c \<in> set (cycles_before a b)"
    then obtain n where n: "c = of_nat n" "unat a \<le> n" "n < unat b" by (auto simp: cycles_before_def)
    moreover have "n < 2 ^ 64" using n(3) unsigned_less[of b, where ?'a = nat] by simp
    ultimately show "unat a \<le> unat c \<and> unat c < unat b" by (simp add: unat_of_nat)
  next
    assume "unat a \<le> unat c \<and> unat c < unat b"
    then show "c \<in> set (cycles_before a b)" unfolding cycles_before_def set_map by (intro image_eqI[of _ _ "unat c"]) simp_all
  qed
  then show ?thesis by (auto simp: word_le_nat_alt word_less_nat_alt)
qed

text \<open>What the rewriting of the saved history leaves: the update of every saved cycle, and no other key.\<close>

definition history_prefixes :: "string list" where
  "history_prefixes = [''consensus:lsu:'', ''consensus:lsu_hash:'', ''consensus:lsu_state_root:'', ''consensus:lsu_cid:'']"

lemma rewrite_touches:
  "meta_touches (\<lambda>k. \<exists>p \<in> set history_prefixes. k = key_of_cycle p (saved_cycle m)) s (rewrite_cycle_meta m s)"
proof -
  have put: "meta_touches K t (put_opt k mb t)" if "K k" for K k mb t
    using that by (cases mb) (auto simp: put_opt_def meta_touches_refl meta_touches_set)
  show ?thesis unfolding rewrite_cycle_meta_def
    by (rule meta_touches_trans[OF put meta_touches_trans[OF put meta_touches_trans[OF put put]]]) (auto simp: history_prefixes_def)
qed

lemma rewrite_lsu:
  "saved_lsu m = Some b \<Longrightarrow> metadata (rewrite_cycle_meta m s) (key_of_cycle ''consensus:lsu:'' (saved_cycle m)) = Some b"
  by (simp add: rewrite_cycle_meta_def put_opt_def store_set_meta_def key_of_cycle_def split: option.split)

lemma rewrite_restores:
  assumes "metadata s0 (key_of_cycle ''consensus:lsu:'' c) = Some b"
    and "c \<in> set ns \<or> metadata s (key_of_cycle ''consensus:lsu:'' c) = Some b"
  shows "metadata (fold rewrite_cycle_meta (List.map_filter (save_cycle_meta s0) ns) s) (key_of_cycle ''consensus:lsu:'' c) = Some b"
  using assms(2)
proof (induction ns arbitrary: s)
  case Nil
  then show ?case by (simp add: List.map_filter_def)
next
  case (Cons n ns)
  have other: "key_of_cycle ''consensus:lsu:'' c \<noteq> key_of_cycle p n" if "p \<in> set history_prefixes" "n \<noteq> c" for p
    using that history_key_prefix(3)[of "key_of_cycle ''consensus:lsu:'' c" c n]
    by (auto simp: history_prefixes_def consensus_history_keys_def)
  show ?case
  proof (cases "save_cycle_meta s0 n")
    case None
    then have "n \<noteq> c" using assms(1) by (auto simp: save_cycle_meta_def Let_def split: if_splits)
    then show ?thesis using Cons None by (simp add: List.map_filter_def)
  next
    case (Some m)
    then have m: "saved_cycle m = n" "saved_lsu m = metadata s0 (key_of_cycle ''consensus:lsu:'' n)"
      by (auto simp: save_cycle_meta_def Let_def split: if_splits)
    have "c \<in> set ns \<or> metadata (rewrite_cycle_meta m s) (key_of_cycle ''consensus:lsu:'' c) = Some b"
    proof (cases "n = c")
      case True
      then show ?thesis using rewrite_lsu[of m b s] m assms(1) by simp
    next
      case False
      then show ?thesis using Cons.prems rewrite_touches[of m s] other m by (auto simp: meta_touches_def)
    qed
    then show ?thesis using Cons.IH Some by (simp add: List.map_filter_def)
  qed
qed

lemma rewrite_all_touches:
  "meta_touches (\<lambda>k. \<exists>p \<in> set history_prefixes. \<exists>n. k = key_of_cycle p n) s (fold rewrite_cycle_meta ms s)"
  by (rule meta_touches_fold, rule meta_touches_mono[OF rewrite_touches]) auto

lemma not_history_key:
  "keyed ''consensus:checkpoint:'' k \<or> k = ''consensus:last_applied_cycle'' \<Longrightarrow> p \<in> set history_prefixes \<Longrightarrow> k \<noteq> key_of_cycle p n"
  by (auto simp: keyed_def history_prefixes_def key_of_cycle_def)

lemma restore_effect:
  assumes "map_of (db_snapshots db) (cp_snapshot_name r) = Some frozen"
  shows "\<exists>db'. restore_reconcile_from_checkpoint r head db = Some db' \<and> accounts (db_store db') = accounts frozen
    \<and> root_cache (db_store db') = Some (cp_state_root r) \<and> history_head (db_store db') = cp_cycle r
    \<and> (\<forall>c b. cp_cycle r < c \<and> c \<le> head \<and> c < - 1 \<and> metadata (db_store db) (key_of_cycle ''consensus:lsu:'' c) = Some b \<longrightarrow>
          metadata (db_store db') (key_of_cycle ''consensus:lsu:'' c) = Some b)
    \<and> (\<forall>k. keyed ''consensus:checkpoint:'' k \<longrightarrow> metadata (db_store db') k = metadata frozen k)"
proof -
  define ns where "ns = cycles_before (saturating_add (cp_cycle r) 1) (saturating_add head 1)"
  define s2 where "s2 = store_set_meta ''consensus:last_applied_lsu_hash'' (cp_lsu_hash r)
      (store_set_meta ''consensus:last_applied_state_root'' (cp_state_root r)
        (store_set_meta ''consensus:last_applied_cycle'' (to_le_bytes (cp_cycle r)) (frozen\<lparr>root_cache := Some (cp_state_root r)\<rparr>)))"
  define s3 where "s3 = fold rewrite_cycle_meta (List.map_filter (save_cycle_meta (db_store db)) ns) s2"
  have touch: "meta_touches (\<lambda>k. \<exists>p \<in> set history_prefixes. \<exists>n. k = key_of_cycle p n) s2 s3"
    unfolding s3_def by (rule rewrite_all_touches)
  have "restore_reconcile_from_checkpoint r head db = Some (db\<lparr>db_store := s3\<rparr>)"
    using assms by (simp add: restore_reconcile_from_checkpoint_def load_db_snapshot_def Let_def s3_def s2_def ns_def)
  moreover have "accounts s3 = accounts frozen" "root_cache s3 = Some (cp_state_root r)"
    using touch by (simp_all add: meta_touches_def s2_def store_set_meta_def)
  moreover have "history_head s3 = cp_cycle r"
  proof -
    have "metadata s3 ''consensus:last_applied_cycle'' = metadata s2 ''consensus:last_applied_cycle''"
      using touch not_history_key unfolding meta_touches_def by blast
    then show ?thesis by (simp add: history_head_def s2_def store_set_meta_def u64_of_meta_def)
  qed
  moreover have "metadata s3 (key_of_cycle ''consensus:lsu:'' c) = Some b"
    if "cp_cycle r < c" "c \<le> head" "c < - 1" "metadata (db_store db) (key_of_cycle ''consensus:lsu:'' c) = Some b" for c b
  proof -
    have "unat c < 2 ^ 64 - 1" using that(3) by (simp add: word_less_nat_alt unat_max_word)
    then have "c \<in> set ns"
      using that(1,2) by (auto simp: ns_def set_cycles_before word_le_nat_alt word_less_nat_alt unat_saturating_add)
    then show ?thesis unfolding s3_def by (intro rewrite_restores[OF that(4)]) simp
  qed
  moreover have "metadata s3 k = metadata frozen k" if "keyed ''consensus:checkpoint:'' k" for k
  proof -
    have "metadata s3 k = metadata s2 k" using touch not_history_key that unfolding meta_touches_def by blast
    moreover have "k \<noteq> ''consensus:last_applied_lsu_hash''" "k \<noteq> ''consensus:last_applied_state_root''" "k \<noteq> ''consensus:last_applied_cycle''"
      using that by (auto simp: keyed_def)
    ultimately show ?thesis by (simp add: s2_def store_set_meta_def)
  qed
  ultimately show ?thesis by (intro exI[of _ "db\<lparr>db_store := s3\<rparr>"]) auto
qed

text \<open>
  What a checkpoint leaves in a database: the pointer, the record and the frozen store. Later
  writes may change everything else.
\<close>

definition holds_checkpoint :: "u64 \<Rightarrow> Hash \<Rightarrow> Hash \<Rightarrow> node_db \<Rightarrow> node_db \<Rightarrow> bool" where
  "holds_checkpoint c root h db0 db \<longleftrightarrow>
     (let w = write_checkpoint c root h db0 in
        metadata (db_store db) META_CHECKPOINT_LATEST_CYCLE = metadata (db_store w) META_CHECKPOINT_LATEST_CYCLE
        \<and> metadata (db_store db) (checkpoint_meta_key c) = metadata (db_store w) (checkpoint_meta_key c)
        \<and> map_of (db_snapshots db) (snapshot_name_for_cycle c) = map_of (db_snapshots w) (snapshot_name_for_cycle c))"

lemma holds_checkpoint_reads:
  assumes "holds_checkpoint c root h db0 db" and "length root = 32" and "length h = 32"
  shows "u64_of_meta (metadata (db_store db) META_CHECKPOINT_LATEST_CYCLE) = Some c"
    and "load_checkpoint_at_cycle (db_store db) c
       = Some \<lparr>cp_cycle = c, cp_state_root = root, cp_lsu_hash = h, cp_snapshot_name = snapshot_name_for_cycle c\<rparr>"
    and "map_of (db_snapshots db) (snapshot_name_for_cycle c) = Some (db_store db0)"
proof -
  have ne: "checkpoint_meta_key c \<noteq> META_CHECKPOINT_LATEST_CYCLE"
  proof
    assume "checkpoint_meta_key c = META_CHECKPOINT_LATEST_CYCLE"
    then have "show_nat (unat c) = ''latest_cycle''" by (simp add: checkpoint_meta_key_def key_of_cycle_def META_CHECKPOINT_LATEST_CYCLE_def)
    then show False using show_nat_digits[of "CHR ''l''" "unat c"] by simp
  qed
  show "u64_of_meta (metadata (db_store db) META_CHECKPOINT_LATEST_CYCLE) = Some c"
    using assms(1) by (simp add: holds_checkpoint_def Let_def write_checkpoint_def store_set_meta_def u64_of_meta_def)
  have "metadata (db_store db) (checkpoint_meta_key c) = Some (encode_checkpoint_blob
      \<lparr>cp_cycle = c, cp_state_root = root, cp_lsu_hash = h, cp_snapshot_name = snapshot_name_for_cycle c\<rparr>)"
    using assms(1) ne by (simp add: holds_checkpoint_def Let_def write_checkpoint_def store_set_meta_def)
  then show "load_checkpoint_at_cycle (db_store db) c
       = Some \<lparr>cp_cycle = c, cp_state_root = root, cp_lsu_hash = h, cp_snapshot_name = snapshot_name_for_cycle c\<rparr>"
    using assms(2,3) snapshot_name_valid[of c] by (simp add: load_checkpoint_at_cycle_def checkpoint_blob_roundtrip)
  show "map_of (db_snapshots db) (snapshot_name_for_cycle c) = Some (db_store db0)"
    using assms(1) by (simp add: holds_checkpoint_def Let_def write_checkpoint_def create_db_snapshot_def map_of_hm_insert)
qed


definition empty_db :: node_db where
  "empty_db = \<lparr>db_store = empty_store, db_snapshots = [], startup_checkpoint_written = False\<rparr>"

definition bridged_db :: node_db where
  "bridged_db = (let w = write_checkpoint 8 (replicate 32 1) (replicate 32 2) empty_db
     in w\<lparr>db_store := store_set_meta (key_of_cycle ''consensus:lsu:'' 9) [7] (db_store w)\<rparr>)"


text \<open>
  A restored checkpoint is forgotten: its snapshot was taken before its pointer and record were
  written, so after the restore the database knows only the checkpoints that were there before.
\<close>

lemma restored_checkpoint_forgotten:
  assumes "holds_checkpoint c root h db0 db" and "length root = 32" and "length h = 32"
    and "restore_reconcile_from_checkpoint \<lparr>cp_cycle = c, cp_state_root = root, cp_lsu_hash = h, cp_snapshot_name = snapshot_name_for_cycle c\<rparr> head db = Some db'"
  shows "metadata (db_store db') META_CHECKPOINT_LATEST_CYCLE = metadata (db_store db0) META_CHECKPOINT_LATEST_CYCLE
    \<and> load_checkpoint_at_cycle (db_store db') c = load_checkpoint_at_cycle (db_store db0) c"
proof -
  have "metadata (db_store db') k = metadata (db_store db0) k" if "keyed ''consensus:checkpoint:'' k" for k
    using restore_effect[where db = db and frozen = "db_store db0" and head = head
        and r = "\<lparr>cp_cycle = c, cp_state_root = root, cp_lsu_hash = h, cp_snapshot_name = snapshot_name_for_cycle c\<rparr>"]
      holds_checkpoint_reads(3)[OF assms(1-3)] assms(4) that by auto
  then show ?thesis
    by (simp add: load_checkpoint_at_cycle_def keyed_def META_CHECKPOINT_LATEST_CYCLE_def checkpoint_meta_key_def key_of_cycle_def)
qed

end
