(* ===== verification/Ledger.thy ===== *)
theory Ledger
  imports Retention
begin

text \<open>
  Applying a ledger update to the accounts (\<open>catalyst-cli/src/node.rs\<close>): transfers, worker
  registrations and contract calls, producer compensation, nonces, fee credits and waiting-pool
  rewards, the state root and the applied head. Both ways in are modelled: the node's own
  application and the one that checks a claimed root and reverts.
\<close>

section \<open>Entries\<close>

record ApplyOutcome =
  ao_success :: bool
  ao_gas_used :: "u64 option"
  ao_return_data :: "bytes option"
  ao_error :: "string option"

definition plain_success :: ApplyOutcome where
  "plain_success = \<lparr>ao_success = True, ao_gas_used = None, ao_return_data = None, ao_error = None\<rparr>"

definition outcome_of_info :: "EvmExecInfo \<Rightarrow> ApplyOutcome" where
  "outcome_of_info i =
     \<lparr>ao_success = xi_success i, ao_gas_used = Some (xi_gas_used i), ao_return_data = Some (xi_return_data i), ao_error = xi_error i\<rparr>"

definition outcome_of_error :: "EvmExecError \<Rightarrow> ApplyOutcome" where
  "outcome_of_error e = \<lparr>ao_success = False, ao_gas_used = None, ao_return_data = None, ao_error = Some (display_evm_error e)\<rparr>"

record apply_state =
  ap_store :: Store
  outcome_by_sig :: "(bytes \<times> ApplyOutcome) list"
  executed_sigs :: "bytes list"

definition or_insert_success :: "bytes \<Rightarrow> apply_state \<Rightarrow> apply_state" where
  "or_insert_success sg st =
     (if map_of (outcome_by_sig st) sg = None
      then st\<lparr>outcome_by_sig := hm_insert sg plain_success (outcome_by_sig st)\<rparr> else st)"

definition register_worker :: "bytes \<Rightarrow> u64 \<Rightarrow> Store \<Rightarrow> Store" where
  "register_worker pk cyc s =
     set_worker_last_registration_cycle pk cyc (ensure_worker_first_seen_cycle pk cyc (store_set (worker_key_for_pubkey pk) [1] s))"

definition run_evm :: "('s, 'p) node_env \<Rightarrow> u64 \<Rightarrow> bytes \<Rightarrow> EvmTxPayload \<Rightarrow> Store \<Rightarrow> ApplyOutcome \<times> Store" where
  "run_evm nx chain_id pk pl s =
     (let from = pubkey_to_evm_addr20 pk;
          gas_limit = max DEFAULT_EVM_GAS_LIMIT 21000
      in case ep_kind pl of
           Deploy bytecode \<Rightarrow>
             (case execute_deploy_and_persist (transact nx) (create_address nx) from chain_id (ep_nonce pl) bytecode gas_limit s of
                (Inl err, s') \<Rightarrow> (outcome_of_error err, s')
              | (Inr (created, info), s') \<Rightarrow> (outcome_of_info info, s'))
         | Call to input \<Rightarrow>
             (case execute_call_and_persist (transact nx) from to chain_id (ep_nonce pl) input gas_limit s of
                (Inl err, s') \<Rightarrow> (outcome_of_error err, s')
              | (Inr info, s') \<Rightarrow> (outcome_of_info info, s')))"

definition apply_entry :: "('s, 'p) node_env \<Rightarrow> u64 \<Rightarrow> u64 \<Rightarrow> TransactionEntry \<Rightarrow> apply_state \<Rightarrow> apply_state" where
  "apply_entry nx chain_id cyc e st =
     (let sg = te_signature e; pk = te_public_key e in
      if is_worker_reg_marker sg then or_insert_success sg (st\<lparr>ap_store := register_worker pk cyc (ap_store st)\<rparr>)
      else if is_evm_marker sg then
        (if sg \<in> set (executed_sigs st) then st
         else
           let st1 = st\<lparr>executed_sigs := sg # executed_sigs st\<rparr> in
           (case decode_evm_marker (de_payload nx) sg of
              None \<Rightarrow> st1
            | Some (pl, _) \<Rightarrow>
                (case run_evm nx chain_id pk pl (ap_store st1) of
                   (o1, s') \<Rightarrow> st1\<lparr>ap_store := s', outcome_by_sig := hm_insert sg o1 (outcome_by_sig st1)\<rparr>)))
      else
        or_insert_success sg (st\<lparr>ap_store :=
          set_balance_i64 pk (saturating_add_i64 (get_balance_i64 (ap_store st) pk) (te_amount e)) (ap_store st)\<rparr>))"

definition apply_entries :: "('s, 'p) node_env \<Rightarrow> u64 \<Rightarrow> TransactionEntry list \<Rightarrow> Store \<Rightarrow> apply_state" where
  "apply_entries nx cyc es s =
     fold (apply_entry nx (load_chain_id_u64 s) cyc) es \<lparr>ap_store = s, outcome_by_sig = [], executed_sigs = []\<rparr>"

definition credit :: "bytes \<Rightarrow> i64 \<Rightarrow> Store \<Rightarrow> Store" where
  "credit pk v s = set_balance_i64 pk (saturating_add_i64 (get_balance_i64 s pk) v) s"

definition apply_compensation :: "CompensationEntry list \<Rightarrow> Store \<Rightarrow> Store" where
  "apply_compensation cs s = fold (\<lambda>c t. if ce_amount c = 0 then t else credit (ce_public_key c) (ce_amount c) t) cs s"

section \<open>Nonces\<close>

definition group_by_sig :: "TransactionEntry list \<Rightarrow> (bytes \<times> TransactionEntry list) list" where
  "group_by_sig es = fold (\<lambda>e m. bt_push (te_signature e) e m) es []"

fun single_debtor :: "TransactionEntry list \<Rightarrow> bytes option \<Rightarrow> bytes option" where
  "single_debtor [] sender = sender"
| "single_debtor (e # es) sender =
     (if sint (te_amount e) < 0 then
        (case sender of
           None \<Rightarrow> single_debtor es (Some (te_public_key e))
         | Some pk \<Rightarrow> if pk = te_public_key e then single_debtor es sender else None)
      else single_debtor es sender)"

definition first_debtor :: "TransactionEntry list \<Rightarrow> bytes option" where
  "first_debtor es = map_option te_public_key (find (\<lambda>e. sint (te_amount e) < 0) es)"

definition or_marker :: "TransactionEntry list \<Rightarrow> bytes option \<Rightarrow> bytes option" where
  "or_marker es sender =
     (case sender of
        Some pk \<Rightarrow> Some pk
      | None \<Rightarrow>
          (case find (\<lambda>e. is_worker_reg_marker (te_signature e)) es of
             Some e0 \<Rightarrow> Some (te_public_key e0)
           | None \<Rightarrow> map_option te_public_key (find (\<lambda>e. is_evm_marker (te_signature e)) es)))"

definition sender_of_group :: "TransactionEntry list \<Rightarrow> bytes option" where
  "sender_of_group es = or_marker es (single_debtor es None)"

definition trusted_sender_of_group :: "TransactionEntry list \<Rightarrow> bytes option" where
  "trusted_sender_of_group es = or_marker es (first_debtor es)"

definition bump_nonce :: "bytes option \<Rightarrow> Store \<Rightarrow> Store" where
  "bump_nonce sender s =
     (case sender of Some pk \<Rightarrow> set_nonce_u64 pk (saturating_add (get_nonce_u64 s pk) 1) s | None \<Rightarrow> s)"

definition apply_nonces :: "(TransactionEntry list \<Rightarrow> bytes option) \<Rightarrow> TransactionEntry list \<Rightarrow> Store \<Rightarrow> Store" where
  "apply_nonces sender_of es s = fold (\<lambda>(_, g). bump_nonce (sender_of g)) (group_by_sig es) s"

section \<open>Fee credits and rewards\<close>

definition settle_group :: "('s, 'p) node_env \<Rightarrow> u64 \<Rightarrow> TransactionEntry list \<Rightarrow> Store \<Rightarrow> Store" where
  "settle_group nx cyc es s =
     (let net = sum_list (map (\<lambda>e. sint (te_amount e)) es) in
      if 0 \<le> net then s
      else
        let fee = (word_of_int (min (- net) (2 ^ 64 - 1)) :: u64) in
        if fee = 0 then s
        else
          (case sender_of_group es of
             None \<Rightarrow> s
           | Some sender \<Rightarrow>
               (case apply_fee_credit_spend_for_cycle nx sender fee cyc s of
                  (spend, s1) \<Rightarrow> if 0 < spend then credit sender spend s1 else s1)))"

definition settle_fee_credit_spend_for_applied_cycle :: "('s, 'p) node_env \<Rightarrow> LedgerStateUpdate \<Rightarrow> Store \<Rightarrow> Store" where
  "settle_fee_credit_spend_for_applied_cycle nx lsu s =
     (if \<not> TOKENOMICS_FEE_CREDITS_ENABLED then s
      else fold (\<lambda>(_, g). settle_group nx (lsu_cycle_number lsu) g)
             (group_by_sig (pu_transaction_entries (lsu_partial_update lsu))) s)"

definition waiting_pool_of :: "LedgerStateUpdate \<Rightarrow> u64" where
  "waiting_pool_of lsu =
     (let (burned, reward_from_fees, treasury) = split_cycle_fees (pu_total_fees (lsu_partial_update lsu));
          total_reward_pool = saturating_add TOKENOMICS_BLOCK_REWARD_ATOMS reward_from_fees;
          waiting_pool_from_formula = saturating_mul total_reward_pool TOKENOMICS_WAITING_POOL_REWARD_BPS div 10000;
          paid_to_producers = sum_list (map ce_amount (lsu_compensation_entries lsu))
      in min waiting_pool_from_formula (saturating_sub total_reward_pool paid_to_producers))"

definition waiting_workers :: "('s, 'p) node_env \<Rightarrow> LedgerStateUpdate \<Rightarrow> Store \<Rightarrow> bytes list" where
  "waiting_workers nx lsu s =
     (let producers = List.map_filter (parse_hex_32 (hex_decode (ext nx))) (lsu_producer_list lsu)
      in filter (\<lambda>pk. pk \<notin> set producers \<and> waiting_worker_is_eligible s pk (lsu_cycle_number lsu))
           (sort_dedup (load_workers_from_state s)))"

definition accrue_credit :: "bytes \<Rightarrow> Store \<Rightarrow> Store" where
  "accrue_credit pk s =
     set_fee_credit_balance_u64 pk
       (min (saturating_add (get_fee_credit_balance_u64 s pk) TOKENOMICS_FEE_CREDITS_ACCRUAL_ATOMS_PER_DAY)
            TOKENOMICS_FEE_CREDITS_MAX_BALANCE_ATOMS) s"

fun pay_waiting :: "u64 \<Rightarrow> u64 \<Rightarrow> bytes list \<Rightarrow> Store \<Rightarrow> Store" where
  "pay_waiting per rem [] s = s"
| "pay_waiting per rem (pk # pks) s =
     (let bonus = (if 0 < rem then 1 else 0);
          s1 = (if 0 < per \<or> 0 < rem then credit pk (saturating_add per bonus) s else s)
      in pay_waiting per (rem - bonus) pks (if TOKENOMICS_FEE_CREDITS_ENABLED then accrue_credit pk s1 else s1))"

definition distribute_waiting_pool_rewards_and_fee_credits :: "('s, 'p) node_env \<Rightarrow> LedgerStateUpdate \<Rightarrow> Store \<Rightarrow> Store" where
  "distribute_waiting_pool_rewards_and_fee_credits nx lsu s =
     (let waiting_pool = waiting_pool_of lsu in
      if waiting_pool = 0 \<and> \<not> TOKENOMICS_FEE_CREDITS_ENABLED then s
      else
        let waiting = waiting_workers nx lsu s in
        if waiting = [] then s
        else
          let n = (of_nat (length waiting) :: u64)
          in pay_waiting (waiting_pool div n) (waiting_pool mod n) waiting s)"

section \<open>Receipts\<close>

definition new_receipt :: "Hash \<Rightarrow> u64 \<Rightarrow> u64 \<Rightarrow> TxMeta" where
  "new_receipt txid now_ms cyc =
     \<lparr>tm_tx_id = txid, tm_status = Pending, tm_received_at_ms = now_ms, tm_sender = None, tm_nonce = 0, tm_fees = 0,
      tm_selected_cycle = Some cyc, tm_applied_cycle = None, tm_applied_lsu_hash = None, tm_applied_state_root = None,
      tm_applied_success = None, tm_applied_error = None, tm_evm_gas_used = None, tm_evm_return = None\<rparr>"

definition attach_outcome :: "('s, 'p) node_env \<Rightarrow> (bytes \<times> ApplyOutcome) list \<Rightarrow> Store \<Rightarrow> Hash \<Rightarrow> TxMeta \<Rightarrow> TxMeta" where
  "attach_outcome nx outcomes s txid m =
     (case Option.bind (metadata s (tx_raw_key txid)) (de_tx nx) of
        None \<Rightarrow> m\<lparr>tm_applied_success := Some True\<rparr>
      | Some tx \<Rightarrow>
          (case map_of outcomes (tx_boundary_signature nx tx) of
             None \<Rightarrow> m\<lparr>tm_applied_success := Some True\<rparr>
           | Some o1 \<Rightarrow> m\<lparr>tm_applied_success := Some (ao_success o1), tm_applied_error := ao_error o1,
                          tm_evm_gas_used := ao_gas_used o1, tm_evm_return := ao_return_data o1\<rparr>))"

definition write_receipts ::
  "('s, 'p) node_env \<Rightarrow> u64 \<Rightarrow> u64 \<Rightarrow> Hash \<Rightarrow> Hash \<Rightarrow> (bytes \<times> ApplyOutcome) list \<Rightarrow> Store \<Rightarrow> Store" where
  "write_receipts nx now_ms cyc lsu_hash state_root outcomes s =
     fold (\<lambda>txid t.
       let m0 = opt_or (load_meta nx t txid) (new_receipt txid now_ms cyc);
           m1 = m0\<lparr>tm_status := Applied, tm_applied_cycle := Some cyc, tm_applied_lsu_hash := Some lsu_hash,
                   tm_applied_state_root := Some state_root\<rparr>
       in store_set_meta (tx_meta_key txid) (ser_meta nx (attach_outcome nx outcomes t txid m1)) t)
       (load_cycle_txids nx s cyc) s"

section \<open>Applying an update\<close>

definition apply_effects ::
  "('s, 'p) node_env \<Rightarrow> (TransactionEntry list \<Rightarrow> bytes option) \<Rightarrow> LedgerStateUpdate \<Rightarrow> Store \<Rightarrow> (bytes \<times> ApplyOutcome) list \<times> Store" where
  "apply_effects nx sender_of lsu s =
     (let es = pu_transaction_entries (lsu_partial_update lsu);
          st = apply_entries nx (lsu_cycle_number lsu) es s;
          s1 = apply_compensation (lsu_compensation_entries lsu) (ap_store st);
          s2 = apply_nonces sender_of es s1;
          s3 = settle_fee_credit_spend_for_applied_cycle nx lsu s2;
          s4 = distribute_waiting_pool_rewards_and_fee_credits nx lsu s3
      in (outcome_by_sig st, write_root_cycle_counter (lsu_cycle_number lsu) s4))"

definition applied_head :: "Store \<Rightarrow> u64" where
  "applied_head s = opt_or (u64_of_meta (metadata s ''consensus:last_applied_cycle'')) 0"

definition store_root :: "Store \<Rightarrow> Hash" where
  "store_root s = opt_or (root_cache s) (replicate 32 0)"

definition write_head :: "LedgerStateUpdate \<Rightarrow> Hash \<Rightarrow> Hash \<Rightarrow> Store \<Rightarrow> Store" where
  "write_head lsu lsu_hash state_root s =
     store_set_meta ''consensus:last_applied_state_root'' state_root
       (store_set_meta ''consensus:last_applied_lsu_hash'' lsu_hash
         (store_set_meta ''consensus:last_applied_cycle'' (to_le_bytes (lsu_cycle_number lsu)) s))"

definition write_history :: "LedgerStateUpdate \<Rightarrow> Hash \<Rightarrow> Store \<Rightarrow> Store" where
  "write_history lsu lsu_hash s =
     store_set_meta (key_of_cycle ''consensus:lsu_hash:'' (lsu_cycle_number lsu)) lsu_hash
       (store_set_meta (key_of_cycle ''consensus:lsu:'' (lsu_cycle_number lsu)) (ser_lsu lsu) s)"

definition apply_lsu_to_storage_locked ::
  "('s, 'p::ab_group_add) node_env \<Rightarrow> u64 \<Rightarrow> LedgerStateUpdate \<Rightarrow> Store \<Rightarrow> (StorageError, Hash) result \<times> Store" where
  "apply_lsu_to_storage_locked nx now_ms lsu s =
     (if lsu_cycle_number lsu \<le> applied_head s then (Inr (store_root s), s)
      else
        (case apply_effects nx sender_of_group lsu s of
           (outcomes, s1) \<Rightarrow>
             (case store_commit (sha nx) s1 of
                (Inl err, s2) \<Rightarrow> (Inl err, s2)
              | (Inr state_root, s2) \<Rightarrow>
                  let lsu_hash = hash_data (blake2b (ext nx)) ser_lsu lsu;
                      s3 = write_receipts nx now_ms (lsu_cycle_number lsu) lsu_hash state_root outcomes s2;
                      s4 = write_history lsu lsu_hash (write_head lsu lsu_hash state_root s3)
                  in (Inr state_root, maybe_prune_history nx now_ms (prune_persisted_mempool nx s4)))))"

text \<open>The caller of the two apply paths: a checkpoint after the first apply of the process and then at intervals.\<close>

definition apply_lsu_to_storage ::
  "('s, 'p::ab_group_add) node_env \<Rightarrow> environment \<Rightarrow> u64 \<Rightarrow> LedgerStateUpdate \<Rightarrow> node_db \<Rightarrow> (StorageError, Hash) result \<times> node_db" where
  "apply_lsu_to_storage nx env now_ms lsu db =
     (if lsu_cycle_number lsu \<le> applied_head (db_store db) then (Inr (store_root (db_store db)), db)
      else
        (case apply_lsu_to_storage_locked nx now_ms lsu (db_store db) of
           (Inl err, s) \<Rightarrow> (Inl err, db\<lparr>db_store := s\<rparr>)
         | (Inr state_root, s) \<Rightarrow>
             let lsu_hash = hash_data (blake2b (ext nx)) ser_lsu lsu;
                 db1 = db\<lparr>db_store := s\<rparr>
             in (Inr state_root,
                 if \<not> startup_checkpoint_written db
                 then write_checkpoint (lsu_cycle_number lsu) state_root lsu_hash (db1\<lparr>startup_checkpoint_written := True\<rparr>)
                 else maybe_write_checkpoint_after_apply env (lsu_cycle_number lsu) state_root lsu_hash db1)))"

datatype apply_error = StalePrevRoot | RecomputeFailed StorageError

definition apply_lsu_to_storage_without_root_check ::
  "('s, 'p::ab_group_add) node_env \<Rightarrow> u64 \<Rightarrow> LedgerStateUpdate \<Rightarrow> Hash \<Rightarrow> Hash \<Rightarrow> Store \<Rightarrow> (apply_error, bool) result \<times> Store" where
  "apply_lsu_to_storage_without_root_check nx now_ms lsu expected_prev new_root s =
     (if lsu_cycle_number lsu \<le> applied_head s then (Inr False, s)
      else if store_root s \<noteq> expected_prev then (Inl StalePrevRoot, s)
      else
        (case apply_effects nx trusted_sender_of_group lsu s of
           (outcomes, s1) \<Rightarrow>
             (case store_commit (sha nx) s1 of
                (Inl err, s2) \<Rightarrow> (Inl (RecomputeFailed err), s2)
              | (Inr recomputed, s2) \<Rightarrow>
                  if recomputed \<noteq> new_root then (Inr False, snd (store_commit (sha nx) s))
                  else
                    let lsu_hash = hash_data (blake2b (ext nx)) ser_lsu lsu;
                        s3 = write_history lsu lsu_hash (write_head lsu lsu_hash new_root s2);
                        s4 = write_receipts nx now_ms (lsu_cycle_number lsu) lsu_hash new_root outcomes s3
                    in (Inr True, maybe_prune_history nx now_ms (prune_persisted_mempool nx s4)))))"

end
