(* ===== verification/Supply.thy ===== *)
theory Supply
  imports Ledger
begin

text \<open>
  Where the money of an applied update comes from and goes to: the sum of all balances changes by
  exactly the plain entries, the compensation, the fee credits spent and the waiting-pool rewards.
\<close>

section \<open>The total_supply\<close>

definition entry_value :: "bytes \<times> bytes \<Rightarrow> int" where
  "entry_value kv = (if bal_key (fst kv) then sint (opt_or (decode_i64 (snd kv)) 0) else 0)"

definition total_supply :: "Store \<Rightarrow> int" where
  "total_supply s = sum_list (map entry_value (accounts s))"

lemma sum_bt_insert:
  "bt_wf m \<Longrightarrow> sum_list (map f (bt_insert k v m))
     = sum_list (map f m) - (case map_of m k of Some w \<Rightarrow> f (k, w) | None \<Rightarrow> 0) + (f (k, v) :: int)"
proof (induction m)
  case (Cons kv m)
  obtain a b where kv: "kv = (a, b)" by (cases kv)
  have "k < a \<Longrightarrow> map_of m k = None" using Cons.prems by (auto simp: kv map_of_eq_None_iff)
  then show ?case using Cons by (auto simp: kv split: option.splits)
qed simp

lemma supply_set:
  assumes "store_ok s"
  shows "total_supply (store_set k v s) = total_supply s - (case store_get s k of Some w \<Rightarrow> entry_value (k, w) | None \<Rightarrow> 0) + entry_value (k, v)"
  using sum_bt_insert[of "accounts s" entry_value k v] assms by (simp add: total_supply_def store_set_def store_get_def store_ok_def)

lemma supply_set_balance:
  assumes "store_ok s"
  shows "total_supply (set_balance_i64 pk v s) = total_supply s - sint (get_balance_i64 s pk) + sint v"
  using supply_set[OF assms, of "balance_key_for_pubkey pk"]
  by (auto simp: set_balance_i64_def get_balance_i64_def entry_value_def split: option.split)

lemma supply_quiet:
  assumes "store_ok s" and "store_ok t" and "\<And>k. bal_key k \<Longrightarrow> store_get t k = store_get s k"
  shows "total_supply t = total_supply s"
proof -
  let ?f = "\<lambda>s. filter (\<lambda>kv. bal_key (fst kv)) (accounts s)"
  have wf: "bt_wf (?f u)" if "store_ok u" for u
    using that by (simp add: store_ok_def bt_wf_filter)
  have "map_of (filter (\<lambda>kv. bal_key (fst kv)) m) k = (if bal_key k then map_of m k else None)" for m :: kvs and k
    by (induction m) auto
  then have lk: "map_of (?f u) k = (if bal_key k then store_get u k else None)" for u k by (simp add: store_get_def)
  have "?f t = ?f s" by (rule bt_wf_ext[OF wf[OF assms(2)] wf[OF assms(1)]]) (simp add: fun_eq_iff lk assms(3))
  moreover have "sum_list (map entry_value m) = sum_list (map entry_value (filter (\<lambda>kv. bal_key (fst kv)) m))" for m
    by (induction m) (auto simp: entry_value_def)
  then have "total_supply u = sum_list (map entry_value (?f u))" for u by (simp add: total_supply_def)
  ultimately show ?thesis by metis
qed

section \<open>Moves\<close>

text \<open>
  A step is bounded by \<open>D\<close> and moves the supply by \<open>d\<close> if, from balances within a bound that
  leaves room for \<open>D\<close>, it ends in balances within the bound raised by \<open>D\<close> and changes the supply
  by \<open>d\<close>. Such steps compose.
\<close>

definition bounded :: "int \<Rightarrow> Store \<Rightarrow> bool" where
  "bounded B s \<longleftrightarrow> store_ok s \<and> (\<forall>pk. \<bar>sint (get_balance_i64 s pk)\<bar> \<le> B)"

definition moves :: "int \<Rightarrow> int \<Rightarrow> Store \<Rightarrow> Store \<Rightarrow> bool" where
  "moves D d s t \<longleftrightarrow> 0 \<le> D \<and> (\<forall>B. bounded B s \<and> B + D < 2 ^ 63 \<longrightarrow> bounded (B + D) t \<and> total_supply t = total_supply s + d)"

lemma movesI:
  "0 \<le> D \<Longrightarrow> (\<And>B. bounded B s \<Longrightarrow> B + D < 2 ^ 63 \<Longrightarrow> bounded (B + D) t \<and> total_supply t = total_supply s + d) \<Longrightarrow> moves D d s t"
  unfolding moves_def by blast

lemma movesD: "moves D d s t \<Longrightarrow> bounded B s \<Longrightarrow> B + D < 2 ^ 63 \<Longrightarrow> total_supply t = total_supply s + d"
  unfolding moves_def by blast

lemma moves_refl [simp]: "moves 0 0 s s"
  by (simp add: moves_def)

lemma moves_trans: "moves D d s t \<Longrightarrow> moves E e t u \<Longrightarrow> moves (D + E) (d + e) s u"
proof -
  assume m: "moves D d s t" "moves E e t u"
  have "bounded (B + (D + E)) u \<and> total_supply u = total_supply s + (d + e)" if b: "bounded B s" "B + (D + E) < 2 ^ 63" for B
  proof -
    have "B + D < 2 ^ 63" "(B + D) + E < 2 ^ 63" using b(2) m by (simp_all add: moves_def)
    then show ?thesis using m b(1) unfolding moves_def by (metis add.assoc)
  qed
  then show ?thesis using m by (intro movesI) (simp_all add: moves_def)
qed

lemma moves_fold:
  assumes "\<And>x t. x \<in> set xs \<Longrightarrow> moves (D x) (d x) t (f x t)"
  shows "moves (sum_list (map D xs)) (sum_list (map d xs)) s (fold f xs s)"
  using assms by (induction xs arbitrary: s) (auto intro!: moves_trans)

lemma moves_credit: "moves \<bar>sint v\<bar> (sint v) s (credit pk v s)"
proof -
  have "bounded (B + \<bar>sint v\<bar>) (credit pk v s) \<and> total_supply (credit pk v s) = total_supply s + sint v"
    if b: "bounded B s" and room: "B + \<bar>sint v\<bar> < 2 ^ 63" for B
  proof -
    have ok: "store_ok s" and bal: "\<bar>sint (get_balance_i64 s q)\<bar> \<le> B" for q using b by (simp_all add: bounded_def)
    have sum: "sint (saturating_add_i64 (get_balance_i64 s pk) v) = sint (get_balance_i64 s pk) + sint v"
      using bal[of pk] room by (simp add: sint_saturating_add_i64 i64_min_def i64_max_def)
    have "\<bar>sint (get_balance_i64 (credit pk v s) q)\<bar> \<le> B + \<bar>sint v\<bar>" for q
      using bal[of q] bal[of pk] sum by (auto simp: credit_def get_set_balance[OF ok])
    moreover have "store_ok (credit pk v s)" using ok by (simp add: credit_def set_balance_i64_def acc.ok_put)
    ultimately show ?thesis using sum by (simp add: bounded_def) (simp add: credit_def supply_set_balance[OF ok])
  qed
  then show ?thesis by (intro movesI) simp_all
qed

lemma touches_balance:
  assumes "touches K s t" and "\<And>k. K k \<Longrightarrow> \<not> bal_key k" and "store_ok s"
  shows "get_balance_i64 t = get_balance_i64 s"
proof
  fix pk
  have "\<not> K (balance_key_for_pubkey pk)" using assms(2) bal_key_simps(1) by blast
  then show "get_balance_i64 t pk = get_balance_i64 s pk" using assms(1,3) by (simp add: touches_def get_balance_i64_def)
qed

lemma moves_quiet:
  assumes "touches K s t" and "\<And>k. K k \<Longrightarrow> \<not> bal_key k"
  shows "moves 0 0 s t"
proof -
  have "bounded B t \<and> total_supply t = total_supply s" if "bounded B s" for B
  proof -
    have ok: "store_ok s" using that by (simp add: bounded_def)
    have t: "store_ok t" using ok assms(1) by (simp add: touches_def)
    have same: "store_get t k = store_get s k" if "bal_key k" for k using ok assms that unfolding touches_def by blast
    have "get_balance_i64 t = get_balance_i64 s" by (rule touches_balance[OF assms ok])
    then show ?thesis using that t supply_quiet[OF ok t same] by (simp add: bounded_def)
  qed
  then show ?thesis by (intro movesI) simp_all
qed

lemma moves_set: "\<not> bal_key k \<Longrightarrow> moves 0 0 s (store_set k v s)"
  by (rule moves_quiet[of "\<lambda>k'. k' = k"]) (auto intro: touches_set)

section \<open>The phases of an application\<close>

lemma moves_register: "moves 0 0 s (register_worker pk cyc s)"
  by (rule moves_quiet[of "\<lambda>k. \<not> bal_key k"])
     (auto simp: register_worker_def set_worker_last_registration_cycle_def ensure_worker_first_seen_cycle_def Let_def
       intro!: touches_set touches_trans[OF _ touches_set])

lemma run_evm_touches: "touches evm_key s (snd (run_evm nx chain_id pk pl s))"
  using deploy_touches[of s "transact nx" "create_address nx"] call_touches[of s "transact nx"]
  by (auto simp: run_evm_def Let_def split: EvmTxKind.split prod.split sum.split) (metis snd_conv)+

lemma moves_evm: "moves 0 0 s (snd (run_evm nx chain_id pk pl s))"
  by (rule moves_quiet[OF run_evm_touches]) simp

definition is_marker :: "TransactionEntry \<Rightarrow> bool" where
  "is_marker e \<longleftrightarrow> is_worker_reg_marker (te_signature e) \<or> is_evm_marker (te_signature e)"

definition plain_amount :: "TransactionEntry \<Rightarrow> int" where
  "plain_amount e = (if is_marker e then 0 else sint (te_amount e))"

lemma ap_store_or_insert [simp]: "ap_store (or_insert_success sg st) = ap_store st"
  by (simp add: or_insert_success_def)

lemma moves_entry: "moves \<bar>plain_amount e\<bar> (plain_amount e) (ap_store st) (ap_store (apply_entry nx chain_id cyc e st))"
  using moves_register moves_evm[of _ nx chain_id "te_public_key e"] moves_credit
  by (auto simp: apply_entry_def plain_amount_def is_marker_def Let_def credit_def[symmetric]
      split: option.split prod.split) (metis snd_conv)+

lemma moves_entries:
  "moves (sum_list (map (\<lambda>e. \<bar>plain_amount e\<bar>) es)) (sum_list (map plain_amount es)) s (ap_store (apply_entries nx cyc es s))"
proof -
  have "moves (sum_list (map (\<lambda>e. \<bar>plain_amount e\<bar>) es)) (sum_list (map plain_amount es)) (ap_store st)
      (ap_store (fold (apply_entry nx chain_id cyc) es st))" for st chain_id
    by (induction es arbitrary: st) (auto intro!: moves_trans[OF moves_entry])
  from this[of "\<lparr>ap_store = s, outcome_by_sig = [], executed_sigs = []\<rparr>"] show ?thesis by (simp add: apply_entries_def)
qed

lemma moves_compensation:
  "moves (sum_list (map (\<lambda>c. \<bar>sint (ce_amount c)\<bar>) cs)) (sum_list (map (\<lambda>c. sint (ce_amount c)) cs)) s (apply_compensation cs s)"
  unfolding apply_compensation_def by (rule moves_fold) (auto simp: moves_credit)

lemma moves_nonces: "moves 0 0 s (apply_nonces sender_of es s)"
proof -
  have "touches nonce_key t (bump_nonce sender t)" for sender t
    by (auto simp: bump_nonce_def set_nonce_u64_def split: option.split intro: touches_set)
  then have "touches nonce_key s (apply_nonces sender_of es s)"
    unfolding apply_nonces_def by (intro touches_fold) (auto split: prod.split)
  moreover have "nonce_key k \<Longrightarrow> \<not> bal_key k" for k
    by (cases k) (auto simp: key_kinds has_prefix_def as_bytes_def)
  ultimately show ?thesis by (rule moves_quiet)
qed

section \<open>Refunds and rewards\<close>

declare of_nat_unat [simp del]

definition gains :: "int \<Rightarrow> Store \<Rightarrow> Store \<Rightarrow> bool" where
  "gains N s t \<longleftrightarrow> (\<exists>d. 0 \<le> d \<and> d \<le> N \<and> moves d d s t)"

lemma gains_refl: "0 \<le> N \<Longrightarrow> gains N s s"
  unfolding gains_def by (rule exI[of _ 0]) simp

lemma gains_trans: "gains N s t \<Longrightarrow> gains M t u \<Longrightarrow> gains (N + M) s u"
proof -
  assume "gains N s t" "gains M t u"
  then obtain d e where "0 \<le> d" "d \<le> N" "moves d d s t" "0 \<le> e" "e \<le> M" "moves e e t u" unfolding gains_def by blast
  then show ?thesis unfolding gains_def using moves_trans[of d d s t e e u] by (intro exI[of _ "d + e"]) simp
qed

lemma gains_fold: "(\<And>x t. x \<in> set xs \<Longrightarrow> gains N t (f x t)) \<Longrightarrow> gains (N * int (length xs)) s (fold f xs s)"
proof (induction xs arbitrary: s)
  case (Cons x xs)
  have "gains (N + N * int (length xs)) s (fold f xs (f x s))"
    by (rule gains_trans[of _ _ "f x s"]) (use Cons in auto)
  then show ?case by (simp add: algebra_simps)
qed (simp add: gains_refl)

lemma spendable_le: "unat (fee_credit_spendable_for_cycle nx s pk due cyc) \<le> 300"
proof -
  have "unat (saturating_sub TOKENOMICS_FEE_CREDITS_DAILY_SPEND_CAP_ATOMS x) \<le> 300" for x
    by (simp add: saturating_unats tokenomics_defs)
  then show ?thesis
    by (auto simp: fee_credit_spendable_for_cycle_def Let_def min_def word_le_nat_alt intro: order.trans)
qed

lemma spend_effect:
  assumes "apply_fee_credit_spend_for_cycle nx pk due cyc s = (spend, t)"
  shows "unat spend \<le> 300" and "touches (\<lambda>k. credit_key k \<or> daily_key k) s t"
proof -
  show "unat spend \<le> 300" using assms spendable_le[of nx s pk due cyc]
    by (auto simp: apply_fee_credit_spend_for_cycle_def Let_def split: if_splits)
  show "touches (\<lambda>k. credit_key k \<or> daily_key k) s t" using assms
    by (auto simp: apply_fee_credit_spend_for_cycle_def Let_def set_fee_credit_balance_u64_def set_fee_credit_daily_spend_def
        split: if_splits intro!: touches_trans[OF touches_set touches_set])
qed

lemma credit_daily_not_bal: "credit_key k \<or> daily_key k \<Longrightarrow> \<not> bal_key k"
  by (cases k) (auto simp: key_kinds has_prefix_def as_bytes_def)

lemma gains_settle_group: "gains 300 s (settle_group nx cyc es s)"
proof -
  have pay: "gains 300 s (if 0 < spend then credit pk spend t else t)"
    if sp: "apply_fee_credit_spend_for_cycle nx pk due cyc s = (spend, t)" for pk due spend t
  proof -
    note eff = spend_effect[OF sp]
    have q: "moves 0 0 s t" by (rule moves_quiet[OF eff(2)]) (rule credit_daily_not_bal)
    have u: "unat spend \<le> 300" by (rule eff(1))
    have sint: "sint spend = int (unat spend)" by (rule sint_small) (use u in simp)
    have "moves (0 + \<bar>sint spend\<bar>) (0 + sint spend) s (credit pk spend t)" by (rule moves_trans[OF q moves_credit])
    then have c: "moves (int (unat spend)) (int (unat spend)) s (credit pk spend t)" by (simp add: sint)
    show ?thesis
    proof (cases "0 < spend")
      case True
      then show ?thesis unfolding gains_def using c u by (intro exI[of _ "int (unat spend)"]) (simp del: of_nat_unat)
    next
      case False
      then show ?thesis unfolding gains_def using q by (intro exI[of _ 0]) simp
    qed
  qed
  show ?thesis
    using pay gains_refl[of 300 s] by (auto simp: settle_group_def Let_def split: option.split prod.split)
qed

lemma gains_settle:
  "gains (300 * int (length (group_by_sig (pu_transaction_entries (lsu_partial_update lsu))))) s
     (settle_fee_credit_spend_for_applied_cycle nx lsu s)"
  unfolding settle_fee_credit_spend_for_applied_cycle_def
  using gains_fold[of "group_by_sig (pu_transaction_entries (lsu_partial_update lsu))" 300 "\<lambda>(_, g). settle_group nx (lsu_cycle_number lsu) g" s]
  by (auto simp: tokenomics_defs gains_settle_group split: prod.splits)

lemma moves_accrue: "moves 0 0 s (accrue_credit pk s)"
  by (simp add: accrue_credit_def set_fee_credit_balance_u64_def moves_set)

lemma moves_pay_waiting:
  assumes "unat per < 2 ^ 62" and "unat rem \<le> length pks"
  shows "moves (int (unat per * length pks + unat rem)) (int (unat per * length pks + unat rem)) s (pay_waiting per rem pks s)"
  using assms(2)
proof (induction pks arbitrary: rem s)
  case (Cons pk pks)
  define bonus :: u64 where "bonus = (if 0 < rem then 1 else 0)"
  have b: "unat bonus = (if 0 < unat rem then 1 else 0)" by (auto simp: bonus_def word_less_nat_alt)
  have a: "unat (saturating_add per bonus) = unat per + unat bonus" using assms(1) b by (simp add: saturating_unats)
  then have sa: "sint (saturating_add per bonus) = int (unat per + unat bonus)"
    using assms(1) b sint_small[of "saturating_add per bonus"] by simp
  define s1 where "s1 = (if 0 < per \<or> 0 < rem then credit pk (saturating_add per bonus) s else s)"
  have m1: "moves (int (unat per + unat bonus)) (int (unat per + unat bonus)) s s1"
    using moves_credit[of "saturating_add per bonus" s pk] b
    by (auto simp: s1_def sa word_less_nat_alt)
  have r: "unat (rem - bonus) = unat rem - unat bonus" using b by (auto simp: bonus_def unat_sub word_le_nat_alt word_less_nat_alt)
  have "moves (int (unat per * length pks + unat (rem - bonus))) (int (unat per * length pks + unat (rem - bonus)))
      (accrue_credit pk s1) (pay_waiting per (rem - bonus) pks (accrue_credit pk s1))"
    by (rule Cons.IH) (use Cons.prems b r in auto)
  from moves_trans[OF m1 moves_trans[OF moves_accrue this]]
  have step: "moves (int (unat per + unat bonus) + (0 + int (unat per * length pks + unat (rem - bonus))))
      (int (unat per + unat bonus) + (0 + int (unat per * length pks + unat (rem - bonus)))) s (pay_waiting per rem (pk # pks) s)"
    by (simp add: Let_def bonus_def[symmetric] s1_def[symmetric] tokenomics_defs)
  have eq: "int (unat per + unat bonus) + (0 + int (unat per * length pks + unat (rem - bonus)))
      = int (unat per * length (pk # pks) + unat rem)"
    using r b by (auto simp: algebra_simps)
  show ?case using step unfolding eq .
qed simp

lemma waiting_pool_small: "unat (waiting_pool_of lsu) < 2 ^ 61"
proof -
  have "unat (saturating_mul x TOKENOMICS_WAITING_POOL_REWARD_BPS div 10000) < 2 ^ 61" for x
  proof -
    have "min (2 ^ 64 - 1) (unat x * unat TOKENOMICS_WAITING_POOL_REWARD_BPS) div 10000 \<le> (2 ^ 64 - 1) div 10000"
      by (rule div_le_mono) simp
    then show ?thesis by (simp add: unat_div saturating_unats)
  qed
  then show ?thesis
    unfolding waiting_pool_of_def Let_def
    by (auto simp: min_def word_le_nat_alt not_le split: prod.split intro: order.strict_trans1 less_trans)
qed

lemma length_store_set: "length (accounts s) \<le> length (accounts (store_set k v s))"
proof -
  have "length m \<le> length (bt_insert k v m)" for m :: kvs by (induction m) auto
  then show ?thesis by (simp add: store_set_def)
qed

lemma length_pay_waiting: "length (accounts s) \<le> length (accounts (pay_waiting per rem pks s))"
proof (induction pks arbitrary: rem s)
  case (Cons pk pks)
  have grow: "length (accounts t) \<le> length (accounts (accrue_credit q t))" "length (accounts t) \<le> length (accounts (credit q v t))" for q t v
    by (simp_all add: accrue_credit_def set_fee_credit_balance_u64_def credit_def set_balance_i64_def length_store_set)
  define bonus :: u64 where "bonus = (if 0 < rem then 1 else 0)"
  define s1 where "s1 = (if 0 < per \<or> 0 < rem then credit pk (saturating_add per bonus) s else s)"
  have step: "pay_waiting per rem (pk # pks) s = pay_waiting per (rem - bonus) pks (accrue_credit pk s1)"
    by (simp add: Let_def s1_def bonus_def tokenomics_defs)
  have "length (accounts s) \<le> length (accounts s1)" by (simp add: s1_def grow)
  then show ?case unfolding step by (rule order.trans[OF _ order.trans[OF grow(1) Cons.IH]])
qed simp

lemma length_waiting: "length (waiting_workers nx lsu s) \<le> length (accounts s)"
proof -
  have sd: "length (sort_dedup xs) \<le> length xs" for xs :: "bytes list"
    using card_length[of xs] distinct_card[OF distinct_sort_dedup, of xs] by (simp add: set_sort_dedup)
  have "length (load_workers_from_state s) \<le> length (accounts s)"
    unfolding load_workers_from_state_def List.map_filter_def
    by (rule order.trans[OF sd]) simp
  then show ?thesis
    unfolding waiting_workers_def Let_def
    by (intro order.trans[OF length_filter_le] order.trans[OF sd])
qed

definition distributed :: "('s, 'p) node_env \<Rightarrow> LedgerStateUpdate \<Rightarrow> Store \<Rightarrow> int" where
  "distributed nx lsu s = (if waiting_workers nx lsu s = [] then 0 else int (unat (waiting_pool_of lsu)))"

lemma moves_distribute:
  assumes "length (accounts (distribute_waiting_pool_rewards_and_fee_credits nx lsu s)) < 2 ^ 64"
  shows "moves (distributed nx lsu s) (distributed nx lsu s) s (distribute_waiting_pool_rewards_and_fee_credits nx lsu s)"
proof (cases "waiting_workers nx lsu s = []")
  case False
  define w where "w = waiting_workers nx lsu s"
  define n :: u64 where "n = of_nat (length w)"
  have d: "distribute_waiting_pool_rewards_and_fee_credits nx lsu s = pay_waiting (waiting_pool_of lsu div n) (waiting_pool_of lsu mod n) w s"
    using False by (simp add: distribute_waiting_pool_rewards_and_fee_credits_def Let_def w_def n_def tokenomics_defs)
  have "length w < 2 ^ 64"
    using assms length_waiting[of nx lsu s] length_pay_waiting[of s] unfolding d w_def by (meson le_less_trans)
  then have n: "unat n = length w" by (simp add: n_def unat_of_nat)
  have len: "0 < length w" using False by (simp add: w_def)
  have "moves (int (unat (waiting_pool_of lsu div n) * length w + unat (waiting_pool_of lsu mod n)))
      (int (unat (waiting_pool_of lsu div n) * length w + unat (waiting_pool_of lsu mod n))) s
      (pay_waiting (waiting_pool_of lsu div n) (waiting_pool_of lsu mod n) w s)"
  proof (rule moves_pay_waiting)
    show "unat (waiting_pool_of lsu div n) < 2 ^ 62"
      unfolding unat_div by (rule le_less_trans[OF div_le_dividend]) (use waiting_pool_small[of lsu] in simp)
    show "unat (waiting_pool_of lsu mod n) \<le> length w" using len by (simp add: unat_mod n less_imp_le)
  qed
  moreover have "unat (waiting_pool_of lsu div n) * length w + unat (waiting_pool_of lsu mod n) = unat (waiting_pool_of lsu)"
    by (simp add: unat_div unat_mod n)
  ultimately show ?thesis using False by (simp add: d distributed_def)
next
  case True
  then show ?thesis by (simp add: distribute_waiting_pool_rewards_and_fee_credits_def distributed_def Let_def)
qed

text \<open>
  C10: Money only comes and goes where the rules say. Applying an update changes the sum of all
  balances by exactly the plain entries of its transactions plus the producer compensation, plus
  fee credits of at most 300 atoms per transaction, plus either the whole waiting pool or nothing.
  Worker registrations and contract calls, whatever the virtual machine does, move no balance.
  The hypothesis leaves room in 64 bits for every balance, so that no addition saturates.
\<close>

theorem supply_accounted:
  assumes "apply_effects nx sender_of lsu s = (outcomes, s')" and "bounded B s" and "length (accounts s') < 2 ^ 64"
    and "es = pu_transaction_entries (lsu_partial_update lsu)"
    and "B + (\<Sum>e\<leftarrow>es. \<bar>plain_amount e\<bar>) + (\<Sum>c\<leftarrow>lsu_compensation_entries lsu. \<bar>sint (ce_amount c)\<bar>)
       + 300 * int (length (group_by_sig es)) + int (unat (waiting_pool_of lsu)) < 2 ^ 63"
  shows "\<exists>refunds rewards. 0 \<le> refunds \<and> refunds \<le> 300 * int (length (group_by_sig es))
    \<and> rewards \<in> {0, int (unat (waiting_pool_of lsu))}
    \<and> total_supply s' = total_supply s + (\<Sum>e\<leftarrow>es. plain_amount e)
        + (\<Sum>c\<leftarrow>lsu_compensation_entries lsu. sint (ce_amount c)) + refunds + rewards"
proof -
  define s1 where "s1 = apply_compensation (lsu_compensation_entries lsu) (ap_store (apply_entries nx (lsu_cycle_number lsu) es s))"
  define s2 where "s2 = apply_nonces sender_of es s1"
  define s3 where "s3 = settle_fee_credit_spend_for_applied_cycle nx lsu s2"
  define s4 where "s4 = distribute_waiting_pool_rewards_and_fee_credits nx lsu s3"
  have s': "s' = write_root_cycle_counter (lsu_cycle_number lsu) s4"
    using assms(1) by (simp add: apply_effects_def Let_def s1_def s2_def s3_def s4_def assms(4))
  obtain r where r: "0 \<le> r" "r \<le> 300 * int (length (group_by_sig es))" "moves r r s2 s3"
    using gains_settle[of lsu s2 nx] unfolding gains_def s3_def assms(4) by blast
  have "length (accounts s4) < 2 ^ 64"
    using assms(3) length_store_set[of s4] unfolding s' write_root_cycle_counter_def by (meson le_less_trans)
  then have d: "moves (distributed nx lsu s3) (distributed nx lsu s3) s3 s4" unfolding s4_def by (rule moves_distribute)
  have c: "moves 0 0 s4 s'" by (simp add: s' write_root_cycle_counter_def moves_set)
  have 1: "moves ((\<Sum>e\<leftarrow>es. \<bar>plain_amount e\<bar>) + (\<Sum>c\<leftarrow>lsu_compensation_entries lsu. \<bar>sint (ce_amount c)\<bar>))
      ((\<Sum>e\<leftarrow>es. plain_amount e) + (\<Sum>c\<leftarrow>lsu_compensation_entries lsu. sint (ce_amount c))) s s1"
    unfolding s1_def by (rule moves_trans[OF moves_entries moves_compensation])
  note all = moves_trans[OF 1 moves_trans[OF moves_nonces[of s1 sender_of es, folded s2_def] moves_trans[OF r(3) moves_trans[OF d c]]]]
  have dist: "distributed nx lsu s3 \<in> {0, int (unat (waiting_pool_of lsu))}" "distributed nx lsu s3 \<le> int (unat (waiting_pool_of lsu))"
    by (auto simp: distributed_def)
  have "total_supply s' = total_supply s + ((\<Sum>e\<leftarrow>es. plain_amount e) + (\<Sum>c\<leftarrow>lsu_compensation_entries lsu. sint (ce_amount c))
      + (0 + (r + (distributed nx lsu s3 + 0))))"
    by (rule movesD[OF all assms(2)]) (use assms(5) r(2) dist(2) in linarith)
  then show ?thesis using r dist(1) by (intro exI[of _ r] exI[of _ "distributed nx lsu s3"]) simp
qed

definition burn_lsu :: LedgerStateUpdate where
  "burn_lsu = \<lparr>lsu_partial_update = \<lparr>pu_transaction_entries = [\<lparr>te_public_key = payer, te_amount = - 2, te_signature = [9]\<rparr>],
       pu_transaction_signatures_hash = replicate 32 0, pu_total_fees = 2, pu_timestamp = 0\<rparr>,
     lsu_compensation_entries = [], lsu_cycle_number = 5, lsu_producer_list = [], lsu_vote_list = []\<rparr>"

lemma length_store_set_le: "length (accounts (store_set k v s)) \<le> Suc (length (accounts s))"
proof -
  have "length (bt_insert k v m) \<le> Suc (length m)" for m :: kvs by (induction m) auto
  then show ?thesis by (simp add: store_set_def)
qed

lemma burn_effects:
  "snd (apply_effects demo_env sender_of_group burn_lsu (funded_store 3))
     = write_root_cycle_counter 5 (set_nonce_u64 payer 1 (set_balance_i64 payer 1 (funded_store 3)))"
proof -
  let ?es = "pu_transaction_entries (lsu_partial_update burn_lsu)"
  let ?s = "set_nonce_u64 payer 1 (set_balance_i64 payer 1 (funded_store 3))"
  have entries: "ap_store (apply_entries demo_env 5 ?es (funded_store 3)) = set_balance_i64 payer 1 (funded_store 3)"
    by (simp add: apply_entries_def apply_entry_def burn_lsu_def is_worker_reg_marker_def is_evm_marker_def has_prefix_def as_bytes_def
        funded_store_reads saturating_add_i64_def i64_of_int_def i64_min_def i64_max_def)
  have group: "group_by_sig ?es = [([9], ?es)]" by (simp add: group_by_sig_def burn_lsu_def bt_push_def)
  have sender: "sender_of_group ?es = Some payer" by (simp add: sender_of_group_def or_marker_def burn_lsu_def)
  have nonce: "get_nonce_u64 (set_balance_i64 payer 1 (funded_store 3)) payer = 0"
    by (simp add: get_nonce_u64_def set_balance_i64_def funded_store_def store_set_def store_get_def empty_store_def key_defs as_bytes_def)
  have credit: "get_fee_credit_balance_u64 ?s payer = 0"
    by (simp add: get_fee_credit_balance_u64_def set_balance_i64_def set_nonce_u64_def funded_store_def store_set_def store_get_def
        empty_store_def key_defs as_bytes_def)
  have settle: "settle_group demo_env 5 ?es ?s = ?s"
    using sender by (simp add: settle_group_def apply_fee_credit_spend_for_cycle_def fee_credit_spendable_for_cycle_def credit Let_def)
  have "load_workers_from_state ?s = []"
    by (simp add: load_workers_from_state_def set_balance_i64_def set_nonce_u64_def funded_store_def store_set_def empty_store_def
        key_defs as_bytes_def List.map_filter_def has_prefix_def sort_dedup_def)
  then have wait: "distribute_waiting_pool_rewards_and_fee_credits demo_env burn_lsu ?s = ?s"
    by (simp add: distribute_waiting_pool_rewards_and_fee_credits_def waiting_workers_def Let_def sort_dedup_def)
  have cyc: "lsu_cycle_number burn_lsu = 5" "lsu_compensation_entries burn_lsu = []" by (simp_all add: burn_lsu_def)
  show ?thesis
    by (simp add: apply_effects_def Let_def cyc entries apply_compensation_def apply_nonces_def group sender bump_nonce_def nonce
        settle_fee_credit_spend_for_applied_cycle_def settle wait tokenomics_defs saturating_add_def)
qed

lemma burn_accounts: "length (accounts (snd (apply_effects demo_env sender_of_group burn_lsu (funded_store 3)))) \<le> 4"
proof -
  have "length (accounts (funded_store 3)) = 1"
    by (simp add: funded_store_def set_balance_i64_def store_set_def empty_store_def)
  then have "length (accounts (funded_store 3)) \<le> 1" by simp
  moreover have "length (accounts s) \<le> n \<Longrightarrow> length (accounts (store_set k v s)) \<le> Suc n" for k v s n
    using length_store_set_le[of k v s] by simp
  ultimately have "length (accounts (snd (apply_effects demo_env sender_of_group burn_lsu (funded_store 3)))) \<le> Suc (Suc (Suc 1))"
    unfolding burn_effects write_root_cycle_counter_def set_nonce_u64_def set_balance_i64_def by blast
  then show ?thesis by simp
qed

theorem supply_accounted_witness:
  "\<exists>outcomes s' refunds rewards. apply_effects demo_env sender_of_group burn_lsu (funded_store 3) = (outcomes, s')
     \<and> 0 \<le> refunds \<and> refunds \<le> 300 \<and> rewards \<in> {0, int (unat (waiting_pool_of burn_lsu))}
     \<and> total_supply s' = total_supply (funded_store 3) - 2 + refunds + rewards"
proof -
  obtain outcomes s' where a: "apply_effects demo_env sender_of_group burn_lsu (funded_store 3) = (outcomes, s')"
    by (cases "apply_effects demo_env sender_of_group burn_lsu (funded_store 3)")
  have b: "bounded 3 (funded_store 3)" by (simp add: bounded_def funded_store_reads)
  have l: "length (accounts s') < 2 ^ 64" using burn_accounts unfolding a by simp
  have g: "length (group_by_sig (pu_transaction_entries (lsu_partial_update burn_lsu))) = 1"
    by (simp add: burn_lsu_def group_by_sig_def bt_push_def)
  have p: "(\<Sum>e\<leftarrow>pu_transaction_entries (lsu_partial_update burn_lsu). plain_amount e) = - 2"
    "(\<Sum>e\<leftarrow>pu_transaction_entries (lsu_partial_update burn_lsu). \<bar>plain_amount e\<bar>) = 2"
    by (simp_all add: burn_lsu_def plain_amount_def is_marker_def is_worker_reg_marker_def is_evm_marker_def has_prefix_def as_bytes_def)
  have w: "int (unat (waiting_pool_of burn_lsu)) < 2 ^ 61" using waiting_pool_small[of burn_lsu] by simp
  have c: "lsu_compensation_entries burn_lsu = []" by (simp add: burn_lsu_def)
  from supply_accounted[OF a b l refl] obtain refunds rewards where "0 \<le> refunds" "refunds \<le> 300"
    "rewards \<in> {0, int (unat (waiting_pool_of burn_lsu))}" "total_supply s' = total_supply (funded_store 3) - 2 + refunds + rewards"
    using w unfolding g p c by auto
  with a show ?thesis by blast
qed

end
