(* ===== verification/Application.thy ===== *)
theory Application
  imports Supply
begin

text \<open>
  What applying an update guarantees: the head advances once per cycle and the root is that of the
  accounts; the claimed-root path accepts exactly the right root and otherwise changes nothing; fee
  credits stay within their limits; and what is not charged that should be.
\<close>

section \<open>Frames\<close>

abbreviation any_key :: "bytes \<Rightarrow> bool" where "any_key \<equiv> \<lambda>_. True"

lemma touches_mono: "touches K s t \<Longrightarrow> (\<And>k. K k \<Longrightarrow> L k) \<Longrightarrow> touches L s t"
  unfolding touches_def by blast

lemma touches_any: "touches K s t \<Longrightarrow> touches any_key s t"
  by (rule touches_mono) simp_all

lemma credit_touches: "touches bal_key s (credit pk v s)"
  by (simp add: credit_def set_balance_i64_def touches_set)

lemma apply_entry_touches:
  "touches (\<lambda>k. \<not> credit_key k \<and> \<not> daily_key k) (ap_store st) (ap_store (apply_entry nx chain_id cyc e st))"
proof -
  have reg: "touches (\<lambda>k. \<not> credit_key k \<and> \<not> daily_key k) s (register_worker pk cyc s)" for s pk
    by (auto simp: register_worker_def set_worker_last_registration_cycle_def ensure_worker_first_seen_cycle_def Let_def
        intro!: touches_set touches_trans[OF _ touches_set])
  have evm: "touches (\<lambda>k. \<not> credit_key k \<and> \<not> daily_key k) s (snd (run_evm nx chain_id pk pl s))" for s pk pl
    by (rule touches_mono[OF run_evm_touches]) simp
  have bal: "touches (\<lambda>k. \<not> credit_key k \<and> \<not> daily_key k) s (credit pk v s)" for s pk v
    by (simp add: credit_def set_balance_i64_def touches_set)
  show ?thesis
    using reg bal evm[of "ap_store st" "te_public_key e"]
    by (auto simp: apply_entry_def Let_def credit_def[symmetric] split: option.split prod.split) (metis snd_conv)
qed

lemma apply_entries_touches:
  "touches (\<lambda>k. \<not> credit_key k \<and> \<not> daily_key k) s (ap_store (apply_entries nx cyc es s))"
proof -
  have "touches (\<lambda>k. \<not> credit_key k \<and> \<not> daily_key k) (ap_store st) (ap_store (fold (apply_entry nx chain_id cyc) es st))" for st chain_id
    by (induction es arbitrary: st) (auto intro: touches_trans[OF apply_entry_touches])
  from this[of "\<lparr>ap_store = s, outcome_by_sig = [], executed_sigs = []\<rparr>"] show ?thesis by (simp add: apply_entries_def)
qed

lemma apply_compensation_touches: "touches bal_key s (apply_compensation cs s)"
  unfolding apply_compensation_def by (rule touches_fold) (simp add: credit_touches)

lemma apply_nonces_touches: "touches nonce_key s (apply_nonces sender_of es s)"
proof -
  have "touches nonce_key t (bump_nonce sender t)" for sender t
    by (auto simp: bump_nonce_def set_nonce_u64_def split: option.split intro: touches_set)
  then show ?thesis unfolding apply_nonces_def by (intro touches_fold) (auto split: prod.split)
qed

lemma settle_group_touches: "touches any_key s (settle_group nx cyc es s)"
proof -
  have "touches any_key s (if 0 < spend then credit pk spend t else t)"
    if "apply_fee_credit_spend_for_cycle nx pk due cyc s = (spend, t)" for pk due spend t
    using touches_any[OF spend_effect(2)[OF that]] touches_any[OF credit_touches] by (auto intro: touches_trans)
  then show ?thesis by (auto simp: settle_group_def Let_def split: option.split prod.split)
qed

lemma settle_touches: "touches any_key s (settle_fee_credit_spend_for_applied_cycle nx lsu s)"
  unfolding settle_fee_credit_spend_for_applied_cycle_def
  by (auto intro!: touches_fold settle_group_touches split: prod.split)

lemma pay_waiting_touches: "touches any_key s (pay_waiting per rem pks s)"
proof (induction pks arbitrary: rem s)
  case (Cons pk pks)
  have c: "touches any_key t (credit q v t)" "touches any_key t (accrue_credit q t)" for q v t
    by (simp_all add: touches_any[OF credit_touches] accrue_credit_def set_fee_credit_balance_u64_def touches_set)
  show ?case unfolding pay_waiting.simps Let_def
    by (rule touches_trans[OF _ Cons.IH]) (auto intro: c touches_trans[OF c(1) c(2)])
qed simp

lemma distribute_touches: "touches any_key s (distribute_waiting_pool_rewards_and_fee_credits nx lsu s)"
  by (simp add: distribute_waiting_pool_rewards_and_fee_credits_def Let_def pay_waiting_touches)

lemma effects_split:
  obtains t where "touches any_key s t" "snd (apply_effects nx sender_of lsu s) = write_root_cycle_counter (lsu_cycle_number lsu) t"
proof (rule that)
  let ?es = "pu_transaction_entries (lsu_partial_update lsu)"
  show "touches any_key s (distribute_waiting_pool_rewards_and_fee_credits nx lsu (settle_fee_credit_spend_for_applied_cycle nx lsu
      (apply_nonces sender_of ?es (apply_compensation (lsu_compensation_entries lsu)
        (ap_store (apply_entries nx (lsu_cycle_number lsu) ?es s))))))"
    by (rule touches_trans[OF touches_any[OF apply_entries_touches] touches_trans[OF touches_any[OF apply_compensation_touches]
          touches_trans[OF touches_any[OF apply_nonces_touches] touches_trans[OF settle_touches distribute_touches]]]])
qed (simp add: apply_effects_def Let_def)

lemma effects_touch: "touches any_key s (snd (apply_effects nx sender_of lsu s))"
proof -
  obtain t where t: "touches any_key s t" "snd (apply_effects nx sender_of lsu s) = write_root_cycle_counter (lsu_cycle_number lsu) t"
    by (rule effects_split)
  show ?thesis unfolding t(2) write_root_cycle_counter_def by (rule touches_trans[OF t(1) touches_set]) simp
qed

text \<open>Receipts and pruning write metadata under their own prefixes only.\<close>

lemma receipts_note: "meta_touches (keyed ''tx:meta:'') s (write_receipts nx now_ms cyc h r outs s)"
  unfolding write_receipts_def Let_def by (rule meta_touches_fold, rule meta_touches_set) (simp add: keyed_def tx_meta_key_def)

lemma prune_note: "meta_touches (keyed ''mempool:'') s (prune_persisted_mempool nx s)"
proof -
  have "meta_touches (keyed ''mempool:'') t (store_delete_meta (mempool_tx_key txid) t)" for t txid
    by (auto simp: meta_touches_def store_delete_meta_def keyed_def mempool_tx_key_def)
  moreover have "meta_touches (keyed ''mempool:'') t (save_mempool_txids nx ids t)" for t ids
    unfolding save_mempool_txids_def by (rule meta_touches_set) (simp add: keyed_def)
  ultimately have "meta_touches (keyed ''mempool:'') t (delete_persisted_mempool_tx nx txid t)" for t txid
    unfolding delete_persisted_mempool_tx_def Let_def by (blast intro: meta_touches_trans)
  then show ?thesis unfolding prune_persisted_mempool_def by (intro meta_touches_fold) (simp add: meta_touches_refl)
qed

section \<open>The head advances once\<close>

lemma root_exists:
  assumes "\<forall>x. length (sha256 x) = 32"
  shows "\<exists>root. compute_root_from_iter sha256 m = Inr root"
proof -
  obtain root depths where "build_depth_maps sha256 (leaf_map_of sha256 m) = Inr (root, depths)"
    using build_depth_maps_spec[OF leaf_map_of_wf, where ?sha256.0 = sha256] assms by blast
  then show ?thesis by (simp add: compute_root_from_iter_def)
qed

lemma compute_root_length:
  assumes sha: "\<forall>x. length (sha256 x) = 32" and root: "compute_root_from_iter sha256 m = Inr root"
  shows "length root = 32"
proof -
  obtain depths where "fold (step_hash sha256) (path_steps sha256 depths TREE_DEPTH (replicate 32 0))
      (get_or (leaf_map_of sha256 m) (replicate 32 0) (h_empty_leaf sha256)) = root"
    using build_depth_maps_spec[OF leaf_map_of_wf[OF sha], of sha256 m] root
    by (auto simp: compute_root_from_iter_def) (metis length_replicate)
  moreover have "length (fold (step_hash sha256) steps x) = 32" if "steps \<noteq> []" for steps x
    using that sha by (cases steps rule: rev_cases) (simp_all add: step_hash_def h_node_def)
  moreover have "path_steps sha256 depths TREE_DEPTH (replicate 32 0) \<noteq> []"
  proof
    assume "path_steps sha256 depths TREE_DEPTH (replicate 32 0) = []"
    then have "length (path_steps sha256 depths TREE_DEPTH (replicate 32 0)) = 0" by (simp only: list.size)
    then show False unfolding length_path_steps by (simp add: TREE_DEPTH_def)
  qed
  ultimately show ?thesis by metis
qed

lemma u64_meta [simp]: "u64_of_meta (Some (to_le_bytes (w :: u64))) = Some w"
  by (simp add: u64_of_meta_def)


definition at_head :: "('s, 'p::ab_group_add) node_env \<Rightarrow> LedgerStateUpdate \<Rightarrow> Hash \<Rightarrow> Store \<Rightarrow> bool" where
  "at_head nx lsu root t \<longleftrightarrow>
     store_ok t \<and> root_cache t = Some root \<and> compute_root_from_iter (sha nx) (accounts t) = Inr root
     \<and> applied_head t = lsu_cycle_number lsu
     \<and> metadata t ''consensus:last_applied_state_root'' = Some root
     \<and> metadata t ''consensus:last_applied_lsu_hash'' = Some (hash_data (blake2b (ext nx)) ser_lsu lsu)
     \<and> metadata t (key_of_cycle ''consensus:lsu:'' (lsu_cycle_number lsu)) = Some (ser_lsu lsu)
     \<and> metadata t (key_of_cycle ''consensus:lsu_hash:'' (lsu_cycle_number lsu)) = Some (hash_data (blake2b (ext nx)) ser_lsu lsu)
     \<and> store_get t ROOT_CYCLE_COUNTER_KEY = Some (to_le_bytes (lsu_cycle_number lsu))"

lemma head_written:
  fixes lsu :: LedgerStateUpdate and b :: "bytes \<Rightarrow> bytes" and root :: Hash and s :: Store
  defines "h \<equiv> hash_data b ser_lsu lsu"
  defines "t \<equiv> write_history lsu h (write_head lsu h root s)"
  shows "accounts t = accounts s" "root_cache t = root_cache s"
    "metadata t ''consensus:last_applied_cycle'' = Some (to_le_bytes (lsu_cycle_number lsu))"
    "metadata t ''consensus:last_applied_state_root'' = Some root"
    "metadata t ''consensus:last_applied_lsu_hash'' = Some h"
    "metadata t (key_of_cycle ''consensus:lsu:'' (lsu_cycle_number lsu)) = Some (ser_lsu lsu)"
    "metadata t (key_of_cycle ''consensus:lsu_hash:'' (lsu_cycle_number lsu)) = Some h"
  by (simp_all add: t_def write_history_def write_head_def store_set_meta_def key_of_cycle_def)

lemma at_head_frame:
  assumes "at_head nx lsu root s" and "meta_touches (keyed p) s t" and "p = ''mempool:'' \<or> p = ''tx:meta:''"
  shows "at_head nx lsu root t"
proof -
  have "metadata t k = metadata s k" if "take 10 k = ''consensus:''" for k
  proof -
    have "\<not> keyed p k" using assms(3) that by (cases k; auto simp: keyed_def)
    then show ?thesis using assms(2) by (simp add: meta_touches_def)
  qed
  then show ?thesis using assms(1,2)
    by (simp add: at_head_def applied_head_def meta_touches_def store_ok_def store_get_def key_of_cycle_def)
qed

lemma at_head_prune_history: "at_head nx lsu root s \<Longrightarrow> at_head nx lsu root (maybe_prune_history nx now_ms s)"
proof -
  assume a: "at_head nx lsu root s"
  then have "history_head s = lsu_cycle_number lsu" by (simp add: at_head_def history_head_def applied_head_def)
  then have "metadata (maybe_prune_history nx now_ms s) (key_of_cycle p (lsu_cycle_number lsu)) = metadata s (key_of_cycle p (lsu_cycle_number lsu))"
    if "p = ''consensus:lsu:'' \<or> p = ''consensus:lsu_hash:''" for p
    using maybe_prune_frame(4)[of "key_of_cycle p (lsu_cycle_number lsu)" s nx now_ms] that by (auto simp: consensus_history_keys_def)
  then show ?thesis using a
    by (simp add: at_head_def applied_head_def maybe_prune_frame store_ok_def store_get_def)
qed

lemma counter_written:
  assumes "store_ok s"
  shows "store_get (snd (apply_effects nx sender_of lsu s)) ROOT_CYCLE_COUNTER_KEY = Some (to_le_bytes (lsu_cycle_number lsu))"
proof -
  obtain t where t: "touches any_key s t" "snd (apply_effects nx sender_of lsu s) = write_root_cycle_counter (lsu_cycle_number lsu) t"
    by (rule effects_split)
  then have "store_ok t" using assms by (simp add: touches_def)
  then show ?thesis using t(2) by (simp add: write_root_cycle_counter_def acc.get_put)
qed

lemma committed_at_head:
  assumes "store_ok s" and "compute_root_from_iter (sha nx) (accounts s1) = Inr root"
    and "s1 = snd (apply_effects nx sender_of lsu s)" and "meta_touches (keyed ''tx:meta:'') (s1\<lparr>root_cache := Some root\<rparr>) s3"
  shows "at_head nx lsu root (write_history lsu (hash_data (blake2b (ext nx)) ser_lsu lsu)
           (write_head lsu (hash_data (blake2b (ext nx)) ser_lsu lsu) root s3))"
proof -
  have s3: "accounts s3 = accounts s1" "root_cache s3 = Some root" using assms(4) by (simp_all add: meta_touches_def)
  have ok: "store_ok s1" using assms(1,3) effects_touch[of s nx sender_of lsu] by (simp add: touches_def)
  show ?thesis using s3 ok assms(2) counter_written[OF assms(1), of nx sender_of lsu, folded assms(3)]
    by (simp add: at_head_def applied_head_def head_written store_ok_def store_get_def)
qed

lemma apply_lsu_at_head:
  assumes "store_ok s" and "\<forall>x. length (sha nx x) = 32" and "applied_head s < lsu_cycle_number lsu"
  shows "\<exists>root t. apply_lsu_to_storage_locked nx now_ms lsu s = (Inr root, t) \<and> at_head nx lsu root t
     \<and> accounts t = accounts (snd (apply_effects nx sender_of_group lsu s))"
proof -
  obtain outs s1 where e: "apply_effects nx sender_of_group lsu s = (outs, s1)" by fastforce
  obtain root where root: "compute_root_from_iter (sha nx) (accounts s1) = Inr root" using root_exists[OF assms(2)] by blast
  define h where "h = hash_data (blake2b (ext nx)) ser_lsu lsu"
  define s3 where "s3 = write_receipts nx now_ms (lsu_cycle_number lsu) h root outs (s1\<lparr>root_cache := Some root\<rparr>)"
  define s4 where "s4 = write_history lsu h (write_head lsu h root s3)"
  have n3: "meta_touches (keyed ''tx:meta:'') (s1\<lparr>root_cache := Some root\<rparr>) s3" unfolding s3_def by (rule receipts_note)
  have "s1 = snd (apply_effects nx sender_of_group lsu s)" by (simp add: e)
  then have "at_head nx lsu root s4" unfolding s4_def h_def by (rule committed_at_head[OF assms(1) root _ n3])
  then have "at_head nx lsu root (prune_persisted_mempool nx s4)" by (rule at_head_frame[OF _ prune_note]) simp
  then have "at_head nx lsu root (maybe_prune_history nx now_ms (prune_persisted_mempool nx s4))" by (rule at_head_prune_history)
  moreover have "accounts (maybe_prune_history nx now_ms (prune_persisted_mempool nx s4)) = accounts s1"
    unfolding maybe_prune_frame using prune_note[of s4 nx] n3 by (simp add: meta_touches_def s4_def head_written h_def)
  moreover have "apply_lsu_to_storage_locked nx now_ms lsu s = (Inr root, maybe_prune_history nx now_ms (prune_persisted_mempool nx s4))"
    using linorder_not_le[THEN iffD2, OF assms(3)] by (simp add: apply_lsu_to_storage_locked_def e store_commit_def root Let_def h_def s3_def s4_def)
  ultimately show ?thesis by (simp add: e)
qed

text \<open>
  C8: Applying an update moves the node's head forward, once per cycle: an update whose cycle is not
  past the applied head changes nothing and returns the current root; any other one is applied (it
  cannot fail), returns the sparse Merkle root of the accounts it leaves, and records the cycle, the
  root, the hash of the update, the update itself and the cycle counter; and after that no update of
  this or an earlier cycle changes anything again.
\<close>

theorem apply_advances_head:
  fixes nx :: "('s, 'p::ab_group_add) node_env"
  assumes "store_ok s" and "\<forall>x. length (sha nx x) = 32"
  shows "if lsu_cycle_number lsu \<le> applied_head s then apply_lsu_to_storage_locked nx now_ms lsu s = (Inr (store_root s), s)
    else \<exists>root t. apply_lsu_to_storage_locked nx now_ms lsu s = (Inr root, t) \<and> at_head nx lsu root t
      \<and> (\<forall>now' other. lsu_cycle_number other \<le> lsu_cycle_number lsu \<longrightarrow>
            apply_lsu_to_storage_locked nx now' other t = (Inr root, t))"
proof (cases "lsu_cycle_number lsu \<le> applied_head s")
  case True
  then show ?thesis by (simp add: apply_lsu_to_storage_locked_def)
next
  case False
  then obtain root t where t: "apply_lsu_to_storage_locked nx now_ms lsu s = (Inr root, t)" "at_head nx lsu root t"
    using apply_lsu_at_head[OF assms] by (meson not_le)
  then have "apply_lsu_to_storage_locked nx now' other t = (Inr root, t)"
    if "lsu_cycle_number other \<le> lsu_cycle_number lsu" for now' other
    using that by (simp add: apply_lsu_to_storage_locked_def at_head_def store_root_def)
  with t False show ?thesis by auto
qed


lemma demo_burn: "store_ok (funded_store 3)" "\<forall>x. length (sha demo_env x) = 32" "applied_head (funded_store 3) = 0"
  "lsu_cycle_number burn_lsu = 5"
  by (simp_all add: store_ok_def funded_store_def set_balance_i64_def store_set_def empty_store_def demo_env_def applied_head_def
      u64_of_meta_def burn_lsu_def)

theorem apply_advances_head_witness:
  "\<exists>root t. apply_lsu_to_storage_locked demo_env 0 burn_lsu (funded_store 3) = (Inr root, t) \<and> at_head demo_env burn_lsu root t
     \<and> apply_lsu_to_storage_locked demo_env 1 burn_lsu t = (Inr root, t)"
  using apply_advances_head[OF demo_burn(1,2), where lsu = burn_lsu and now_ms = 0] demo_burn(3,4) by auto

lemma at_head_checkpoint:
  assumes "at_head nx lsu root (db_store db)"
  shows "at_head nx lsu root (db_store (write_checkpoint c r h db))"
proof -
  have "metadata (db_store (write_checkpoint c r h db)) k = metadata (db_store db) k" if "\<not> keyed ''consensus:checkpoint:'' k" for k
    using that by (auto simp: write_checkpoint_def create_db_snapshot_def Let_def store_set_meta_def keyed_def checkpoint_meta_key_def
        key_of_cycle_def META_CHECKPOINT_LATEST_CYCLE_def)
  moreover have "accounts (db_store (write_checkpoint c r h db)) = accounts (db_store db)"
    "root_cache (db_store (write_checkpoint c r h db)) = root_cache (db_store db)"
    by (simp_all add: write_checkpoint_def create_db_snapshot_def Let_def store_set_meta_def)
  ultimately show ?thesis using assms
    by (simp add: at_head_def applied_head_def store_ok_def store_get_def keyed_def key_of_cycle_def)
qed



section \<open>The claimed-root path\<close>

definition senders_agree :: "LedgerStateUpdate \<Rightarrow> bool" where
  "senders_agree lsu \<longleftrightarrow> list_all (\<lambda>(sg, g). trusted_sender_of_group g = sender_of_group g)
     (group_by_sig (pu_transaction_entries (lsu_partial_update lsu)))"

lemma effects_agree:
  assumes "senders_agree lsu"
  shows "apply_effects nx trusted_sender_of_group lsu s = apply_effects nx sender_of_group lsu s"
proof -
  have "apply_nonces trusted_sender_of_group es t = apply_nonces sender_of_group es t"
    if "es = pu_transaction_entries (lsu_partial_update lsu)" for es t
    unfolding apply_nonces_def using assms that
    by (intro fold_cong) (auto simp: senders_agree_def list_all_iff)
  then show ?thesis by (simp add: apply_effects_def Let_def)
qed

definition cache_fresh :: "(bytes \<Rightarrow> bytes) \<Rightarrow> Store \<Rightarrow> bool" where
  "cache_fresh sha256 s \<longleftrightarrow> (\<exists>root. root_cache s = Some root \<and> compute_root_from_iter sha256 (accounts s) = Inr root)"

lemma trusted_accepts:
  assumes "store_ok s" and "applied_head s < lsu_cycle_number lsu"
    and e: "apply_effects nx trusted_sender_of_group lsu s = (outs, s1)"
    and root: "compute_root_from_iter (sha nx) (accounts s1) = Inr root"
  shows "\<exists>t. apply_lsu_to_storage_without_root_check nx now_ms lsu (store_root s) root s = (Inr True, t)
     \<and> at_head nx lsu root t \<and> accounts t = accounts s1"
proof -
  define h where "h = hash_data (blake2b (ext nx)) ser_lsu lsu"
  define s3 where "s3 = write_history lsu h (write_head lsu h root (s1\<lparr>root_cache := Some root\<rparr>))"
  define s4 where "s4 = write_receipts nx now_ms (lsu_cycle_number lsu) h root outs s3"
  have "s1 = snd (apply_effects nx trusted_sender_of_group lsu s)" by (simp add: e)
  then have "at_head nx lsu root s3" unfolding s3_def h_def by (rule committed_at_head[OF assms(1) root _ meta_touches_refl])
  then have "at_head nx lsu root s4" unfolding s4_def by (rule at_head_frame[OF _ receipts_note]) simp
  then have "at_head nx lsu root (prune_persisted_mempool nx s4)" by (rule at_head_frame[OF _ prune_note]) simp
  then have "at_head nx lsu root (maybe_prune_history nx now_ms (prune_persisted_mempool nx s4))" by (rule at_head_prune_history)
  moreover have "accounts (maybe_prune_history nx now_ms (prune_persisted_mempool nx s4)) = accounts s1"
    unfolding maybe_prune_frame using prune_note[of s4 nx] receipts_note[of s3 nx now_ms "lsu_cycle_number lsu" h root outs]
    by (simp add: meta_touches_def s4_def s3_def head_written h_def)
  moreover have "apply_lsu_to_storage_without_root_check nx now_ms lsu (store_root s) root s = (Inr True, maybe_prune_history nx now_ms (prune_persisted_mempool nx s4))"
    using linorder_not_le[THEN iffD2, OF assms(2)] by (simp add: apply_lsu_to_storage_without_root_check_def e store_commit_def root Let_def h_def s3_def s4_def)
  ultimately show ?thesis by simp
qed



definition fresh_store :: Store where "fresh_store = snd (store_commit (sha demo_env) (funded_store 3))"

lemma fresh_store_ok: "store_ok fresh_store" "cache_fresh (sha demo_env) fresh_store" "applied_head fresh_store = 0" "senders_agree burn_lsu"
proof -
  obtain root where root: "compute_root_from_iter (sha demo_env) (accounts (funded_store 3)) = Inr root"
    using root_exists[OF demo_burn(2)] by blast
  have f: "fresh_store = funded_store 3\<lparr>root_cache := Some root\<rparr>" by (simp add: fresh_store_def store_commit_def root)
  show "store_ok fresh_store" "applied_head fresh_store = 0"
    using demo_burn(1,3) by (simp_all add: f store_ok_def applied_head_def)
  show "cache_fresh (sha demo_env) fresh_store" using root by (simp add: f cache_fresh_def)
  show "senders_agree burn_lsu"
    by (simp add: senders_agree_def burn_lsu_def group_by_sig_def bt_push_def trusted_sender_of_group_def sender_of_group_def
        first_debtor_def or_marker_def)
qed


section \<open>Fee credits\<close>

definition credits_ok :: "('s, 'p) node_env \<Rightarrow> Store \<Rightarrow> bool" where
  "credits_ok nx s \<longleftrightarrow> store_ok s \<and> (\<forall>pk. unat (get_fee_credit_balance_u64 s pk) \<le> 6000
     \<and> unat (spent_atoms (get_fee_credit_daily_spend nx s pk)) \<le> 300)"

lemma credits_ok_frame:
  assumes "touches K s t" and "\<And>k. K k \<Longrightarrow> \<not> credit_key k \<and> \<not> daily_key k" and "credits_ok nx s"
  shows "credits_ok nx t"
proof -
  have "store_get t k = store_get s k" if "credit_key k \<or> daily_key k" for k
    using assms that by (metis touches_def credits_ok_def)
  then show ?thesis using assms(1,3)
    by (simp add: credits_ok_def touches_def get_fee_credit_balance_u64_def get_fee_credit_daily_spend_def)
qed

lemma credits_ok_set_credit:
  assumes "credits_ok nx s" and "unat v \<le> 6000"
  shows "credits_ok nx (set_fee_credit_balance_u64 pk v s)"
    and "get_fee_credit_daily_spend nx (set_fee_credit_balance_u64 pk v s) = get_fee_credit_daily_spend nx s"
proof -
  have ok: "store_ok s" using assms(1) by (simp add: credits_ok_def)
  show d: "get_fee_credit_daily_spend nx (set_fee_credit_balance_u64 pk v s) = get_fee_credit_daily_spend nx s"
    using ok by (auto simp: get_fee_credit_daily_spend_def set_fee_credit_balance_u64_def acc.get_put fun_eq_iff
        fee_credit_daily_spend_key_for_pubkey_def fee_credit_balance_key_for_pubkey_def as_bytes_def)
  have "store_ok (set_fee_credit_balance_u64 pk v s)" using ok by (simp add: set_fee_credit_balance_u64_def acc.ok_put)
  then show "credits_ok nx (set_fee_credit_balance_u64 pk v s)"
    using assms by (simp add: credits_ok_def d get_set_fee_credit[OF ok])
qed

lemma credits_ok_set_daily:
  assumes "credits_ok nx s" and "daily_codec nx" and "unat (spent_atoms d) \<le> 300"
  shows "credits_ok nx (set_fee_credit_daily_spend nx pk d s)"
proof -
  have ok: "store_ok s" using assms(1) by (simp add: credits_ok_def)
  have "get_fee_credit_balance_u64 (set_fee_credit_daily_spend nx pk d s) = get_fee_credit_balance_u64 s"
    using ok by (auto simp: get_fee_credit_balance_u64_def set_fee_credit_daily_spend_def acc.get_put fun_eq_iff
        fee_credit_daily_spend_key_for_pubkey_def fee_credit_balance_key_for_pubkey_def as_bytes_def)
  moreover have "store_ok (set_fee_credit_daily_spend nx pk d s)" using ok by (simp add: set_fee_credit_daily_spend_def acc.ok_put)
  ultimately show ?thesis using assms by (simp add: credits_ok_def get_set_daily[OF ok assms(2)])
qed

lemma credits_ok_spend:
  assumes ok: "credits_ok nx s" and codec: "daily_codec nx"
  shows "credits_ok nx (snd (apply_fee_credit_spend_for_cycle nx pk due cyc s))"
proof -
  define allowed where "allowed = fee_credit_spendable_for_cycle nx s pk due cyc"
  define s1 where "s1 = set_fee_credit_balance_u64 pk (saturating_sub (get_fee_credit_balance_u64 s pk) allowed) s"
  define d0 where "d0 = get_fee_credit_daily_spend nx s pk"
  define d where "d = (if day_bucket d0 \<noteq> fee_credit_day_bucket cyc then \<lparr>day_bucket = fee_credit_day_bucket cyc, spent_atoms = 0\<rparr> else d0)"
  have bal: "unat (get_fee_credit_balance_u64 s pk) \<le> 6000" and spent: "unat (spent_atoms d0) \<le> 300"
    using ok by (simp_all add: credits_ok_def d0_def)
  then have small: "unat (saturating_sub (get_fee_credit_balance_u64 s pk) allowed) \<le> 6000" by (simp add: unat_saturating_sub)
  note s1 = credits_ok_set_credit[OF ok small, of pk, folded s1_def]
  have "unat (spent_atoms d) + unat allowed \<le> 300"
    using spent spendable_le[of nx s pk due cyc]
    by (auto simp: d_def allowed_def fee_credit_spendable_for_cycle_def d0_def Let_def min_def word_le_nat_alt unat_saturating_sub
        tokenomics_defs)
  then have "unat (saturating_add (spent_atoms d) allowed) \<le> 300" by (simp add: unat_saturating_add)
  then have "credits_ok nx (set_fee_credit_daily_spend nx pk (d\<lparr>spent_atoms := saturating_add (spent_atoms d) allowed\<rparr>) s1)"
    by (intro credits_ok_set_daily[OF s1(1) codec]) simp
  then show ?thesis
    using ok unfolding apply_fee_credit_spend_for_cycle_def Let_def allowed_def[symmetric] s1_def[symmetric] s1(2) d0_def[symmetric]
      d_def[symmetric] by simp
qed

lemma other_keys:
  "bal_key k \<Longrightarrow> \<not> credit_key k \<and> \<not> daily_key k" "nonce_key k \<Longrightarrow> \<not> credit_key k \<and> \<not> daily_key k"
  "k = ROOT_CYCLE_COUNTER_KEY \<Longrightarrow> \<not> credit_key k \<and> \<not> daily_key k"
  by (cases k; auto simp: bal_key_def nonce_key_def credit_key_def daily_key_def has_prefix_def as_bytes_def ROOT_CYCLE_COUNTER_KEY_def)+

lemma credits_ok_credit: "credits_ok nx s \<Longrightarrow> credits_ok nx (credit pk v s)"
  by (rule credits_ok_frame[OF credit_touches other_keys(1)])

lemma credits_ok_settle:
  assumes "credits_ok nx s" and codec: "daily_codec nx"
  shows "credits_ok nx (settle_fee_credit_spend_for_applied_cycle nx lsu s)"
proof -
  have group: "credits_ok nx (settle_group nx cyc es t)" if "credits_ok nx t" for cyc es t
    using credits_ok_spend[OF that codec] that
    by (auto simp: settle_group_def Let_def credits_ok_credit split: option.split prod.split) (metis snd_conv credits_ok_credit)+
  have "credits_ok nx (fold (\<lambda>(_, g) t. settle_group nx cyc g t) gs t)" if "credits_ok nx t" for cyc gs t
    using that by (induction gs arbitrary: t) (auto simp: group)
  then show ?thesis using assms(1)
    by (auto simp: settle_fee_credit_spend_for_applied_cycle_def)
qed

lemma credits_ok_pay: "credits_ok nx s \<Longrightarrow> credits_ok nx (pay_waiting per rem pks s)"
proof (induction pks arbitrary: rem s)
  case (Cons pk pks)
  have "credits_ok nx (accrue_credit q t)" if "credits_ok nx t" for q t
    unfolding accrue_credit_def by (rule credits_ok_set_credit[OF that]) (simp add: min_def tokenomics_defs word_le_nat_alt)
  then show ?case using Cons by (simp add: Let_def credits_ok_credit)
qed simp

lemma credits_ok_effects:
  assumes "credits_ok nx s" and codec: "daily_codec nx"
  shows "credits_ok nx (snd (apply_effects nx sender_of lsu s))"
proof -
  have "credits_ok nx (ap_store (apply_entries nx (lsu_cycle_number lsu) es s))" for es
    by (rule credits_ok_frame[OF apply_entries_touches _ assms(1)])
  then have "credits_ok nx (apply_nonces sender_of es (apply_compensation cs (ap_store (apply_entries nx (lsu_cycle_number lsu) es s))))" for es cs
    by (intro credits_ok_frame[OF apply_nonces_touches other_keys(2)] credits_ok_frame[OF apply_compensation_touches other_keys(1)])
  then have "credits_ok nx (distribute_waiting_pool_rewards_and_fee_credits nx lsu (settle_fee_credit_spend_for_applied_cycle nx lsu
      (apply_nonces sender_of es (apply_compensation cs (ap_store (apply_entries nx (lsu_cycle_number lsu) es s))))))" for es cs
    using credits_ok_settle[OF _ codec] by (simp add: distribute_waiting_pool_rewards_and_fee_credits_def Let_def credits_ok_pay)
  then show ?thesis
    unfolding apply_effects_def Let_def snd_conv write_root_cycle_counter_def
    by (intro credits_ok_frame[OF touches_set[where K = "\<lambda>k. k = ROOT_CYCLE_COUNTER_KEY"] other_keys(3)]) simp_all
qed

lemma credits_ok_accounts: "accounts t = accounts s \<Longrightarrow> credits_ok nx t = credits_ok nx s"
  by (simp add: credits_ok_def store_ok_def get_fee_credit_balance_u64_def get_fee_credit_daily_spend_def store_get_def)

definition apply_all :: "('s, 'p::ab_group_add) node_env \<Rightarrow> (u64 \<times> LedgerStateUpdate) list \<Rightarrow> Store \<Rightarrow> Store" where
  "apply_all nx = fold (\<lambda>(now_ms, lsu) s. snd (apply_lsu_to_storage_locked nx now_ms lsu s))"

text \<open>What the effects of one update keep of the accounts, any sequence of updates keeps.\<close>

lemma apply_all_invariant:
  fixes nx :: "('s, 'p::ab_group_add) node_env"
  assumes sha: "\<forall>x. length (sha nx x) = 32" and start: "P s"
    and step: "\<And>s lsu. P s \<Longrightarrow> P (snd (apply_effects nx sender_of_group lsu s))"
    and ok: "\<And>s. P s \<Longrightarrow> store_ok s" and accounts: "\<And>s t. accounts t = accounts s \<Longrightarrow> P s \<Longrightarrow> P t"
  shows "P (apply_all nx updates s)"
  using start unfolding apply_all_def
proof (induction updates arbitrary: s)
  case (Cons u updates)
  obtain now_ms lsu where u: "u = (now_ms, lsu)" by fastforce
  have "P (snd (apply_lsu_to_storage_locked nx now_ms lsu s))"
  proof (cases "lsu_cycle_number lsu \<le> applied_head s")
    case True
    then show ?thesis using Cons.prems by (simp add: apply_lsu_to_storage_locked_def)
  next
    case False
    then obtain root t where "apply_lsu_to_storage_locked nx now_ms lsu s = (Inr root, t)"
      "accounts t = accounts (snd (apply_effects nx sender_of_group lsu s))"
      using apply_lsu_at_head[OF ok[OF Cons.prems] sha, of lsu now_ms] by (auto simp: not_le)
    then show ?thesis using accounts[OF _ step[OF Cons.prems]] by simp
  qed
  then show ?case using Cons.IH by (simp add: u)
qed simp

text \<open>
  C17: Fee credits stay within the limits of the tokenomics constants, whatever updates are applied
  and in whatever order: starting from a store in which every account has at most 6000 credit atoms
  and a recorded daily spend of at most 300, every account has so after any sequence of updates.
\<close>

theorem fee_credits_bounded:
  fixes nx :: "('s, 'p::ab_group_add) node_env"
  assumes "credits_ok nx s" and "daily_codec nx" and "\<forall>x. length (sha nx x) = 32"
  shows "credits_ok nx (apply_all nx updates s)"
  by (rule apply_all_invariant[where P = "credits_ok nx", OF assms(3,1) credits_ok_effects[OF _ assms(2)]])
     (assumption, simp add: credits_ok_def, use credits_ok_accounts in blast)

theorem fee_credits_bounded_witness: "credits_ok demo_env (apply_all demo_env [(0, burn_lsu), (1, burn_lsu)] (funded_store 3))"
proof (rule fee_credits_bounded[OF _ demo_daily demo_burn(2)])
  have "store_get (funded_store 3) k = None" if "credit_key k \<or> daily_key k" for k
    using that other_keys(1)[of k] by (auto simp: funded_store_def set_balance_i64_def store_set_def store_get_def empty_store_def)
  then show "credits_ok demo_env (funded_store 3)"
    using demo_burn(1) by (simp add: credits_ok_def get_fee_credit_balance_u64_def get_fee_credit_daily_spend_def default_daily_def)
qed

end
