(* ===== verification/Charges.thy ===== *)
theory Charges
  imports Application
begin

text \<open>
  What the entries of an update do to single accounts: every value written keeps the width its
  reader expects, marker transactions pay no fee, and a batch that selection accepts may still
  overdraw its sender or create value when it is applied.
\<close>

section \<open>Markers pay no fee\<close>

lemma marker_entries_keep_balances:
  assumes "list_all is_marker es"
  shows "touches (\<lambda>k. \<not> bal_key k) s (ap_store (apply_entries nx cyc es s))"
proof -
  have reg: "touches (\<lambda>k. \<not> bal_key k) t (register_worker pk cyc t)" for t pk
    by (auto simp: register_worker_def set_worker_last_registration_cycle_def ensure_worker_first_seen_cycle_def Let_def
        intro!: touches_set touches_trans[OF _ touches_set])
  have evm: "touches (\<lambda>k. \<not> bal_key k) t (snd (run_evm nx chain_id pk pl t))" for t pk pl chain_id
    by (rule touches_mono[OF run_evm_touches]) simp
  have "touches (\<lambda>k. \<not> bal_key k) (ap_store st) (ap_store (apply_entry nx chain_id cyc e st))" if "is_marker e" for e st chain_id
    using that reg evm[of "ap_store st" chain_id "te_public_key e"]
    by (auto simp: apply_entry_def is_marker_def Let_def split: option.split prod.split) (metis snd_conv)
  then have "touches (\<lambda>k. \<not> bal_key k) (ap_store st) (ap_store (fold (apply_entry nx chain_id cyc) es st))" for st chain_id
    using assms by (induction es arbitrary: st) (simp, simp, blast intro: touches_trans)
  from this[of "\<lparr>ap_store = s, outcome_by_sig = [], executed_sigs = []\<rparr>"] show ?thesis by (simp add: apply_entries_def)
qed

lemma marker_entries:
  assumes "tx_type (core tx) = TransactionType.WorkerRegistration \<or> tx_type (core tx) = SmartContract \<and> length (signature tx) = 64"
  shows "list_all is_marker (to_consensus_entries nx tx)"
  using assms
  by (auto simp: to_consensus_entries_def tx_boundary_signature_def fee_debit_entries_def is_marker_def Let_def
      is_worker_reg_marker_def is_evm_marker_def has_prefix_def encode_evm_marker_def EVM_MARKER_PREFIX_def)

text \<open>
  The fee of a worker registration or of a contract transaction is never charged. Whatever fee
  such a transaction declares (and whatever debit entry its conversion adds for it), applying its
  entries leaves the balance of every account as it was.
\<close>

theorem marker_fee_not_charged:
  assumes "store_ok s"
    and "tx_type (core tx) = TransactionType.WorkerRegistration \<or> tx_type (core tx) = SmartContract \<and> length (signature tx) = 64"
  shows "get_balance_i64 (ap_store (apply_entries nx cyc (to_consensus_entries nx tx) s)) pk = get_balance_i64 s pk"
  using marker_entries_keep_balances[OF marker_entries[OF assms(2)], of s nx cyc nx] assms(1)
  by (simp add: touches_def get_balance_i64_def)

definition registration :: Transaction where
  "registration = (unsigned_transfer 0 0 3)\<lparr>core := core (unsigned_transfer 0 0 3)
     \<lparr>tx_type := TransactionType.WorkerRegistration, tx_entries := [\<lparr>entry_public_key = payer, entry_amount = NonConfidential 0\<rparr>]\<rparr>\<rparr>"

theorem marker_fee_not_charged_witness:
  "map (\<lambda>e. sint (te_amount e)) (to_consensus_entries demo_env registration) = [0, - 3]
   \<and> sint (get_balance_i64 (ap_store (apply_entries demo_env 7 (to_consensus_entries demo_env registration) (funded_store 3))) payer) = 3"
  using marker_fee_not_charged[OF funded_store_reads(1), of registration demo_env 7 3 payer]
  by (simp add: registration_def unsigned_transfer_def funded_store_reads to_consensus_entries_def fee_debit_entries_def Let_def sint_minus_i64)

section \<open>A selected batch may overdraw\<close>

lemma entry_credit:
  assumes "\<not> is_marker e"
  shows "ap_store (apply_entry nx chain_id cyc e st) = credit (te_public_key e) (te_amount e) (ap_store st)"
  using assms by (simp add: apply_entry_def is_marker_def credit_def Let_def)


lemma signed_transfer_plain: "\<not> is_worker_reg_marker (signature (signed_transfer a b fee))" "\<not> is_evm_marker (signature (signed_transfer a b fee))"
  by (simp_all add: signed_transfer_def unsigned_transfer_def sig_to_bytes_def sign_def is_worker_reg_marker_def is_evm_marker_def has_prefix_def as_bytes_def
    curve8_def key8_def Let_def)

lemma transfer_entries:
  assumes "0 < sint a" "0 \<le> sint b" "fee \<noteq> 0" "unat fee < 2 ^ 63"
  shows "to_consensus_entries demo_env (signed_transfer a b fee) =
    (let sg = signature (signed_transfer a b fee) in
       [\<lparr>te_public_key = payer, te_amount = - a, te_signature = sg\<rparr>, \<lparr>te_public_key = payee, te_amount = b, te_signature = sg\<rparr>,
        \<lparr>te_public_key = payer, te_amount = - fee, te_signature = sg\<rparr>])"
  using assms signed_transfer_sender[OF assms(1,2), of fee]
  by (simp add: to_consensus_entries_def tx_boundary_signature_def signed_transfer_fields unsigned_transfer_def plain_entries_def
      List.map_filter_def fee_debit_entries_def Let_def)

lemma transfer_effect:
  assumes "0 < sint a" "0 \<le> sint b" "fee \<noteq> 0" "unat fee < 2 ^ 63"
  shows "ap_store (apply_entries demo_env cyc (to_consensus_entries demo_env (signed_transfer a b fee)) s)
    = credit payer (- fee) (credit payee b (credit payer (- a) s))"
  using signed_transfer_plain[of a b fee]
  by (simp add: apply_entries_def transfer_entries[OF assms] Let_def entry_credit is_marker_def)

lemma credit_balance: "store_ok s \<Longrightarrow> get_balance_i64 (credit pk v s) = (get_balance_i64 s)(pk := saturating_add_i64 (get_balance_i64 s pk) v)"
  by (simp add: credit_def get_set_balance)

lemma credit_ok: "store_ok s \<Longrightarrow> store_ok (credit pk v s)"
  using credit_touches[of s pk v] by (simp add: touches_def)

text \<open>
  Selecting a batch does not protect the balances it is applied to. For every balance v, every
  amount and fee that are each at most v, and every credited amount, a signed transfer of the
  amount is selected on its own; applying the batch leaves the sender with v minus the amount minus
  the fee, which is negative when the two together exceed v, and gives the receiver the credited
  amount, however much larger than the debit it is.
\<close>

theorem selection_admits_overdraft:
  assumes "0 < sint a" and "sint a \<le> sint v" and "0 \<le> sint b" and "3 \<le> fee" and "int (unat fee) \<le> sint v"
  shows "let batch = validate_and_select_protocol_txs_for_construction demo_env (funded_store v) cyc [signed_transfer a b fee] 10 now_ms;
             s' = ap_store (apply_entries demo_env cyc (concat (map (to_consensus_entries demo_env) batch)) (funded_store v))
         in batch = [signed_transfer a b fee]
            \<and> sint (get_balance_i64 s' payer) = sint v - sint a - int (unat fee) \<and> sint (get_balance_i64 s' payee) = sint b"
proof -
  have fee: "0 < fee" "fee \<noteq> 0" using assms(4) by (auto simp: word_le_nat_alt word_less_nat_alt)
  have v: "- (2 ^ 63) \<le> sint v" "sint v < 2 ^ 63" "sint b < 2 ^ 63" using i64_range[of v] i64_range[of b] by (simp_all add: i64_min_def i64_max_def)
  have "int (unat fee) < int (2 ^ 63)" using assms(5) v by simp
  then have fee63: "unat fee < 2 ^ 63" by (simp only: of_nat_less_iff)
  have sfee: "sint fee = int (unat fee)" using fee63 by (rule sint_small)
  have sel: "validate_and_select_protocol_txs_for_construction demo_env (funded_store v) cyc [signed_transfer a b fee] 10 now_ms = [signed_transfer a b fee]"
    by (rule selection_single[where pk = payer and r = payee and a = a and b = b])
       (use assms fee fee63 sfee in \<open>simp_all add: signed_transfer_passes signed_transfer_sender funded_store_reads saturating_add_def\<close>,
        use assms fee fee63 sfee in \<open>simp_all add: signed_transfer_fields unsigned_transfer_def\<close>)
  have ok: "store_ok (funded_store v)" by (rule funded_store_reads)
  have neg: "sint (- a) = - sint a" "sint (- fee) = - int (unat fee)"
    using assms(1) sfee fee by (simp_all add: sint_minus_i64 word_less_nat_alt)
  have "sint (get_balance_i64 (credit payer (- fee) (credit payee b (credit payer (- a) (funded_store v)))) payer)
      = sint v - sint a - int (unat fee)"
    using assms v neg ok by (simp add: credit_balance credit_ok funded_store_reads sint_saturating_add_i64 i64_min_def i64_max_def)
  moreover have "sint (get_balance_i64 (credit payer (- fee) (credit payee b (credit payer (- a) (funded_store v)))) payee) = sint b"
    using assms v ok payer_payee payer_payee[symmetric] by (simp add: credit_balance credit_ok funded_store_reads sint_saturating_add_i64 i64_min_def i64_max_def)
  ultimately show ?thesis
    using transfer_effect[OF assms(1,3) fee(2) fee63] by (simp add: sel Let_def)
qed

theorem selection_admits_overdraft_witness:
  "let batch = validate_and_select_protocol_txs_for_construction demo_env (funded_store 5) 7 [signed_transfer 5 1000 3] 10 9000;
       s' = ap_store (apply_entries demo_env 7 (concat (map (to_consensus_entries demo_env) batch)) (funded_store 5))
   in batch = [signed_transfer 5 1000 3] \<and> sint (get_balance_i64 s' payer) = - 3 \<and> sint (get_balance_i64 s' payee) = 1000"
  using selection_admits_overdraft[of 5 5 1000 3 7 9000] by simp

section \<open>Widths of the stored values\<close>

definition counter_key :: "bytes \<Rightarrow> bool" where
  "counter_key k \<longleftrightarrow> bal_key k \<or> credit_key k \<or> nonce_key k \<or> k = ROOT_CYCLE_COUNTER_KEY"

definition typed_store :: "Store \<Rightarrow> bool" where
  "typed_store s \<longleftrightarrow> store_ok s \<and> (\<forall>k v. counter_key k \<and> store_get s k = Some v \<longrightarrow> length v = 8)"

lemma typed_frame:
  assumes "touches K s t" and "\<And>k. K k \<Longrightarrow> \<not> counter_key k" and "typed_store s"
  shows "typed_store t"
  using assms by (metis (no_types, lifting) touches_def typed_store_def)

lemma typed_set: "typed_store s \<Longrightarrow> (counter_key k \<Longrightarrow> length v = 8) \<Longrightarrow> typed_store (store_set k v s)"
  by (auto simp: typed_store_def acc.get_put acc.ok_put split: if_splits)

lemma typed_writers:
  assumes "typed_store s"
  shows "typed_store (credit pk v s)" "typed_store (bump_nonce sender s)" "typed_store (write_root_cycle_counter cyc s)"
    "typed_store (set_fee_credit_balance_u64 pk w s)"
  using assms
  by (auto simp: credit_def set_balance_i64_def encode_i64_def bump_nonce_def set_nonce_u64_def encode_u64_def
      write_root_cycle_counter_def set_fee_credit_balance_u64_def split: option.split intro!: typed_set)

lemma not_counter_keys:
  "evm_key k \<Longrightarrow> \<not> counter_key k" "daily_key k \<Longrightarrow> \<not> counter_key k"
proof -
  have cut: "take m p = take m k" if "has_prefix p k" "m \<le> length p" for p m
  proof -
    have "take m (take (length p) k) = take m k" using that(2) by (simp add: min_absorb1)
    with that(1) show ?thesis unfolding has_prefix_def by (simp only:)
  qed
  have pre: "take (min (length p) (length q)) p = take (min (length p) (length q)) q" if "has_prefix p k" "has_prefix q k" for p q
    using cut[OF that(1)] cut[OF that(2)] by simp
  have root: "\<not> evm_key ROOT_CYCLE_COUNTER_KEY" "\<not> daily_key ROOT_CYCLE_COUNTER_KEY"
    by (simp_all add: key_kinds has_prefix_def as_bytes_def ROOT_CYCLE_COUNTER_KEY_def)
  show "evm_key k \<Longrightarrow> \<not> counter_key k"
    using pre[of "as_bytes ''evm:''" "as_bytes ''bal:''"] pre[of "as_bytes ''evm:''" "as_bytes ''feecred:bal:''"]
      pre[of "as_bytes ''evm:''" "as_bytes ''nonce:''"] root(1)
    by (auto simp: counter_key_def key_kinds as_bytes_def)
  show "daily_key k \<Longrightarrow> \<not> counter_key k"
    using pre[of "as_bytes ''fcd:''" "as_bytes ''bal:''"] pre[of "as_bytes ''fcd:''" "as_bytes ''feecred:bal:''"]
      pre[of "as_bytes ''fcd:''" "as_bytes ''nonce:''"] root(2)
    by (auto simp: counter_key_def key_kinds as_bytes_def)
qed

lemma not_counter_key_writes [simp]:
  "\<not> counter_key (worker_key_for_pubkey pk)" "\<not> counter_key (fee_credit_first_seen_cycle_key_for_pubkey pk)"
  "\<not> counter_key (worker_last_registration_cycle_key_for_pubkey pk)"
  by (simp_all add: counter_key_def key_kinds has_prefix_def as_bytes_def ROOT_CYCLE_COUNTER_KEY_def worker_key_for_pubkey_def
      fee_credit_first_seen_cycle_key_for_pubkey_def worker_last_registration_cycle_key_for_pubkey_def)

lemma typed_apply_entry: "typed_store (ap_store st) \<Longrightarrow> typed_store (ap_store (apply_entry nx chain_id cyc e st))"
proof -
  assume t: "typed_store (ap_store st)"
  have reg: "typed_store (register_worker pk cyc s)" if "typed_store s" for s pk
    using that by (auto simp: register_worker_def set_worker_last_registration_cycle_def ensure_worker_first_seen_cycle_def Let_def
        intro!: typed_set)
  have evm: "typed_store (snd (run_evm nx chain_id pk pl s))" if "typed_store s" for s pk pl
    by (rule typed_frame[OF run_evm_touches not_counter_keys(1) that])
  show ?thesis using t reg[OF t] evm[OF t, of "te_public_key e"] typed_writers(1)[OF t]
    by (auto simp: apply_entry_def Let_def credit_def[symmetric] split: option.split prod.split) (metis snd_conv)
qed

lemma typed_fold: "typed_store s \<Longrightarrow> (\<And>x t. typed_store t \<Longrightarrow> typed_store (f x t)) \<Longrightarrow> typed_store (fold f xs s)"
  by (induction xs arbitrary: s) auto

lemma typed_apply_entries: "typed_store s \<Longrightarrow> typed_store (ap_store (apply_entries nx cyc es s))"
proof -
  have "typed_store (ap_store st) \<Longrightarrow> typed_store (ap_store (fold (apply_entry nx chain_id cyc) es st))" for st chain_id
    by (induction es arbitrary: st) (simp_all add: typed_apply_entry)
  then show "typed_store s \<Longrightarrow> ?thesis" by (simp add: apply_entries_def)
qed

lemma typed_settle_group: "typed_store s \<Longrightarrow> typed_store (settle_group nx cyc es s)"
proof -
  assume t: "typed_store s"
  have "typed_store (snd (apply_fee_credit_spend_for_cycle nx pk due cyc s))" for pk due
    using t not_counter_keys(2)[of "fee_credit_daily_spend_key_for_pubkey pk"]
    by (auto simp: apply_fee_credit_spend_for_cycle_def Let_def set_fee_credit_daily_spend_def intro!: typed_set typed_writers(4))
  then show ?thesis using t
    by (auto simp: settle_group_def Let_def split: option.split prod.split) (metis snd_conv typed_writers(1))+
qed

lemma typed_pay: "typed_store s \<Longrightarrow> typed_store (pay_waiting per rem pks s)"
  by (induction per rem pks s rule: pay_waiting.induct) (simp add: Let_def accrue_credit_def typed_writers)+

lemma typed_effects: "typed_store s \<Longrightarrow> typed_store (snd (apply_effects nx sender_of lsu s))"
  unfolding apply_effects_def Let_def snd_conv distribute_waiting_pool_rewards_and_fee_credits_def
    settle_fee_credit_spend_for_applied_cycle_def apply_nonces_def apply_compensation_def
  by (auto intro!: typed_writers typed_pay typed_fold typed_settle_group typed_apply_entries split: prod.split)

text \<open>
  C18: The stored values keep their types: in a store where every balance, nonce, fee credit and the
  cycle counter has the eight bytes its reader expects, this is so after any sequence of applied
  updates, so that no stored amount is ever read as the default for a malformed value.
\<close>

theorem stored_values_typed:
  fixes nx :: "('s, 'p::ab_group_add) node_env"
  assumes "typed_store s" and "\<forall>x. length (sha nx x) = 32"
  shows "let t = apply_all nx updates s in
      typed_store t
      \<and> (store_get t (balance_key_for_pubkey pk) \<noteq> None \<longrightarrow> store_get t (balance_key_for_pubkey pk) = Some (encode_i64 (get_balance_i64 t pk)))
      \<and> (store_get t (nonce_key_for_pubkey pk) \<noteq> None \<longrightarrow> store_get t (nonce_key_for_pubkey pk) = Some (encode_u64 (get_nonce_u64 t pk)))"
proof -
  have "typed_store (apply_all nx updates s)"
    by (rule apply_all_invariant[where P = typed_store, OF assms(2,1) typed_effects]) (simp_all add: typed_store_def store_ok_def store_get_def)
  then have w: "store_get (apply_all nx updates s) k = Some y \<Longrightarrow> length y = 8" if "counter_key k" for k y
    using that by (auto simp: typed_store_def)
  have "counter_key (balance_key_for_pubkey pk)" "counter_key (nonce_key_for_pubkey pk)" by (simp_all add: counter_key_def)
  note w[OF this(1)] w[OF this(2)]
  then have "store_get (apply_all nx updates s) (balance_key_for_pubkey pk) = Some y \<Longrightarrow> length y = 8"
    "store_get (apply_all nx updates s) (nonce_key_for_pubkey pk) = Some y \<Longrightarrow> length y = 8" for y
    by blast+
  with \<open>typed_store (apply_all nx updates s)\<close> show ?thesis
    by (auto simp: Let_def get_balance_i64_def get_nonce_u64_def decode_i64_def decode_u64_def encode_i64_def encode_u64_def)
qed

theorem stored_values_typed_witness:
  "let t = apply_all demo_env [(0, burn_lsu)] (funded_store 3) in
     typed_store t \<and> (store_get t (balance_key_for_pubkey payer) \<noteq> None \<longrightarrow>
       store_get t (balance_key_for_pubkey payer) = Some (encode_i64 (get_balance_i64 t payer)))"
proof -
  have "typed_store empty_store" by (simp add: typed_store_def store_ok_def empty_store_def store_get_def)
  then have "typed_store (funded_store 3)"
    unfolding funded_store_def set_balance_i64_def encode_i64_def by (rule typed_set) simp
  from stored_values_typed[OF this demo_burn(2), of "[(0, burn_lsu)]" payer] show ?thesis by (simp only: Let_def) blast
qed

end
