(* ===== verification/Reconcile.thy ===== *)
theory Reconcile
  imports Charges Sync_Messages
begin

text \<open>
  Catching up and healing forks (\<open>catalyst-cli/src/node.rs\<close>): the breaker that counts failed
  reconciles, the certificate gates of the apply paths, the application with an expected root, the
  replay of stored updates and the reconcile of a fork, with its purge, its checkpoint restore and
  its rollback. Every function runs under the node's apply lock, so each is one step on the
  database and the breaker. The snapshot that guards a step is the database value before it;
  requests to peers are values, and the clock is read once per call.
\<close>

section \<open>The breaker\<close>

record ReconcileFailureEntry =
  consecutive_failures :: u32
  last_seen_ms :: u64
  broken :: bool

type_synonym tracker = "(u64 \<times> ReconcileFailureEntry) list"

definition RECONCILE_FAILURE_TRACKER_MAX_ENTRIES :: nat where "RECONCILE_FAILURE_TRACKER_MAX_ENTRIES = 2000"
definition RECONCILE_FAILURE_TRACKER_TARGET_ENTRIES :: nat where "RECONCILE_FAILURE_TRACKER_TARGET_ENTRIES = 1500"
definition RECONCILE_FAILURE_TRACKER_RETENTION_MS :: u64 where "RECONCILE_FAILURE_TRACKER_RETENTION_MS = 600000"

definition prune_tracker :: "u64 \<Rightarrow> tracker \<Rightarrow> tracker" where
  "prune_tracker now_ms t =
     (let keep_after = saturating_sub now_ms RECONCILE_FAILURE_TRACKER_RETENTION_MS;
          kept = filter (\<lambda>(k, e). broken e \<or> keep_after \<le> last_seen_ms e) t
      in if length kept > RECONCILE_FAILURE_TRACKER_MAX_ENTRIES
         then
           let oldest = take (length kept - RECONCILE_FAILURE_TRACKER_TARGET_ENTRIES) (sort_key (\<lambda>(k, e). last_seen_ms e) kept)
           in filter (\<lambda>(k, e). k \<notin> fst ` set oldest) kept
         else kept)"

definition reconcile_circuit_is_broken :: "tracker \<Rightarrow> u64 \<Rightarrow> bool" where
  "reconcile_circuit_is_broken t local_cycle = (case map_of t local_cycle of Some e \<Rightarrow> broken e | None \<Rightarrow> False)"

definition record_reconcile_failure :: "environment \<Rightarrow> u64 \<Rightarrow> u64 \<Rightarrow> tracker \<Rightarrow> bool \<times> tracker" where
  "record_reconcile_failure env now_ms local_cycle t =
     (let t1 = prune_tracker now_ms t;
          e0 = opt_or (map_of t1 local_cycle) \<lparr>consecutive_failures = 0, last_seen_ms = now_ms, broken = False\<rparr>;
          e1 = (if saturating_sub now_ms (last_seen_ms e0) > reconcile_circuit_break_window_ms env
                then e0\<lparr>consecutive_failures := 0\<rparr> else e0);
          e2 = e1\<lparr>consecutive_failures := saturating_add (consecutive_failures e1) 1, last_seen_ms := now_ms\<rparr>
      in if \<not> broken e2 \<and> reconcile_circuit_break_threshold env \<le> consecutive_failures e2
         then (True, hm_insert local_cycle (e2\<lparr>broken := True\<rparr>) t1)
         else (False, hm_insert local_cycle e2 t1))"

definition should_block_self_produced_apply :: "Store \<Rightarrow> tracker \<Rightarrow> u64 option" where
  "should_block_self_produced_apply s t =
     (let applied = local_applied_cycle s in if reconcile_circuit_is_broken t applied then Some applied else None)"

definition clear_reconcile_failure :: "u64 \<Rightarrow> tracker \<Rightarrow> tracker" where
  "clear_reconcile_failure local_cycle t = filter (\<lambda>(k, e). k \<noteq> local_cycle) t"

section \<open>Certificates required for an apply\<close>

definition verify_lsu_finality_for_apply ::
  "('s, 'p::ab_group_add) externals \<Rightarrow> Store \<Rightarrow> dfs \<Rightarrow> LedgerStateUpdate \<Rightarrow> u64 \<Rightarrow> string \<Rightarrow> bool \<Rightarrow> bool" where
  "verify_lsu_finality_for_apply x s dfs lsu cyc finality_cid_hint require_finality =
     (let cid = (if finality_cid_hint \<noteq> [] then finality_cid_hint
                 else opt_or (meta_string s (key_of_cycle ''consensus:lsu_finality_cid:'' cyc)) [])
      in if \<not> require_finality then True
         else if cid = [] then False
         else
           (case Option.bind (dfs cid) (decode_finality_cert x) of
              None \<Rightarrow> False
            | Some cert \<Rightarrow> verify_lsu_finality_certificate (blake2b x) (hex_decode x) (curve25519 x) cert lsu = Inr ()))"

definition verify_state_root_finality_for_apply ::
  "('s, 'p::ab_group_add) externals \<Rightarrow> Store \<Rightarrow> dfs \<Rightarrow> LedgerStateUpdate \<Rightarrow> u64 \<Rightarrow> Hash \<Rightarrow> string \<Rightarrow> bool \<Rightarrow> bool" where
  "verify_state_root_finality_for_apply x s dfs lsu cyc claimed_root state_root_cid_hint require_state_root_finality =
     (let cid = (if state_root_cid_hint \<noteq> [] then state_root_cid_hint
                 else opt_or (meta_string s (key_of_cycle ''consensus:lsu_state_root_cid:'' cyc)) [])
      in if \<not> require_state_root_finality then True
         else if cid = [] then False
         else
           (case Option.bind (dfs cid) (decode_root_cert x) of
              None \<Rightarrow> False
            | Some cert \<Rightarrow>
                if verify_lsu_state_root_certificate (blake2b x) (hex_decode x) (curve25519 x) cert lsu \<noteq> Inr () then False
                else rc_state_root cert = claimed_root))"

text \<open>
  The scan for a root of the node's own making that a certificate contradicts: the first
  contradiction within the last 32 cycles counts as one failure at the head.
\<close>

definition root_contradicted :: "('s, 'p::ab_group_add) externals \<Rightarrow> Store \<Rightarrow> dfs \<Rightarrow> u64 \<Rightarrow> bool" where
  "root_contradicted x s dfs cyc =
     (case (meta_32 s (key_of_cycle ''consensus:lsu_state_root:'' cyc), meta_32 s (key_of_cycle ''consensus:lsu_hash:'' cyc),
            Option.bind (meta_string s (key_of_cycle ''consensus:lsu_state_root_cid:'' cyc))
              (\<lambda>cid. Option.bind (dfs cid) (decode_root_cert x)),
            metadata s (key_of_cycle ''consensus:lsu:'' cyc)) of
        (Some local_root, Some local_lsu_hash, Some cert, Some lsu_bytes) \<Rightarrow>
          rc_lsu_hash cert = local_lsu_hash \<and> rc_state_root cert \<noteq> local_root
          \<and> (case run_reader de_lsu lsu_bytes of
               Inl _ \<Rightarrow> False
             | Inr lsu \<Rightarrow> verify_lsu_state_root_certificate (blake2b x) (hex_decode x) (curve25519 x) cert lsu = Inr ())
      | _ \<Rightarrow> False)"

definition scan_for_self_produced_state_root_divergence ::
  "('s, 'p::ab_group_add) externals \<Rightarrow> environment \<Rightarrow> u64 \<Rightarrow> Store \<Rightarrow> dfs option \<Rightarrow> u64 \<Rightarrow> tracker \<Rightarrow> tracker" where
  "scan_for_self_produced_state_root_divergence x env now_ms s dfs head t =
     (case dfs of
        None \<Rightarrow> t
      | Some d \<Rightarrow>
          if list_ex (root_contradicted x s d) (cycles_upto (max (saturating_sub head 32) 1) head)
          then snd (record_reconcile_failure env now_ms head t) else t)"

section \<open>Applying with an expected root\<close>

definition reverted :: "('s, 'p) node_env \<Rightarrow> node_db \<Rightarrow> node_db \<Rightarrow> node_db" where
  "reverted nx db db1 =
     db1\<lparr>db_store := snd (store_commit (sha nx) ((db_store db)\<lparr>root_cache := root_cache (db_store db1)\<rparr>))\<rparr>"

definition apply_lsu_with_root_check_locked ::
  "('s, 'p::ab_group_add) node_env \<Rightarrow> environment \<Rightarrow> u64 \<Rightarrow> LedgerStateUpdate \<Rightarrow> Hash \<Rightarrow> node_db \<Rightarrow> (StorageError, bool) result \<times> node_db" where
  "apply_lsu_with_root_check_locked nx env now_ms lsu expected_state_root db =
     (case apply_lsu_to_storage nx env now_ms lsu db of
        (Inl err, db1) \<Rightarrow> (Inl err, db1)
      | (Inr got, db1) \<Rightarrow> if got = expected_state_root then (Inr True, db1) else (Inr False, reverted nx db db1))"

section \<open>Catching up from stored updates\<close>

definition stored_lsu_at :: "('s, 'p) externals \<Rightarrow> Store \<Rightarrow> u64 \<Rightarrow> LedgerStateUpdate option" where
  "stored_lsu_at x s cyc =
     (case metadata s (key_of_cycle ''consensus:lsu:'' cyc) of
        None \<Rightarrow> None
      | Some bytes \<Rightarrow>
          (case run_reader de_lsu bytes of
             Inl _ \<Rightarrow> None
           | Inr lsu \<Rightarrow>
               if lsu_cycle_number lsu \<noteq> cyc then None
               else
                 (case metadata s (key_of_cycle ''consensus:lsu_hash:'' cyc) of
                    Some hb \<Rightarrow> if length hb = 32 \<and> hash_data (blake2b x) ser_lsu lsu \<noteq> hb then None else Some lsu
                  | None \<Rightarrow> Some lsu)))"

definition try_apply_stored_lsu_at_cycle ::
  "('s, 'p::ab_group_add) node_env \<Rightarrow> environment \<Rightarrow> u64 \<Rightarrow> tracker \<Rightarrow> dfs option \<Rightarrow> u64 \<Rightarrow> bool \<Rightarrow> node_db \<Rightarrow> bool \<times> node_db" where
  "try_apply_stored_lsu_at_cycle nx env now_ms t dfs cyc require_lsu_finality db =
     (let s = db_store db; head = local_applied_cycle s in
      if cyc \<noteq> saturating_add head 1 then (False, db)
      else if reconcile_circuit_is_broken t head then (False, db)
      else
        (case stored_lsu_at (ext nx) s cyc of
           None \<Rightarrow> (False, db)
         | Some lsu \<Rightarrow>
             let lsu_hash = hash_data (blake2b (ext nx)) ser_lsu lsu;
                 finality_cid = opt_or (meta_string s (key_of_cycle ''consensus:lsu_finality_cid:'' cyc)) []
             in
             (case fork_choice_apply_gate (ext nx) env dfs lsu cyc lsu_hash finality_cid require_lsu_finality s of
                (gate, s1) \<Rightarrow>
                  let db1 = db\<lparr>db_store := s1\<rparr> in
                  if gate \<noteq> Allow then (False, db1)
                  else
                    let local_prev = local_applied_state_root s1;
                        expected_prev = (if cyc = 0 then Some (replicate 32 0)
                                         else meta_32 s1 (key_of_cycle ''consensus:lsu_state_root:'' (saturating_sub cyc 1)));
                        prev_ok = (case expected_prev of Some expected \<Rightarrow> local_prev = expected | None \<Rightarrow> local_prev = replicate 32 0)
                    in if \<not> prev_ok then (False, db1)
                       else if require_lsu_finality
                            \<and> (case dfs of
                                 None \<Rightarrow> True
                               | Some d \<Rightarrow> \<not> verify_lsu_finality_for_apply (ext nx) s1 d lsu cyc finality_cid True) then (False, db1)
                       else
                         (case meta_32 s1 (key_of_cycle ''consensus:lsu_state_root:'' cyc) of
                            None \<Rightarrow> (False, db1)
                          | Some expected_post \<Rightarrow>
                              (case apply_lsu_with_root_check_locked nx env now_ms lsu expected_post db1 of
                                 (Inl _, db2) \<Rightarrow> (False, db2)
                               | (Inr ok, db2) \<Rightarrow> (ok, db2))))))"

fun try_advance_applied_head_from_storage ::
  "('s, 'p::ab_group_add) node_env \<Rightarrow> environment \<Rightarrow> u64 \<Rightarrow> tracker \<Rightarrow> dfs option \<Rightarrow> bool \<Rightarrow> nat \<Rightarrow> node_db \<Rightarrow> nat \<times> node_db" where
  "try_advance_applied_head_from_storage nx env now_ms t dfs require_lsu_finality 0 db = (0, db)"
| "try_advance_applied_head_from_storage nx env now_ms t dfs require_lsu_finality (Suc max_steps) db =
     (case try_apply_stored_lsu_at_cycle nx env now_ms t dfs (saturating_add (local_applied_cycle (db_store db)) 1) require_lsu_finality db of
        (False, db1) \<Rightarrow> (0, db1)
      | (True, db1) \<Rightarrow>
          (case try_advance_applied_head_from_storage nx env now_ms t dfs require_lsu_finality max_steps db1 of
             (n, db2) \<Rightarrow> (Suc n, db2)))"

section \<open>The purge\<close>

definition metadata_logical_name_is_preserved :: "string \<Rightarrow> bool" where
  "metadata_logical_name_is_preserved k \<longleftrightarrow>
     utf8_valid (as_bytes k)
     \<and> (list_ex (\<lambda>p. keyed p k)
          [''protocol:'', ''consensus:lsu_hash:'', ''consensus:lsu_cid:'', ''consensus:lsu_state_root:'', ''consensus:cycle_by_lsu_hash:'',
           ''consensus:lsu:'', ''consensus:lsu_finality_cid:'', ''consensus:tx_batch_commit:'', ''consensus:checkpoint:'']
        \<or> k = META_CHECKPOINT_LATEST_CYCLE)"

definition purge_mutable_chain_state_preserving_lsu_history :: "Store \<Rightarrow> Store" where
  "purge_mutable_chain_state_preserving_lsu_history s =
     s\<lparr>accounts := [], metadata := (\<lambda>k. if metadata_logical_name_is_preserved k then metadata s k else None)\<rparr>"

section \<open>Reconciling a fork\<close>

definition catalyst_reconcile_prefetch_wait_ms :: "environment \<Rightarrow> u64" where
  "catalyst_reconcile_prefetch_wait_ms env =
     (case Option.bind (env ''CATALYST_RECONCILE_PREFETCH_MS'') parse_u64 of Some v \<Rightarrow> v | None \<Rightarrow> 8000)"

definition reconcile_prefetch_lsu_metadata_if_missing :: "Store \<Rightarrow> string \<Rightarrow> u64 \<Rightarrow> u64 \<Rightarrow> u64 \<Rightarrow> LsuRangeRequest option" where
  "reconcile_prefetch_lsu_metadata_if_missing s requester scan_start end_exclusive wait_ms =
     (let scan_start = max scan_start 1 in
      if wait_ms = 0 \<or> end_exclusive \<le> scan_start then None
      else
        (case find (\<lambda>i. \<not> lsu_metadata_present s i) (cycles_before scan_start end_exclusive) of
           None \<Rightarrow> None
         | Some start \<Rightarrow>
             Some \<lparr>rq_requester = requester, rq_start_cycle = start, rq_count = ucast (min (saturating_sub end_exclusive start) 256)\<rparr>))"

definition resolve_replay_start ::
  "environment \<Rightarrow> Store \<Rightarrow> u64 \<Rightarrow> u64 \<Rightarrow> string option \<Rightarrow> u64 \<Rightarrow> u64 option \<times> LsuRangeRequest option" where
  "resolve_replay_start env s cyc pruned_up_to fetch default_start =
     (if cyc \<le> default_start then (Some default_start, None)
      else if list_all (lsu_metadata_present s) (cycles_before default_start cyc) then (Some default_start, None)
      else
        let replay_start = (case reconcile_checkpoint_for_missing_prefix s cyc pruned_up_to of
                              Some cp \<Rightarrow> saturating_add (cp_cycle cp) 1
                            | None \<Rightarrow> default_start);
            prefetch_ms = catalyst_reconcile_prefetch_wait_ms env;
            request = (case fetch of
                         Some requester \<Rightarrow> reconcile_prefetch_lsu_metadata_if_missing s requester replay_start cyc prefetch_ms
                       | None \<Rightarrow> None)
        in if list_all (lsu_metadata_present s) (cycles_before replay_start cyc) then (Some replay_start, request) else (None, request))"

datatype reconcile_error =
    CheckpointVanished
  | CheckpointRestoreFailed
  | RefreshFailed StorageError
  | ReplayLsuUnusable u64
  | ReplayApplyFailed StorageError
  | PrevRootMismatch
  | FinalRootMismatch
  | FinalApplyFailed StorageError

fun replay_stored ::
  "('s, 'p::ab_group_add) node_env \<Rightarrow> environment \<Rightarrow> u64 \<Rightarrow> u64 list \<Rightarrow> node_db \<Rightarrow> (reconcile_error, unit) result \<times> node_db" where
  "replay_stored nx env now_ms [] db = (Inr (), db)"
| "replay_stored nx env now_ms (i # is) db =
     (case stored_lsu_at (ext nx) (db_store db) i of
        None \<Rightarrow> (Inl (ReplayLsuUnusable i), db)
      | Some lsu \<Rightarrow>
          (case apply_lsu_to_storage nx env now_ms lsu db of
             (Inl err, db1) \<Rightarrow> (Inl (ReplayApplyFailed err), db1)
           | (Inr _, db1) \<Rightarrow> replay_stored nx env now_ms is db1))"

definition rebuild_base :: "('s, 'p::ab_group_add) node_env \<Rightarrow> u64 \<Rightarrow> u64 \<Rightarrow> node_db \<Rightarrow> (reconcile_error, unit) result \<times> node_db" where
  "rebuild_base nx local_cycle replay_start db =
     (let db1 = db\<lparr>db_store := purge_mutable_chain_state_preserving_lsu_history (db_store db)\<rparr> in
      if replay_start > 1 then
        (case load_checkpoint_at_cycle (db_store db1) (saturating_sub replay_start 1) of
           None \<Rightarrow> (Inl CheckpointVanished, db1)
         | Some cp \<Rightarrow>
             (case restore_reconcile_from_checkpoint cp local_cycle db1 of
                None \<Rightarrow> (Inl CheckpointRestoreFailed, db1)
              | Some db2 \<Rightarrow> (Inr (), db2)))
      else
        (case store_commit (sha nx) (db_store db1) of
           (Inl err, s) \<Rightarrow> (Inl (RefreshFailed err), db1\<lparr>db_store := s\<rparr>)
         | (Inr _, s) \<Rightarrow> (Inr (), db1\<lparr>db_store := s\<rparr>)))"

definition reconcile_inner ::
  "('s, 'p::ab_group_add) node_env \<Rightarrow> environment \<Rightarrow> u64 \<Rightarrow> LedgerStateUpdate \<Rightarrow> u64 \<Rightarrow> Hash \<Rightarrow> Hash \<Rightarrow> bool \<Rightarrow> u64 \<Rightarrow> u64 \<Rightarrow> node_db
     \<Rightarrow> (reconcile_error, unit) result \<times> node_db" where
  "reconcile_inner nx env now_ms lsu cyc expected_prev expected_post behind local_cycle replay_start db =
     (case (if behind then (Inr (), db) else rebuild_base nx local_cycle replay_start db) of
        (Inl err, db1) \<Rightarrow> (Inl err, db1)
      | (Inr _, db1) \<Rightarrow>
          (case replay_stored nx env now_ms (cycles_before replay_start cyc) db1 of
             (Inl err, db2) \<Rightarrow> (Inl err, db2)
           | (Inr _, db2) \<Rightarrow>
               if local_applied_state_root (db_store db2) \<noteq> expected_prev then (Inl PrevRootMismatch, db2)
               else
                 (case apply_lsu_with_root_check_locked nx env now_ms lsu expected_post db2 of
                    (Inl err, db3) \<Rightarrow> (Inl (FinalApplyFailed err), db3)
                  | (Inr ok, db3) \<Rightarrow> if ok then (Inr (), db3) else (Inl FinalRootMismatch, db3))))"

text \<open>The gates before the lock is taken, then the transaction.\<close>

definition reconcile_admissible ::
  "('s, 'p::ab_group_add) externals \<Rightarrow> Store \<Rightarrow> dfs option \<Rightarrow> LedgerStateUpdate \<Rightarrow> u64 \<Rightarrow> Hash \<Rightarrow> string \<Rightarrow> bool \<Rightarrow> bool" where
  "reconcile_admissible x s dfs lsu cyc expected_lsu_hash finality_cid_hint certified_only \<longleftrightarrow>
     (let incoming = fork_choice_candidate_for_lsu x s dfs lsu cyc expected_lsu_hash finality_cid_hint certified_only in
      \<not> (certified_only \<and> cand_tier incoming \<noteq> Certified)
      \<and> lsu_has_bft_vote_quorum lsu \<and> lsu_cycle_number lsu = cyc \<and> hash_data (blake2b x) ser_lsu lsu = expected_lsu_hash
      \<and> \<not> fork_choice_reject_weaker_incoming x s dfs incoming certified_only)"

definition reconcile_transaction ::
  "('s, 'p::ab_group_add) node_env \<Rightarrow> environment \<Rightarrow> u64 \<Rightarrow> LedgerStateUpdate \<Rightarrow> u64 \<Rightarrow> Hash \<Rightarrow> Hash \<Rightarrow> string option \<Rightarrow> node_db \<times> tracker
     \<Rightarrow> bool \<times> (node_db \<times> tracker) \<times> LsuRangeRequest option" where
  "reconcile_transaction nx env now_ms lsu cyc expected_prev expected_post fetch st =
     (case st of (db, t) \<Rightarrow>
        let local_cycle = local_applied_cycle (db_store db); max_cycles = max_replay_cycles_from_env env in
        if max_cycles = 0 then (False, (db, t), None)
        else if reconcile_circuit_is_broken t local_cycle then (False, (db, t), None)
        else if saturating_sub cyc local_cycle > max_cycles then (False, (db, t), None)
        else
          let pruned_up_to = opt_or (u64_of_meta (metadata (db_store db) META_PRUNED_UP_TO_CYCLE)) 0;
              behind = local_cycle < cyc;
              default_start = (if behind then max (saturating_add local_cycle 1) 1 else 1)
          in
          (case resolve_replay_start env (db_store db) cyc pruned_up_to fetch default_start of
             (None, request) \<Rightarrow> (False, (db, snd (record_reconcile_failure env now_ms local_cycle t)), request)
           | (Some replay_start, request) \<Rightarrow>
               (case reconcile_inner nx env now_ms lsu cyc expected_prev expected_post behind local_cycle replay_start db of
                  (Inr _, db1) \<Rightarrow> (True, (db1, clear_reconcile_failure local_cycle t), request)
                | (Inl _, db1) \<Rightarrow> (False, (reverted nx db db1, snd (record_reconcile_failure env now_ms local_cycle t)), request))))"

definition try_reconcile_fork_from_quorum_lsu ::
  "('s, 'p::ab_group_add) node_env \<Rightarrow> environment \<Rightarrow> u64 \<Rightarrow> dfs option \<Rightarrow> LedgerStateUpdate \<Rightarrow> u64 \<Rightarrow> Hash \<Rightarrow> Hash \<Rightarrow> Hash \<Rightarrow> string option
     \<Rightarrow> string \<Rightarrow> bool \<Rightarrow> node_db \<times> tracker \<Rightarrow> bool \<times> (node_db \<times> tracker) \<times> LsuRangeRequest option" where
  "try_reconcile_fork_from_quorum_lsu nx env now_ms dfs lsu cyc expected_prev expected_post expected_lsu_hash fetch finality_cid_hint certified_only st =
     (case st of (db, t) \<Rightarrow>
        if \<not> reconcile_admissible (ext nx) (db_store db) dfs lsu cyc expected_lsu_hash finality_cid_hint certified_only then (False, (db, t), None)
        else if local_applied_cycle (db_store db) = cyc \<and> local_applied_lsu_hash (db_store db) = Some expected_lsu_hash then (True, (db, t), None)
        else if cyc = saturating_add (local_applied_cycle (db_store db)) 1 \<and> expected_prev = local_applied_state_root (db_store db) then
          (case apply_lsu_with_root_check_locked nx env now_ms lsu expected_post db of
             (Inr True, db1) \<Rightarrow> (True, (db1, t), None)
           | (_, db1) \<Rightarrow> reconcile_transaction nx env now_ms lsu cyc expected_prev expected_post fetch (db1, t))
        else reconcile_transaction nx env now_ms lsu cyc expected_prev expected_post fetch (db, t))"

section \<open>A root-checked step\<close>

definition sound_db :: "('s, 'p) node_env \<Rightarrow> node_db \<Rightarrow> bool" where
  "sound_db nx db \<longleftrightarrow> store_ok (db_store db) \<and> cache_fresh (sha nx) (db_store db)"

lemma local_cycle_head: "local_applied_cycle s = applied_head s"
  by (simp add: local_applied_cycle_def applied_head_def u64_of_meta_def split: option.split)

lemma at_head_sound: "at_head nx lsu root (db_store db) \<Longrightarrow> sound_db nx db"
  by (auto simp: at_head_def sound_db_def cache_fresh_def)

lemma at_head_reads:
  "at_head nx lsu root s \<Longrightarrow> local_applied_cycle s = lsu_cycle_number lsu \<and> local_applied_state_root s = root"
  by (simp add: local_cycle_head at_head_def local_applied_state_root_def)

lemma reverted_same:
  assumes "sound_db nx db"
  shows "db_store (reverted nx db db1) = db_store db"
proof -
  obtain root where "root_cache (db_store db) = Some root" "compute_root_from_iter (sha nx) (accounts (db_store db)) = Inr root"
    using assms by (auto simp: sound_db_def cache_fresh_def)
  then show ?thesis by (simp add: reverted_def store_commit_def)
qed

text \<open>The state a store is in after an update: the head and history of the update, and the accounts its effects give on a base with the
parent's root.\<close>

definition applied_on :: "('s, 'p::ab_group_add) node_env \<Rightarrow> LedgerStateUpdate \<Rightarrow> Hash \<Rightarrow> Store \<Rightarrow> Store \<Rightarrow> bool" where
  "applied_on nx lsu root base t \<longleftrightarrow>
     at_head nx lsu root t \<and> accounts t = accounts (snd (apply_effects nx sender_of_group lsu base))"

lemma applied_on_frame: "applied_on nx lsu root base (db_store db) \<Longrightarrow> applied_on nx lsu root base (db_store (write_checkpoint c r h db))"
  by (simp add: applied_on_def at_head_checkpoint) (simp add: write_checkpoint_def create_db_snapshot_def Let_def store_set_meta_def)

lemma apply_step:
  assumes "sound_db nx db" and "\<forall>x. length (sha nx x) = 32"
  shows "if lsu_cycle_number lsu \<le> applied_head (db_store db)
    then apply_lsu_to_storage nx env now_ms lsu db = (Inr (store_root (db_store db)), db)
    else \<exists>root db'. apply_lsu_to_storage nx env now_ms lsu db = (Inr root, db') \<and> applied_on nx lsu root (db_store db) (db_store db')"
proof (cases "lsu_cycle_number lsu \<le> applied_head (db_store db)")
  case False
  then obtain root s where s: "apply_lsu_to_storage_locked nx now_ms lsu (db_store db) = (Inr root, s)" "applied_on nx lsu root (db_store db) s"
    using apply_lsu_at_head[of "db_store db" nx lsu now_ms] assms by (auto simp: sound_db_def not_le applied_on_def)
  have "applied_on nx lsu root (db_store db) (db_store (write_checkpoint c r h (db\<lparr>db_store := s, startup_checkpoint_written := b\<rparr>)))"
    "applied_on nx lsu root (db_store db) (db_store (write_checkpoint c r h (db\<lparr>db_store := s\<rparr>)))" for c r h b
    by (rule applied_on_frame, simp add: s(2))+
  then show ?thesis using False s
    by (auto simp: apply_lsu_to_storage_def Let_def maybe_write_checkpoint_after_apply_def)
qed (simp add: apply_lsu_to_storage_def)

lemma root_check_step:
  assumes "sound_db nx db" and "\<forall>x. length (sha nx x) = 32"
  obtains (kept) "apply_lsu_with_root_check_locked nx env now_ms lsu expected db = (Inr True, db)"
      "lsu_cycle_number lsu \<le> applied_head (db_store db)"
  | (applied) db' where "apply_lsu_with_root_check_locked nx env now_ms lsu expected db = (Inr True, db')"
      "applied_head (db_store db) < lsu_cycle_number lsu" "applied_on nx lsu expected (db_store db) (db_store db')"
  | (refused) db' where "apply_lsu_with_root_check_locked nx env now_ms lsu expected db = (Inr False, db')" "db_store db' = db_store db"
proof (cases "lsu_cycle_number lsu \<le> applied_head (db_store db)")
  case True
  then have a: "apply_lsu_to_storage nx env now_ms lsu db = (Inr (store_root (db_store db)), db)" using apply_step[OF assms] by simp
  show ?thesis
  proof (cases "store_root (db_store db) = expected")
    case True
    then show ?thesis using a \<open>lsu_cycle_number lsu \<le> _\<close> by (intro kept) (simp_all add: apply_lsu_with_root_check_locked_def)
  next
    case False
    then show ?thesis using a reverted_same[OF assms(1)]
      by (intro refused[of "reverted nx db _"]) (simp_all add: apply_lsu_with_root_check_locked_def)
  qed
next
  case False
  then obtain root db' where a: "apply_lsu_to_storage nx env now_ms lsu db = (Inr root, db')" "applied_on nx lsu root (db_store db) (db_store db')"
    using apply_step[OF assms, of lsu env now_ms] by auto
  show ?thesis
  proof (cases "root = expected")
    case True
    then show ?thesis using a False by (intro applied) (simp_all add: apply_lsu_with_root_check_locked_def not_le)
  next
    case False
    then show ?thesis using a reverted_same[OF assms(1)]
      by (intro refused[of "reverted nx db _"]) (simp_all add: apply_lsu_with_root_check_locked_def)
  qed
qed

section \<open>Replay\<close>

lemma stored_lsu_cycle: "stored_lsu_at x s cyc = Some lsu \<Longrightarrow> lsu_cycle_number lsu = cyc"
  by (auto simp: stored_lsu_at_def split: option.splits sum.splits if_splits)

lemma replay_below:
  assumes "sound_db nx db" and sha: "\<forall>x. length (sha nx x) = 32" and "applied_head (db_store db) < cyc" and "\<forall>i \<in> set is. i < cyc"
    and "replay_stored nx env now_ms is db = (Inr u, db')"
  shows "sound_db nx db' \<and> applied_head (db_store db') < cyc"
  using assms(1,3,4,5)
proof (induction "is" arbitrary: db)
  case (Cons i "is")
  obtain lsu where lsu: "stored_lsu_at (ext nx) (db_store db) i = Some lsu"
    using Cons.prems(4) by (auto split: option.splits)
  obtain root db1 where a: "apply_lsu_to_storage nx env now_ms lsu db = (Inr root, db1)" "sound_db nx db1" "applied_head (db_store db1) < cyc"
  proof (cases "lsu_cycle_number lsu \<le> applied_head (db_store db)")
    case True
    then show ?thesis using that apply_step[OF Cons.prems(1) sha, of lsu env now_ms] Cons.prems(1,2) by simp
  next
    case False
    then show ?thesis using that apply_step[OF Cons.prems(1) sha, of lsu env now_ms] stored_lsu_cycle[OF lsu] Cons.prems(3)
      by (auto simp: at_head_sound applied_on_def) (metis at_head_def)
  qed
  show ?case using Cons.IH[OF a(2,3)] Cons.prems(3,4) lsu a(1) by simp
qed simp

text \<open>Checkpoint records below a cycle describe the snapshot they name: its accounts have the recorded root.\<close>

definition checkpoints_ok :: "('s, 'p) node_env \<Rightarrow> u64 \<Rightarrow> node_db \<Rightarrow> bool" where
  "checkpoints_ok nx cyc db \<longleftrightarrow>
     (\<forall>c r. c < cyc \<and> load_checkpoint_at_cycle (db_store db) c = Some r \<longrightarrow>
        cp_cycle r = c \<and> cp_snapshot_name r = snapshot_name_for_cycle c
        \<and> (\<forall>frozen. map_of (db_snapshots db) (snapshot_name_for_cycle c) = Some frozen \<longrightarrow>
             store_ok frozen \<and> compute_root_from_iter (sha nx) (accounts frozen) = Inr (cp_state_root r)))"

lemma snapshot_name_inject: "snapshot_name_for_cycle a = snapshot_name_for_cycle b \<longleftrightarrow> a = b"
  by (simp add: snapshot_name_for_cycle_def)

lemma write_checkpoint_snapshots:
  "c \<noteq> cyc \<Longrightarrow> map_of (db_snapshots (write_checkpoint cyc root h db)) (snapshot_name_for_cycle c) = map_of (db_snapshots db) (snapshot_name_for_cycle c)"
  by (simp add: write_checkpoint_def create_db_snapshot_def Let_def map_of_hm_insert snapshot_name_inject)

lemma apply_snapshots:
  assumes "c \<noteq> lsu_cycle_number lsu"
  shows "map_of (db_snapshots (snd (apply_lsu_to_storage nx env now_ms lsu db))) (snapshot_name_for_cycle c)
    = map_of (db_snapshots db) (snapshot_name_for_cycle c)"
  using assms
  by (auto simp: apply_lsu_to_storage_def maybe_write_checkpoint_after_apply_def Let_def write_checkpoint_snapshots
      split: prod.splits sum.splits)

lemma root_check_snapshots:
  assumes "c \<noteq> lsu_cycle_number lsu"
  shows "map_of (db_snapshots (snd (apply_lsu_with_root_check_locked nx env now_ms lsu expected db))) (snapshot_name_for_cycle c)
    = map_of (db_snapshots db) (snapshot_name_for_cycle c)"
  using apply_snapshots[OF assms, of nx env now_ms db]
  by (auto simp: apply_lsu_with_root_check_locked_def reverted_def split: prod.splits sum.splits)

lemma checkpoints_ok_same:
  assumes "checkpoints_ok nx cyc db" and "db_store db' = db_store db"
    and "\<And>c. c \<noteq> cyc \<Longrightarrow> map_of (db_snapshots db') (snapshot_name_for_cycle c) = map_of (db_snapshots db) (snapshot_name_for_cycle c)"
  shows "checkpoints_ok nx cyc db'"
  unfolding checkpoints_ok_def
proof (intro allI impI)
  fix c r assume c: "c < cyc \<and> load_checkpoint_at_cycle (db_store db') c = Some r"
  then have "c \<noteq> cyc" by blast
  then show "cp_cycle r = c \<and> cp_snapshot_name r = snapshot_name_for_cycle c
      \<and> (\<forall>frozen. map_of (db_snapshots db') (snapshot_name_for_cycle c) = Some frozen \<longrightarrow>
           store_ok frozen \<and> compute_root_from_iter (sha nx) (accounts frozen) = Inr (cp_state_root r))"
    using c assms(1) assms(2) assms(3)[OF \<open>c \<noteq> cyc\<close>] unfolding checkpoints_ok_def by metis
qed

lemma first_some_found: "first_some f xs = Some y \<Longrightarrow> \<exists>x \<in> set xs. f x = Some y"
  by (induction xs) (auto split: option.splits)

lemma found_checkpoint:
  assumes "find_latest_checkpoint_at_or_below s m = Some r"
  shows "\<exists>c \<le> m. load_checkpoint_at_cycle s c = Some r"
proof -
  obtain latest where l: "u64_of_meta (metadata s META_CHECKPOINT_LATEST_CYCLE) = Some latest"
    using assms by (auto simp: find_latest_checkpoint_at_or_below_def split: option.splits)
  show ?thesis
  proof (cases "latest = 0 \<or> m < latest")
    case True
    then have "first_some (load_checkpoint_at_cycle s) (rev (cycles_upto (max (saturating_sub m 4096) 1) m)) = Some r"
      using assms l by (simp add: find_latest_checkpoint_at_or_below_def)
    then show ?thesis using first_some_found by (fastforce simp: set_cycles_upto)
  next
    case False
    then have "load_checkpoint_at_cycle s latest = Some r" using assms l by (simp add: find_latest_checkpoint_at_or_below_def)
    then show ?thesis using False by (auto simp: not_less)
  qed
qed

lemma purge_keeps_checkpoints:
  "load_checkpoint_at_cycle (purge_mutable_chain_state_preserving_lsu_history s) c = load_checkpoint_at_cycle s c"
proof -
  have "\<forall>ch \<in> set (checkpoint_meta_key c). of_char ch < (128 :: nat)"
    using show_nat_digits[of _ "unat c"] by (fastforce simp: checkpoint_meta_key_def key_of_cycle_def)
  then have "metadata_logical_name_is_preserved (checkpoint_meta_key c)"
    by (simp add: metadata_logical_name_is_preserved_def utf8_ascii keyed_def checkpoint_meta_key_def key_of_cycle_def)
  then show ?thesis by (simp add: load_checkpoint_at_cycle_def purge_mutable_chain_state_preserving_lsu_history_def)
qed

lemma purge_head: "applied_head (purge_mutable_chain_state_preserving_lsu_history s) = 0"
  by (simp add: applied_head_def purge_mutable_chain_state_preserving_lsu_history_def metadata_logical_name_is_preserved_def keyed_def
      META_CHECKPOINT_LATEST_CYCLE_def u64_of_meta_def)

lemma purge_ok: "store_ok (purge_mutable_chain_state_preserving_lsu_history s)"
  by (simp add: store_ok_def purge_mutable_chain_state_preserving_lsu_history_def)

lemma saturating_sub_less: "0 < (a :: u64) \<Longrightarrow> unat (saturating_sub a 1) = unat a - 1"
  by (simp add: unat_saturating_sub)

lemma rebuild_sound:
  assumes "checkpoints_ok nx cyc db" and sha: "\<forall>x. length (sha nx x) = 32" and "0 < cyc" and "replay_start \<le> cyc"
    and "rebuild_base nx head replay_start db = (Inr u, db')"
  shows "sound_db nx db' \<and> applied_head (db_store db') < cyc"
proof (cases "1 < replay_start")
  case True
  define db1 where "db1 = db\<lparr>db_store := purge_mutable_chain_state_preserving_lsu_history (db_store db)\<rparr>"
  define c where "c = saturating_sub replay_start 1"
  obtain cp where cp: "load_checkpoint_at_cycle (db_store db) c = Some cp" "restore_reconcile_from_checkpoint cp head db1 = Some db'"
    using assms(5) True
    by (auto simp: rebuild_base_def Let_def db1_def[symmetric] c_def[symmetric] purge_keeps_checkpoints split: option.splits)
      (auto simp: db1_def purge_keeps_checkpoints)
  have c: "c < cyc" using assms(3,4) True by (auto simp: c_def word_less_nat_alt word_le_nat_alt unat_saturating_sub)
  then have ok: "cp_cycle cp = c" "cp_snapshot_name cp = snapshot_name_for_cycle c"
    "\<And>frozen. map_of (db_snapshots db) (snapshot_name_for_cycle c) = Some frozen \<Longrightarrow>
       store_ok frozen \<and> compute_root_from_iter (sha nx) (accounts frozen) = Inr (cp_state_root cp)"
    using assms(1) cp(1) by (auto simp: checkpoints_ok_def)
  obtain frozen where "map_of (db_snapshots db1) (cp_snapshot_name cp) = Some frozen"
    using cp(2) by (auto simp: restore_reconcile_from_checkpoint_def load_db_snapshot_def Let_def split: option.splits)
  then show ?thesis
    using restore_effect[of db1 cp frozen head] cp(2) ok(3)[of frozen] ok(1,2) c
    by (auto simp: sound_db_def store_ok_def cache_fresh_def db1_def history_head_def applied_head_def)
next
  case False
  define s where "s = purge_mutable_chain_state_preserving_lsu_history (db_store db)"
  obtain root where root: "compute_root_from_iter (sha nx) (accounts s) = Inr root" using root_exists[OF sha] by blast
  then have "db' = db\<lparr>db_store := s\<lparr>root_cache := Some root\<rparr>\<rparr>"
    using assms(5) False by (auto simp: rebuild_base_def Let_def s_def[symmetric] store_commit_def)
  moreover have "applied_head (s\<lparr>root_cache := Some root\<rparr>) = 0" using purge_head[of "db_store db"] by (simp add: s_def applied_head_def)
  ultimately show ?thesis using root purge_ok[of "db_store db"] assms(3) by (simp add: sound_db_def cache_fresh_def s_def store_ok_def)
qed

section \<open>Reconciliation is all or nothing\<close>

lemma inner_sound:
  assumes "sound_db nx db" and "checkpoints_ok nx cyc db" and sha: "\<forall>x. length (sha nx x) = 32" and "0 < cyc"
    and "lsu_cycle_number lsu = cyc" and "behind \<longleftrightarrow> applied_head (db_store db) < cyc" and "\<not> behind \<longrightarrow> replay_start \<le> cyc"
    and "reconcile_inner nx env now_ms lsu cyc prev post behind head replay_start db = (Inr u, db')"
  shows "\<exists>base. applied_on nx lsu post base (db_store db') \<and> cache_fresh (sha nx) base \<and> local_applied_state_root base = prev"
proof -
  obtain v db1 where base: "(if behind then (Inr (), db) else rebuild_base nx head replay_start db) = (Inr v, db1)"
    using assms(8) by (auto simp: reconcile_inner_def split: prod.splits sum.splits)
  have 1: "sound_db nx db1 \<and> applied_head (db_store db1) < cyc"
    using base assms(1,6,7) rebuild_sound[OF assms(2) sha assms(4)] by (auto split: if_splits)
  obtain w db2 where replay: "replay_stored nx env now_ms (cycles_before replay_start cyc) db1 = (Inr w, db2)"
    using assms(8) base by (auto simp: reconcile_inner_def split: prod.splits sum.splits)
  have 2: "sound_db nx db2" "applied_head (db_store db2) < cyc"
    using replay_below[OF _ sha _ _ replay, of cyc] 1 by (auto simp: set_cycles_before)
  have final: "apply_lsu_with_root_check_locked nx env now_ms lsu post db2 = (Inr True, db')"
    using assms(8) base replay by (auto simp: reconcile_inner_def split: prod.splits sum.splits if_splits)
  moreover have "local_applied_state_root (db_store db2) = prev"
    using assms(8) base replay by (auto simp: reconcile_inner_def split: prod.splits sum.splits if_splits)
  ultimately show ?thesis
    using 2 assms(5) by (cases rule: root_check_step[OF 2(1) sha, of env now_ms lsu post]) (auto simp: sound_db_def)
qed

lemma resolved_start:
  assumes "checkpoints_ok nx cyc db" and "0 < cyc" and "resolve_replay_start env (db_store db) cyc pruned fetch 1 = (Some start, request)"
  shows "start \<le> cyc"
proof -
  have one: "1 \<le> cyc" using assms(2) by (simp add: word_le_nat_alt word_less_nat_alt)
  consider "start = 1" | cp where "reconcile_checkpoint_for_missing_prefix (db_store db) cyc pruned = Some cp" "start = saturating_add (cp_cycle cp) 1"
    using assms(3) by (auto simp: resolve_replay_start_def Let_def split: if_splits option.splits)
  then show ?thesis
  proof cases
    case 2
    then have "find_latest_checkpoint_at_or_below (db_store db) (saturating_sub cyc 1) = Some cp"
      by (auto simp: reconcile_checkpoint_for_missing_prefix_def Let_def split: if_splits option.splits)
    then obtain c where c: "c \<le> saturating_sub cyc 1" "load_checkpoint_at_cycle (db_store db) c = Some cp" using found_checkpoint by blast
    then have "c < cyc" using assms(2) by (auto simp: word_less_nat_alt word_le_nat_alt unat_saturating_sub)
    then show ?thesis using c(2) assms(1) 2(2) by (auto simp: checkpoints_ok_def word_less_nat_alt word_le_nat_alt unat_saturating_add)
  qed (use one in simp)
qed

lemma transaction_sound:
  assumes "sound_db nx db" and "checkpoints_ok nx cyc db" and sha: "\<forall>x. length (sha nx x) = 32" and "0 < cyc" and "lsu_cycle_number lsu = cyc"
    and "reconcile_transaction nx env now_ms lsu cyc prev post fetch (db, t) = (ok, (db', t'), request)"
  shows "if ok then \<exists>base. applied_on nx lsu post base (db_store db') \<and> cache_fresh (sha nx) base \<and> local_applied_state_root base = prev
    else db_store db' = db_store db"
proof -
  define behind where "behind \<longleftrightarrow> applied_head (db_store db) < cyc"
  define start where "start = (if behind then max (saturating_add (applied_head (db_store db)) 1) 1 else 1)"
  obtain found req where r:
    "resolve_replay_start env (db_store db) cyc (opt_or (u64_of_meta (metadata (db_store db) META_PRUNED_UP_TO_CYCLE)) 0) fetch start = (found, req)"
    by fastforce
  note unfolded = assms(6)[unfolded reconcile_transaction_def local_cycle_head Let_def prod.case, folded behind_def, folded start_def,
      unfolded r prod.case]
  show ?thesis
  proof (cases found)
    case None
    then show ?thesis using unfolded by (auto split: if_splits)
  next
    case (Some replay_start)
    obtain res db1 where i: "reconcile_inner nx env now_ms lsu cyc prev post behind (applied_head (db_store db)) replay_start db = (res, db1)"
      by fastforce
    have start: "\<not> behind \<longrightarrow> replay_start \<le> cyc"
      using resolved_start[OF assms(2,4)] r Some by (auto simp: start_def)
    show ?thesis
    proof (cases res)
      case (Inl e)
      then show ?thesis using unfolded Some i reverted_same[OF assms(1)] by (auto split: if_splits)
    next
      case (Inr u)
      then show ?thesis using unfolded Some i inner_sound[OF assms(1,2) sha assms(4,5) behind_def start, of env now_ms prev post _ u db1]
        by (auto split: if_splits)
    qed
  qed
qed


section \<open>Catching up follows recorded roots\<close>

text \<open>
  What catching up may do to a store: apply the stored update of the next cycle when the current
  root is the one recorded for the head (all zero when none is recorded) and the new root is the
  one recorded for the cycle, with a verified certificate where one is required.
\<close>

inductive catch_up :: "('s, 'p::ab_group_add) node_env \<Rightarrow> dfs option \<Rightarrow> bool \<Rightarrow> Store \<Rightarrow> nat \<Rightarrow> Store \<Rightarrow> bool" where
  stop: "accounts t = accounts s \<Longrightarrow> root_cache t = root_cache s \<Longrightarrow> applied_head t = applied_head s \<Longrightarrow> catch_up nx dfs require s 0 t"
| step: "stored_lsu_at (ext nx) s (applied_head s + 1) = Some lsu \<Longrightarrow>
     local_applied_state_root s = opt_or (meta_32 s (key_of_cycle ''consensus:lsu_state_root:'' (applied_head s))) (replicate 32 0) \<Longrightarrow>
     meta_32 s (key_of_cycle ''consensus:lsu_state_root:'' (applied_head s + 1)) = Some root \<Longrightarrow>
     require \<longrightarrow> (\<exists>d cert. dfs = Some d \<and> verify_lsu_finality_certificate (blake2b (ext nx)) (hex_decode (ext nx)) (curve25519 (ext nx)) cert lsu = Inr ()) \<Longrightarrow>
     accounts s1 = accounts s \<Longrightarrow> applied_on nx lsu root s1 s2 \<Longrightarrow> catch_up nx dfs require s2 n t \<Longrightarrow>
     catch_up nx dfs require s (Suc n) t"

lemma gate_store:
  assumes "fork_choice_apply_gate x env dfs lsu cyc h cid certified_only s = (gate, s1)"
  shows "accounts s1 = accounts s \<and> root_cache s1 = root_cache s \<and> applied_head s1 = applied_head s
    \<and> (\<forall>c. meta_32 s1 (key_of_cycle ''consensus:lsu_state_root:'' c) = meta_32 s (key_of_cycle ''consensus:lsu_state_root:'' c))"
proof -
  have "s1 = s \<or> (\<exists>h. s1 = store_set_meta (certified_hash_metadata_key cyc) h s)"
    using assms by (auto simp: fork_choice_apply_gate_def Let_def split: if_splits CertifiedHashRegister.splits)
  then show ?thesis
    by (auto simp: store_set_meta_def applied_head_def meta_32_def certified_hash_metadata_key_def key_of_cycle_def)
qed

lemma certificate_checked:
  "verify_lsu_finality_for_apply x s d lsu cyc cid True \<Longrightarrow>
   \<exists>cert. verify_lsu_finality_certificate (blake2b x) (hex_decode x) (curve25519 x) cert lsu = Inr ()"
  by (auto simp: verify_lsu_finality_for_apply_def Let_def split: if_splits option.splits)

lemma stored_cases:
  assumes "try_apply_stored_lsu_at_cycle nx env now_ms t dfs c require db = (ok, db')" and "c = saturating_add (applied_head (db_store db)) 1" and "c \<noteq> 0"
  obtains (skipped) "\<not> ok" "db' = db"
  | (gated) gate lsu h cid s1 where "\<not> ok" "fork_choice_apply_gate (ext nx) env dfs lsu c h cid require (db_store db) = (gate, s1)" "db' = db\<lparr>db_store := s1\<rparr>"
  | (tried) gate lsu h cid s1 root res where "stored_lsu_at (ext nx) (db_store db) c = Some lsu"
      "fork_choice_apply_gate (ext nx) env dfs lsu c h cid require (db_store db) = (gate, s1)"
      "local_applied_state_root s1 = opt_or (meta_32 s1 (key_of_cycle ''consensus:lsu_state_root:'' (saturating_sub c 1))) (replicate 32 0)"
      "require \<longrightarrow> (\<exists>d. dfs = Some d \<and> verify_lsu_finality_for_apply (ext nx) s1 d lsu c cid True)"
      "meta_32 s1 (key_of_cycle ''consensus:lsu_state_root:'' c) = Some root"
      "apply_lsu_with_root_check_locked nx env now_ms lsu root (db\<lparr>db_store := s1\<rparr>) = (res, db')" "ok \<longleftrightarrow> res = Inr True"
proof (cases "stored_lsu_at (ext nx) (db_store db) c")
  case None
  then show ?thesis using assms skipped by (auto simp: try_apply_stored_lsu_at_cycle_def local_cycle_head Let_def split: if_splits)
next
  case (Some lsu)
  define h where "h = hash_data (blake2b (ext nx)) ser_lsu lsu"
  define cid where "cid = opt_or (meta_string (db_store db) (key_of_cycle ''consensus:lsu_finality_cid:'' c)) []"
  obtain gate s1 where g: "fork_choice_apply_gate (ext nx) env dfs lsu c h cid require (db_store db) = (gate, s1)" by fastforce
  define db1 where "db1 = db\<lparr>db_store := s1\<rparr>"
  define parent where "parent = meta_32 s1 (key_of_cycle ''consensus:lsu_state_root:'' (saturating_sub c 1))"
  note run = assms(1)[unfolded try_apply_stored_lsu_at_cycle_def local_cycle_head Let_def Some option.case, folded h_def, folded cid_def,
      unfolded g prod.case, folded db1_def, folded parent_def]
  show ?thesis
  proof (cases "ok \<or> \<not> (db' = db \<or> db' = db1)")
    case False
    then show ?thesis using skipped gated[OF _ g] by (auto simp: db1_def)
  next
    case True
    have gate: "\<not> reconcile_circuit_is_broken t (applied_head (db_store db))" "gate = Allow" using run True by (auto split: if_splits)
    have prev: "case parent of Some expected \<Rightarrow> local_applied_state_root s1 = expected | None \<Rightarrow> local_applied_state_root s1 = replicate 32 0"
      and cert: "require \<longrightarrow> (\<exists>d. dfs = Some d \<and> verify_lsu_finality_for_apply (ext nx) s1 d lsu c cid True)"
      using run True gate assms(2,3) by (auto split: if_splits option.splits)
    show ?thesis
    proof (cases "meta_32 s1 (key_of_cycle ''consensus:lsu_state_root:'' c)")
      case None
      then show ?thesis using run True by (auto split: if_splits option.splits)
    next
      case root: (Some root)
      obtain res db2 where a: "apply_lsu_with_root_check_locked nx env now_ms lsu root db1 = (res, db2)" by fastforce
      then have "db' = db2 \<and> (ok \<longleftrightarrow> res = Inr True)"
        using run True root by (auto split: if_splits option.splits sum.splits)
      then show ?thesis
        using tried[OF Some g _ cert root, of res] a prev by (auto simp: db1_def parent_def split: option.splits)
    qed
  qed
qed

lemma stored_step:
  assumes sound: "sound_db nx db" and sha: "\<forall>x. length (sha nx x) = 32" and small: "applied_head (db_store db) < - 1"
    and run: "try_apply_stored_lsu_at_cycle nx env now_ms t dfs (saturating_add (local_applied_cycle (db_store db)) 1) require db = (ok, db')"
  shows "if ok
    then (\<forall>n u. catch_up nx dfs require (db_store db') n u \<longrightarrow> catch_up nx dfs require (db_store db) (Suc n) u)
      \<and> sound_db nx db' \<and> applied_head (db_store db') = applied_head (db_store db) + 1
    else catch_up nx dfs require (db_store db) 0 (db_store db') \<and> sound_db nx db'"
proof -
  define c where "c = saturating_add (applied_head (db_store db)) 1"
  have c: "c = applied_head (db_store db) + 1" "saturating_sub c 1 = applied_head (db_store db)" "c \<noteq> 0" "applied_head (db_store db) < c"
    using small unsigned_less[of "applied_head (db_store db)", where ?'a = nat]
    by (auto simp: c_def word_unat_eq_iff word_less_nat_alt unat_saturating_add unat_saturating_sub unat_max_word unat_word_ariths)
  have same: "catch_up nx dfs require (db_store db) 0 s1 \<and> sound_db nx (db\<lparr>db_store := s1\<rparr>)"
    if "fork_choice_apply_gate (ext nx) env dfs lsu c h cid require (db_store db) = (gate, s1)" for lsu h cid gate s1
    using gate_store[OF that] sound by (auto intro: stop simp: sound_db_def store_ok_def cache_fresh_def)
  show ?thesis
  proof (cases rule: stored_cases[OF run[unfolded local_cycle_head] refl, folded c_def, OF c(3)])
    case 1
    then show ?thesis using sound by (auto intro: stop)
  next
    case (2 gate lsu h cid s1)
    then show ?thesis using same[OF 2(2)] by auto
  next
    case (3 gate lsu h cid s1 root res)
    note frame = gate_store[OF 3(2)] and lsu = stored_lsu_cycle[OF 3(1)]
    have cert: "require \<longrightarrow> (\<exists>d cert. dfs = Some d
        \<and> verify_lsu_finality_certificate (blake2b (ext nx)) (hex_decode (ext nx)) (curve25519 (ext nx)) cert lsu = Inr ())"
      using 3(4) certificate_checked by blast
    have parent: "local_applied_state_root (db_store db)
        = opt_or (meta_32 (db_store db) (key_of_cycle ''consensus:lsu_state_root:'' (applied_head (db_store db)))) (replicate 32 0)"
      using 3(3) frame sound by (auto simp: c(2) local_applied_state_root_def sound_db_def cache_fresh_def)
    show ?thesis
    proof (cases rule: root_check_step[OF conjunct2[OF same[OF 3(2)]] sha, of env now_ms lsu root])
      case 1
      then show ?thesis using frame lsu c(4) by simp
    next
      case ran: (2 db2)
      then have "ok" "db' = db2" using 3(6,7) by simp_all
      moreover have "catch_up nx dfs require (db_store db) (Suc n) u" if "catch_up nx dfs require (db_store db2) n u" for n u
        by (rule step[of nx "db_store db" lsu root require dfs s1 "db_store db2"])
          (use ran(3) 3(1,5) parent frame cert that c(1) in simp_all)
      moreover have "sound_db nx db2" "applied_head (db_store db2) = c"
        using ran(3) lsu by (auto simp: applied_on_def at_head_sound) (simp add: at_head_def)
      ultimately show ?thesis using c(1) by simp
    next
      case refused: (3 db2)
      then have "\<not> ok" "db_store db' = s1" using 3(6,7) by simp_all
      then show ?thesis using same[OF 3(2)] by (simp add: sound_db_def)
    qed
  qed
qed

text \<open>C12: catching up from stored updates only follows recorded roots. However many steps are asked for, the run is a sequence of
applications of stored updates, one cycle at a time from the head, each from the root recorded for its parent to the root recorded for its own
cycle and with a verified certificate where one is required; a step that fails leaves the accounts and the root as they were.\<close>

theorem catch_up_follows_roots:
  assumes "store_ok (db_store db)" and "cache_fresh (sha nx) (db_store db)" and "\<forall>x. length (sha nx x) = 32"
    and "unat (applied_head (db_store db)) + max_steps < 2 ^ 64 - 1"
    and "try_advance_applied_head_from_storage nx env now_ms t dfs require max_steps db = (n, db')"
  shows "n \<le> max_steps \<and> catch_up nx dfs require (db_store db) n (db_store db')
     \<and> unat (applied_head (db_store db')) = unat (applied_head (db_store db)) + n
     \<and> store_ok (db_store db') \<and> cache_fresh (sha nx) (db_store db')"
proof -
  have "n \<le> max_steps \<and> catch_up nx dfs require (db_store db) n (db_store db')
     \<and> unat (applied_head (db_store db')) = unat (applied_head (db_store db)) + n \<and> sound_db nx db'"
    if "sound_db nx db" using that assms(4,5)
  proof (induction max_steps arbitrary: db n)
    case 0
    then show ?case by (auto intro: stop)
  next
    case (Suc k)
    obtain ok db1 where s: "try_apply_stored_lsu_at_cycle nx env now_ms t dfs (saturating_add (local_applied_cycle (db_store db)) 1) require db = (ok, db1)"
      by fastforce
    have "applied_head (db_store db) < - 1" using Suc.prems(2) by (simp add: word_less_nat_alt unat_max_word)
    note st = stored_step[OF Suc.prems(1) assms(3) this s]
    show ?case
    proof (cases ok)
      case True
      have head: "unat (applied_head (db_store db1)) = Suc (unat (applied_head (db_store db)))"
        using st True Suc.prems(2) by (simp add: unat_word_ariths)
      obtain m where m: "try_advance_applied_head_from_storage nx env now_ms t dfs require k db1 = (m, db')" "n = Suc m"
        using Suc.prems(3) s True by (auto split: prod.splits)
      show ?thesis using Suc.IH[OF _ _ m(1)] st True head Suc.prems(2) m(2) by simp
    next
      case False
      then show ?thesis using st s Suc.prems(3) by (auto elim: catch_up.cases)
    qed
  qed
  then show ?thesis using assms(1,2) by (simp add: sound_db_def)
qed

section \<open>The breaker trips at the threshold\<close>

definition record_failures :: "environment \<Rightarrow> u64 \<Rightarrow> u64 list \<Rightarrow> tracker \<Rightarrow> tracker" where
  "record_failures env head ts t = fold (\<lambda>now_ms t. snd (record_reconcile_failure env now_ms head t)) ts t"

lemma length_hm_insert: "length (hm_insert k v m) = (if map_of m k = None then Suc (length m) else length m)"
  by (induction m) auto

lemma prune_tracker_small:
  assumes "length t \<le> RECONCILE_FAILURE_TRACKER_MAX_ENTRIES"
  shows "length (prune_tracker now_ms t) \<le> length t"
    and "map_of t head = None \<Longrightarrow> map_of (prune_tracker now_ms t) head = None"
    and "map_of t head = Some e \<Longrightarrow> saturating_sub now_ms RECONCILE_FAILURE_TRACKER_RETENTION_MS \<le> last_seen_ms e \<Longrightarrow>
      map_of (prune_tracker now_ms t) head = Some e"
proof -
  define P where "P = (\<lambda>e :: ReconcileFailureEntry. broken e \<or> saturating_sub now_ms RECONCILE_FAILURE_TRACKER_RETENTION_MS \<le> last_seen_ms e)"
  have "length (filter (\<lambda>(k, e). P e) t) \<le> RECONCILE_FAILURE_TRACKER_MAX_ENTRIES"
    using assms length_filter_le[of "\<lambda>(k, e). P e" t] by linarith
  then have p: "prune_tracker now_ms t = filter (\<lambda>(k, e). P e) t" by (simp add: prune_tracker_def Let_def P_def not_less)
  show "length (prune_tracker now_ms t) \<le> length t" by (simp add: p)
  have "map_of t head = None \<Longrightarrow> map_of (filter (\<lambda>(k, e). P e) t) head = None"
    "map_of t head = Some e \<Longrightarrow> P e \<Longrightarrow> map_of (filter (\<lambda>(k, e). P e) t) head = Some e"
    by (induction t) (auto split: if_splits)
  then show "map_of t head = None \<Longrightarrow> map_of (prune_tracker now_ms t) head = None"
    and "map_of t head = Some e \<Longrightarrow> saturating_sub now_ms RECONCILE_FAILURE_TRACKER_RETENTION_MS \<le> last_seen_ms e \<Longrightarrow>
      map_of (prune_tracker now_ms t) head = Some e"
    by (simp_all add: p P_def)
qed

definition soon_after :: "environment \<Rightarrow> u64 \<Rightarrow> u64 \<Rightarrow> bool" where
  "soon_after env a b \<longleftrightarrow>
     saturating_sub b a \<le> min (reconcile_circuit_break_window_ms env) RECONCILE_FAILURE_TRACKER_RETENTION_MS"

definition failed_since :: "environment \<Rightarrow> u64 list \<Rightarrow> ReconcileFailureEntry" where
  "failed_since env ts =
     \<lparr>consecutive_failures = of_nat (length ts), last_seen_ms = List.last ts,
      broken = (unat (reconcile_circuit_break_threshold env) \<le> length ts)\<rparr>"

lemma failure_step:
  assumes "length t \<le> RECONCILE_FAILURE_TRACKER_MAX_ENTRIES" and "length (ts @ [now_ms]) < 2 ^ 32"
    and "map_of t head = (if ts = [] then None else Some (failed_since env ts))"
    and "ts \<noteq> [] \<longrightarrow> soon_after env (List.last ts) now_ms"
  shows "\<exists>t'. record_reconcile_failure env now_ms head t = (Suc (length ts) = unat (reconcile_circuit_break_threshold env), t')
     \<and> map_of t' head = Some (failed_since env (ts @ [now_ms]))
     \<and> length t' \<le> (if ts = [] then Suc (length t) else length t)"
proof -
  define n where "n = reconcile_circuit_break_threshold env"
  define e0 where "e0 = (if ts = [] then \<lparr>consecutive_failures = 0, last_seen_ms = now_ms, broken = False\<rparr> else failed_since env ts)"
  define t1 where "t1 = prune_tracker now_ms t"
  have late: "ts \<noteq> [] \<longrightarrow> saturating_sub now_ms RECONCILE_FAILURE_TRACKER_RETENTION_MS \<le> List.last ts"
    using assms(4) by (auto simp: soon_after_def min_def word_le_nat_alt unat_saturating_sub split: if_splits)
  have m1: "map_of t1 head = (if ts = [] then None else Some (failed_since env ts))"
    using prune_tracker_small(2,3)[OF assms(1), of head] assms(3) late by (auto simp: t1_def failed_since_def)
  have found: "opt_or (map_of t1 head) \<lparr>consecutive_failures = 0, last_seen_ms = now_ms, broken = False\<rparr> = e0"
    by (simp add: m1 e0_def)
  have window: "\<not> reconcile_circuit_break_window_ms env < saturating_sub now_ms (last_seen_ms e0)"
    using assms(4) by (auto simp: e0_def failed_since_def soon_after_def not_less saturating_sub_def)
  have count: "unat (saturating_add (consecutive_failures e0) 1) = Suc (length ts)"
    using assms(2) by (auto simp: e0_def failed_since_def unat_saturating_add unat_of_nat)
  then have count': "saturating_add (consecutive_failures e0) 1 = of_nat (Suc (length ts))"
    by (metis of_nat_unat ucast_id)
  have reached: "n \<le> saturating_add (consecutive_failures e0) 1 \<longleftrightarrow> unat n \<le> Suc (length ts)" using count by (simp add: word_le_nat_alt)
  have was: "broken e0 \<longleftrightarrow> unat n \<le> length ts"
    using limits_in_range(9)[of env] by (auto simp: e0_def failed_since_def n_def word_less_nat_alt)
  define e2 where "e2 = e0\<lparr>consecutive_failures := of_nat (Suc (length ts)), last_seen_ms := now_ms\<rparr>"
  have "record_reconcile_failure env now_ms head t
      = (if \<not> broken e0 \<and> unat n \<le> Suc (length ts) then (True, hm_insert head (e2\<lparr>broken := True\<rparr>) t1) else (False, hm_insert head e2 t1))"
    using window reached by (simp add: record_reconcile_failure_def Let_def t1_def[symmetric] found n_def[symmetric] count' e2_def)
  moreover have "failed_since env (ts @ [now_ms]) = e2\<lparr>broken := (unat n \<le> Suc (length ts))\<rparr>" by (simp add: failed_since_def e2_def n_def)
  moreover have "length (hm_insert head e t1) \<le> (if ts = [] then Suc (length t) else length t)" for e
    using prune_tracker_small(1)[OF assms(1), of now_ms] m1 by (simp add: length_hm_insert t1_def)
  ultimately show ?thesis using was by (auto simp: n_def map_of_hm_insert e2_def)
qed



section \<open>An update of cycle 0\<close>

lemma cycles_before_empty: "b \<le> a \<Longrightarrow> cycles_before a b = []"
  using set_cycles_before[of a b] by (metis (no_types, lifting) Collect_empty_eq linorder_not_less order.trans set_empty order_le_less_trans)

text \<open>an update of cycle 0 erases the ledger. An admitted update of cycle 0 whose claimed roots are both the root of no accounts goes
through the rebuild: the purge leaves no accounts, no stored update is replayed, and the last step takes the cycle as applied already, so the
reconcile succeeds on the empty state, whatever the node had applied.\<close>

theorem reconcile_cycle_zero_erases:
  assumes "reconcile_admissible (ext nx) (db_store db) dfs lsu 0 lsu_hash hint certified_only"
    and "0 < local_applied_cycle (db_store db)" and "\<not> reconcile_circuit_is_broken t (local_applied_cycle (db_store db))"
    and "max_replay_cycles_from_env env \<noteq> 0" and "compute_root_from_iter (sha nx) [] = Inr empty_root"
  shows "\<exists>db' t'. try_reconcile_fork_from_quorum_lsu nx env now_ms dfs lsu 0 empty_root empty_root lsu_hash fetch hint certified_only (db, t)
       = (True, (db', t'), None)
     \<and> accounts (db_store db') = [] \<and> local_applied_cycle (db_store db') = 0"
proof -
  define s where "s = purge_mutable_chain_state_preserving_lsu_history (db_store db)"
  define db' where "db' = db\<lparr>db_store := s\<lparr>root_cache := Some empty_root\<rparr>\<rparr>"
  have acc: "accounts s = []" by (simp add: s_def purge_mutable_chain_state_preserving_lsu_history_def)
  have base: "rebuild_base nx (local_applied_cycle (db_store db)) 1 db = (Inr (), db')"
    using acc assms(5) by (simp add: rebuild_base_def Let_def s_def[symmetric] store_commit_def db'_def)
  have head: "applied_head (db_store db') = 0" using purge_head[of "db_store db"] by (simp add: db'_def s_def applied_head_def)
  have lsu: "lsu_cycle_number lsu = 0" using assms(1) by (simp add: reconcile_admissible_def Let_def)
  have "apply_lsu_with_root_check_locked nx env now_ms lsu empty_root db' = (Inr True, db')"
    using head lsu by (simp add: apply_lsu_with_root_check_locked_def apply_lsu_to_storage_def store_root_def db'_def)
  moreover have "local_applied_state_root (db_store db') = empty_root" by (simp add: db'_def local_applied_state_root_def)
  ultimately have inner: "reconcile_inner nx env now_ms lsu 0 empty_root empty_root False (local_applied_cycle (db_store db)) 1 db = (Inr (), db')"
    using base by (simp add: reconcile_inner_def cycles_before_empty)
  have "saturating_add (local_applied_cycle (db_store db)) 1 \<noteq> 0" by (simp add: word_unat_eq_iff unat_saturating_add)
  then have "try_reconcile_fork_from_quorum_lsu nx env now_ms dfs lsu 0 empty_root empty_root lsu_hash fetch hint certified_only (db, t)
      = (True, (db', clear_reconcile_failure (local_applied_cycle (db_store db)) t), None)"
    using assms(1-4) inner
    by (auto simp: try_reconcile_fork_from_quorum_lsu_def reconcile_transaction_def Let_def resolve_replay_start_def saturating_sub_def)
  then show ?thesis using acc head by (auto simp: db'_def local_cycle_head)
qed

section \<open>A live node\<close>

text \<open>The witnesses run on a funded store whose digest function is constant, so that every root is the same known value.\<close>

lemma demo_roots: "compute_root_from_iter (sha demo_env) m = Inr (replicate 32 5)"
proof -
  obtain root where root: "compute_root_from_iter (sha demo_env) m = Inr root" using root_exists[OF demo_burn(2)] by blast
  obtain depths where "fold (step_hash (sha demo_env)) (path_steps (sha demo_env) depths TREE_DEPTH (replicate 32 0))
      (get_or (leaf_map_of (sha demo_env) m) (replicate 32 0) (h_empty_leaf (sha demo_env))) = root"
    using build_depth_maps_spec[OF leaf_map_of_wf[OF demo_burn(2)], of "sha demo_env" m] root
    by (auto simp: compute_root_from_iter_def) (metis length_replicate)
  moreover have "fold (step_hash (sha demo_env)) steps x = replicate 32 5" if "steps \<noteq> []" for steps x
    using that by (cases steps rule: rev_cases) (simp_all add: step_hash_def h_node_def demo_env_def)
  moreover have "path_steps (sha demo_env) depths TREE_DEPTH (replicate 32 0) \<noteq> []"
    by (metis length_path_steps list.size(3) TREE_DEPTH_def zero_neq_numeral)
  ultimately show ?thesis using root by metis
qed

definition quorum_lsu :: "u64 \<Rightarrow> LedgerStateUpdate" where
  "quorum_lsu c = burn_lsu\<lparr>lsu_cycle_number := c, lsu_producer_list := [''p''], lsu_vote_list := [''p'']\<rparr>"

definition quorum_hash :: "u64 \<Rightarrow> Hash" where
  "quorum_hash c = hash_data (blake2b (ext demo_env)) ser_lsu (quorum_lsu c)"

definition live_store :: "u64 \<Rightarrow> Store" where
  "live_store head =
     store_set_meta (key_of_cycle ''consensus:lsu_state_root:'' (head + 1)) (replicate 32 5)
       (store_set_meta (key_of_cycle ''consensus:lsu_state_root:'' head) (replicate 32 5)
         (store_set_meta (key_of_cycle ''consensus:lsu:'' (head + 1)) (ser_lsu (quorum_lsu (head + 1)))
           (store_set_meta ''consensus:last_applied_cycle'' (to_le_bytes head) fresh_store)))"

definition live_db :: "u64 \<Rightarrow> node_db" where
  "live_db head = \<lparr>db_store = live_store head, db_snapshots = [], startup_checkpoint_written = True\<rparr>"

lemma fresh_fields: "fresh_store = (funded_store 3)\<lparr>root_cache := Some (replicate 32 5)\<rparr>"
  by (simp add: fresh_store_def store_commit_def demo_roots)

lemma quorum_stored: "run_reader de_lsu (ser_lsu (quorum_lsu c)) = Inr (quorum_lsu c)"
proof -
  have "lsu_ok (quorum_lsu c)"
    by (simp add: lsu_ok_def quorum_lsu_def burn_lsu_def partial_ok_def payer_def tentry_ok_def utf8_ascii)
  then show ?thesis using de_lsu_iff[of "ser_lsu (quorum_lsu c)" "quorum_lsu c" "[]"] by (simp add: run_reader_def)
qed

lemma live_facts:
  "store_ok (live_store head)" "cache_fresh (sha demo_env) (live_store head)" "applied_head (live_store head) = head"
  "local_applied_state_root (live_store head) = replicate 32 5" "metadata (live_store head) (key_of_cycle ''consensus:lsu_hash:'' c) = None"
  "load_checkpoint_at_cycle (live_store head) c = None"
  "stored_lsu_at (ext demo_env) (live_store head) (head + 1) = Some (quorum_lsu (head + 1))"
proof -
  have m: "metadata (funded_store 3) = (\<lambda>_. None)" by (simp add: funded_store_def set_balance_i64_def store_set_def empty_store_def)
  show "store_ok (live_store head)" "cache_fresh (sha demo_env) (live_store head)"
    using demo_burn(1) by (simp_all add: live_store_def store_set_meta_def fresh_fields store_ok_def cache_fresh_def demo_roots)
  show "applied_head (live_store head) = head"
    by (simp add: live_store_def store_set_meta_def fresh_fields applied_head_def key_of_cycle_def)
  show "local_applied_state_root (live_store head) = replicate 32 5"
    by (simp add: live_store_def store_set_meta_def fresh_fields local_applied_state_root_def)
  show none: "metadata (live_store head) (key_of_cycle ''consensus:lsu_hash:'' c) = None" for c
    by (simp add: live_store_def store_set_meta_def fresh_fields m key_of_cycle_def)
  show "load_checkpoint_at_cycle (live_store head) c = None"
    by (simp add: load_checkpoint_at_cycle_def live_store_def store_set_meta_def fresh_fields m key_of_cycle_def checkpoint_meta_key_def)
  have "metadata (live_store head) (key_of_cycle ''consensus:lsu:'' (head + 1)) = Some (ser_lsu (quorum_lsu (head + 1)))"
    by (simp add: live_store_def store_set_meta_def key_of_cycle_def)
  then show "stored_lsu_at (ext demo_env) (live_store head) (head + 1) = Some (quorum_lsu (head + 1))"
    by (simp add: stored_lsu_at_def quorum_stored none) (simp add: quorum_lsu_def)
qed

lemma quorum_admissible:
  "reconcile_admissible (ext demo_env) (live_store head) None (quorum_lsu c) c (quorum_hash c) [] False"
proof -
  have "fork_choice_bft_vote_threshold (Suc 0) \<le> 1" by (simp add: fork_choice_bft_vote_threshold_def)
  then have "lsu_has_bft_vote_quorum (quorum_lsu c)" by (simp add: lsu_has_bft_vote_quorum_def quorum_lsu_def)
  moreover have "cand_cycle (fork_choice_candidate_for_lsu (ext demo_env) (live_store head) None (quorum_lsu c) c (quorum_hash c) [] False) = c"
    by (simp add: fork_choice_candidate_for_lsu_def new_candidate_def)
  ultimately show ?thesis
    by (simp add: reconcile_admissible_def Let_def quorum_hash_def[symmetric] fork_choice_reject_weaker_incoming_def
        load_fork_choice_candidate_at_cycle_def meta_32_def live_facts) (simp add: quorum_lsu_def)
qed


theorem reconcile_cycle_zero_erases_witness:
  "\<exists>db' t'. try_reconcile_fork_from_quorum_lsu demo_env (\<lambda>_. None) 0 None (quorum_lsu 0) 0 (replicate 32 5) (replicate 32 5) (quorum_hash 0) None []
       False (live_db 9, []) = (True, (db', t'), None)
     \<and> accounts (db_store db') = [] \<and> local_applied_cycle (db_store db') = 0 \<and> accounts (db_store (live_db 9)) \<noteq> []"
proof -
  have "accounts (live_store 9) \<noteq> []"
    by (simp add: live_store_def store_set_meta_def fresh_fields funded_store_def set_balance_i64_def store_set_def empty_store_def)
  moreover have "max_replay_cycles_from_env (\<lambda>_. None) \<noteq> 0" by (simp add: max_replay_cycles_from_env_def DEFAULT_MAX_REPLAY_CYCLES_def)
  ultimately show ?thesis
    using reconcile_cycle_zero_erases[of demo_env "live_db 9" None "quorum_lsu 0" "quorum_hash 0" "[]" False "[]" "\<lambda>_. None" "replicate 32 5" 0 None]
    by (simp add: live_db_def quorum_admissible live_facts local_cycle_head reconcile_circuit_is_broken_def demo_roots)
qed

theorem catch_up_follows_roots_witness:
  "\<exists>db'. try_advance_applied_head_from_storage demo_env (\<lambda>_. None) 0 [] None False 1 (live_db 4) = (1, db')
     \<and> catch_up demo_env None False (live_store 4) 1 (db_store db') \<and> unat (applied_head (db_store db')) = 5"
proof -
  have sound: "sound_db demo_env (live_db 4)" by (simp add: sound_db_def live_db_def live_facts)
  have five: "lsu_cycle_number (quorum_lsu 5) = 5" by (simp add: quorum_lsu_def)
  obtain root db' where a: "apply_lsu_to_storage demo_env (\<lambda>_. None) 0 (quorum_lsu 5) (live_db 4) = (Inr root, db')"
    "applied_on demo_env (quorum_lsu 5) root (live_store 4) (db_store db')"
    using apply_step[OF sound demo_burn(2), of "quorum_lsu 5" "\<lambda>_. None" 0] by (auto simp: five live_db_def live_facts)
  then have root: "root = replicate 32 5" by (simp add: applied_on_def at_head_def demo_roots)
  have gate: "fork_choice_apply_gate (ext demo_env) (\<lambda>_. None) None lsu 5 h cid False (live_store 4) = (Allow, live_store 4)" for lsu h cid
    by (simp add: fork_choice_apply_gate_def Let_def fork_choice_reject_weaker_incoming_def load_fork_choice_candidate_at_cycle_def
        new_candidate_def meta_32_def live_facts)
  have roots: "meta_32 (live_store 4) (key_of_cycle ''consensus:lsu_state_root:'' 4) = Some (replicate 32 5)"
    "meta_32 (live_store 4) (key_of_cycle ''consensus:lsu_state_root:'' 5) = Some (replicate 32 5)"
    by (simp_all add: live_store_def store_set_meta_def meta_32_def key_of_cycle_def)
  have "stored_lsu_at (ext demo_env) (live_store 4) 5 = Some (quorum_lsu 5)" using live_facts(7)[of 4] by simp
  then have "try_advance_applied_head_from_storage demo_env (\<lambda>_. None) 0 [] None False 1 (live_db 4) = (1, db')"
    using a(1) root
    by (simp add: live_db_def live_facts local_cycle_head try_apply_stored_lsu_at_cycle_def gate roots
        saturating_add_def saturating_sub_def reconcile_circuit_is_broken_def apply_lsu_with_root_check_locked_def Let_def)
  then show ?thesis using catch_up_follows_roots[OF _ _ demo_burn(2), of "live_db 4" 1] by (fastforce simp: live_db_def live_facts)
qed

end
