(* ===== verification/Attestations.thy ===== *)
theory Attestations
  imports Reconcile Content_Store
begin

text \<open>
  Collecting attestations (\<open>catalyst-cli/src/node.rs\<close>): the buckets of finality and state-root
  attestations, one per update (and root), and the certificates that are built from them, stored
  and announced when a quorum has signed.

  The content store is seen as the map from content ids to bytes of theory \<open>Fork_Choice\<close>, with
  the write of theory \<open>Content_Store\<close> on it; \<open>bincode\<close> encoding of the certificates and the content
  id of bytes are parameters. The announcement is the message that is broadcast. Both kinds of
  bucket meet one contract, the locale \<open>attestation_bucket\<close>.
\<close>

section \<open>The content store as a map\<close>

definition dfs_write :: "(bytes \<Rightarrow> string) \<Rightarrow> bytes \<Rightarrow> dfs \<Rightarrow> string \<times> dfs" where
  "dfs_write f blob d = (let cid = f blob in (cid, if d cid = None then d(cid \<mapsto> blob) else d))"

definition dfs_view :: "string \<Rightarrow> files \<Rightarrow> dfs" where
  "dfs_view root fs = (\<lambda>cid. case content_get [] root fs cid of Returns b \<Rightarrow> Some b | _ \<Rightarrow> None)"

definition cid_ascii :: "string \<Rightarrow> bool" where
  "cid_ascii cid \<longleftrightarrow> cid_text cid \<and> (\<forall>c \<in> set cid. of_char c < (128 :: nat))"

lemma ascii_path:
  assumes "cid_ascii cid"
  shows "content_path_for root cid = Some (content_path (test_config root) cid)"
proof -
  have "\<not> utf8_cont (as_bytes cid ! 2)" if "2 < length cid"
  proof -
    have "of_char (cid ! 2) < (128 :: nat)" using assms that by (simp add: cid_ascii_def)
    then show ?thesis using that by (simp add: as_bytes_def utf8_cont_def word_le_nat_alt unat_of_nat)
  qed
  then have "is_char_boundary cid (min 2 (length cid))"
    using assms by (auto simp: is_char_boundary_def cid_ascii_def cid_text_def min_def)
  then show ?thesis by (simp add: content_path_for_def content_path_def Let_def test_config_def)
qed

text \<open>
  The file cache refines the map: writing bytes whose content id is a proper one returns that id,
  and at every proper id the cache then reads as the map after the write.
\<close>

lemma content_put_refines_write:
  assumes "\<forall>h. cid_ascii (show_cid h)"
  shows "case content_put sha256 show_cid root blob fs of
           (out, fs') \<Rightarrow>
             out = Returns (fst (dfs_write (from_data sha256 show_cid) blob (dfs_view root fs)))
             \<and> (\<forall>cid. cid_ascii cid \<longrightarrow> dfs_view root fs' cid = snd (dfs_write (from_data sha256 show_cid) blob (dfs_view root fs)) cid)"
proof -
  have cid: "cid_ascii (from_data sha256 show_cid blob)" using assms by (simp add: from_data_def)
  have view: "dfs_view root fs k = fs (content_path (test_config root) k)" if "cid_ascii k" for k fs
    using ascii_path[OF that, of root] by (simp add: dfs_view_def content_get_def split: option.splits)
  have "content_path (test_config root) a = content_path (test_config root) b \<longleftrightarrow> a = b" if "cid_ascii a" "cid_ascii b" for a b
    using that by (intro content_path_inj) (simp_all add: cid_ascii_def)
  with cid view ascii_path[OF cid, of root] show ?thesis
    by (auto simp: content_put_def dfs_write_def Let_def)
qed

record publisher =
  encode_finality_cert :: "LsuFinalityCertificateV1 \<Rightarrow> bytes"
  encode_root_cert :: "LsuStateRootCertificateV1 \<Rightarrow> bytes"
  cid_of :: "bytes \<Rightarrow> string"

section \<open>Finality attestations\<close>

record FinalityAttestationBucket =
  fb_chain_id :: "u64 option"
  fb_genesis_hash :: "Hash option"
  fb_committee_hash :: "Hash option"
  fb_vote_list_hash :: "Hash option"
  fb_votes :: "(ProducerId \<times> bytes) list"

definition empty_finality_bucket :: FinalityAttestationBucket where
  "empty_finality_bucket =
     \<lparr>fb_chain_id = None, fb_genesis_hash = None, fb_committee_hash = None, fb_vote_list_hash = None, fb_votes = []\<rparr>"

definition finality_bucket_matches_msg :: "FinalityAttestationBucket \<Rightarrow> LsuFinalityAttestationMsg \<Rightarrow> bool" where
  "finality_bucket_matches_msg b msg \<longleftrightarrow>
     fb_chain_id b = None
     \<or> (fb_chain_id b = Some (fa_chain_id msg) \<and> fb_genesis_hash b = Some (fa_genesis_hash msg)
        \<and> fb_committee_hash b = Some (fa_committee_hash msg) \<and> fb_vote_list_hash b = Some (fa_vote_list_hash msg))"

definition finality_bucket_init_from_msg :: "LsuFinalityAttestationMsg \<Rightarrow> FinalityAttestationBucket \<Rightarrow> FinalityAttestationBucket" where
  "finality_bucket_init_from_msg msg b =
     b\<lparr>fb_chain_id := Some (fa_chain_id msg), fb_genesis_hash := Some (fa_genesis_hash msg),
       fb_committee_hash := Some (fa_committee_hash msg), fb_vote_list_hash := Some (fa_vote_list_hash msg)\<rparr>"

definition absorb_finality :: "LsuFinalityAttestationMsg \<Rightarrow> FinalityAttestationBucket \<Rightarrow> FinalityAttestationBucket option" where
  "absorb_finality msg b =
     (if fb_chain_id b = None then
        Some ((finality_bucket_init_from_msg msg b)\<lparr>fb_votes := bt_insert (fa_producer_id msg) (fa_signature msg) (fb_votes b)\<rparr>)
      else if \<not> finality_bucket_matches_msg b msg then None
      else Some (b\<lparr>fb_votes := bt_insert (fa_producer_id msg) (fa_signature msg) (fb_votes b)\<rparr>))"

type_synonym finality_buckets = "((u64 \<times> Hash) \<times> FinalityAttestationBucket) list"

text \<open>The update of a cycle whose hash is the attested one.\<close>

definition attested_lsu :: "('s, 'p) externals \<Rightarrow> Store \<Rightarrow> u64 \<Rightarrow> Hash \<Rightarrow> LedgerStateUpdate option" where
  "attested_lsu x s cyc lsu_hash =
     (case metadata s (key_of_cycle ''consensus:lsu:'' cyc) of
        None \<Rightarrow> None
      | Some lsu_bytes \<Rightarrow>
          (case run_reader de_lsu lsu_bytes of
             Inl _ \<Rightarrow> None
           | Inr lsu \<Rightarrow> if hash_data (blake2b x) ser_lsu lsu \<noteq> lsu_hash then None else Some lsu))"

definition finality_vote_entries :: "LedgerStateUpdate \<Rightarrow> (ProducerId \<times> bytes) list \<Rightarrow> ProducerFinalityVote list" where
  "finality_vote_entries lsu votes =
     map (\<lambda>(pid, sg). \<lparr>fv_producer_id = pid, fv_signature = sg\<rparr>)
       (filter (\<lambda>(pid, sg). length sg = 64 \<and> pid \<in> set (lsu_vote_list lsu) \<and> pid \<in> set (lsu_producer_list lsu)) votes)"

definition finality_certificate_of ::
  "('s, 'p::ab_group_add) externals \<Rightarrow> LedgerStateUpdate \<Rightarrow> Hash \<Rightarrow> FinalityAttestationBucket \<Rightarrow> LsuFinalityCertificateV1 option" where
  "finality_certificate_of x lsu lsu_hash b =
     (case (fb_chain_id b, fb_genesis_hash b, fb_committee_hash b, fb_vote_list_hash b) of
        (Some chain_id, Some genesis_hash, Some _, Some _) \<Rightarrow>
          (let entries = finality_vote_entries lsu (fb_votes b) in
           if length entries < fork_choice_bft_vote_threshold (length (lsu_producer_list lsu)) then None
           else
             (case from_lsu_and_votes (blake2b x) (hex_decode x) lsu chain_id genesis_hash lsu_hash entries of
                Inl _ \<Rightarrow> None
              | Inr cert \<Rightarrow>
                  if verify_lsu_finality_certificate (blake2b x) (hex_decode x) (curve25519 x) cert lsu \<noteq> Inr () then None
                  else Some cert))
      | _ \<Rightarrow> None)"

definition try_publish_finality_certificate_from_bucket ::
  "('s, 'p::ab_group_add) externals \<Rightarrow> publisher \<Rightarrow> finality_buckets \<Rightarrow> u64 \<Rightarrow> Hash \<Rightarrow> Store \<times> dfs
     \<Rightarrow> (Store \<times> dfs) \<times> LsuFinalityCidMsg option" where
  "try_publish_finality_certificate_from_bucket x pub buckets cyc lsu_hash st =
     (case st of (s, d) \<Rightarrow>
        let meta_key = key_of_cycle ''consensus:lsu_finality_cid:'' cyc in
        if meta_string s meta_key \<noteq> None then (st, None)
        else
          (case attested_lsu x s cyc lsu_hash of
             None \<Rightarrow> (st, None)
           | Some lsu \<Rightarrow>
               (case Option.bind (map_of buckets (cyc, lsu_hash)) (finality_certificate_of x lsu lsu_hash) of
                  None \<Rightarrow> (st, None)
                | Some cert \<Rightarrow>
                    (case dfs_write (cid_of pub) (encode_finality_cert pub cert) d of
                       (cid, d1) \<Rightarrow>
                         ((store_set_meta meta_key (as_bytes cid) s, d1),
                          Some \<lparr>fi_cycle = cyc, fi_lsu_hash = lsu_hash, fi_finality_cid = cid\<rparr>)))))"

definition ingest_finality_attestation ::
  "('s, 'p::ab_group_add) externals \<Rightarrow> publisher \<Rightarrow> LsuFinalityAttestationMsg \<Rightarrow> (Store \<times> dfs) \<times> finality_buckets
     \<Rightarrow> ((Store \<times> dfs) \<times> finality_buckets) \<times> LsuFinalityCidMsg option" where
  "ingest_finality_attestation x pub msg st =
     (case st of (sd, buckets) \<Rightarrow>
        if length (fa_signature msg) \<noteq> 64 then (st, None)
        else if verify_finality_attestation (blake2b x) (hex_decode x) (curve25519 x) (fa_chain_id msg) (fa_genesis_hash msg) (fa_cycle msg)
                  (fa_lsu_hash msg) (fa_committee_hash msg) (fa_vote_list_hash msg) (fa_producer_id msg) (fa_signature msg) \<noteq> Inr ()
        then (st, None)
        else
          let key = (fa_cycle msg, fa_lsu_hash msg) in
          (case absorb_finality msg (opt_or (map_of buckets key) empty_finality_bucket) of
             None \<Rightarrow> (st, None)
           | Some b \<Rightarrow>
               let buckets1 = hm_insert key b buckets in
               (case try_publish_finality_certificate_from_bucket x pub buckets1 (fa_cycle msg) (fa_lsu_hash msg) sd of
                  (sd1, out) \<Rightarrow> ((sd1, buckets1), out))))"

section \<open>State-root attestations\<close>

record StateRootAttestationBucket =
  sb_chain_id :: "u64 option"
  sb_genesis_hash :: "Hash option"
  sb_committee_hash :: "Hash option"
  sb_attestations :: "(ProducerId \<times> bytes) list"

definition empty_state_root_bucket :: StateRootAttestationBucket where
  "empty_state_root_bucket = \<lparr>sb_chain_id = None, sb_genesis_hash = None, sb_committee_hash = None, sb_attestations = []\<rparr>"

definition state_root_bucket_matches_msg :: "StateRootAttestationBucket \<Rightarrow> StateRootAttestationMsg \<Rightarrow> bool" where
  "state_root_bucket_matches_msg b msg \<longleftrightarrow>
     sb_chain_id b = None
     \<or> (sb_chain_id b = Some (ra_chain_id msg) \<and> sb_genesis_hash b = Some (ra_genesis_hash msg)
        \<and> sb_committee_hash b = Some (ra_committee_hash msg))"

definition state_root_bucket_init_from_msg :: "StateRootAttestationMsg \<Rightarrow> StateRootAttestationBucket \<Rightarrow> StateRootAttestationBucket" where
  "state_root_bucket_init_from_msg msg b =
     b\<lparr>sb_chain_id := Some (ra_chain_id msg), sb_genesis_hash := Some (ra_genesis_hash msg),
       sb_committee_hash := Some (ra_committee_hash msg)\<rparr>"

definition absorb_state_root :: "StateRootAttestationMsg \<Rightarrow> StateRootAttestationBucket \<Rightarrow> StateRootAttestationBucket option" where
  "absorb_state_root msg b =
     (if sb_chain_id b = None then
        Some ((state_root_bucket_init_from_msg msg b)\<lparr>sb_attestations := bt_insert (ra_producer_id msg) (ra_signature msg) (sb_attestations b)\<rparr>)
      else if \<not> state_root_bucket_matches_msg b msg then None
      else Some (b\<lparr>sb_attestations := bt_insert (ra_producer_id msg) (ra_signature msg) (sb_attestations b)\<rparr>))"

type_synonym root_buckets = "((u64 \<times> Hash \<times> Hash) \<times> StateRootAttestationBucket) list"

definition root_attestation_entries :: "LedgerStateUpdate \<Rightarrow> (ProducerId \<times> bytes) list \<Rightarrow> StateRootAttestation list" where
  "root_attestation_entries lsu atts =
     map (\<lambda>(pid, sg). \<lparr>sa_producer_id = pid, sa_signature = sg\<rparr>)
       (filter (\<lambda>(pid, sg). length sg = 64 \<and> pid \<in> set (lsu_producer_list lsu)) atts)"

definition root_certificate_of ::
  "('s, 'p::ab_group_add) externals \<Rightarrow> LedgerStateUpdate \<Rightarrow> Hash \<Rightarrow> Hash \<Rightarrow> StateRootAttestationBucket \<Rightarrow> LsuStateRootCertificateV1 option" where
  "root_certificate_of x lsu lsu_hash state_root b =
     (case (sb_chain_id b, sb_genesis_hash b, sb_committee_hash b) of
        (Some chain_id, Some genesis_hash, Some _) \<Rightarrow>
          (let entries = root_attestation_entries lsu (sb_attestations b) in
           if length entries < fork_choice_bft_vote_threshold (length (lsu_producer_list lsu)) then None
           else
             (case from_lsu_and_attestations (blake2b x) (hex_decode x) lsu chain_id genesis_hash lsu_hash state_root entries of
                Inl _ \<Rightarrow> None
              | Inr cert \<Rightarrow>
                  if verify_lsu_state_root_certificate (blake2b x) (hex_decode x) (curve25519 x) cert lsu \<noteq> Inr () then None
                  else Some cert))
      | _ \<Rightarrow> None)"

definition try_publish_state_root_certificate_from_bucket ::
  "('s, 'p::ab_group_add) externals \<Rightarrow> publisher \<Rightarrow> root_buckets \<Rightarrow> u64 \<Rightarrow> Hash \<Rightarrow> Hash \<Rightarrow> Store \<times> dfs
     \<Rightarrow> (Store \<times> dfs) \<times> StateRootFinalityCidMsg option" where
  "try_publish_state_root_certificate_from_bucket x pub buckets cyc lsu_hash state_root st =
     (case st of (s, d) \<Rightarrow>
        let meta_key = key_of_cycle ''consensus:lsu_state_root_cid:'' cyc in
        if meta_string s meta_key \<noteq> None then (st, None)
        else
          (case attested_lsu x s cyc lsu_hash of
             None \<Rightarrow> (st, None)
           | Some lsu \<Rightarrow>
               (case Option.bind (map_of buckets (cyc, lsu_hash, state_root)) (root_certificate_of x lsu lsu_hash state_root) of
                  None \<Rightarrow> (st, None)
                | Some cert \<Rightarrow>
                    (case dfs_write (cid_of pub) (encode_root_cert pub cert) d of
                       (cid, d1) \<Rightarrow>
                         ((store_set_meta meta_key (as_bytes cid) s, d1),
                          Some \<lparr>ri_cycle = cyc, ri_lsu_hash = lsu_hash, ri_state_root = state_root, ri_state_root_cid = cid\<rparr>)))))"

definition ingest_state_root_attestation ::
  "('s, 'p::ab_group_add) externals \<Rightarrow> publisher \<Rightarrow> StateRootAttestationMsg \<Rightarrow> (Store \<times> dfs) \<times> root_buckets
     \<Rightarrow> ((Store \<times> dfs) \<times> root_buckets) \<times> StateRootFinalityCidMsg option" where
  "ingest_state_root_attestation x pub msg st =
     (case st of (sd, buckets) \<Rightarrow>
        if length (ra_signature msg) \<noteq> 64 then (st, None)
        else if verify_state_root_attestation (blake2b x) (hex_decode x) (curve25519 x) (ra_chain_id msg) (ra_genesis_hash msg) (ra_cycle msg)
                  (ra_lsu_hash msg) (ra_committee_hash msg) (ra_state_root msg) (ra_producer_id msg) (ra_signature msg) \<noteq> Inr ()
        then (st, None)
        else
          let key = (ra_cycle msg, ra_lsu_hash msg, ra_state_root msg) in
          (case absorb_state_root msg (opt_or (map_of buckets key) empty_state_root_bucket) of
             None \<Rightarrow> (st, None)
           | Some b \<Rightarrow>
               let buckets1 = hm_insert key b buckets in
               (case try_publish_state_root_certificate_from_bucket x pub buckets1 (ra_cycle msg) (ra_lsu_hash msg) (ra_state_root msg) sd of
                  (sd1, out) \<Rightarrow> ((sd1, buckets1), out))))"

section \<open>The contract of a bucket\<close>

text \<open>
  The first attestation gives an empty bucket its tag. A later one is taken exactly when it has
  that tag, and adds its signature under its author.
\<close>

locale attestation_bucket =
  fixes absorb :: "'m \<Rightarrow> 'b \<Rightarrow> 'b option"
    and tag :: "'b \<Rightarrow> 't option"
    and mtag :: "'m \<Rightarrow> 't"
    and votes :: "'b \<Rightarrow> (ProducerId \<times> bytes) list"
    and voter :: "'m \<Rightarrow> ProducerId"
    and sgn :: "'m \<Rightarrow> bytes"
  assumes absorb_tag: "tag b = None \<or> tag b = Some (mtag m) \<Longrightarrow>
      \<exists>b'. absorb m b = Some b' \<and> tag b' = Some (mtag m) \<and> votes b' = bt_insert (voter m) (sgn m) (votes b)"
    and absorb_other: "tag b = Some t \<Longrightarrow> t \<noteq> mtag m \<Longrightarrow> absorb m b = None"
begin

definition absorb_all :: "'m list \<Rightarrow> 'b \<Rightarrow> 'b" where
  "absorb_all ms b = fold (\<lambda>m b. case absorb m b of None \<Rightarrow> b | Some b' \<Rightarrow> b') ms b"

lemma absorb_tag_mono:
  "absorb m b = Some b' \<Longrightarrow> tag b' = Some (mtag m) \<and> (tag b = None \<or> tag b = Some (mtag m))"
  using absorb_tag[of b m] absorb_other[of b _ m] by (cases "tag b") auto

lemma refused_after_other_tag:
  "tag b = Some t \<Longrightarrow> \<forall>m \<in> set ms. mtag m \<noteq> t \<Longrightarrow> absorb_all ms b = b"
  by (induction ms) (auto simp: absorb_all_def absorb_other)

lemma same_tag_all_taken:
  assumes "tag b = None \<or> tag b = Some t" and "\<forall>m \<in> set ms. mtag m = t" and "bt_wf (votes b)"
  shows "bt_wf (votes (absorb_all ms b))
    \<and> fst ` set (votes (absorb_all ms b)) = fst ` set (votes b) \<union> voter ` set ms
    \<and> set (votes (absorb_all ms b)) \<subseteq> set (votes b) \<union> (\<lambda>m. (voter m, sgn m)) ` set ms"
  using assms
proof (induction ms arbitrary: b)
  case (Cons m ms)
  then obtain b' where b': "absorb m b = Some b'" "tag b' = Some t" "votes b' = bt_insert (voter m) (sgn m) (votes b)"
    using absorb_tag[of b m] by auto
  then have "bt_wf (votes b')" using Cons.prems(3) by (simp add: bt.wf_insert)
  from Cons.IH[of b'] b' Cons.prems this show ?case
    by (auto simp: absorb_all_def set_keys_bt_insert set_bt_insert)
qed (simp add: absorb_all_def)

end

definition finality_tag :: "FinalityAttestationBucket \<Rightarrow> (u64 option \<times> Hash option \<times> Hash option \<times> Hash option) option" where
  "finality_tag b =
     (if fb_chain_id b = None then None
      else Some (fb_chain_id b, fb_genesis_hash b, fb_committee_hash b, fb_vote_list_hash b))"

definition finality_mtag :: "LsuFinalityAttestationMsg \<Rightarrow> u64 option \<times> Hash option \<times> Hash option \<times> Hash option" where
  "finality_mtag m =
     (Some (fa_chain_id m), Some (fa_genesis_hash m), Some (fa_committee_hash m), Some (fa_vote_list_hash m))"

interpretation fbucket: attestation_bucket absorb_finality finality_tag finality_mtag fb_votes fa_producer_id fa_signature
  by unfold_locales
    (auto simp: absorb_finality_def finality_tag_def finality_mtag_def finality_bucket_init_from_msg_def finality_bucket_matches_msg_def
      split: if_splits)

definition root_tag :: "StateRootAttestationBucket \<Rightarrow> (u64 option \<times> Hash option \<times> Hash option) option" where
  "root_tag b = (if sb_chain_id b = None then None else Some (sb_chain_id b, sb_genesis_hash b, sb_committee_hash b))"

definition root_mtag :: "StateRootAttestationMsg \<Rightarrow> u64 option \<times> Hash option \<times> Hash option" where
  "root_mtag m = (Some (ra_chain_id m), Some (ra_genesis_hash m), Some (ra_committee_hash m))"

interpretation rbucket: attestation_bucket absorb_state_root root_tag root_mtag sb_attestations ra_producer_id ra_signature
  by unfold_locales
    (auto simp: absorb_state_root_def root_tag_def root_mtag_def state_root_bucket_init_from_msg_def state_root_bucket_matches_msg_def
      split: if_splits)

section \<open>What is announced is certified\<close>

lemma from_utf8_lossy_ascii: "\<forall>c \<in> set s. of_char c < (128 :: nat) \<Longrightarrow> from_utf8_lossy (as_bytes s) = s"
proof (induction s)
  case (Cons c s)
  have "(of_nat (of_char c) :: byte) < 0x80" using Cons.prems by (simp add: word_less_nat_alt unat_of_nat)
  then have "utf8_front (as_bytes (c # s)) = (1, True)" by (simp add: utf8_front_def Let_def byte_at_def as_bytes_def)
  moreover have "string_of_bytes [of_nat (of_char c)] = [c]" using string_of_bytes_as_bytes[of "[c]"] by (simp add: as_bytes_def)
  ultimately show ?case
    using Cons by (subst from_utf8_lossy.simps) (simp add: as_bytes_def)
qed (simp add: from_utf8_lossy.simps as_bytes_def)

text \<open>
  What the publication relies on: the content id of bytes is a non-empty ASCII text, decoding
  undoes encoding, and the store holds nothing else under the id of a blob.
\<close>

definition publisher_ok :: "('s, 'p) externals \<Rightarrow> publisher \<Rightarrow> bool" where
  "publisher_ok x pub \<longleftrightarrow>
     (\<forall>b. cid_of pub b \<noteq> [] \<and> (\<forall>c \<in> set (cid_of pub b). of_char c < (128 :: nat)))
     \<and> (\<forall>cert. decode_finality_cert x (encode_finality_cert pub cert) = Some cert)
     \<and> (\<forall>cert. decode_root_cert x (encode_root_cert pub cert) = Some cert)"

definition addressed :: "(bytes \<Rightarrow> string) \<Rightarrow> dfs \<Rightarrow> bool" where
  "addressed f d \<longleftrightarrow> (\<forall>b. d (f b) = None \<or> d (f b) = Some b)"

lemma dfs_write_reads:
  assumes "addressed f d" and "dfs_write f blob d = (cid, d1)"
  shows "cid = f blob" and "d1 cid = Some blob"
  using assms(2) assms(1)[unfolded addressed_def, rule_format, of blob] by (auto simp: dfs_write_def Let_def split: if_splits)

lemma dfs_write_addressed:
  assumes "addressed f d" and "inj f" and "dfs_write f blob d = (cid, d1)"
  shows "addressed f d1"
  using assms by (auto simp: addressed_def dfs_write_def Let_def inj_def split: if_splits)

lemma meta_string_written:
  assumes "cid \<noteq> []" and "\<forall>c \<in> set cid. of_char c < (128 :: nat)"
  shows "meta_string (store_set_meta k (as_bytes cid) s) k = Some cid"
  using assms by (simp add: meta_string_def store_set_meta_def from_utf8_lossy_ascii)

lemma publish_finality_sound:
  assumes "publisher_ok x pub" and "addressed (cid_of pub) d"
    and "try_publish_finality_certificate_from_bucket x pub buckets cyc h (s, d) = ((s1, d1), Some out)"
  shows "fi_cycle out = cyc \<and> fi_lsu_hash out = h
    \<and> (\<exists>lsu. attested_lsu x s1 cyc h = Some lsu \<and> lsu_has_verified_finality_cert x s1 d1 lsu cyc []
          \<and> lsu_has_verified_finality_cert x s1 d1 lsu cyc (fi_finality_cid out))"
proof -
  let ?k = "key_of_cycle ''consensus:lsu_finality_cid:'' cyc"
  obtain lsu b cert cid where lsu: "attested_lsu x s cyc h = Some lsu" and cert: "finality_certificate_of x lsu h b = Some cert"
    and w: "dfs_write (cid_of pub) (encode_finality_cert pub cert) d = (cid, d1)"
    and s1: "s1 = store_set_meta ?k (as_bytes cid) s" and out: "out = \<lparr>fi_cycle = cyc, fi_lsu_hash = h, fi_finality_cid = cid\<rparr>"
    using assms(3)
    by (auto simp: try_publish_finality_certificate_from_bucket_def Let_def Option.bind_eq_Some_conv split: if_splits option.splits prod.splits)
  have "key_of_cycle ''consensus:lsu:'' cyc \<noteq> ?k" by (simp add: key_of_cycle_def)
  then have kept: "attested_lsu x s1 cyc h = Some lsu" using lsu by (simp add: attested_lsu_def s1 store_set_meta_def)
  note rd = dfs_write_reads[OF assms(2) w]
  have "meta_string s1 ?k = Some cid" using assms(1) rd(1) unfolding s1 by (intro meta_string_written) (auto simp: publisher_ok_def)
  moreover have "verify_lsu_finality_certificate (blake2b x) (hex_decode x) (curve25519 x) cert lsu = Inr ()"
    using cert by (auto simp: finality_certificate_of_def Let_def split: option.splits sum.splits if_splits)
  moreover have "cid \<noteq> []" using assms(1) rd(1) by (simp add: publisher_ok_def)
  ultimately show ?thesis
    using kept rd(2) assms(1) out by (simp add: lsu_has_verified_finality_cert_def publisher_ok_def)
qed

lemma publish_root_sound:
  assumes "publisher_ok x pub" and "addressed (cid_of pub) d"
    and "try_publish_state_root_certificate_from_bucket x pub buckets cyc h r (s, d) = ((s1, d1), Some out)"
  shows "ri_cycle out = cyc \<and> ri_lsu_hash out = h \<and> ri_state_root out = r
    \<and> (\<exists>lsu. attested_lsu x s1 cyc h = Some lsu \<and> lsu_has_verified_state_root_cert x s1 d1 lsu cyc
          \<and> verify_state_root_finality_for_apply x s1 d1 lsu cyc r (ri_state_root_cid out) True)"
proof -
  let ?k = "key_of_cycle ''consensus:lsu_state_root_cid:'' cyc"
  obtain lsu b cert cid where lsu: "attested_lsu x s cyc h = Some lsu" and cert: "root_certificate_of x lsu h r b = Some cert"
    and w: "dfs_write (cid_of pub) (encode_root_cert pub cert) d = (cid, d1)"
    and s1: "s1 = store_set_meta ?k (as_bytes cid) s"
    and out: "out = \<lparr>ri_cycle = cyc, ri_lsu_hash = h, ri_state_root = r, ri_state_root_cid = cid\<rparr>"
    using assms(3)
    by (auto simp: try_publish_state_root_certificate_from_bucket_def Let_def Option.bind_eq_Some_conv split: if_splits option.splits prod.splits)
  have "key_of_cycle ''consensus:lsu:'' cyc \<noteq> ?k" by (simp add: key_of_cycle_def)
  then have kept: "attested_lsu x s1 cyc h = Some lsu" using lsu by (simp add: attested_lsu_def s1 store_set_meta_def)
  note rd = dfs_write_reads[OF assms(2) w]
  have "meta_string s1 ?k = Some cid" using assms(1) rd(1) unfolding s1 by (intro meta_string_written) (auto simp: publisher_ok_def)
  moreover have "verify_lsu_state_root_certificate (blake2b x) (hex_decode x) (curve25519 x) cert lsu = Inr ()" "rc_state_root cert = r"
    using cert by (auto simp: root_certificate_of_def from_lsu_and_attestations_def Let_def split: option.splits sum.splits if_splits)
  moreover have "cid \<noteq> []" using assms(1) rd(1) by (simp add: publisher_ok_def)
  ultimately show ?thesis
    using kept rd(2) assms(1) out
    by (simp add: lsu_has_verified_state_root_cert_def verify_state_root_finality_for_apply_def publisher_ok_def)
qed

section \<open>A quorum of attestations is published\<close>

definition eligible :: "LedgerStateUpdate \<Rightarrow> ProducerId set \<Rightarrow> nat" where
  "eligible lsu who = card (who \<inter> set (lsu_vote_list lsu) \<inter> set (lsu_producer_list lsu))"

definition finality_target ::
  "('s, 'p) externals \<Rightarrow> LedgerStateUpdate \<Rightarrow> u64 \<Rightarrow> Hash \<Rightarrow> (u64 option \<times> Hash option \<times> Hash option \<times> Hash option) option" where
  "finality_target x lsu chain_id genesis_hash =
     map_option (\<lambda>ch. (Some chain_id, Some genesis_hash, Some ch, Some (hash_producer_list_merkle (blake2b x) (lsu_vote_list lsu))))
       (committee_hash_ordered_producer_list (blake2b x) (hex_decode x) (lsu_producer_list lsu))"

text \<open>An attestation that the node accepts on its own: the right length and a valid signature.\<close>

definition attestation_valid :: "('s, 'p::ab_group_add) externals \<Rightarrow> LsuFinalityAttestationMsg \<Rightarrow> bool" where
  "attestation_valid x msg \<longleftrightarrow>
     length (fa_signature msg) = 64
     \<and> verify_finality_attestation (blake2b x) (hex_decode x) (curve25519 x) (fa_chain_id msg) (fa_genesis_hash msg) (fa_cycle msg)
         (fa_lsu_hash msg) (fa_committee_hash msg) (fa_vote_list_hash msg) (fa_producer_id msg) (fa_signature msg) = Inr ()"

definition vote_valid ::
  "('s, 'p::ab_group_add) externals \<Rightarrow> LedgerStateUpdate \<Rightarrow> u64 \<Rightarrow> Hash \<Rightarrow> ProducerId \<Rightarrow> bytes \<Rightarrow> bool" where
  "vote_valid x lsu chain_id genesis_hash pid sg \<longleftrightarrow>
     length sg = 64
     \<and> (case committee_hash_ordered_producer_list (blake2b x) (hex_decode x) (lsu_producer_list lsu) of
          None \<Rightarrow> False
        | Some ch \<Rightarrow>
            verify_vote_signature (blake2b x) (hex_decode x) (curve25519 x)
              (h_cert_v1 (blake2b x) chain_id genesis_hash (lsu_cycle_number lsu) (hash_data (blake2b x) ser_lsu lsu) ch
                 (hash_producer_list_merkle (blake2b x) (lsu_vote_list lsu))) pid sg = Inr ())"

lemma length_finality_entries:
  assumes "bt_wf votes" and "\<forall>(pid, sg) \<in> set votes. length sg = 64"
  shows "length (finality_vote_entries lsu votes) = eligible lsu (fst ` set votes)"
    and "distinct (map fv_producer_id (finality_vote_entries lsu votes))"
proof -
  let ?P = "\<lambda>(pid, sg). length sg = 64 \<and> pid \<in> set (lsu_vote_list lsu) \<and> pid \<in> set (lsu_producer_list lsu)"
  have ids: "map fv_producer_id (finality_vote_entries lsu votes) = map fst (filter ?P votes)"
    by (simp add: finality_vote_entries_def comp_def case_prod_unfold)
  then show dist: "distinct (map fv_producer_id (finality_vote_entries lsu votes))"
    using bt.wf_distinct[OF assms(1)] by (simp add: distinct_map_filter)
  have "set (map fst (filter ?P votes)) = fst ` set votes \<inter> set (lsu_vote_list lsu) \<inter> set (lsu_producer_list lsu)"
    using assms(2) by force
  then show "length (finality_vote_entries lsu votes) = eligible lsu (fst ` set votes)"
    using distinct_card[OF dist] ids unfolding eligible_def by (metis length_map)
qed

lemma quorum_makes_certificate:
  assumes target: "finality_target x lsu chain_id genesis_hash = Some t" and tag: "finality_tag b = Some t"
    and wf: "bt_wf (fb_votes b)" and valid: "\<forall>(pid, sg) \<in> set (fb_votes b). vote_valid x lsu chain_id genesis_hash pid sg"
    and small: "length (lsu_producer_list lsu) \<le> 256"
    and quorum: "bft_vote_threshold (length (lsu_producer_list lsu)) \<le> eligible lsu (fst ` set (fb_votes b))"
  shows "\<exists>cert. finality_certificate_of x lsu (hash_data (blake2b x) ser_lsu lsu) b = Some cert"
proof -
  let ?es = "finality_vote_entries lsu (fb_votes b)"
  obtain ch where ch: "committee_hash_ordered_producer_list (blake2b x) (hex_decode x) (lsu_producer_list lsu) = Some ch"
    using target by (auto simp: finality_target_def)
  then have fields: "fb_chain_id b = Some chain_id" "fb_genesis_hash b = Some genesis_hash" "fb_committee_hash b \<noteq> None" "fb_vote_list_hash b \<noteq> None"
    using target tag by (auto simp: finality_target_def finality_tag_def split: if_splits)
  have len64: "\<forall>(pid, sg) \<in> set (fb_votes b). length sg = 64" using valid by (auto simp: vote_valid_def)
  note es = length_finality_entries[OF wf len64, of lsu]
  have "eligible lsu (fst ` set (fb_votes b)) \<le> card (set (lsu_producer_list lsu))"
    unfolding eligible_def by (rule card_mono) auto
  then have "length ?es \<le> 256" using es(1) small card_length[of "lsu_producer_list lsu"] by linarith
  define cert where "cert = \<lparr>fc_version = 1, fc_style = FINALITY_CERT_STYLE_INDIVIDUAL, fc_chain_id = chain_id,
           fc_genesis_hash = genesis_hash, fc_cycle = lsu_cycle_number lsu, fc_lsu_hash = hash_data (blake2b x) ser_lsu lsu,
           fc_committee_hash = ch, fc_vote_list_hash = hash_producer_list_merkle (blake2b x) (lsu_vote_list lsu), fc_votes = ?es\<rparr>"
  have "check_vote (blake2b x) (hex_decode x) (curve25519 x) lsu (cert_digest (blake2b x) cert) v = Inr ()" if "v \<in> set ?es" for v
    using that valid ch by (auto simp: finality_vote_entries_def check_vote_def vote_valid_def cert_def cert_digest_def)
  then have "verify_lsu_finality_certificate (blake2b x) (hex_decode x) (curve25519 x) cert lsu = Inr ()"
    using es quorum ch \<open>length ?es \<le> 256\<close> unfolding cert_accepted_iff by (simp add: cert_def MAX_FINALITY_VOTES_def)
  moreover have "from_lsu_and_votes (blake2b x) (hex_decode x) lsu chain_id genesis_hash (hash_data (blake2b x) ser_lsu lsu) ?es = Inr cert"
    using ch by (simp add: from_lsu_and_votes_def cert_def)
  moreover have "\<not> length ?es < fork_choice_bft_vote_threshold (length (lsu_producer_list lsu))"
    using quorum es(1) by (simp add: fork_choice_bft_vote_threshold_def bft_vote_threshold_def)
  ultimately show ?thesis using fields by (auto simp: finality_certificate_of_def Let_def)
qed

text \<open>The state of a bucket while its certificate is collected.\<close>

definition collecting ::
  "('s, 'p::ab_group_add) externals \<Rightarrow> publisher \<Rightarrow> LedgerStateUpdate \<Rightarrow> u64 \<Rightarrow> Hash \<Rightarrow> (Store \<times> dfs) \<times> finality_buckets \<Rightarrow> ProducerId set \<Rightarrow> bool" where
  "collecting x pub lsu chain_id genesis_hash st who \<longleftrightarrow>
     (case st of ((s, d), bk) \<Rightarrow>
        let cyc = lsu_cycle_number lsu; h = hash_data (blake2b x) ser_lsu lsu;
            b = opt_or (map_of bk (cyc, h)) empty_finality_bucket
        in (finality_tag b = None \<or> finality_tag b = finality_target x lsu chain_id genesis_hash)
           \<and> bt_wf (fb_votes b) \<and> fst ` set (fb_votes b) = who
           \<and> (\<forall>(pid, sg) \<in> set (fb_votes b). vote_valid x lsu chain_id genesis_hash pid sg)
           \<and> (lsu_has_verified_finality_cert x s d lsu cyc []
              \<or> meta_string s (key_of_cycle ''consensus:lsu_finality_cid:'' cyc) = None
                \<and> attested_lsu x s cyc h = Some lsu \<and> addressed (cid_of pub) d
                \<and> eligible lsu who < bft_vote_threshold (length (lsu_producer_list lsu))))"

definition attests :: "('s, 'p::ab_group_add) externals \<Rightarrow> LedgerStateUpdate \<Rightarrow> u64 \<Rightarrow> Hash \<Rightarrow> LsuFinalityAttestationMsg \<Rightarrow> bool" where
  "attests x lsu chain_id genesis_hash m \<longleftrightarrow>
     fa_cycle m = lsu_cycle_number lsu \<and> fa_lsu_hash m = hash_data (blake2b x) ser_lsu lsu
     \<and> finality_target x lsu chain_id genesis_hash = Some (finality_mtag m) \<and> attestation_valid x m"

lemma attests_vote:
  "attests x lsu chain_id genesis_hash m \<Longrightarrow> vote_valid x lsu chain_id genesis_hash (fa_producer_id m) (fa_signature m)"
  by (auto simp: attests_def vote_valid_def attestation_valid_def finality_target_def finality_mtag_def verify_finality_attestation_def)

lemma certified_has_cid:
  "lsu_has_verified_finality_cert x s d lsu cyc [] \<Longrightarrow> meta_string s (key_of_cycle ''consensus:lsu_finality_cid:'' cyc) \<noteq> None"
  by (auto simp: lsu_has_verified_finality_cert_def split: option.splits)

lemma ingest_taken:
  assumes "attestation_valid x m"
    and "absorb_finality m (opt_or (map_of bk (fa_cycle m, fa_lsu_hash m)) empty_finality_bucket) = Some b"
  shows "fst (ingest_finality_attestation x pub m (sd, bk)) =
    (fst (try_publish_finality_certificate_from_bucket x pub (hm_insert (fa_cycle m, fa_lsu_hash m) b bk) (fa_cycle m) (fa_lsu_hash m) sd),
     hm_insert (fa_cycle m, fa_lsu_hash m) b bk)"
  using assms by (simp add: ingest_finality_attestation_def attestation_valid_def Let_def split: prod.splits)

lemma publish_outcome:
  assumes pub: "publisher_ok x pub" and fresh: "meta_string s (key_of_cycle ''consensus:lsu_finality_cid:'' cyc) = None"
      "attested_lsu x s cyc h = Some lsu" "addressed (cid_of pub) d" and b: "map_of bk (cyc, h) = Some b"
  obtains (waits) "finality_certificate_of x lsu h b = None" "fst (try_publish_finality_certificate_from_bucket x pub bk cyc h (s, d)) = (s, d)"
    | (published) s1 d1 where "fst (try_publish_finality_certificate_from_bucket x pub bk cyc h (s, d)) = (s1, d1)"
        "lsu_has_verified_finality_cert x s1 d1 lsu cyc []"
proof (cases "finality_certificate_of x lsu h b")
  case None
  then show ?thesis using fresh b by (intro waits) (simp_all add: try_publish_finality_certificate_from_bucket_def Let_def)
next
  case (Some cert)
  obtain cid d1 where w: "dfs_write (cid_of pub) (encode_finality_cert pub cert) d = (cid, d1)"
    by (cases "dfs_write (cid_of pub) (encode_finality_cert pub cert) d")
  let ?s1 = "store_set_meta (key_of_cycle ''consensus:lsu_finality_cid:'' cyc) (as_bytes cid) s"
  have run: "try_publish_finality_certificate_from_bucket x pub bk cyc h (s, d)
      = ((?s1, d1), Some \<lparr>fi_cycle = cyc, fi_lsu_hash = h, fi_finality_cid = cid\<rparr>)"
    using fresh b Some w by (simp add: try_publish_finality_certificate_from_bucket_def Let_def)
  have "attested_lsu x ?s1 cyc h = Some lsu" using fresh(2) by (simp add: attested_lsu_def store_set_meta_def key_of_cycle_def)
  with publish_finality_sound[OF pub fresh(3) run] run show ?thesis by (intro published[of ?s1 d1]) auto
qed

lemma collecting_step:
  assumes pub: "publisher_ok x pub" and small: "length (lsu_producer_list lsu) \<le> 256"
    and inv: "collecting x pub lsu chain_id genesis_hash ((s, d), bk) who" and att: "attests x lsu chain_id genesis_hash m"
  shows "collecting x pub lsu chain_id genesis_hash (fst (ingest_finality_attestation x pub m ((s, d), bk))) (insert (fa_producer_id m) who)"
proof -
  define cyc where "cyc = lsu_cycle_number lsu"
  define h where "h = hash_data (blake2b x) ser_lsu lsu"
  define b where "b = opt_or (map_of bk (cyc, h)) empty_finality_bucket"
  note I = inv[unfolded collecting_def prod.case Let_def, folded cyc_def h_def, folded b_def]
  have A: "fa_cycle m = cyc" "fa_lsu_hash m = h" "finality_target x lsu chain_id genesis_hash = Some (finality_mtag m)" "attestation_valid x m"
    using att by (auto simp: attests_def cyc_def h_def)
  have "finality_tag b = None \<or> finality_tag b = Some (finality_mtag m)" using I A by auto
  from fbucket.absorb_tag[OF this] obtain b' where b': "absorb_finality m b = Some b'" "finality_tag b' = Some (finality_mtag m)"
      "fb_votes b' = bt_insert (fa_producer_id m) (fa_signature m) (fb_votes b)" by blast
  have wf: "bt_wf (fb_votes b)" using I by blast
  have votes: "bt_wf (fb_votes b')" "fst ` set (fb_votes b') = insert (fa_producer_id m) who"
      "\<forall>(pid, sg) \<in> set (fb_votes b'). vote_valid x lsu chain_id genesis_hash pid sg"
    using I attests_vote[OF att] bt.wf_insert[OF wf] unfolding b'(3) set_bt_insert[OF wf] by (auto simp: set_keys_bt_insert)
  let ?bk = "hm_insert (cyc, h) b' bk"
  note run = ingest_taken[OF A(4), of bk b' pub "(s, d)", unfolded A(1,2), folded b_def, OF b'(1)]
  have bk: "map_of ?bk (cyc, h) = Some b'" by (simp add: map_of_hm_insert)
  have goal: "collecting x pub lsu chain_id genesis_hash ((s1, d1), ?bk) (insert (fa_producer_id m) who)"
    if "lsu_has_verified_finality_cert x s1 d1 lsu cyc [] \<or> meta_string s1 (key_of_cycle ''consensus:lsu_finality_cid:'' cyc) = None
        \<and> attested_lsu x s1 cyc h = Some lsu \<and> addressed (cid_of pub) d1
        \<and> eligible lsu (insert (fa_producer_id m) who) < bft_vote_threshold (length (lsu_producer_list lsu))" for s1 d1
    using that votes b'(2) A(3) bk unfolding collecting_def prod.case Let_def cyc_def[symmetric] h_def[symmetric] by simp
  show ?thesis
  proof (cases "lsu_has_verified_finality_cert x s d lsu cyc []")
    case True
    then show ?thesis
      using certified_has_cid[OF True] goal[of s d] unfolding run by (simp add: try_publish_finality_certificate_from_bucket_def Let_def)
  next
    case False
    with I have fresh: "meta_string s (key_of_cycle ''consensus:lsu_finality_cid:'' cyc) = None" "attested_lsu x s cyc h = Some lsu"
        "addressed (cid_of pub) d" by auto
    from pub fresh bk show ?thesis
    proof (cases rule: publish_outcome)
      case waits
      have "eligible lsu (insert (fa_producer_id m) who) < bft_vote_threshold (length (lsu_producer_list lsu))"
        using quorum_makes_certificate[OF A(3) b'(2) votes(1,3) small] waits(1) votes(2) unfolding h_def by (metis not_less option.distinct(1))
      with goal[of s d] fresh show ?thesis unfolding run waits(2) by simp
    next
      case (published s1 d1)
      with goal show ?thesis unfolding run published(1) by blast
    qed
  qed
qed


section \<open>One attestation can close a bucket\<close>

lemma no_votes_no_certificate:
  assumes "\<forall>pid \<in> fst ` set (fb_votes b). pid \<notin> set (lsu_producer_list lsu)"
  shows "finality_certificate_of x lsu h b = None"
proof -
  have "finality_vote_entries lsu (fb_votes b) = []"
    using assms by (force simp: finality_vote_entries_def filter_empty_conv)
  moreover have "0 < fork_choice_bft_vote_threshold (length (lsu_producer_list lsu))"
    using bft_threshold_bounds(1)[of "length (lsu_producer_list lsu)"] by (simp add: fork_choice_bft_vote_threshold_def bft_vote_threshold_def)
  ultimately show ?thesis by (auto simp: finality_certificate_of_def Let_def split: option.splits)
qed

lemma other_tag_ignored:
  assumes "map_of bk (fa_cycle m, fa_lsu_hash m) = Some b" and "finality_tag b = Some t" and "finality_mtag m \<noteq> t"
  shows "ingest_finality_attestation x pub m (sd, bk) = ((sd, bk), None)"
  using assms fbucket.absorb_other[of b t m] by (simp add: ingest_finality_attestation_def Let_def opt_or_simps)

text \<open>C38: one outsider stops the finality of an update. Any key, in no committee, can sign an attestation for an update whose bucket is not open, with
fields of its choice; the node takes it, announces nothing, and from then on ignores every attestation of that update with other fields, so no
sequence of honest attestations changes the store, the content store or the buckets.\<close>

theorem outsider_blocks_finality:
  assumes "curve_laws (curve25519 x)" and "curve_encoding (curve25519 x)"
    and "parse_producer_hex32 (hex_decode x) pid = Some (pk_to_bytes (curve25519 x) (public_key (curve25519 x) sk))"
    and "bad = \<lparr>fa_chain_id = c, fa_genesis_hash = g, fa_cycle = cyc, fa_lsu_hash = h, fa_committee_hash = ch, fa_vote_list_hash = vh, fa_producer_id = pid,
       fa_signature = sig_to_bytes (curve25519 x) (sign (blake2b x) (curve25519 x) rnd sk (h_cert_v1 (blake2b x) c g cyc h ch vh))\<rparr>"
    and "map_of bk (cyc, h) = None" and "case attested_lsu x s cyc h of Some lsu \<Rightarrow> pid \<notin> set (lsu_producer_list lsu) | None \<Rightarrow> True"
  shows "\<exists>bk'. ingest_finality_attestation x pub bad ((s, d), bk) = (((s, d), bk'), None)
    \<and> (\<forall>msgs. (\<forall>m \<in> set msgs. fa_cycle m = cyc \<and> fa_lsu_hash m = h \<and> (fa_chain_id m, fa_genesis_hash m, fa_committee_hash m, fa_vote_list_hash m) \<noteq> (c, g, ch, vh))
         \<longrightarrow> fold (\<lambda>m st. fst (ingest_finality_attestation x pub m st)) msgs ((s, d), bk') = ((s, d), bk'))"
proof -
  have bad: "fa_cycle bad = cyc" "fa_lsu_hash bad = h" "finality_mtag bad = (Some c, Some g, Some ch, Some vh)"
    by (simp_all add: assms(4) finality_mtag_def)
  have valid: "attestation_valid x bad"
    using vote_signature_accepted(1)[OF assms(1-3)] sig_bytes_roundtrip(2)[OF assms(2)]
    by (simp add: attestation_valid_def assms(4) verify_finality_attestation_def SIGNATURE_SIZE_def)
  obtain b where b: "absorb_finality bad empty_finality_bucket = Some b" "finality_tag b = Some (finality_mtag bad)"
      "fb_votes b = [(pid, fa_signature bad)]"
    using fbucket.absorb_tag[of empty_finality_bucket bad] by (auto simp: finality_tag_def empty_finality_bucket_def assms(4))
  define bk' where "bk' = hm_insert (cyc, h) b bk"
  have b': "map_of bk' (cyc, h) = Some b" by (simp add: bk'_def map_of_hm_insert)
  have "try_publish_finality_certificate_from_bucket x pub bk' cyc h (s, d) = ((s, d), None)"
    using assms(6) no_votes_no_certificate[of b _ x h] b(3) b'
    by (auto simp: try_publish_finality_certificate_from_bucket_def Let_def split: option.splits)
  then have first: "ingest_finality_attestation x pub bad ((s, d), bk) = (((s, d), bk'), None)"
    using valid b(1) assms(5) bad by (simp add: ingest_finality_attestation_def attestation_valid_def Let_def opt_or_simps bk'_def)
  have "fold (\<lambda>m st. fst (ingest_finality_attestation x pub m st)) msgs ((s, d), bk') = ((s, d), bk')"
    if "\<forall>m \<in> set msgs. fa_cycle m = cyc \<and> fa_lsu_hash m = h \<and> (fa_chain_id m, fa_genesis_hash m, fa_committee_hash m, fa_vote_list_hash m) \<noteq> (c, g, ch, vh)" for msgs
    using that
  proof (induction msgs)
    case (Cons m msgs)
    then have "finality_mtag m \<noteq> finality_mtag bad" unfolding bad(3) by (auto simp: finality_mtag_def)
    then have "ingest_finality_attestation x pub m ((s, d), bk') = (((s, d), bk'), None)"
      using Cons.prems b' b(2) by (intro other_tag_ignored[of bk' m b "finality_mtag bad"]) auto
    with Cons show ?case by simp
  qed simp
  with first show ?thesis by blast
qed

text \<open>C26: what a node announces as certified is certified. Whenever an attestation makes the node announce a certificate, the update it names is the
stored one, the certificate verifies for it, and it is found both through the announced content id and through the node's metadata; for a
state root, the certificate is also for the announced root.\<close>

theorem announced_certificates_verify:
  assumes "publisher_ok x pub" and "addressed (cid_of pub) d"
  shows "(\<forall>st' out. ingest_finality_attestation x pub fm ((s, d), fbk) = (st', Some out) \<longrightarrow>
      (case st' of ((s', d'), _) \<Rightarrow> \<exists>lsu. attested_lsu x s' (fi_cycle out) (fi_lsu_hash out) = Some lsu
         \<and> lsu_has_verified_finality_cert x s' d' lsu (fi_cycle out) []
         \<and> lsu_has_verified_finality_cert x s' d' lsu (fi_cycle out) (fi_finality_cid out)))
    \<and> (\<forall>st' out. ingest_state_root_attestation x pub rm ((s, d), rbk) = (st', Some out) \<longrightarrow>
      (case st' of ((s', d'), _) \<Rightarrow> \<exists>lsu. attested_lsu x s' (ri_cycle out) (ri_lsu_hash out) = Some lsu
         \<and> lsu_has_verified_state_root_cert x s' d' lsu (ri_cycle out)
         \<and> verify_state_root_finality_for_apply x s' d' lsu (ri_cycle out) (ri_state_root out) (ri_state_root_cid out) True))"
proof (intro conjI allI impI)
  fix st' out assume run: "ingest_finality_attestation x pub fm ((s, d), fbk) = (st', Some out)"
  then obtain s' d' bk' where "st' = ((s', d'), bk')"
      and "try_publish_finality_certificate_from_bucket x pub bk' (fa_cycle fm) (fa_lsu_hash fm) (s, d) = ((s', d'), Some out)"
    by (auto simp: ingest_finality_attestation_def Let_def split: if_splits option.splits prod.splits)
  with publish_finality_sound[OF assms] show "case st' of ((s', d'), _) \<Rightarrow> \<exists>lsu. attested_lsu x s' (fi_cycle out) (fi_lsu_hash out) = Some lsu
         \<and> lsu_has_verified_finality_cert x s' d' lsu (fi_cycle out) []
         \<and> lsu_has_verified_finality_cert x s' d' lsu (fi_cycle out) (fi_finality_cid out)" by fastforce
next
  fix st' out assume run: "ingest_state_root_attestation x pub rm ((s, d), rbk) = (st', Some out)"
  then obtain s' d' bk' where "st' = ((s', d'), bk')"
      and "try_publish_state_root_certificate_from_bucket x pub bk' (ra_cycle rm) (ra_lsu_hash rm) (ra_state_root rm) (s, d) = ((s', d'), Some out)"
    by (auto simp: ingest_state_root_attestation_def Let_def split: if_splits option.splits prod.splits)
  with publish_root_sound[OF assms] show "case st' of ((s', d'), _) \<Rightarrow> \<exists>lsu. attested_lsu x s' (ri_cycle out) (ri_lsu_hash out) = Some lsu
         \<and> lsu_has_verified_state_root_cert x s' d' lsu (ri_cycle out)
         \<and> verify_state_root_finality_for_apply x s' d' lsu (ri_cycle out) (ri_state_root out) (ri_state_root_cid out) True" by fastforce
qed

section \<open>A concrete node\<close>

text \<open>A self-delimiting encoding of certificates, in the place of \<open>bincode\<close>.\<close>

fun enc_bytes :: "bytes \<Rightarrow> bytes" where
  "enc_bytes [] = [0]"
| "enc_bytes (b # bs) = 1 # b # enc_bytes bs"

fun dec_bytes :: "bytes \<Rightarrow> (bytes \<times> bytes) option" where
  "dec_bytes (c # b # r) = (if c = 0 then Some ([], b # r) else map_option (\<lambda>(bs, q). (b # bs, q)) (dec_bytes r))"
| "dec_bytes [c] = (if c = 0 then Some ([], []) else None)"
| "dec_bytes [] = None"

lemma dec_enc_bytes: "dec_bytes (enc_bytes bs @ r) = Some (bs, r)"
  by (induction bs) (cases r, auto)

fun dec_all :: "nat \<Rightarrow> bytes \<Rightarrow> bytes list" where
  "dec_all 0 bs = []"
| "dec_all (Suc n) bs = (case dec_bytes bs of None \<Rightarrow> [] | Some (b, r) \<Rightarrow> b # dec_all n r)"

lemma dec_all_enc: "length bss \<le> n \<Longrightarrow> dec_all n (concat (map enc_bytes bss)) = bss"
proof (induction n arbitrary: bss)
  case (Suc n)
  then show ?case by (cases bss) (simp_all add: dec_enc_bytes)
qed simp

lemma enc_bytes_nonempty: "length bss \<le> length (concat (map enc_bytes bss))"
proof (induction bss)
  case (Cons b bss)
  have "1 \<le> length (enc_bytes b)" by (cases b) simp_all
  with Cons show ?case by simp
qed simp

lemma dec_enc_all: "dec_all (length (concat (map enc_bytes bss))) (concat (map enc_bytes bss)) = bss"
  by (rule dec_all_enc) (rule enc_bytes_nonempty)

fun pairs_of :: "bytes list \<Rightarrow> (ProducerId \<times> bytes) list" where
  "pairs_of (a # b # r) = (string_of_bytes a, b) # pairs_of r"
| "pairs_of _ = []"

definition demo_encode_finality :: "LsuFinalityCertificateV1 \<Rightarrow> bytes" where
  "demo_encode_finality c =
     concat (map enc_bytes
       ([[fc_version c], [fc_style c], to_le_bytes (fc_chain_id c), fc_genesis_hash c, to_le_bytes (fc_cycle c), fc_lsu_hash c,
         fc_committee_hash c, fc_vote_list_hash c] @ concat (map (\<lambda>v. [as_bytes (fv_producer_id v), fv_signature v]) (fc_votes c))))"

definition demo_decode_finality :: "bytes \<Rightarrow> LsuFinalityCertificateV1 option" where
  "demo_decode_finality bs =
     (case dec_all (length bs) bs of
        a # b # c # d # e # f # g # h # r \<Rightarrow>
          Some \<lparr>fc_version = hd a, fc_style = hd b, fc_chain_id = from_le_bytes c, fc_genesis_hash = d, fc_cycle = from_le_bytes e, fc_lsu_hash = f,
            fc_committee_hash = g, fc_vote_list_hash = h, fc_votes = map (\<lambda>(p, s). \<lparr>fv_producer_id = p, fv_signature = s\<rparr>) (pairs_of r)\<rparr>
      | _ \<Rightarrow> None)"

definition demo_encode_root :: "LsuStateRootCertificateV1 \<Rightarrow> bytes" where
  "demo_encode_root c =
     concat (map enc_bytes
       ([[rc_version c], to_le_bytes (rc_chain_id c), rc_genesis_hash c, to_le_bytes (rc_cycle c), rc_lsu_hash c, rc_state_root c,
         rc_committee_hash c] @ concat (map (\<lambda>v. [as_bytes (sa_producer_id v), sa_signature v]) (rc_attestations c))))"

definition demo_decode_root :: "bytes \<Rightarrow> LsuStateRootCertificateV1 option" where
  "demo_decode_root bs =
     (case dec_all (length bs) bs of
        a # b # c # d # e # f # g # r \<Rightarrow>
          Some \<lparr>rc_version = hd a, rc_chain_id = from_le_bytes b, rc_genesis_hash = c, rc_cycle = from_le_bytes d, rc_lsu_hash = e, rc_state_root = f,
            rc_committee_hash = g, rc_attestations = map (\<lambda>(p, s). \<lparr>sa_producer_id = p, sa_signature = s\<rparr>) (pairs_of r)\<rparr>
      | _ \<Rightarrow> None)"

lemma finality_pairs:
  "map (\<lambda>(p, s). \<lparr>fv_producer_id = p, fv_signature = s\<rparr>) (pairs_of (concat (map (\<lambda>v. [as_bytes (fv_producer_id v), fv_signature v]) vs))) = vs"
  by (induction vs) simp_all

lemma root_pairs:
  "map (\<lambda>(p, s). \<lparr>sa_producer_id = p, sa_signature = s\<rparr>) (pairs_of (concat (map (\<lambda>v. [as_bytes (sa_producer_id v), sa_signature v]) vs))) = vs"
  by (induction vs) simp_all

lemma demo_codecs: "demo_decode_finality (demo_encode_finality c) = Some c" "demo_decode_root (demo_encode_root r) = Some r"
  by (simp_all only: demo_decode_finality_def demo_encode_finality_def demo_decode_root_def demo_encode_root_def dec_enc_all)
     (simp_all add: finality_pairs root_pairs)

definition demo_ext :: "(byte, byte) externals" where
  "demo_ext = \<lparr>blake2b = two64, hex_decode = final_hex, curve25519 = curve8, decode_finality_cert = demo_decode_finality,
     decode_root_cert = demo_decode_root\<rparr>"

definition demo_publisher :: publisher where
  "demo_publisher = \<lparr>encode_finality_cert = demo_encode_finality, encode_root_cert = demo_encode_root, cid_of = (\<lambda>_. ''bafk'')\<rparr>"

definition final_att :: LsuFinalityAttestationMsg where
  "final_att = \<lparr>fa_chain_id = 5, fa_genesis_hash = replicate 32 0, fa_cycle = 7, fa_lsu_hash = replicate 32 2, fa_committee_hash = replicate 32 2,
     fa_vote_list_hash = hash_producer_list_merkle two64 [final_id], fa_producer_id = final_id, fa_signature = final_sig\<rparr>"

definition final_store :: Store where
  "final_store = \<lparr>accounts = [], metadata = [key_of_cycle ''consensus:lsu:'' 7 \<mapsto> ser_lsu final_lsu], root_cache = None\<rparr>"

lemma demo_publisher_ok: "publisher_ok demo_ext demo_publisher" "addressed (cid_of demo_publisher) Map.empty"
  by (simp_all add: publisher_ok_def demo_ext_def demo_publisher_def demo_codecs addressed_def)

lemma final_lsu_fields: "lsu_cycle_number final_lsu = 7" "lsu_producer_list final_lsu = [final_id]" "lsu_vote_list final_lsu = [final_id]"
  by (simp_all add: final_lsu_def lsu_example_def)

lemma final_digest: "h_cert_v1 two64 c g cyc h ch vh = replicate 32 2"
  by (simp add: h_cert_v1_def blake2b512_trunc32_def two64_def)

lemma final_attests: "attests demo_ext final_lsu 5 (replicate 32 0) final_att"
  using vote_signature_accepted(1)[OF curve8_laws curve8_encoding final_parse, of two64 "replicate 32 2" "[7]"]
    sig_bytes_roundtrip(2)[OF curve8_encoding]
  by (simp add: attests_def final_lsu_fields final_digests finality_target_def finality_mtag_def demo_ext_def final_att_def attestation_valid_def
      verify_finality_attestation_def final_digest final_sig_def SIGNATURE_SIZE_def)

lemma final_attested: "attested_lsu demo_ext final_store 7 (replicate 32 2) = Some final_lsu"
  using lsuc.run_reader_enc[OF final_lsu_ok, of "[]"]
  by (simp add: attested_lsu_def final_store_def demo_ext_def final_digests)


theorem announced_certificates_verify_witness:
  "\<exists>s' d' bk' out. ingest_finality_attestation demo_ext demo_publisher final_att ((final_store, Map.empty), []) = (((s', d'), bk'), Some out)
     \<and> (\<exists>lsu. lsu_has_verified_finality_cert demo_ext s' d' lsu (fi_cycle out) (fi_finality_cid out))"
proof -
  have h: "hash_data (blake2b demo_ext) ser_lsu final_lsu = replicate 32 2" by (simp add: demo_ext_def final_digests)
  obtain b where b: "absorb_finality final_att empty_finality_bucket = Some b" "finality_tag b = Some (finality_mtag final_att)"
      "fb_votes b = [(final_id, final_sig)]"
    using fbucket.absorb_tag[of empty_finality_bucket final_att] by (auto simp: finality_tag_def empty_finality_bucket_def final_att_def)
  have "vote_valid demo_ext final_lsu 5 (replicate 32 0) final_id final_sig"
    using attests_vote[OF final_attests] by (simp add: final_att_def)
  moreover have "finality_target demo_ext final_lsu 5 (replicate 32 0) = Some (finality_mtag final_att)"
    using final_attests by (simp add: attests_def)
  ultimately obtain cert where cert: "finality_certificate_of demo_ext final_lsu (replicate 32 2) b = Some cert"
    using quorum_makes_certificate[of demo_ext final_lsu 5 "replicate 32 0" "finality_mtag final_att" b] b(2,3) h
    by (auto simp: final_lsu_fields eligible_def bft_vote_threshold_def)
  have "meta_string final_store (key_of_cycle ''consensus:lsu_finality_cid:'' 7) = None"
    by (simp add: meta_string_def final_store_def key_of_cycle_def)
  moreover have "attestation_valid demo_ext final_att" using final_attests by (simp add: attests_def)
  moreover have "fa_cycle final_att = 7" "fa_lsu_hash final_att = replicate 32 2" by (simp_all add: final_att_def)
  moreover obtain cid d1 where "dfs_write (cid_of demo_publisher) (encode_finality_cert demo_publisher cert) Map.empty = (cid, d1)"
    by (cases "dfs_write (cid_of demo_publisher) (encode_finality_cert demo_publisher cert) Map.empty")
  ultimately have "\<exists>s' d' bk' out. ingest_finality_attestation demo_ext demo_publisher final_att ((final_store, Map.empty), []) = (((s', d'), bk'), Some out)"
    using b(1) cert final_attested
    by (simp add: ingest_finality_attestation_def attestation_valid_def Let_def opt_or_simps try_publish_finality_certificate_from_bucket_def)
  with announced_certificates_verify[OF demo_publisher_ok, of final_att final_store "[]"] show ?thesis by fastforce
qed

theorem outsider_blocks_finality_witness:
  "\<exists>bk'. fold (\<lambda>m st. fst (ingest_finality_attestation demo_ext demo_publisher m st)) [final_att, final_att\<lparr>fa_chain_id := 9\<rparr>]
     ((\<lparr>accounts = [], metadata = Map.empty, root_cache = None\<rparr>, Map.empty), bk')
     = ((\<lparr>accounts = [], metadata = Map.empty, root_cache = None\<rparr>, Map.empty), bk')"
proof -
  have key: "parse_producer_hex32 (hex_decode demo_ext) final_id = Some (pk_to_bytes (curve25519 demo_ext) (public_key (curve25519 demo_ext) key8))"
    using final_parse by (simp add: demo_ext_def)
  have laws: "curve_laws (curve25519 demo_ext)" "curve_encoding (curve25519 demo_ext)"
    using curve8_laws curve8_encoding by (simp_all add: demo_ext_def)
  from outsider_blocks_finality[OF laws key refl, of "[]" 7 "replicate 32 2" "\<lparr>accounts = [], metadata = Map.empty, root_cache = None\<rparr>"
      demo_publisher 6 "replicate 32 0" "replicate 32 2" "replicate 32 2" "[7]" Map.empty]
  obtain bk' where blocked: "\<forall>msgs. (\<forall>m \<in> set msgs. fa_cycle m = 7 \<and> fa_lsu_hash m = replicate 32 2
        \<and> (fa_chain_id m, fa_genesis_hash m, fa_committee_hash m, fa_vote_list_hash m) \<noteq> (6, replicate 32 0, replicate 32 2, replicate 32 2))
         \<longrightarrow> fold (\<lambda>m st. fst (ingest_finality_attestation demo_ext demo_publisher m st)) msgs
              ((\<lparr>accounts = [], metadata = Map.empty, root_cache = None\<rparr>, Map.empty), bk')
           = ((\<lparr>accounts = [], metadata = Map.empty, root_cache = None\<rparr>, Map.empty), bk')"
    by (auto simp: attested_lsu_def)
  have "\<forall>m \<in> set [final_att, final_att\<lparr>fa_chain_id := 9\<rparr>]. fa_cycle m = 7 \<and> fa_lsu_hash m = replicate 32 2
        \<and> (fa_chain_id m, fa_genesis_hash m, fa_committee_hash m, fa_vote_list_hash m) \<noteq> (6, replicate 32 0, replicate 32 2, replicate 32 2)"
    by (simp add: final_att_def)
  with blocked show ?thesis by blast
qed

end
