(* ===== verification/Bundles.thy ===== *)
theory Bundles
  imports Attestations
begin

text \<open>
  Proof bundles of \<open>catalyst-cli/src/node.rs\<close> and \<open>sync.rs\<close>: the keys an update touches, the bundle of
  old and new values with Merkle proofs that the producer of an update publishes, and the check a
  follower makes of it. A bundle that is accepted tells the truth about every key it covers, and the
  bundle of an honest producer is accepted exactly when nothing but the entries of the update changes
  the balances of its participants.
\<close>

section \<open>Model\<close>

record KeyProofChange =
  kc_key :: bytes
  kc_old_value :: bytes
  kc_old_proof :: MerkleProof
  kc_new_value :: bytes
  kc_new_proof :: MerkleProof

record StateProofBundle =
  sb_cycle :: u64
  sb_lsu_hash :: Hash
  sb_prev_state_root :: Hash
  sb_new_state_root :: Hash
  sb_changes :: "KeyProofChange list"

text \<open>The key that an entry touches directly; none if its contract call does not decode.\<close>

definition evm_touched_key :: "('s, 'p) node_env \<Rightarrow> TransactionEntry \<Rightarrow> bytes option" where
  "evm_touched_key nx e =
     (case decode_evm_marker (de_payload nx) (te_signature e) of
        None \<Rightarrow> None
      | Some (pl, _) \<Rightarrow>
          (case ep_kind pl of
             Deploy _ \<Rightarrow> Some (evm_code_key (create_address nx (pubkey_to_evm_addr20 (te_public_key e)) (saturating_sub (ep_nonce pl) 1)))
           | Call to _ \<Rightarrow> Some (evm_last_return_key to)))"

definition touched_key :: "('s, 'p) node_env \<Rightarrow> TransactionEntry \<Rightarrow> bytes option" where
  "touched_key nx e =
     (if is_worker_reg_marker (te_signature e) then Some (worker_key_for_pubkey (te_public_key e))
      else if is_evm_marker (te_signature e) then evm_touched_key nx e
      else Some (balance_key_for_pubkey (te_public_key e)))"

definition touched_keys_for_lsu :: "('s, 'p) node_env \<Rightarrow> LedgerStateUpdate \<Rightarrow> bytes list" where
  "touched_keys_for_lsu nx lsu =
     (let es = pu_transaction_entries (lsu_partial_update lsu)
      in sort_dedup (List.map_filter (touched_key nx) es
           @ List.map_filter (\<lambda>(_, g). map_option nonce_key_for_pubkey (trusted_sender_of_group g)) (group_by_sig es)))"

definition verify_state_proof_for_change :: "(bytes \<Rightarrow> bytes) \<Rightarrow> Hash \<Rightarrow> bytes \<Rightarrow> bytes \<Rightarrow> MerkleProof \<Rightarrow> bool" where
  "verify_state_proof_for_change sha256 root key val p =
     (if leaf p = h_empty_leaf sha256 then val = [] \<and> verify_absence_proof_for_key sha256 root key p
      else verify_proof_for_key sha256 root key val p)"

text \<open>What the entries and the nonces of an update make of a table of values.\<close>

definition expected_entry :: "('s, 'p) node_env \<Rightarrow> TransactionEntry \<Rightarrow> kvs \<Rightarrow> kvs" where
  "expected_entry nx e m =
     (if is_worker_reg_marker (te_signature e) then bt_insert (worker_key_for_pubkey (te_public_key e)) [1] m
      else if is_evm_marker (te_signature e) then
        (case evm_touched_key nx e of Some k \<Rightarrow> bt_insert k [] m | None \<Rightarrow> m)
      else
        let k = balance_key_for_pubkey (te_public_key e);
            cur = opt_or (Option.bind (map_of m k) decode_i64) 0
        in bt_insert k (encode_i64 (saturating_add_i64 cur (te_amount e))) m)"

definition expected_nonce :: "TransactionEntry list \<Rightarrow> kvs \<Rightarrow> kvs" where
  "expected_nonce g m =
     (case trusted_sender_of_group g of
        Some pk \<Rightarrow>
          let k = nonce_key_for_pubkey pk;
              cur = opt_or (Option.bind (map_of m k) decode_u64) 0
          in bt_insert k (encode_u64 (saturating_add cur 1)) m
      | None \<Rightarrow> m)"

definition expected_values :: "('s, 'p) node_env \<Rightarrow> LedgerStateUpdate \<Rightarrow> kvs \<Rightarrow> kvs" where
  "expected_values nx lsu old =
     (let es = pu_transaction_entries (lsu_partial_update lsu)
      in fold (\<lambda>(_, g). expected_nonce g) (group_by_sig es) (fold (expected_entry nx) es old))"

definition bundle_table :: "(KeyProofChange \<Rightarrow> bytes) \<Rightarrow> StateProofBundle \<Rightarrow> kvs" where
  "bundle_table value_of b = fold (\<lambda>c. bt_insert (kc_key c) (value_of c)) (sb_changes b) []"

definition verify_state_transition_bundle :: "('s, 'p) node_env \<Rightarrow> LedgerStateUpdate \<Rightarrow> StateProofBundle \<Rightarrow> bool" where
  "verify_state_transition_bundle nx lsu b =
     (if sb_cycle b \<noteq> lsu_cycle_number lsu then False
      else if sb_changes b = [] then False
      else if list_ex (\<lambda>c. \<not> verify_state_proof_for_change (sha nx) (sb_prev_state_root b) (kc_key c) (kc_old_value c) (kc_old_proof c)
             \<or> \<not> verify_state_proof_for_change (sha nx) (sb_new_state_root b) (kc_key c) (kc_new_value c) (kc_new_proof c)) (sb_changes b)
      then False
      else
        let old = bundle_table kc_old_value b;
            new = bundle_table kc_new_value b
        in list_all (\<lambda>(k, vexp). case map_of new k of Some vnew \<Rightarrow> vnew = vexp | None \<Rightarrow> True) (expected_values nx lsu old))"

text \<open>The bundle of the producer, from the stores before and after it applies its update.\<close>

definition state_proofs :: "('s, 'p) node_env \<Rightarrow> LedgerStateUpdate \<Rightarrow> Hash \<Rightarrow> Store \<Rightarrow> Hash \<times> (bytes \<times> bytes option \<times> MerkleProof) list" where
  "state_proofs nx lsu fallback s =
     (if lsu_contains_evm lsu then (fallback, [])
      else case compute_root_and_multi_proofs_from_iter (sha nx) (accounts s) (touched_keys_for_lsu nx lsu) of
             Inr out \<Rightarrow> out
           | Inl _ \<Rightarrow> (fallback, []))"

definition proofs_by_key :: "(bytes \<times> bytes option \<times> MerkleProof) list \<Rightarrow> (bytes \<times> bytes option \<times> MerkleProof) list" where
  "proofs_by_key ps = fold (\<lambda>(k, v, p). bt_insert k (v, p)) ps []"

definition proof_changes ::
  "(bytes \<times> bytes option \<times> MerkleProof) list \<Rightarrow> (bytes \<times> bytes option \<times> MerkleProof) list \<Rightarrow> KeyProofChange list" where
  "proof_changes prev_proofs post_proofs =
     List.map_filter (\<lambda>(k, ov, p). case map_of (proofs_by_key post_proofs) k of
         Some (nv, np) \<Rightarrow> Some \<lparr>kc_key = k, kc_old_value = opt_or ov [], kc_old_proof = p, kc_new_value = opt_or nv [], kc_new_proof = np\<rparr>
       | None \<Rightarrow> None) (proofs_by_key prev_proofs)"

definition build_state_proof_bundle ::
  "('s, 'p) node_env \<Rightarrow> u64 \<Rightarrow> LedgerStateUpdate \<Rightarrow> Store \<Rightarrow> Hash \<Rightarrow> Store \<Rightarrow> StateProofBundle option" where
  "build_state_proof_bundle nx cyc lsu s new_root t =
     (let (prev_root, prev_proofs) = state_proofs nx lsu (store_root s) s;
          (post_root, post_proofs) = state_proofs nx lsu (replicate 32 0) t
      in if prev_root \<noteq> replicate 32 0 \<and> post_root = new_root \<and> prev_proofs \<noteq> []
         then Some \<lparr>sb_cycle = cyc, sb_lsu_hash = hash_data (blake2b (ext nx)) ser_lsu lsu, sb_prev_state_root = prev_root,
                    sb_new_state_root = new_root, sb_changes = proof_changes prev_proofs post_proofs\<rparr>
         else None)"

section \<open>Values\<close>

text \<open>A table read as the bundle writes it: an absent key has the empty value.\<close>

definition value_at :: "(bytes \<Rightarrow> bytes option) \<Rightarrow> bytes \<Rightarrow> bytes" where
  "value_at m k = opt_or (m k) []"

lemma decode_empty [simp]: "decode_i64 [] = None" "decode_u64 [] = None"
  by (simp_all add: decode_i64_def decode_u64_def)

lemma read_value_at: "Option.bind (m k) decode_i64 = decode_i64 (value_at m k)" "Option.bind (m k) decode_u64 = decode_u64 (value_at m k)"
  by (cases "m k"; simp add: value_at_def)+

text \<open>The keys a bundle accounts for: balances, nonces and worker registrations.\<close>

definition worker_key :: "bytes \<Rightarrow> bool" where "worker_key k \<longleftrightarrow> has_prefix (as_bytes ''workers:'') k"

definition bundled_key :: "bytes \<Rightarrow> bool" where
  "bundled_key k \<longleftrightarrow> bal_key k \<or> nonce_key k \<or> worker_key k"

lemma worker_key_simps [simp]:
  "worker_key (worker_key_for_pubkey pk)" "\<not> worker_key (balance_key_for_pubkey pk)" "\<not> worker_key (nonce_key_for_pubkey pk)"
  "\<not> worker_key (fee_credit_first_seen_cycle_key_for_pubkey pk)" "\<not> worker_key (worker_last_registration_cycle_key_for_pubkey pk)"
  "\<not> worker_key ROOT_CYCLE_COUNTER_KEY"
  by (simp_all add: worker_key_def key_defs has_prefix_def as_bytes_def)

definition same_values :: "(bytes \<Rightarrow> bool) \<Rightarrow> kvs \<Rightarrow> Store \<Rightarrow> bool" where
  "same_values K m s \<longleftrightarrow> bt_wf m \<and> store_ok s \<and> (\<forall>k. K k \<longrightarrow> value_at (map_of m) k = value_at (store_get s) k)"

lemma same_values_set:
  "same_values K m s \<Longrightarrow> v = w \<or> \<not> K k \<Longrightarrow> same_values K (bt_insert k v m) (store_set k w s)"
  by (auto simp: same_values_def bt.wf_insert bt.lookup_insert acc.ok_put acc.get_put value_at_def)

lemma same_values_touches: "same_values K m s \<Longrightarrow> touches L s t \<Longrightarrow> (\<And>k. K k \<Longrightarrow> \<not> L k) \<Longrightarrow> same_values K m t"
  by (auto simp: same_values_def touches_def value_at_def)

definition plain_entry :: "TransactionEntry \<Rightarrow> bool" where
  "plain_entry e \<longleftrightarrow> \<not> is_evm_marker (te_signature e)"

text \<open>The table follows the ledger on any part of the bundled keys.\<close>

lemma expected_entry_follows:
  assumes same: "same_values K m (ap_store st)" and K: "\<And>k. K k \<Longrightarrow> bundled_key k" and "plain_entry e"
  shows "same_values K (expected_entry nx e m) (ap_store (apply_entry nx chain_id cyc e st))"
proof (cases "is_worker_reg_marker (te_signature e)")
  case True
  let ?pk = "te_public_key e"
  have "same_values K (bt_insert (worker_key_for_pubkey ?pk) [1] m) (store_set (worker_key_for_pubkey ?pk) [1] (ap_store st))"
    by (rule same_values_set[OF same]) simp
  moreover have "touches (\<lambda>k. \<not> bundled_key k) s (set_worker_last_registration_cycle ?pk cyc (ensure_worker_first_seen_cycle ?pk cyc s))" for s
    by (auto simp: set_worker_last_registration_cycle_def ensure_worker_first_seen_cycle_def bundled_key_def Let_def
        intro!: touches_set touches_trans[OF _ touches_set])
  ultimately have "same_values K (bt_insert (worker_key_for_pubkey ?pk) [1] m) (register_worker ?pk cyc (ap_store st))"
    unfolding register_worker_def by (rule same_values_touches) (use K in blast)
  then show ?thesis using True by (simp add: expected_entry_def apply_entry_def or_insert_success_def Let_def)
next
  case False
  let ?k = "balance_key_for_pubkey (te_public_key e)"
  have "value_at (map_of m) ?k = value_at (store_get (ap_store st)) ?k \<or> \<not> K ?k"
    using same by (auto simp: same_values_def)
  then have "same_values K (expected_entry nx e m)
      (set_balance_i64 (te_public_key e) (saturating_add_i64 (get_balance_i64 (ap_store st) (te_public_key e)) (te_amount e)) (ap_store st))"
    using False assms(3) unfolding set_balance_i64_def expected_entry_def plain_entry_def Let_def
    by (simp, intro same_values_set[OF same]) (auto simp: get_balance_i64_def read_value_at encode_i64_def)
  then show ?thesis using False assms(3) by (simp add: apply_entry_def plain_entry_def or_insert_success_def Let_def)
qed

lemma expected_nonce_follows:
  assumes "same_values K m s"
  shows "same_values K (expected_nonce g m) (bump_nonce (trusted_sender_of_group g) s)"
proof (cases "trusted_sender_of_group g")
  case (Some pk)
  have "value_at (map_of m) (nonce_key_for_pubkey pk) = value_at (store_get s) (nonce_key_for_pubkey pk) \<or> \<not> K (nonce_key_for_pubkey pk)"
    using assms by (auto simp: same_values_def)
  then show ?thesis unfolding expected_nonce_def bump_nonce_def set_nonce_u64_def Some Let_def option.case
    by (intro same_values_set[OF assms]) (auto simp: get_nonce_u64_def read_value_at encode_u64_def)
qed (use assms in \<open>simp add: expected_nonce_def bump_nonce_def\<close>)

definition entry_effects :: "('s, 'p) node_env \<Rightarrow> LedgerStateUpdate \<Rightarrow> Store \<Rightarrow> Store" where
  "entry_effects nx lsu s =
     apply_nonces trusted_sender_of_group (pu_transaction_entries (lsu_partial_update lsu))
       (ap_store (apply_entries nx (lsu_cycle_number lsu) (pu_transaction_entries (lsu_partial_update lsu)) s))"

lemma expected_values_follow:
  assumes "same_values K m s" and K: "\<And>k. K k \<Longrightarrow> bundled_key k" and "\<not> lsu_contains_evm lsu"
  shows "same_values K (expected_values nx lsu m) (entry_effects nx lsu s)"
proof -
  let ?es = "pu_transaction_entries (lsu_partial_update lsu)"
  have plain: "e \<in> set ?es \<Longrightarrow> plain_entry e" for e
    using assms(3) by (auto simp: lsu_contains_evm_def plain_entry_def list_ex_iff)
  have "same_values K (fold (expected_entry nx) es m') (ap_store (fold (apply_entry nx chain_id cyc) es st))"
    if "same_values K m' (ap_store st)" "\<And>e. e \<in> set es \<Longrightarrow> plain_entry e" for es m' st chain_id cyc
    using that by (induction es arbitrary: m' st) (auto intro: expected_entry_follows K)
  from this[of m "\<lparr>ap_store = s, outcome_by_sig = [], executed_sigs = []\<rparr>" ?es] have
    "same_values K (fold (expected_entry nx) ?es m) (ap_store (apply_entries nx (lsu_cycle_number lsu) ?es s))"
    using assms(1) plain by (simp add: apply_entries_def)
  moreover have "same_values K (fold (\<lambda>(_, g). expected_nonce g) gs m') (fold (\<lambda>(_, g). bump_nonce (trusted_sender_of_group g)) gs s')"
    if "same_values K m' s'" for gs :: "(bytes \<times> TransactionEntry list) list" and m' s'
    using that by (induction gs arbitrary: m' s') (auto intro: expected_nonce_follows)
  ultimately show ?thesis by (simp add: expected_values_def entry_effects_def apply_nonces_def Let_def)
qed

section \<open>The tables of a bundle\<close>

lemma bundle_table_lookup:
  "bt_wf (bundle_table f b)" "map_of (bundle_table f b) = map_of (rev (map (\<lambda>c. (kc_key c, f c)) (sb_changes b)))"
proof -
  have "bundle_table f b = fold (\<lambda>(k, v) m. bt_insert k v m) (map (\<lambda>c. (kc_key c, f c)) (sb_changes b)) []"
    by (simp add: bundle_table_def fold_map o_def)
  then show "bt_wf (bundle_table f b)" "map_of (bundle_table f b) = map_of (rev (map (\<lambda>c. (kc_key c, f c)) (sb_changes b)))"
    using fold_bt_insert[of "[]" "map (\<lambda>c. (kc_key c, f c)) (sb_changes b)"] by simp_all
qed

lemma bundle_table_dom: "dom (map_of (bundle_table f b)) = kc_key ` set (sb_changes b)"
  by (simp add: bundle_table_lookup(2) dom_map_of_conv_image_fst image_image)

lemma bundle_table_entry: "map_of (bundle_table f b) k = Some v \<Longrightarrow> \<exists>c \<in> set (sb_changes b). kc_key c = k \<and> f c = v"
  using map_of_SomeD[of "rev (map (\<lambda>c. (kc_key c, f c)) (sb_changes b))" k v] by (auto simp: bundle_table_lookup(2))

definition covers :: "bytes set \<Rightarrow> kvs \<Rightarrow> bool" where
  "covers D m \<longleftrightarrow> bt_wf m \<and> D \<subseteq> dom (map_of m)"

lemma covers_insert: "covers D m \<Longrightarrow> covers D (bt_insert k v m)"
  by (auto simp: covers_def bt.wf_insert bt.lookup_insert)

lemma covers_fold: "covers D m \<Longrightarrow> (\<And>x m. covers D m \<Longrightarrow> covers D (f x m)) \<Longrightarrow> covers D (fold f xs m)"
  by (induction xs arbitrary: m) simp_all

lemma expected_keeps:
  assumes "bt_wf m"
  shows "covers (dom (map_of m)) (expected_values nx lsu m)"
proof -
  have "covers D x \<Longrightarrow> covers D (expected_entry nx e x)" for D e x
    by (auto simp: expected_entry_def Let_def intro: covers_insert split: option.split)
  moreover have "covers D x \<Longrightarrow> covers D (expected_nonce g x)" for D g x
    by (auto simp: expected_nonce_def Let_def intro: covers_insert split: option.split)
  moreover have "covers (dom (map_of m)) m" using assms by (simp add: covers_def)
  ultimately show ?thesis unfolding expected_values_def Let_def case_prod_unfold by (intro covers_fold) simp_all
qed

lemma verify_bundle_iff:
  "verify_state_transition_bundle nx lsu b \<longleftrightarrow>
     sb_cycle b = lsu_cycle_number lsu \<and> sb_changes b \<noteq> []
     \<and> (\<forall>c \<in> set (sb_changes b). verify_state_proof_for_change (sha nx) (sb_prev_state_root b) (kc_key c) (kc_old_value c) (kc_old_proof c)
         \<and> verify_state_proof_for_change (sha nx) (sb_new_state_root b) (kc_key c) (kc_new_value c) (kc_new_proof c))
     \<and> (\<forall>k v. map_of (bundle_table kc_new_value b) k = Some v
           \<longrightarrow> value_at (map_of (expected_values nx lsu (bundle_table kc_old_value b))) k = v)"
proof -
  let ?exp = "expected_values nx lsu (bundle_table kc_old_value b)" and ?new = "map_of (bundle_table kc_new_value b)"
  have keeps: "bt_wf ?exp" "dom (map_of (bundle_table kc_old_value b)) \<subseteq> dom (map_of ?exp)"
    using expected_keeps[OF bundle_table_lookup(1), where nx = nx and lsu = lsu and b1 = b and f1 = kc_old_value] by (simp_all add: covers_def)
  have "list_all (\<lambda>(k, vexp). case ?new k of Some vnew \<Rightarrow> vnew = vexp | None \<Rightarrow> True) ?exp
      \<longleftrightarrow> (\<forall>k vexp vnew. map_of ?exp k = Some vexp \<longrightarrow> ?new k = Some vnew \<longrightarrow> vnew = vexp)"
    using map_of_eq_Some_iff[OF bt.wf_distinct[OF keeps(1)]] by (fastforce simp: list_all_iff split: option.splits)
  also have "\<dots> \<longleftrightarrow> (\<forall>k v. ?new k = Some v \<longrightarrow> value_at (map_of ?exp) k = v)"
  proof -
    have "k \<in> dom (map_of ?exp)" if "?new k = Some v" for k v
      using keeps(2) that by (metis bundle_table_dom domI subsetD)
    then show ?thesis by (fastforce simp: value_at_def)
  qed
  finally show ?thesis
    unfolding verify_state_transition_bundle_def Let_def by (auto simp: list_ex_iff)
qed

section \<open>Bundles tell the truth\<close>

lemma map_of_rev: "distinct (map fst m) \<Longrightarrow> map_of (rev m) = map_of m"
  by (rule map_of_inject_set[THEN iffD2]) (simp_all add: rev_map[symmetric])

lemma bt_insert_sub: "set (bt_insert k v m) \<subseteq> insert (k, v) (set m)"
  by (induction k v m rule: bt_insert.induct) auto

lemma build_level_hashes:
  assumes "\<forall>x. length (sha256 x) = 32"
  shows "build_level sha256 cur e todo nxt processed = Inr m \<Longrightarrow> \<forall>h \<in> snd ` set nxt. length h = 32
     \<Longrightarrow> \<forall>h \<in> snd ` set m. length h = 32"
proof (induction todo arbitrary: nxt processed)
  case (Cons x todo)
  obtain idx hcur where x: "x = (idx, hcur)" by fastforce
  obtain l r where lr: "(if idx_lsb idx = 0 then (hcur, get_or cur (idx_xor1 idx) e) else (get_or cur (idx_xor1 idx) e, hcur)) = (l, r)"
    by fastforce
  have "\<forall>h \<in> snd ` set (bt_insert (idx_shr1 idx) (h_node sha256 l r) nxt). length h = 32"
    using Cons.prems(2) assms bt_insert_sub[of "idx_shr1 idx" "h_node sha256 l r" nxt] by (auto simp: h_node_def)
  then show ?case using Cons.prems Cons.IH unfolding x build_level.simps Let_def lr prod.case
    by (simp split: if_splits option.splits)
qed simp

lemma build_depths_hashes:
  assumes "build_depths sha256 d cur = Inr ds" and "\<forall>x. length (sha256 x) = 32" and "\<forall>h \<in> snd ` set cur. length h = 32"
  shows "\<forall>m \<in> set ds. \<forall>h \<in> snd ` set m. length h = 32"
  using assms(1,3)
proof (induction d arbitrary: cur ds)
  case (Suc d)
  then obtain nxt ds' where "build_level sha256 cur (empty_hashes sha256 ! (TREE_DEPTH - Suc d)) cur [] [] = Inr nxt"
    "build_depths sha256 d nxt = Inr ds'" "ds = ds' @ [cur]"
    by (auto split: sum.splits)
  with Suc.IH[of nxt ds'] build_level_hashes[OF assms(2)] Suc.prems(2) show ?case by fastforce
qed simp

lemma path_steps_siblings:
  assumes "\<forall>x. length (sha256 x) = 32" and "\<forall>m \<in> set ds. \<forall>h \<in> snd ` set m. length h = 32"
  shows "d < length ds \<Longrightarrow> d \<le> TREE_DEPTH \<Longrightarrow> st \<in> set (path_steps sha256 ds d idx) \<Longrightarrow> length (sibling st) = 32"
proof (induction d arbitrary: idx)
  case (Suc d)
  have "length (empty_hash sha256 h) = 32" for h using assms(1) by (cases h) (simp_all add: h_empty_leaf_def h_node_def)
  then have "length (get_or (ds ! Suc d) i (empty_hashes sha256 ! (TREE_DEPTH - Suc d))) = 32" for i
    using assms(2) Suc.prems nth_mem[OF Suc.prems(1)]
    by (force simp: get_or_def empty_hashes_nth dest!: map_of_SomeD split: option.split)
  with Suc show ?case by auto
qed simp

text \<open>The proof a store gives of the value of a key, and the bytes hashed into its leaf.\<close>

definition proof_of_key :: "(bytes \<Rightarrow> bytes) \<Rightarrow> kvs \<Rightarrow> bytes \<Rightarrow> MerkleProof" where
  "proof_of_key sha256 kvs key =
     (case compute_root_and_multi_proofs_from_iter sha256 kvs [key] of Inr (_, (_, _, p) # _) \<Rightarrow> p | _ \<Rightarrow> \<lparr>leaf = [], steps = []\<rparr>)"

definition value_input :: "kvs \<Rightarrow> bytes \<Rightarrow> bytes" where
  "value_input kvs key = (case map_of kvs key of Some v \<Rightarrow> leaf_input key v | None \<Rightarrow> [2])"

definition distinct_inputs :: "(bytes \<Rightarrow> bytes) \<Rightarrow> kvs \<Rightarrow> KeyProofChange \<Rightarrow> bool" where
  "distinct_inputs sha256 kvs c \<longleftrightarrow> inj_on sha256 (insert (kc_key c) (fst ` set kvs))
     \<and> inj_on sha256 ({[2], leaf_input (kc_key c) (kc_old_value c), value_input kvs (kc_key c)}
         \<union> proof_inputs sha256 (kc_old_proof c) \<union> proof_inputs sha256 (proof_of_key sha256 kvs (kc_key c)))"

lemma proof_of_key_verifies:
  assumes sha: "\<forall>x. length (sha256 x) = 32" and wf: "bt_wf kvs" and inj: "inj_on sha256 (insert key (fst ` set kvs))"
    and root: "compute_root_from_iter sha256 kvs = Inr root"
  shows "verify_proof_for_key_and_leaf sha256 root key (sha256 (value_input kvs key)) (proof_of_key sha256 kvs key)"
    and "siblings_32 (proof_of_key sha256 kvs key)"
proof -
  obtain ds where b: "build_depth_maps sha256 (leaf_map_of sha256 kvs) = Inr (root, ds)"
    using root by (auto simp: compute_root_from_iter_def split: sum.splits)
  then have ds: "build_depths sha256 TREE_DEPTH (leaf_map_of sha256 kvs) = Inr ds"
    by (auto simp: build_depth_maps_def split: sum.splits)
  have vals: "map_of (fold (\<lambda>(k, v) m. bt_insert k v m) kvs []) = map_of kvs"
    using fold_bt_insert[of "[]" kvs] map_of_rev[OF bt.wf_distinct[OF wf]] by simp
  let ?lf = "sha256 (value_input kvs key)"
  have lf: "?lf = (case map_of kvs key of Some v \<Rightarrow> leaf_hash_for_kv sha256 key v | None \<Rightarrow> h_empty_leaf sha256)"
    by (simp add: value_input_def leaf_hash_input h_empty_leaf_def split: option.split)
  have p: "proof_of_key sha256 kvs key = \<lparr>leaf = ?lf, steps = path_steps sha256 ds TREE_DEPTH (key_path sha256 key)\<rparr>"
    by (simp add: proof_of_key_def compute_root_and_multi_proofs_from_iter_def b vals lf Let_def)
  have "?lf = get_or (leaf_map_of sha256 kvs) (key_path sha256 key) (h_empty_leaf sha256)"
    using leaf_map_of_key[OF inj] map_of_rev[OF bt.wf_distinct[OF wf]] by (simp add: lf get_or_def split: option.split)
  then show "verify_proof_for_key_and_leaf sha256 root key ?lf (proof_of_key sha256 kvs key)"
    unfolding p by (rule generated_proof_verifies[OF sha _ b])
  have "length ds = Suc TREE_DEPTH" using build_depths_spec[OF leaf_map_of_wf[OF sha] order_refl, of sha256 kvs]
    unfolding ds by (elim exE conjE) simp
  moreover have "length h = 32" if "(i, h) \<in> set (leaf_map_of sha256 kvs)" for i h
  proof -
    have "map_of (leaf_map_of sha256 kvs) i = Some h" using that bt.wf_distinct[OF leaf_map_of_lookup(1)] by simp
    then have "(i, h) \<in> set (leaf_entries sha256 kvs)" unfolding leaf_map_of_lookup(2) by (auto dest: map_of_SomeD)
    then show ?thesis using sha by (auto simp: leaf_entries_def leaf_hash_input)
  qed
  then have "\<forall>h \<in> snd ` set (leaf_map_of sha256 kvs). length h = 32" by auto
  ultimately show "siblings_32 (proof_of_key sha256 kvs key)"
    unfolding p siblings_32_def using path_steps_siblings[OF sha build_depths_hashes[OF ds sha], of TREE_DEPTH] by simp
qed

lemma change_tells_value:
  assumes sha: "\<forall>x. length (sha256 x) = 32" and wf: "bt_wf kvs" and root: "compute_root_from_iter sha256 kvs = Inr root"
    and dist: "distinct_inputs sha256 kvs c" and sib: "siblings_32 (kc_old_proof c)"
    and ver: "verify_state_proof_for_change sha256 root (kc_key c) (kc_old_value c) (kc_old_proof c)"
  shows "kc_old_value c = value_at (map_of kvs) (kc_key c)"
proof -
  let ?k = "kc_key c" let ?v = "kc_old_value c" let ?p = "kc_old_proof c"
  have inj: "inj_on sha256 (insert ?k (fst ` set kvs))" using dist by (simp add: distinct_inputs_def)
  note own = proof_of_key_verifies[OF sha wf inj root]
  define a where "a = (if leaf ?p = h_empty_leaf sha256 then [2] else leaf_input ?k ?v)"
  have "verify_proof_for_key_and_leaf sha256 root ?k (sha256 a) ?p"
    using ver by (auto simp: a_def verify_state_proof_for_change_def verify_absence_proof_for_key_def verify_proof_for_key_def
        h_empty_leaf_def leaf_hash_input split: if_splits)
  moreover have "inj_on sha256 ({a, value_input kvs ?k} \<union> proof_inputs sha256 ?p \<union> proof_inputs sha256 (proof_of_key sha256 kvs ?k))"
    by (rule inj_on_subset[OF conjunct2[OF dist[unfolded distinct_inputs_def]]]) (auto simp: a_def)
  ultimately have "a = value_input kvs ?k" using proofs_bind[OF sha sib own(2) _ own(1)] by blast
  then show ?thesis using ver
    by (auto simp: a_def value_input_def value_at_def verify_state_proof_for_change_def leaf_input_inject leaf_input_def
        split: if_splits option.splits)
qed


section \<open>The bundle of an honest producer\<close>

text \<open>What an update does to the accounts besides its entries and nonces: payments into balances, and fee credits.\<close>

definition has_balance :: "bytes \<Rightarrow> Store \<Rightarrow> bool" where
  "has_balance pk s \<longleftrightarrow> (\<exists>v :: i64. store_get s (balance_key_for_pubkey pk) = Some (to_le_bytes v))"

definition pays :: "Store \<Rightarrow> Store \<Rightarrow> bool" where
  "pays s t \<longleftrightarrow> touches (\<lambda>k. bal_key k \<or> credit_key k \<or> daily_key k) s t \<and> (store_ok s \<longrightarrow> (\<forall>pk. has_balance pk s \<longrightarrow> has_balance pk t))"

lemma pays_refl: "pays s s"
  by (simp add: pays_def)

lemma pays_trans: "pays s t \<Longrightarrow> pays t u \<Longrightarrow> pays s u"
  by (auto simp: pays_def touches_def)

lemma has_balance_set: "store_ok s \<Longrightarrow> has_balance pk (set_balance_i64 pk' v s) \<longleftrightarrow> pk = pk' \<or> has_balance pk s"
  by (auto simp: has_balance_def set_balance_i64_def acc.get_put balance_key_for_pubkey_def)

lemma pays_credit: "pays s (credit pk v s)"
  using touches_mono[OF credit_touches] by (auto simp: pays_def credit_def has_balance_set)

lemma has_balance_quiet: "touches L s t \<Longrightarrow> store_ok s \<Longrightarrow> (\<And>k. L k \<Longrightarrow> \<not> bal_key k) \<Longrightarrow> has_balance pk t \<longleftrightarrow> has_balance pk s"
  unfolding has_balance_def touches_def using bal_key_simps(1) by metis

lemma pays_quiet: "touches (\<lambda>k. credit_key k \<or> daily_key k) s t \<Longrightarrow> pays s t"
  using has_balance_quiet[of "\<lambda>k. credit_key k \<or> daily_key k" s t] touches_mono[of "\<lambda>k. credit_key k \<or> daily_key k" s t]
  by (auto simp: pays_def credit_daily_not_bal)

lemma pays_fold: "(\<And>x t. pays t (f x t)) \<Longrightarrow> pays s (fold f xs s)"
  by (induction xs arbitrary: s) (auto intro: pays_refl pays_trans)

lemma compensation_pays: "pays s (apply_compensation cs s)"
  unfolding apply_compensation_def by (rule pays_fold) (simp add: pays_refl pays_credit)

lemma settle_pays: "pays s (settle_fee_credit_spend_for_applied_cycle nx lsu s)"
proof -
  have "pays t (if 0 < spend then credit pk spend u else u)" if "apply_fee_credit_spend_for_cycle nx pk due cyc t = (spend, u)" for pk due cyc t spend u
    using pays_quiet[OF spend_effect(2)[OF that]] pays_credit by (auto intro: pays_trans)
  then have "pays t (settle_group nx cyc g t)" for cyc g t
    by (auto simp: settle_group_def Let_def pays_refl split: option.split prod.split)
  then show ?thesis unfolding settle_fee_credit_spend_for_applied_cycle_def by (auto intro!: pays_fold pays_refl split: prod.split)
qed

lemma pay_waiting_pays: "pays s (pay_waiting per rem pks s)"
proof (induction pks arbitrary: rem s)
  case (Cons pk pks)
  have accrue: "pays t (accrue_credit q t)" for q t
    by (rule pays_quiet) (simp add: accrue_credit_def set_fee_credit_balance_u64_def touches_set)
  have paid: "pays s (if 0 < per \<or> 0 < rem then credit pk v s else s)" for v by (simp add: pays_refl pays_credit)
  have "pays s (accrue_credit pk (if 0 < per \<or> 0 < rem then credit pk v s else s))" for v by (rule pays_trans[OF paid accrue])
  with paid show ?case unfolding pay_waiting.simps Let_def by (auto intro: pays_trans[OF _ Cons.IH])
qed (simp add: pays_refl)

lemma distribute_pays: "pays s (distribute_waiting_pool_rewards_and_fee_credits nx lsu s)"
  by (simp add: distribute_waiting_pool_rewards_and_fee_credits_def Let_def pay_waiting_pays pays_refl)

text \<open>Stores that agree on keys other than balances go on agreeing when the nonces are counted.\<close>

definition agree_off_balances :: "Store \<Rightarrow> Store \<Rightarrow> bool" where
  "agree_off_balances s t \<longleftrightarrow> store_ok s \<and> store_ok t \<and> (\<forall>k. bundled_key k \<longrightarrow> \<not> bal_key k \<longrightarrow> store_get s k = store_get t k)"

lemma agree_pays: "agree_off_balances s t \<Longrightarrow> pays t u \<Longrightarrow> agree_off_balances s u"
proof -
  have "\<not> credit_key k \<and> \<not> daily_key k" if "bundled_key k" "\<not> bal_key k" for k
    using that by (cases k) (auto simp: bundled_key_def worker_key_def key_kinds has_prefix_def as_bytes_def)
  then show "agree_off_balances s t \<Longrightarrow> pays t u \<Longrightarrow> agree_off_balances s u" by (auto simp: agree_off_balances_def pays_def touches_def)
qed

lemma agree_nonces:
  assumes "agree_off_balances s t"
  shows "agree_off_balances (apply_nonces f es s) (apply_nonces f es t)"
proof -
  have "agree_off_balances (bump_nonce o1 a) (bump_nonce o1 b)" if ab: "agree_off_balances a b" for o1 a b
  proof (cases o1)
    case (Some pk)
    have "get_nonce_u64 a pk = get_nonce_u64 b pk" using ab by (simp add: agree_off_balances_def get_nonce_u64_def bundled_key_def)
    with ab Some show ?thesis by (simp add: agree_off_balances_def bump_nonce_def set_nonce_u64_def acc.ok_put acc.get_put)
  qed (simp add: bump_nonce_def ab)
  then have "agree_off_balances a b \<Longrightarrow> agree_off_balances (fold (\<lambda>(_, g). bump_nonce (f g)) gs a) (fold (\<lambda>(_, g). bump_nonce (f g)) gs b)"
    for a b and gs :: "(bytes \<times> TransactionEntry list) list"
    by (induction gs arbitrary: a b) (auto split: prod.split)
  then show ?thesis using assms by (simp add: apply_nonces_def)
qed

text \<open>Every plain participant has a balance once the entries are applied.\<close>

lemma entries_have_balances:
  assumes ok: "store_ok s" and "\<not> lsu_contains_evm lsu" and es: "es = pu_transaction_entries (lsu_partial_update lsu)"
    and e: "e \<in> set es" "\<not> is_worker_reg_marker (te_signature e)"
  shows "has_balance (te_public_key e) (ap_store (apply_entries nx cyc es s))"
proof -
  have plain: "x \<in> set es \<Longrightarrow> plain_entry x" for x
    using assms(2) es by (auto simp: lsu_contains_evm_def plain_entry_def list_ex_iff)
  have one: "store_ok (ap_store (apply_entry nx c cyc x st)) \<and> (has_balance pk (ap_store st) \<longrightarrow> has_balance pk (ap_store (apply_entry nx c cyc x st)))
      \<and> (\<not> is_worker_reg_marker (te_signature x) \<longrightarrow> has_balance (te_public_key x) (ap_store (apply_entry nx c cyc x st)))"
    if "store_ok (ap_store st)" "plain_entry x" for c x st pk
  proof (cases "is_worker_reg_marker (te_signature x)")
    case True
    have "touches (\<lambda>k. \<not> bal_key k) u (register_worker (te_public_key x) cyc u)" for u
      by (auto simp: register_worker_def set_worker_last_registration_cycle_def ensure_worker_first_seen_cycle_def Let_def
          intro!: touches_set touches_trans[OF _ touches_set])
    note quiet = this[of "ap_store st"]
    have "has_balance pk (register_worker (te_public_key x) cyc (ap_store st)) \<longleftrightarrow> has_balance pk (ap_store st)"
      "store_ok (register_worker (te_public_key x) cyc (ap_store st))"
      using has_balance_quiet[OF quiet that(1)] quiet that(1) by (auto simp: touches_def)
    with True show ?thesis by (simp add: apply_entry_def or_insert_success_def Let_def)
  next
    case False
    with that show ?thesis
      by (simp add: apply_entry_def plain_entry_def or_insert_success_def Let_def has_balance_set) (simp add: set_balance_i64_def acc.ok_put)
  qed
  have run: "store_ok (ap_store st) \<Longrightarrow> has_balance pk (ap_store st) \<or> (\<exists>x \<in> set xs. te_public_key x = pk \<and> \<not> is_worker_reg_marker (te_signature x))
      \<Longrightarrow> has_balance pk (ap_store (fold (apply_entry nx c cyc) xs st))" if "\<And>x. x \<in> set xs \<Longrightarrow> plain_entry x" for xs st c pk
    using that
  proof (induction xs arbitrary: st)
    case (Cons x xs)
    note o1 = one[OF Cons.prems(1), of x c pk]
    show ?case using Cons.IH[of "apply_entry nx c cyc x st"] Cons.prems o1 by auto
  qed simp
  show ?thesis unfolding apply_entries_def by (rule run[OF plain]) (use e ok in auto)
qed

text \<open>The proofs a store gives of the touched keys, and the changes they make up.\<close>

lemma state_proofs_of_store:
  assumes "bt_wf (accounts s)" and "compute_root_from_iter (sha nx) (accounts s) = Inr root" and "\<not> lsu_contains_evm lsu"
  shows "state_proofs nx lsu fallback s
    = (root, map (\<lambda>k. (k, store_get s k, proof_of_key (sha nx) (accounts s) k)) (touched_keys_for_lsu nx lsu))"
proof -
  obtain ds where b: "build_depth_maps (sha nx) (leaf_map_of (sha nx) (accounts s)) = Inr (root, ds)"
    using assms(2) by (auto simp: compute_root_from_iter_def split: sum.splits)
  have "map_of (fold (\<lambda>(k, v) m. bt_insert k v m) (accounts s) []) = store_get s"
    using fold_bt_insert[of "[]" "accounts s"] map_of_rev[OF bt.wf_distinct[OF assms(1)]] by (simp add: store_get_def)
  then show ?thesis
    by (simp add: state_proofs_def assms(3) compute_root_and_multi_proofs_from_iter_def proof_of_key_def b Let_def)
qed

lemma proofs_by_key_lookup:
  "bt_wf (proofs_by_key (map (\<lambda>k. (k, f k)) ks))"
  "map_of (proofs_by_key (map (\<lambda>k. (k, f k)) ks)) k = (if k \<in> set ks then Some (f k) else None)"
proof -
  let ?ps = "map (\<lambda>k. (k, f k)) ks"
  have "proofs_by_key ?ps = fold (\<lambda>(k, v) m. bt_insert k v m) ?ps []" by (simp add: proofs_by_key_def case_prod_unfold)
  then show "bt_wf (proofs_by_key ?ps)" "map_of (proofs_by_key ?ps) k = (if k \<in> set ks then Some (f k) else None)"
    using fold_bt_insert[of "[]" ?ps] by (simp_all add: rev_map map_of_map_restrict restrict_map_def)
qed

definition change_of :: "('s, 'p) node_env \<Rightarrow> Store \<Rightarrow> Store \<Rightarrow> bytes \<Rightarrow> KeyProofChange" where
  "change_of nx s t k = \<lparr>kc_key = k, kc_old_value = value_at (store_get s) k, kc_old_proof = proof_of_key (sha nx) (accounts s) k,
     kc_new_value = value_at (store_get t) k, kc_new_proof = proof_of_key (sha nx) (accounts t) k\<rparr>"

lemma in_map_filter: "y \<in> set (List.map_filter f xs) \<longleftrightarrow> (\<exists>x \<in> set xs. f x = Some y)"
  by (force simp: List.map_filter_def)

lemma proof_changes_of_stores:
  "set (proof_changes (map (\<lambda>k. (k, store_get s k, proof_of_key (sha nx) (accounts s) k)) ks)
     (map (\<lambda>k. (k, store_get t k, proof_of_key (sha nx) (accounts t) k)) ks)) = change_of nx s t ` set ks" (is "set (proof_changes ?ps ?qs) = _")
proof -
  have mem: "(k, ov, p) \<in> set (proofs_by_key ?ps) \<longleftrightarrow> k \<in> set ks \<and> ov = store_get s k \<and> p = proof_of_key (sha nx) (accounts s) k" for k ov p
    unfolding map_of_eq_Some_iff[OF bt.wf_distinct[OF proofs_by_key_lookup(1)], symmetric] by (auto simp: proofs_by_key_lookup(2))
  define F where "F = (\<lambda>(k, ov, p). case map_of (proofs_by_key ?qs) k of
      Some (nv, np) \<Rightarrow> Some \<lparr>kc_key = k, kc_old_value = opt_or ov [], kc_old_proof = p, kc_new_value = opt_or nv [], kc_new_proof = np\<rparr>
    | None \<Rightarrow> None)"
  have F: "F (k, store_get s k, proof_of_key (sha nx) (accounts s) k) = Some (change_of nx s t k)" if "k \<in> set ks" for k
    using that by (simp add: F_def proofs_by_key_lookup(2) change_of_def value_at_def)
  have pc: "proof_changes ?ps ?qs = List.map_filter F (proofs_by_key ?ps)" unfolding proof_changes_def F_def ..
  show ?thesis
  proof (intro set_eqI iffI)
    fix c
    assume "c \<in> set (proof_changes ?ps ?qs)"
    then obtain x where x: "x \<in> set (proofs_by_key ?ps)" "F x = Some c" unfolding pc in_map_filter by blast
    obtain k ov p where "x = (k, ov, p)" by (cases x)
    with x mem F show "c \<in> change_of nx s t ` set ks" by auto
  next
    fix c
    assume "c \<in> change_of nx s t ` set ks"
    then obtain k where "k \<in> set ks" "c = change_of nx s t k" by blast
    with F mem show "c \<in> set (proof_changes ?ps ?qs)" unfolding pc in_map_filter by blast
  qed
qed

lemma own_change_verifies:
  assumes "\<forall>x. length (sha nx x) = 32" and ok: "store_ok s" and "inj_on (sha nx) (insert k (fst ` set (accounts s)))"
    and "compute_root_from_iter (sha nx) (accounts s) = Inr root"
    and leafs: "\<And>v. store_get s k = Some v \<Longrightarrow> sha nx (leaf_input k v) \<noteq> sha nx [2]"
  shows "verify_state_proof_for_change (sha nx) root k (value_at (store_get s) k) (proof_of_key (sha nx) (accounts s) k)"
proof -
  have ver: "verify_proof_for_key_and_leaf (sha nx) root k (sha nx (value_input (accounts s) k)) (proof_of_key (sha nx) (accounts s) k)"
    by (rule proof_of_key_verifies[OF assms(1) _ assms(3,4)]) (use ok in \<open>simp add: store_ok_def\<close>)
  then have lf: "leaf (proof_of_key (sha nx) (accounts s) k) = sha nx (value_input (accounts s) k)" by (simp add: verify_iff)
  show ?thesis
  proof (cases "store_get s k")
    case None
    with ver lf show ?thesis
      by (simp add: verify_state_proof_for_change_def value_input_def store_get_def value_at_def verify_absence_proof_for_key_def h_empty_leaf_def)
  next
    case (Some v)
    with ver lf leafs[OF Some] show ?thesis
      by (simp add: verify_state_proof_for_change_def value_input_def store_get_def value_at_def verify_proof_for_key_def h_empty_leaf_def
          leaf_hash_input)
  qed
qed

lemma touched_keys_bundled:
  assumes "\<not> lsu_contains_evm lsu" and "k \<in> set (touched_keys_for_lsu nx lsu)"
  shows "bundled_key k \<and> (bal_key k \<longrightarrow> (\<exists>e \<in> set (pu_transaction_entries (lsu_partial_update lsu)).
      \<not> is_worker_reg_marker (te_signature e) \<and> k = balance_key_for_pubkey (te_public_key e)))"
proof -
  let ?es = "pu_transaction_entries (lsu_partial_update lsu)"
  have "\<not> is_evm_marker (te_signature e)" if "e \<in> set ?es" for e using assms(1) that by (auto simp: lsu_contains_evm_def list_ex_iff)
  moreover have "worker_key_for_pubkey pk \<noteq> balance_key_for_pubkey q" for pk q using worker_key_simps(1,2) by metis
  ultimately show ?thesis using assms(2)
    by (auto simp: touched_keys_for_lsu_def Let_def touched_key_def bundled_key_def in_map_filter split: if_splits)
qed

lemma touched_keys_balances:
  assumes "e \<in> set (pu_transaction_entries (lsu_partial_update lsu))" and "\<not> lsu_contains_evm lsu" and "\<not> is_worker_reg_marker (te_signature e)"
  shows "balance_key_for_pubkey (te_public_key e) \<in> set (touched_keys_for_lsu nx lsu)"
  using assms by (force simp: touched_keys_for_lsu_def Let_def touched_key_def in_map_filter lsu_contains_evm_def list_ex_iff)

lemma nonce_not_bal: "nonce_key k \<Longrightarrow> \<not> bal_key k"
  by (cases k) (auto simp: key_kinds has_prefix_def as_bytes_def)

text \<open>Whether the ledger after an update has the values its entries and nonces give, key by key.\<close>

lemma effects_on_bundled:
  assumes ok: "store_ok s" and agree: "senders_agree lsu" and es: "es = pu_transaction_entries (lsu_partial_update lsu)"
    and t: "accounts t = accounts (snd (apply_effects nx sender_of_group lsu s))"
    and s1: "s1 = ap_store (apply_entries nx (lsu_cycle_number lsu) es s)"
  shows "\<exists>s3. agree_off_balances (entry_effects nx lsu s) s3 \<and> (\<forall>pk. has_balance pk s1 \<longrightarrow> has_balance pk s3)
    \<and> (\<forall>pk. has_balance pk s1 \<longrightarrow> has_balance pk (entry_effects nx lsu s))
    \<and> get_balance_i64 (entry_effects nx lsu s) = get_balance_i64 s1 \<and> (\<forall>k. bundled_key k \<longrightarrow> store_get t k = store_get s3 k)"
proof -
  let ?comp = "apply_compensation (lsu_compensation_entries lsu) s1"
  define s2 where "s2 = apply_nonces trusted_sender_of_group es ?comp"
  define s3 where "s3 = distribute_waiting_pool_rewards_and_fee_credits nx lsu (settle_fee_credit_spend_for_applied_cycle nx lsu s2)"
  have ee: "entry_effects nx lsu s = apply_nonces trusted_sender_of_group es s1" by (simp add: entry_effects_def s1 es)
  have ok1: "store_ok s1" using apply_entries_touches ok by (auto simp: s1 touches_def)
  have pays3: "pays s2 s3" unfolding s3_def by (rule pays_trans[OF settle_pays distribute_pays])
  have nonces: "has_balance pk (apply_nonces trusted_sender_of_group es u) \<and> store_ok (apply_nonces trusted_sender_of_group es u)"
    if "store_ok u" "has_balance pk u" for u pk
    using has_balance_quiet[OF apply_nonces_touches that(1)] that apply_nonces_touches[of u] nonce_not_bal by (auto simp: touches_def)
  have comp: "agree_off_balances s1 ?comp" "has_balance pk s1 \<Longrightarrow> store_ok ?comp \<and> has_balance pk ?comp" for pk
    using agree_pays[OF _ compensation_pays, of s1] compensation_pays[of s1] ok1 by (auto simp: agree_off_balances_def pays_def touches_def)
  have off: "agree_off_balances (entry_effects nx lsu s) s3"
    by (rule agree_pays[OF _ pays3]) (use agree_nonces[OF comp(1), of trusted_sender_of_group es] in \<open>simp add: ee s2_def\<close>)
  have t3: "store_get t = store_get (write_root_cycle_counter (lsu_cycle_number lsu) s3)"
    using t unfolding effects_agree[OF agree, symmetric] by (simp add: apply_effects_def Let_def s1 s2_def s3_def es store_get_def)
  show ?thesis
  proof (intro exI[of _ s3] conjI allI impI off)
    show "has_balance pk s3" if "has_balance pk s1" for pk
      using nonces[of ?comp pk] comp(2)[OF that] pays3 unfolding s2_def[symmetric] by (auto simp: pays_def)
    show "has_balance pk (entry_effects nx lsu s)" if "has_balance pk s1" for pk unfolding ee using nonces[OF ok1 that] by simp
    show "get_balance_i64 (entry_effects nx lsu s) = get_balance_i64 s1"
      unfolding ee by (rule touches_balance[OF apply_nonces_touches nonce_not_bal ok1])
    show "store_get t k = store_get s3 k" if "bundled_key k" for k
    proof -
      have "k \<noteq> ROOT_CYCLE_COUNTER_KEY" using that by (auto simp: bundled_key_def)
      then show ?thesis using off by (simp add: t3 write_root_cycle_counter_def acc.get_put agree_off_balances_def)
    qed
  qed
qed

lemma touched_values_agree:
  assumes ok: "store_ok s" and evm: "\<not> lsu_contains_evm lsu" and agree: "senders_agree lsu"
    and t: "accounts t = accounts (snd (apply_effects nx sender_of_group lsu s))" and es: "es = pu_transaction_entries (lsu_partial_update lsu)"
  shows "(\<forall>k \<in> set (touched_keys_for_lsu nx lsu). value_at (store_get (entry_effects nx lsu s)) k = value_at (store_get t) k)
     \<longleftrightarrow> (\<forall>e \<in> set es. is_worker_reg_marker (te_signature e)
            \<or> get_balance_i64 t (te_public_key e) = get_balance_i64 (ap_store (apply_entries nx (lsu_cycle_number lsu) es s)) (te_public_key e))"
proof -
  define s1 where "s1 = ap_store (apply_entries nx (lsu_cycle_number lsu) es s)"
  obtain s3 where off: "agree_off_balances (entry_effects nx lsu s) s3" and has: "\<And>pk. has_balance pk s1 \<Longrightarrow> has_balance pk s3"
    "\<And>pk. has_balance pk s1 \<Longrightarrow> has_balance pk (entry_effects nx lsu s)" and bal: "get_balance_i64 (entry_effects nx lsu s) = get_balance_i64 s1"
    and t3: "\<And>k. bundled_key k \<Longrightarrow> store_get t k = store_get s3 k"
    using effects_on_bundled[OF ok agree es t s1_def] by blast
  have rest: "value_at (store_get (entry_effects nx lsu s)) k = value_at (store_get t) k" if "bundled_key k" "\<not> bal_key k" for k
    using off that t3 by (simp add: agree_off_balances_def value_at_def)
  have balances: "value_at (store_get (entry_effects nx lsu s)) (balance_key_for_pubkey pk) = value_at (store_get t) (balance_key_for_pubkey pk)
      \<longleftrightarrow> get_balance_i64 t pk = get_balance_i64 s1 pk" if "has_balance pk s1" for pk
    using has[OF that] t3 unfolding bal[symmetric] by (auto simp: has_balance_def value_at_def get_balance_i64_def bundled_key_def)
  have participant: "has_balance (te_public_key e) s1" if "e \<in> set es" "\<not> is_worker_reg_marker (te_signature e)" for e
    unfolding s1_def by (rule entries_have_balances[OF ok evm es that])
  show ?thesis unfolding s1_def[symmetric]
  proof (intro iffI ballI)
    fix e
    assume all: "\<forall>k \<in> set (touched_keys_for_lsu nx lsu). value_at (store_get (entry_effects nx lsu s)) k = value_at (store_get t) k" and e: "e \<in> set es"
    show "is_worker_reg_marker (te_signature e) \<or> get_balance_i64 t (te_public_key e) = get_balance_i64 s1 (te_public_key e)"
    proof (rule disjCI, rule ccontr)
      assume m: "\<not> is_worker_reg_marker (te_signature e)" and "get_balance_i64 t (te_public_key e) \<noteq> get_balance_i64 s1 (te_public_key e)"
      moreover have "get_balance_i64 t (te_public_key e) = get_balance_i64 s1 (te_public_key e)"
        by (rule balances[OF participant[OF e m], THEN iffD1], rule bspec[OF all touched_keys_balances[OF e[unfolded es] evm m]])
      ultimately show False by simp
    qed
  next
    fix k
    assume all: "\<forall>e \<in> set es. is_worker_reg_marker (te_signature e) \<or> get_balance_i64 t (te_public_key e) = get_balance_i64 s1 (te_public_key e)"
      and k: "k \<in> set (touched_keys_for_lsu nx lsu)"
    show "value_at (store_get (entry_effects nx lsu s)) k = value_at (store_get t) k"
    proof (cases "bal_key k")
      case True
      then obtain e where e: "e \<in> set es" "\<not> is_worker_reg_marker (te_signature e)" "k = balance_key_for_pubkey (te_public_key e)"
        using touched_keys_bundled[OF evm k] es by blast
      then show ?thesis using balances[OF participant[OF e(1,2)]] all by blast
    next
      case False
      show ?thesis by (rule rest[OF conjunct1[OF touched_keys_bundled[OF evm k]] False])
    qed
  qed
qed

lemma bundle_table_of_changes:
  assumes "set (sb_changes b) = change_of nx s t ` K"
  shows "map_of (bundle_table kc_old_value b) k = (if k \<in> K then Some (value_at (store_get s) k) else None)"
    and "map_of (bundle_table kc_new_value b) k = (if k \<in> K then Some (value_at (store_get t) k) else None)"
proof -
  have "map_of (bundle_table f b) k = (if k \<in> K then Some (g k) else None)" if "\<And>q. f (change_of nx s t q) = g q" for f and g :: "bytes \<Rightarrow> bytes"
  proof (cases "map_of (bundle_table f b) k")
    case None
    then have "k \<notin> kc_key ` change_of nx s t ` K" unfolding assms[symmetric] bundle_table_dom[of f b, symmetric] by blast
    then show ?thesis using None by (force simp: change_of_def image_image)
  next
    case (Some v)
    then show ?thesis using bundle_table_entry[OF Some] assms that by (auto simp: change_of_def)
  qed
  from this[of kc_old_value "value_at (store_get s)"] this[of kc_new_value "value_at (store_get t)"]
  show "map_of (bundle_table kc_old_value b) k = (if k \<in> K then Some (value_at (store_get s) k) else None)"
    and "map_of (bundle_table kc_new_value b) k = (if k \<in> K then Some (value_at (store_get t) k) else None)"
    by (simp_all add: change_of_def)
qed

lemma verify_change_bundle:
  assumes changes: "set (sb_changes b) = change_of nx s t ` set (touched_keys_for_lsu nx lsu)" and ok: "store_ok s"
    and lsu: "\<not> lsu_contains_evm lsu" "touched_keys_for_lsu nx lsu \<noteq> []" "sb_cycle b = lsu_cycle_number lsu"
    and legs: "\<And>k. k \<in> set (touched_keys_for_lsu nx lsu) \<Longrightarrow> verify_state_proof_for_change (sha nx) (sb_prev_state_root b) k (value_at (store_get s) k)
        (proof_of_key (sha nx) (accounts s) k)"
      "\<And>k. k \<in> set (touched_keys_for_lsu nx lsu) \<Longrightarrow> verify_state_proof_for_change (sha nx) (sb_new_state_root b) k (value_at (store_get t) k)
        (proof_of_key (sha nx) (accounts t) k)"
  shows "verify_state_transition_bundle nx lsu b \<longleftrightarrow>
      (\<forall>k \<in> set (touched_keys_for_lsu nx lsu). value_at (store_get (entry_effects nx lsu s)) k = value_at (store_get t) k)"
proof -
  let ?K = "\<lambda>k. k \<in> set (touched_keys_for_lsu nx lsu)" and ?old = "bundle_table kc_old_value b"
  note tables = bundle_table_of_changes[OF changes]
  have "same_values ?K ?old s" by (simp add: same_values_def bundle_table_lookup(1) ok tables(1) value_at_def)
  then have "same_values ?K (expected_values nx lsu ?old) (entry_effects nx lsu s)"
    by (rule expected_values_follow) (use touched_keys_bundled[OF lsu(1)] lsu(1) in blast)+
  then have follow: "value_at (map_of (expected_values nx lsu ?old)) k = value_at (store_get (entry_effects nx lsu s)) k" if "?K k" for k
    using that by (simp add: same_values_def)
  have nonempty: "sb_changes b \<noteq> []" using changes lsu(2) by (metis empty_is_image set_empty)
  show ?thesis unfolding verify_bundle_iff tables(2) changes using follow nonempty legs lsu(3)
    by (auto simp: change_of_def)
qed


section \<open>Examples\<close>

lemma effects_sha: "apply_effects (nx\<lparr>sha := f\<rparr>) so lsu s = apply_effects nx so lsu s"
proof -
  have r: "de_payload (nx\<lparr>sha := f\<rparr>) = de_payload nx" "transact (nx\<lparr>sha := f\<rparr>) = transact nx" "create_address (nx\<lparr>sha := f\<rparr>) = create_address nx"
    "de_daily (nx\<lparr>sha := f\<rparr>) = de_daily nx" "ser_daily (nx\<lparr>sha := f\<rparr>) = ser_daily nx" "ext (nx\<lparr>sha := f\<rparr>) = ext nx" by simp_all
  have ent: "apply_entry (nx\<lparr>sha := f\<rparr>) = apply_entry nx" by (intro ext) (simp only: apply_entry_def run_evm_def r)
  have "apply_fee_credit_spend_for_cycle (nx\<lparr>sha := f\<rparr>) = apply_fee_credit_spend_for_cycle nx"
    by (intro ext) (simp only: apply_fee_credit_spend_for_cycle_def fee_credit_spendable_for_cycle_def get_fee_credit_daily_spend_def
        set_fee_credit_daily_spend_def r)
  then have "settle_group (nx\<lparr>sha := f\<rparr>) = settle_group nx" by (intro ext) (simp only: settle_group_def)
  then show ?thesis
    by (simp only: apply_effects_def apply_entries_def ent settle_fee_credit_spend_for_applied_cycle_def
        distribute_waiting_pool_rewards_and_fee_credits_def waiting_workers_def r)
qed

definition prefix_digest :: "bytes \<Rightarrow> bytes" where
  "prefix_digest x = take 32 (x @ replicate 32 0)"

definition prefix_env :: "(byte, byte) node_env" where
  "prefix_env = demo_env\<lparr>sha := prefix_digest\<rparr>"

lemma prefix_sha [simp]: "sha prefix_env = prefix_digest" "length (prefix_digest x) = 32"
  by (simp_all add: prefix_env_def prefix_digest_def)

lemma prefix_root_nonzero: "compute_root_from_iter prefix_digest m = Inr root \<Longrightarrow> root \<noteq> replicate 32 0"
proof -
  assume root: "compute_root_from_iter prefix_digest m = Inr root"
  obtain depths where f: "fold (step_hash prefix_digest) (path_steps prefix_digest depths TREE_DEPTH (replicate 32 0))
      (get_or (leaf_map_of prefix_digest m) (replicate 32 0) (h_empty_leaf prefix_digest)) = root"
    using build_depth_maps_spec[OF leaf_map_of_wf, of prefix_digest prefix_digest m] root
    by (auto simp: compute_root_from_iter_def) (metis length_replicate)
  have "length (path_steps prefix_digest depths TREE_DEPTH (replicate 32 0)) = 256" by (simp add: TREE_DEPTH_def)
  then obtain steps st where "path_steps prefix_digest depths TREE_DEPTH (replicate 32 0) = steps @ [st]"
    by (metis length_0_conv rev_exhaust zero_neq_numeral)
  then have "hd root = 1" using f by (auto simp: step_hash_def h_node_def prefix_digest_def)
  then show ?thesis by auto
qed

definition burn_keys :: "bytes set" where
  "burn_keys = {balance_key_for_pubkey payer, nonce_key_for_pubkey payer, ROOT_CYCLE_COUNTER_KEY}"

lemma burn_touched: "set (touched_keys_for_lsu nx burn_lsu) = {balance_key_for_pubkey payer, nonce_key_for_pubkey payer}"
  by (simp add: touched_keys_for_lsu_def burn_lsu_def group_by_sig_def bt_push_def trusted_sender_of_group_def first_debtor_def or_marker_def
      touched_key_def is_worker_reg_marker_def is_evm_marker_def has_prefix_def as_bytes_def List.map_filter_def)

lemma burn_keys_inj: "inj_on prefix_digest burn_keys"
  by (simp add: burn_keys_def inj_on_def prefix_digest_def key_defs as_bytes_def)


text \<open>A tree with one leaf on the path of zeros: its siblings are the hashes of empty subtrees.\<close>

lemma zero_index: "idx_xor1 (replicate 32 0) \<noteq> replicate 32 0" "idx_lsb (replicate 32 0) = 0" "idx_shr1 (replicate 32 0) = replicate 32 0"
proof -
  show lsb: "idx_lsb (replicate 32 0) = 0" by (simp add: idx_lsb_def)
  then show "idx_xor1 (replicate 32 0) \<noteq> replicate 32 0" using idx_lsb_xor1[of "replicate 32 0"] by fastforce
  have "be_nat (idx_shr1 (replicate 32 0)) = be_nat (replicate 32 0)" by (simp add: be_nat_shr1)
  then show "idx_shr1 (replicate 32 0) = replicate 32 0" by (subst (asm) be_nat_inject) simp_all
qed

lemma single_leaf_path:
  "build_depths sha256 d [(replicate 32 0, h)] = Inr ds \<Longrightarrow> d \<le> TREE_DEPTH \<Longrightarrow>
     length ds = Suc d \<and> path_steps sha256 ds d (replicate 32 0)
       = map (\<lambda>i. \<lparr>sibling_is_left = False, sibling = empty_hash sha256 i\<rparr>) [TREE_DEPTH - d..<TREE_DEPTH]"
proof (induction d arbitrary: h ds)
  case (Suc d)
  let ?z = "replicate 32 0 :: bytes" let ?e = "empty_hashes sha256 ! (TREE_DEPTH - Suc d)"
  have "build_level sha256 [(?z, h)] ?e [(?z, h)] [] [] = Inr [(?z, h_node sha256 h ?e)]"
    using zero_index by (simp add: get_or_def Let_def)
  then obtain ds' where ds': "build_depths sha256 d [(?z, h_node sha256 h ?e)] = Inr ds'" "ds = ds' @ [[(?z, h)]]"
    using Suc.prems(1) by (auto split: sum.splits)
  with Suc.IH[OF ds'(1)] Suc.prems(2) have len: "length ds' = Suc d"
    and path: "path_steps sha256 ds' d ?z = map (\<lambda>i. \<lparr>sibling_is_left = False, sibling = empty_hash sha256 i\<rparr>) [TREE_DEPTH - d..<TREE_DEPTH]"
    by simp_all
  have "[TREE_DEPTH - Suc d..<TREE_DEPTH] = (TREE_DEPTH - Suc d) # [TREE_DEPTH - d..<TREE_DEPTH]"
    using Suc.prems(2) by (simp add: upt_conv_Cons Suc_diff_Suc)
  then show ?case using len path Suc.prems(2) zero_index
    by (simp add: ds'(2) path_steps_append nth_append get_or_def empty_hashes_nth)
qed simp

lemma empty_hash_count: "i \<le> 256 \<Longrightarrow> empty_hash count_digest i = le_bytes 32 (1000 + i)"
  by (induction i) (simp_all add: h_empty_leaf_def h_node_def count_digest_def le_nat_le_bytes)

definition count_step :: "nat \<Rightarrow> MerkleStep" where
  "count_step i = \<lparr>sibling_is_left = False, sibling = le_bytes 32 (1000 + i)\<rparr>"

lemma chain_inputs_count_steps:
  "i + n \<le> 2 ^ 256 \<Longrightarrow> chain_inputs count_digest (le_bytes 32 i) (map count_step [i..<i + n])
     = map (\<lambda>j. [1] @ le_bytes 32 j @ le_bytes 32 (1000 + j)) [i..<i + n]"
proof (induction n arbitrary: i)
  case (Suc n)
  have "step_hash count_digest (count_step i) (le_bytes 32 i) = le_bytes 32 (i + 1)"
    using Suc.prems by (simp add: step_hash_input count_step_def count_digest_def le_nat_le_bytes)
  moreover have "[i..<i + Suc n] = i # [i + 1..<i + 1 + n]" by (simp add: upt_conv_Cons del: upt_Suc)
  ultimately show ?case using Suc.IH[of "i + 1"] Suc.prems by (simp add: count_step_def del: upt_Suc)
qed simp

definition single_proof :: MerkleProof where
  "single_proof = \<lparr>leaf = replicate 32 0, steps = map count_step [0..<256]\<rparr>"

lemma count_digest_plain [simp]: "count_digest (balance_key_for_pubkey payer) = replicate 32 0" "count_digest (leaf_input k v) = replicate 32 0"
  by (simp_all add: count_digest_def balance_key_for_pubkey_def as_bytes_def leaf_input_def)

lemma single_proof_of_key:
  "proof_of_key count_digest [(balance_key_for_pubkey payer, v)] (balance_key_for_pubkey payer) = single_proof"
proof -
  let ?k = "balance_key_for_pubkey payer" let ?z = "replicate 32 0 :: bytes"
  have m: "leaf_map_of count_digest [(?k, v)] = [(?z, ?z)]" by (simp add: leaf_map_of_def key_path_def leaf_hash_input)
  have wf: "level_wf [(?z, ?z)]" using level_wf_insert[OF level_wf_Nil, of ?z ?z] by simp
  obtain ds where ds: "build_depths count_digest TREE_DEPTH [(?z, ?z)] = Inr ds" using build_depths_spec[OF wf order_refl] by blast
  have "path_steps count_digest ds TREE_DEPTH ?z = map count_step [0..<256]"
    using single_leaf_path[OF ds order_refl] by (simp add: count_step_def empty_hash_count TREE_DEPTH_def del: upt_rec_numeral cong: map_cong)
  then show ?thesis
    by (simp add: proof_of_key_def compute_root_and_multi_proofs_from_iter_def m build_depth_maps_def ds key_path_def leaf_hash_input single_proof_def
        del: upt_rec_numeral)
qed

lemma single_inputs: "proof_inputs count_digest single_proof = (\<lambda>j. [1] @ le_bytes 32 j @ le_bytes 32 (1000 + j)) ` {0..<256}"
  using chain_inputs_count_steps[of 0 256] by (simp add: proof_inputs_def single_proof_def le_bytes_zero del: upt_rec_numeral)

lemma single_inputs_inj: "inj_on count_digest ({[2], leaf_input k v} \<union> proof_inputs count_digest single_proof)"
proof -
  define f where "f = (\<lambda>bs. le_nat (count_digest bs))"
  have f: "f (leaf_input k v) = 0" "f [2] = 1000" "\<And>j. j < 256 \<Longrightarrow> f (1 # le_bytes 32 j @ le_bytes 32 (1000 + j)) = j + 1"
    by (simp_all add: f_def) (simp_all add: count_digest_def le_nat_le_bytes flip: le_bytes_zero)
  have "inj_on f ({[2], leaf_input k v} \<union> proof_inputs count_digest single_proof)"
    unfolding single_inputs by (auto simp: inj_on_def f)
  then show ?thesis unfolding f_def by (rule inj_on_imageI2[unfolded comp_def])
qed

definition gift_lsu :: LedgerStateUpdate where
  "gift_lsu = burn_lsu\<lparr>lsu_partial_update := (lsu_partial_update burn_lsu)\<lparr>pu_transaction_entries :=
     [\<lparr>te_public_key = payer, te_amount = 2, te_signature = [9]\<rparr>]\<rparr>\<rparr>"

definition gift_bundle :: "Hash \<Rightarrow> StateProofBundle" where
  "gift_bundle root = \<lparr>sb_cycle = 5, sb_lsu_hash = replicate 32 0, sb_prev_state_root = root, sb_new_state_root = root,
     sb_changes = [\<lparr>kc_key = balance_key_for_pubkey payer, kc_old_value = to_le_bytes (3 :: i64), kc_old_proof = single_proof,
        kc_new_value = to_le_bytes (5 :: i64), kc_new_proof = single_proof\<rparr>]\<rparr>"


end
