(* ===== verification/Selection.thy ===== *)
theory Selection
  imports Reconcile
begin

text \<open>
  The selection of a batch refines a simpler one: its caches stand for a view of nonces,
  balances and fee credits, and only that view decides what is selected. It follows that a batch
  is selected again unchanged by every node with the same accounts, at any later time.
\<close>

section \<open>The view of a selection\<close>

record sview =
  v_nonce :: "bytes \<Rightarrow> u64"
  v_bal :: "bytes \<Rightarrow> i64"
  v_credit :: "bytes \<Rightarrow> u64"
  v_spent :: "bytes \<Rightarrow> u64"
  v_used :: nat

definition stored_spent :: "('s, 'p) node_env \<Rightarrow> Store \<Rightarrow> u64 \<Rightarrow> bytes \<Rightarrow> u64" where
  "stored_spent nx s cyc pk =
     (let daily = get_fee_credit_daily_spend nx s pk in if day_bucket daily = fee_credit_day_bucket cyc then spent_atoms daily else 0)"

definition shown :: "Store \<Rightarrow> bytes \<Rightarrow> i64 \<Rightarrow> i64" where
  "shown s pk b = (if b = 0 then get_balance_i64 s pk else b)"

definition view :: "('s, 'p) node_env \<Rightarrow> Store \<Rightarrow> u64 \<Rightarrow> selection \<Rightarrow> sview" where
  "view nx s cyc st =
     \<lparr>v_nonce = (\<lambda>pk. opt_or (map_of (sim_nonces st) pk) (get_nonce_u64 s pk)),
      v_bal = (\<lambda>pk. shown s pk (opt_or (map_of (sim_balances st) pk) 0)),
      v_credit = (\<lambda>pk. opt_or (map_of (sim_credits st) pk) (get_fee_credit_balance_u64 s pk)),
      v_spent = (\<lambda>pk. opt_or (map_of (sim_spent st) pk) (stored_spent nx s cyc pk)),
      v_used = used_entries st\<rparr>"

definition fee_after_credits :: "u64 \<Rightarrow> u64 \<Rightarrow> u64 \<Rightarrow> u64" where
  "fee_after_credits fee cred spent =
     (if TOKENOMICS_FEE_CREDITS_ENABLED \<and> 0 < fee
      then let credit_spend = min (min fee cred) (saturating_sub TOKENOMICS_FEE_CREDITS_DAILY_SPEND_CAP_ATOMS spent)
           in if 0 < credit_spend then saturating_sub fee credit_spend else fee
      else fee)"

definition moved :: "(bytes \<times> i64) list \<Rightarrow> (bytes \<Rightarrow> i64) \<Rightarrow> bytes \<Rightarrow> i64" where
  "moved ds = fold (\<lambda>(pk, d) f. f(pk := saturating_add_i64 (f pk) d)) ds"

definition abs_take :: "('s, 'p) node_env \<Rightarrow> Store \<Rightarrow> bytes \<Rightarrow> Transaction \<Rightarrow> (bytes \<times> i64) list \<Rightarrow> u64 \<Rightarrow> sview \<Rightarrow> sview" where
  "abs_take nx s sender tx ds due v =
     (let spend = (if TOKENOMICS_FEE_CREDITS_ENABLED \<and> due < fees (core tx) then Some (saturating_sub (fees (core tx)) due) else None) in
      \<lparr>v_nonce = (v_nonce v)(sender := nonce (core tx)),
       v_bal = (\<lambda>pk. if pk \<in> fst ` set ds then shown s pk (moved ds (v_bal v) pk) else v_bal v pk),
       v_credit = (case spend of None \<Rightarrow> v_credit v | Some c \<Rightarrow> (v_credit v)(sender := saturating_sub (v_credit v sender) c)),
       v_spent = (case spend of None \<Rightarrow> v_spent v | Some c \<Rightarrow> (v_spent v)(sender := saturating_add (v_spent v sender) c)),
       v_used = v_used v + length (to_consensus_entries nx tx)\<rparr>)"

definition abs_step ::
  "('s, 'p::ab_group_add) node_env \<Rightarrow> Store \<Rightarrow> nat \<Rightarrow> u64 \<Rightarrow> Transaction \<Rightarrow> sview \<Rightarrow> sview option" where
  "abs_step nx s max_entries now_secs tx v =
     (if \<not> passes_checks nx s now_secs tx then None
      else
        (case (tx_sender_pubkey tx, public_amounts (tx_entries (core tx))) of
           (Some sender, Some amounts) \<Rightarrow>
             (let due = fee_after_credits (fees (core tx)) (v_credit v sender) (v_spent v sender);
                  ds = amounts @ (if 0 < due then [(sender, - due)] else [])
              in if nonce (core tx) \<noteq> saturating_add (v_nonce v sender) 1 \<or> 2 ^ 63 \<le> unat due
                    \<or> \<not> list_all (\<lambda>(pk, d). 0 \<le> sint (saturating_add_i64 (v_bal v pk) d)) ds
                    \<or> max_entries < v_used v + length (to_consensus_entries nx tx)
                 then None else Some (abs_take nx s sender tx ds due v))
         | _ \<Rightarrow> None))"

section \<open>The concrete step refines the abstract one\<close>

lemma map_of_map_value: "map_of (map (\<lambda>(k, v). (k, f k v)) m) k = map_option (f k) (map_of m k)"
  by (induction m) auto

lemma preload_lookup:
  "map_of (preload_balances s es bals) pk =
     (if pk \<in> entry_public_key ` set es \<or> map_of bals pk \<noteq> None then Some (shown s pk (opt_or (map_of bals pk) 0)) else None)"
proof -
  have "map_of (fold (\<lambda>e m. if map_of m (entry_public_key e) = None then hm_insert (entry_public_key e) 0 m else m) es bals) pk
      = (case map_of bals pk of Some b \<Rightarrow> Some b | None \<Rightarrow> if pk \<in> entry_public_key ` set es then Some 0 else None)"
    by (induction es arbitrary: bals) (auto simp: map_of_hm_insert split: option.splits)
  then show ?thesis
    unfolding preload_balances_def
    using map_of_map_value[of "\<lambda>pk b. if b = 0 then get_balance_i64 s pk else b"
        "fold (\<lambda>e m. if map_of m (entry_public_key e) = None then hm_insert (entry_public_key e) 0 m else m) es bals" pk]
    by (auto simp: shown_def opt_or_simps split: option.splits)
qed

lemma shown_shown: "shown s pk (shown s pk b) = shown s pk b"
  by (simp add: shown_def)

lemma moved_simps: "moved [] f = f" "moved ((k, d) # ds) f = moved ds (f(k := saturating_add_i64 (f k) d))"
  by (simp_all add: moved_def)

lemma moved_off: "pk \<notin> fst ` set ds \<Longrightarrow> moved ds f pk = f pk"
  by (induction ds arbitrary: f) (auto simp: moved_simps)

lemma moved_lookup:
  "map_of (fold (\<lambda>(pk, d) m. hm_insert pk (saturating_add_i64 (opt_or (map_of m pk) 0) d) m) ds m) pk =
     (if pk \<in> fst ` set ds then Some (moved ds (\<lambda>pk. opt_or (map_of m pk) 0) pk) else map_of m pk)"
proof (induction ds arbitrary: m)
  case (Cons x ds)
  obtain k d where x: "x = (k, d)" by (cases x)
  let ?v = "saturating_add_i64 (opt_or (map_of m k) 0) d"
  have upd: "(\<lambda>pk. opt_or (map_of (hm_insert k ?v m) pk) 0) = (\<lambda>pk. opt_or (map_of m pk) 0)(k := ?v)"
    by (simp add: map_of_hm_insert fun_eq_iff opt_or_simps)
  show ?case
    using Cons.IH[of "hm_insert k ?v m"] unfolding x upd by (auto simp: moved_simps moved_off map_of_hm_insert)
qed (simp add: moved_simps)

lemma moved_cong: "(\<And>pk. pk \<in> fst ` set ds \<Longrightarrow> f pk = g pk) \<Longrightarrow> pk \<in> fst ` set ds \<Longrightarrow> moved ds f pk = moved ds g pk"
proof -
  assume eq: "\<And>pk. pk \<in> fst ` set ds \<Longrightarrow> f pk = g pk" and pk: "pk \<in> fst ` set ds"
  have "moved ds' f pk = moved ds' g pk" if "\<forall>k \<in> fst ` set ds'. f k = g k" "f pk = g pk" for ds' f g
    using that by (induction ds' arbitrary: f g) (auto simp: moved_def)
  with eq pk show ?thesis by blast
qed

lemma sender_is_entry: "tx_sender_pubkey tx = Some sender \<Longrightarrow> sender \<in> entry_public_key ` set (tx_entries (core tx))"
proof -
  have "sender \<in> entry_public_key ` set es" if "sender_loop es None = Some sender" for es
  proof -
    have "sender \<in> debited es" using that by (simp add: sender_loop_None)
    then show ?thesis by (auto simp: debited_def)
  qed
  then show "tx_sender_pubkey tx = Some sender \<Longrightarrow> ?thesis"
    by (auto simp: tx_sender_pubkey_def split: if_splits list.splits)
qed

lemma public_amounts_keys: "public_amounts es = Some ds \<Longrightarrow> fst ` set ds = entry_public_key ` set es"
proof (induction es arbitrary: ds)
  case (Cons e es)
  then obtain v ds' where "entry_amount e = NonConfidential v" "public_amounts es = Some ds'" "ds = (entry_public_key e, v) # ds'"
    by (auto split: EntryAmount.splits)
  with Cons.IH show ?case by simp
qed simp

lemma cached_view:
  assumes "cached pk v m = (w, m')"
  shows "w = opt_or (map_of m pk) v" and "map_of m' = (map_of m)(pk \<mapsto> w)"
  using assms by (auto simp: cached_def opt_or_simps map_of_hm_insert fun_eq_iff split: option.splits)

lemma simulate_fee_view:
  assumes run: "simulate_fee nx s cyc sender fee st = (due, st')"
  shows "due = fee_after_credits fee (v_credit (view nx s cyc st) sender) (v_spent (view nx s cyc st) sender)"
    and "view nx s cyc st' = view nx s cyc st"
    and "due \<noteq> fee \<Longrightarrow> map_of (sim_credits st') sender \<noteq> None \<and> map_of (sim_spent st') sender \<noteq> None"
proof (atomize (full), cases "0 < fee")
  case True
  obtain bal credits where c1: "cached sender (get_fee_credit_balance_u64 s sender) (sim_credits st) = (bal, credits)"
    by (cases "cached sender (get_fee_credit_balance_u64 s sender) (sim_credits st)")
  obtain spent spents where c2: "cached sender (stored_spent nx s cyc sender) (sim_spent st) = (spent, spents)"
    by (cases "cached sender (stored_spent nx s cyc sender) (sim_spent st)")
  have st': "st' = st\<lparr>sim_credits := credits, sim_spent := spents\<rparr>" and due: "due = fee_after_credits fee bal spent"
    using run True c1 c2[unfolded stored_spent_def Let_def]
    by (simp_all add: simulate_fee_def TOKENOMICS_FEE_CREDITS_ENABLED_def fee_after_credits_def Let_def)
  have vs: "v_credit (view nx s cyc st) sender = bal" "v_spent (view nx s cyc st) sender = spent"
    using cached_view(1)[OF c1] cached_view(1)[OF c2] by (simp_all add: view_def)
  have "view nx s cyc st' = view nx s cyc st"
    using cached_view[OF c1] cached_view[OF c2] by (auto simp: view_def st' opt_or_simps fun_eq_iff)
  then show "due = fee_after_credits fee (v_credit (view nx s cyc st) sender) (v_spent (view nx s cyc st) sender)
     \<and> view nx s cyc st' = view nx s cyc st
     \<and> (due \<noteq> fee \<longrightarrow> map_of (sim_credits st') sender \<noteq> None \<and> map_of (sim_spent st') sender \<noteq> None)"
    using due vs cached_view(2)[OF c1] cached_view(2)[OF c2] by (simp add: st')
qed (use run in \<open>auto simp: simulate_fee_def fee_after_credits_def\<close>)

lemma take_tx_view:
  assumes raw: "\<forall>pk \<in> fst ` set ds. opt_or (map_of (sim_balances st) pk) 0 = v_bal (view nx s cyc st) pk"
    and cred: "due \<noteq> fees (core tx) \<Longrightarrow> map_of (sim_credits st) sender \<noteq> None \<and> map_of (sim_spent st) sender \<noteq> None"
  shows "if list_all (\<lambda>(pk, d). 0 \<le> sint (saturating_add_i64 (v_bal (view nx s cyc st) pk) d)) ds
            \<and> \<not> max_entries < v_used (view nx s cyc st) + length (to_consensus_entries nx tx)
         then sel_out (take_tx nx max_entries sender tx ds due st) = sel_out st @ [tx]
            \<and> view nx s cyc (take_tx nx max_entries sender tx ds due st) = abs_take nx s sender tx ds due (view nx s cyc st)
         else take_tx nx max_entries sender tx ds due st = st"
proof -
  let ?v = "view nx s cyc st"
  have chk: "list_all (\<lambda>(pk, d). 0 \<le> sint (saturating_add_i64 (opt_or (map_of (sim_balances st) pk) 0) d)) ds
      \<longleftrightarrow> list_all (\<lambda>(pk, d). 0 \<le> sint (saturating_add_i64 (v_bal ?v pk) d)) ds"
    using raw by (force simp: list_all_iff)
  show ?thesis
  proof (cases "list_all (\<lambda>(pk, d). 0 \<le> sint (saturating_add_i64 (v_bal ?v pk) d)) ds
      \<and> \<not> max_entries < v_used ?v + length (to_consensus_entries nx tx)")
    case True
    let ?t = "take_tx nx max_entries sender tx ds due st"
    have used: "v_used ?v = used_entries st" by (simp add: view_def)
    have out: "sel_out ?t = sel_out st @ [tx]" "used_entries ?t = used_entries st + length (to_consensus_entries nx tx)"
      using True chk used by (simp_all add: take_tx_def Let_def)
    have nn: "map_of (sim_nonces ?t) = (map_of (sim_nonces st))(sender \<mapsto> nonce (core tx))"
      using True chk used by (simp add: take_tx_def Let_def map_of_hm_insert)
    have "map_of (sim_balances ?t) pk = (if pk \<in> fst ` set ds then Some (moved ds (v_bal ?v) pk) else map_of (sim_balances st) pk)" for pk
      using True chk used moved_cong[of ds "\<lambda>pk. opt_or (map_of (sim_balances st) pk) 0" "v_bal ?v" pk] raw
      by (auto simp: take_tx_def Let_def moved_lookup)
    then have bal: "v_bal (view nx s cyc ?t) = v_bal (abs_take nx s sender tx ds due ?v)"
      by (auto simp: view_def abs_take_def Let_def fun_eq_iff opt_or_simps)
    have cr: "v_credit (view nx s cyc ?t) = v_credit (abs_take nx s sender tx ds due ?v)"
        "v_spent (view nx s cyc ?t) = v_spent (abs_take nx s sender tx ds due ?v)"
    proof (atomize (full), cases "due < fees (core tx)")
      case False
      with True chk used show "v_credit (view nx s cyc ?t) = v_credit (abs_take nx s sender tx ds due ?v)
          \<and> v_spent (view nx s cyc ?t) = v_spent (abs_take nx s sender tx ds due ?v)"
        by (simp add: take_tx_def commit_credits_def Let_def view_def abs_take_def)
    next
      case less: True
      then obtain a b where "map_of (sim_credits st) sender = Some a" "map_of (sim_spent st) sender = Some b" using cred by auto
      with less True chk used show "v_credit (view nx s cyc ?t) = v_credit (abs_take nx s sender tx ds due ?v)
          \<and> v_spent (view nx s cyc ?t) = v_spent (abs_take nx s sender tx ds due ?v)"
        by (simp add: take_tx_def commit_credits_def Let_def view_def abs_take_def map_of_hm_insert fun_eq_iff)
    qed
    have "view nx s cyc ?t = abs_take nx s sender tx ds due ?v"
      using bal cr nn out(2) by (auto simp: view_def abs_take_def Let_def fun_eq_iff opt_or_simps)
    with True out show ?thesis by simp
  qed (use chk in \<open>auto simp: take_tx_def Let_def view_def\<close>)
qed

lemma select_step_refines:
  "case abs_step nx s max_entries now_secs tx (view nx s cyc st) of
     None \<Rightarrow> sel_out (select_step nx s cyc max_entries now_secs tx st) = sel_out st
       \<and> view nx s cyc (select_step nx s cyc max_entries now_secs tx st) = view nx s cyc st
   | Some v \<Rightarrow> sel_out (select_step nx s cyc max_entries now_secs tx st) = sel_out st @ [tx]
       \<and> view nx s cyc (select_step nx s cyc max_entries now_secs tx st) = v"
proof (cases "passes_checks nx s now_secs tx \<and> tx_sender_pubkey tx \<noteq> None")
  case True
  then obtain sender where pc: "passes_checks nx s now_secs tx" and se: "tx_sender_pubkey tx = Some sender" by auto
  let ?v = "view nx s cyc st"
  define st1 where "st1 = (if map_of (sim_nonces st) sender = None
     then st\<lparr>sim_nonces := hm_insert sender (get_nonce_u64 s sender) (sim_nonces st)\<rparr> else st)"
  have v1: "view nx s cyc st1 = ?v" "sel_out st1 = sel_out st" "opt_or (map_of (sim_nonces st1) sender) 0 = v_nonce ?v sender"
    by (auto simp: st1_def view_def map_of_hm_insert fun_eq_iff opt_or_simps)
  define st2 where "st2 = st1\<lparr>sim_balances := preload_balances s (tx_entries (core tx)) (sim_balances st1)\<rparr>"
  have v2: "view nx s cyc st2 = ?v" "sel_out st2 = sel_out st"
  proof -
    have "view nx s cyc st2 = view nx s cyc st1"
      by (auto simp: st2_def view_def preload_lookup shown_shown fun_eq_iff opt_or_simps)
    then show "view nx s cyc st2 = ?v" by (simp add: v1)
    show "sel_out st2 = sel_out st" by (simp add: st2_def v1)
  qed
  have raw2: "opt_or (map_of (sim_balances st2) pk) 0 = v_bal ?v pk" if "pk \<in> entry_public_key ` set (tx_entries (core tx))" for pk
    using that v1(1) by (auto simp: st2_def preload_lookup opt_or_simps view_def fun_eq_iff)
  obtain due st3 where fee: "simulate_fee nx s cyc sender (fees (core tx)) st2 = (due, st3)"
    by (cases "simulate_fee nx s cyc sender (fees (core tx)) st2")
  note f = simulate_fee_view[OF fee, unfolded v2(1)] simulate_fee_keeps[OF fee]
  have step: "select_step nx s cyc max_entries now_secs tx st =
      (if nonce (core tx) \<noteq> saturating_add (v_nonce ?v sender) 1 then st1
       else case public_amounts (tx_entries (core tx)) of
         None \<Rightarrow> st2
       | Some amounts \<Rightarrow> if 2 ^ 63 \<le> unat due then st3
           else take_tx nx max_entries sender tx (amounts @ (if 0 < due then [(sender, - due)] else [])) due st3)"
    using pc se v1(3) fee by (simp add: select_step_def Let_def st1_def[symmetric] st2_def[symmetric] split: option.split)
  show ?thesis
  proof (cases "public_amounts (tx_entries (core tx))")
    case (Some amounts)
    let ?ds = "amounts @ (if 0 < due then [(sender, - due)] else [])"
    have "fst ` set ?ds \<subseteq> entry_public_key ` set (tx_entries (core tx))"
      using public_amounts_keys[OF Some] sender_is_entry[OF se] by auto
    then have raw: "\<forall>pk \<in> fst ` set ?ds. opt_or (map_of (sim_balances st3) pk) 0 = v_bal (view nx s cyc st3) pk"
      using raw2 f by (auto simp: subset_iff)
    have cred: "(due \<noteq> fees (core tx) \<Longrightarrow> map_of (sim_credits st3) sender \<noteq> None \<and> map_of (sim_spent st3) sender \<noteq> None)"
      by (rule f(3))
    have abs: "abs_step nx s max_entries now_secs tx ?v =
       (if nonce (core tx) \<noteq> saturating_add (v_nonce ?v sender) 1 \<or> 2 ^ 63 \<le> unat due
           \<or> \<not> list_all (\<lambda>(pk, d). 0 \<le> sint (saturating_add_i64 (v_bal ?v pk) d)) ?ds
           \<or> max_entries < v_used ?v + length (to_consensus_entries nx tx)
        then None else Some (abs_take nx s sender tx ?ds due ?v))"
      using pc se Some unfolding f(1) by (simp add: abs_step_def Let_def)
    note take = take_tx_view[where ds = ?ds and st = st3 and due = due and tx = tx and sender = sender and max_entries = max_entries
          and nx = nx and s = s and cyc = cyc, OF raw cred, unfolded f(2)]
    have keeps: "sel_out st3 = sel_out st" "view nx s cyc st3 = ?v" using f v2 by simp_all
    show ?thesis
    proof (cases "nonce (core tx) \<noteq> saturating_add (v_nonce ?v sender) 1 \<or> 2 ^ 63 \<le> unat due")
      case True
      then have "abs_step nx s max_entries now_secs tx ?v = None" by (simp add: abs)
      with True keeps v1 show ?thesis unfolding step by (auto simp: Some)
    next
      case False
      then have run: "select_step nx s cyc max_entries now_secs tx st = take_tx nx max_entries sender tx ?ds due st3"
        unfolding step by (simp add: Some)
      show ?thesis unfolding run abs using False keeps take by (simp del: list_all_append split: if_splits)
    qed
  qed (use pc se v1 v2 in \<open>auto simp: step abs_step_def\<close>)
qed (auto simp: select_step_def abs_step_def split: option.splits)

section \<open>A selected batch is selected again\<close>

fun abs_run ::
  "('s, 'p::ab_group_add) node_env \<Rightarrow> Store \<Rightarrow> nat \<Rightarrow> u64 \<Rightarrow> Transaction list \<Rightarrow> sview \<Rightarrow> Transaction list" where
  "abs_run nx s max_entries now_secs [] v = []"
| "abs_run nx s max_entries now_secs (tx # txs) v =
     (case abs_step nx s max_entries now_secs tx v of
        None \<Rightarrow> abs_run nx s max_entries now_secs txs v
      | Some v' \<Rightarrow> tx # abs_run nx s max_entries now_secs txs v')"

definition start_view :: "('s, 'p) node_env \<Rightarrow> Store \<Rightarrow> u64 \<Rightarrow> sview" where
  "start_view nx s cyc =
     \<lparr>v_nonce = get_nonce_u64 s, v_bal = get_balance_i64 s, v_credit = get_fee_credit_balance_u64 s, v_spent = stored_spent nx s cyc, v_used = 0\<rparr>"

lemma select_run_refines:
  "sel_out (select_run nx s cyc max_entries now_secs txs st) = sel_out st @ abs_run nx s max_entries now_secs txs (view nx s cyc st)"
proof (induction txs arbitrary: st)
  case (Cons tx txs)
  show ?case
    using select_step_refines[where nx = nx and s = s and max_entries = max_entries and now_secs = now_secs and tx = tx and cyc = cyc and st = st] Cons.IH[of "select_step nx s cyc max_entries now_secs tx st"]
    by (auto simp: select_run_def split: option.splits)
qed (simp add: select_run_def)

lemma selection_is_abs_run:
  "validate_and_select_protocol_txs_for_construction nx s cyc txs max_entries now_ms
     = abs_run nx s max_entries (now_ms div 1000) (sort_key (tx_order nx) txs) (start_view nx s cyc)"
  by (simp add: validate_and_select_protocol_txs_for_construction_def select_run_refines view_def start_view_def shown_def opt_or_simps)

text \<open>Two stores look the same to the selection when they have the same accounts and check signatures for the same network.\<close>

definition same_ledger :: "('s, 'p::ab_group_add) node_env \<Rightarrow> Store \<Rightarrow> Store \<Rightarrow> bool" where
  "same_ledger nx s s' \<longleftrightarrow> accounts s' = accounts s
     \<and> (\<forall>tx. verify_protocol_tx_signature_with_domain nx s' tx = verify_protocol_tx_signature_with_domain nx s tx)"

lemma same_ledger_reads:
  assumes "same_ledger nx s s'"
  shows "get_balance_i64 s' = get_balance_i64 s" and "start_view nx s' cyc = start_view nx s cyc"
  using assms by (simp_all add: same_ledger_def start_view_def get_balance_i64_def get_nonce_u64_def get_fee_credit_balance_u64_def
      stored_spent_def get_fee_credit_daily_spend_def store_get_def fun_eq_iff)

lemma abs_step_again:
  assumes "same_ledger nx s s'" and "now_secs \<le> now_secs'" and "abs_step nx s max_entries now_secs tx v = Some v'"
  shows "abs_step nx s' max_entries now_secs' tx v = Some v'"
proof -
  have pc: "passes_checks nx s now_secs tx" using assms(3) by (simp add: abs_step_def split: if_splits)
  then have pc': "passes_checks nx s' now_secs' tx"
    using assms(1,2) by (auto simp: passes_checks_def same_ledger_def not_less)
  have take: "abs_take nx s' = abs_take nx s"
    using same_ledger_reads(1)[OF assms(1)] by (simp add: abs_take_def shown_def fun_eq_iff)
  have "abs_step nx s' max_entries now_secs' tx v = abs_step nx s max_entries now_secs tx v"
    unfolding abs_step_def take using pc pc' by simp
  with assms(3) show ?thesis by simp
qed

lemma abs_run_again:
  assumes "same_ledger nx s s'" and "now_secs \<le> now_secs'"
  shows "abs_run nx s' max_entries now_secs' (abs_run nx s max_entries now_secs txs v) v = abs_run nx s max_entries now_secs txs v"
  using abs_step_again[OF assms] by (induction txs arbitrary: v) (auto split: option.splits)

lemma abs_run_sorted: "sorted (map f txs) \<Longrightarrow> sorted (map f (abs_run nx s max_entries now_secs txs v))"
proof -
  have sub: "set (abs_run nx s max_entries now_secs txs v) \<subseteq> set txs" for txs v
    by (induction txs arbitrary: v) (auto split: option.splits)
  show "sorted (map f txs) \<Longrightarrow> sorted (map f (abs_run nx s max_entries now_secs txs v))"
    by (induction txs arbitrary: v) (use sub in \<open>fastforce split: option.splits\<close>)+
qed

lemma selection_again:
  assumes "same_ledger nx s s'" and "now_ms \<le> now_ms'"
  shows "validate_and_select_protocol_txs_for_construction nx s' cyc
           (validate_and_select_protocol_txs_for_construction nx s cyc txs max_entries now_ms) max_entries now_ms'
         = validate_and_select_protocol_txs_for_construction nx s cyc txs max_entries now_ms"
proof -
  let ?sel = "abs_run nx s max_entries (now_ms div 1000) (sort_key (tx_order nx) txs) (start_view nx s cyc)"
  have "sort_key (tx_order nx) ?sel = ?sel" by (rule sort_key_id_if_sorted[OF abs_run_sorted]) simp
  moreover have "now_ms div 1000 \<le> now_ms' div 1000" using assms(2) by (simp add: word_le_nat_alt unat_div div_le_mono)
  ultimately show ?thesis
    using abs_run_again[OF assms(1), of "now_ms div 1000" "now_ms' div 1000"] same_ledger_reads(2)[OF assms(1)]
    unfolding selection_is_abs_run by simp
qed

end
