(* ===== verification/Batches.thy ===== *)
theory Batches
  imports Selection Envelope
begin

text \<open>
  The transaction batch of a cycle (\<open>catalyst-cli/src/tx_batch_p2p.rs\<close>, \<open>tx.rs\<close> and \<open>node.rs\<close>):
  commitments and batches from peers, the answer to a resync request, recovery of a batch from
  metadata, and the wait of a producer for the entries that it constructs from.

  Decoding of the \<open>bincode\<close> messages is a parameter. The wait polls state that other tasks
  change: each poll is an observation of the clock, the shared maps and the store, and the polls
  are a sequence of observations. Fuel bounds the number of polls. Entries that a poll recovers
  from the store are also put into the shared map, which is the result of the wait.
\<close>

section \<open>Messages\<close>

datatype TxBatchControl = BatchCommit u64 Hash u32 | ResyncRequest u64 string

definition ser_tbatch :: "TxBatch \<Rightarrow> bytes" where
  "ser_tbatch b = ser_u64 (tb_cycle b) @ ser_arr (tb_batch_hash b) @ serialize_vec ser_tentry (tb_entries b)"

definition size_tbatch :: "TxBatch \<Rightarrow> nat" where
  "size_tbatch b = 8 + 32 + length (serialize_vec ser_tentry (tb_entries b))"

definition de_tbatch :: "TxBatch reader" where
  "de_tbatch =
     pbind de_u64 (\<lambda>c.
     pbind (de_arr 32) (\<lambda>h.
     pbind (deserialize_vec de_tentry) (\<lambda>es.
     preturn \<lparr>tb_cycle = c, tb_batch_hash = h, tb_entries = es\<rparr>)))"

definition tbatch_ok :: "TxBatch \<Rightarrow> bool" where
  "tbatch_ok b \<longleftrightarrow> length (tb_batch_hash b) = 32 \<and> vec_ok tentry_ok (tb_entries b)"

lemma de_tbatch_iff: "de_tbatch bs = Inr (x, rest) \<longleftrightarrow> bs = ser_tbatch x @ rest \<and> tbatch_ok x"
  by (cases x) (auto simp: de_tbatch_def ser_tbatch_def tbatch_ok_def codec_iffs)

interpretation tbatchc: codec ser_tbatch de_tbatch size_tbatch tbatch_ok
  by unfold_locales (auto simp: de_tbatch_iff size_tbatch_def ser_tbatch_def tbatch_ok_def codec_sizes ser_lengths)

text \<open>The \<open>bincode\<close> decoders of the control message and of the protocol batch.\<close>

record batch_codec =
  de_control :: "bytes \<Rightarrow> TxBatchControl option"
  de_protocol_batch :: "bytes \<Rightarrow> ProtocolTxBatch option"

section \<open>Batches from peers\<close>

record TxBatchP2pState =
  tx_batches :: "(u64 \<times> TransactionEntry list) list"
  commit_ram :: "(u64 \<times> Hash \<times> u32) list"

definition tx_batch_commit_key :: "u64 \<Rightarrow> string" where
  "tx_batch_commit_key cyc = key_of_cycle ''consensus:tx_batch_commit:'' cyc"

definition read_tx_batch_commit :: "Store \<Rightarrow> u64 \<Rightarrow> (Hash \<times> u32) option" where
  "read_tx_batch_commit s cyc = Option.bind (metadata s (tx_batch_commit_key cyc)) parse_tx_batch_commit_value"

definition persist_tx_batch_commit_metadata :: "u64 \<Rightarrow> Hash \<Rightarrow> u32 \<Rightarrow> Store \<Rightarrow> Store" where
  "persist_tx_batch_commit_metadata cyc batch_hash tx_count s =
     store_set_meta (tx_batch_commit_key cyc) (encode_tx_batch_commit_value batch_hash tx_count) s"

definition pinned_commit :: "TxBatchP2pState \<Rightarrow> Store option \<Rightarrow> u64 \<Rightarrow> (Hash \<times> u32) option" where
  "pinned_commit st storage cyc =
     (case map_of (commit_ram st) cyc of
        Some cm \<Rightarrow> Some cm
      | None \<Rightarrow> Option.bind storage (\<lambda>s. read_tx_batch_commit s cyc))"

definition ingest_commit :: "u64 \<Rightarrow> Hash \<Rightarrow> u32 \<Rightarrow> TxBatchP2pState \<Rightarrow> Store option \<Rightarrow> TxBatchP2pState \<times> Store option" where
  "ingest_commit cyc batch_hash tx_count st storage =
     (st\<lparr>commit_ram := hm_insert cyc (batch_hash, tx_count) (commit_ram st)\<rparr>,
      map_option (persist_tx_batch_commit_metadata cyc batch_hash tx_count) storage)"

definition entries_of_txs :: "('s, 'p) node_env \<Rightarrow> Transaction list \<Rightarrow> TransactionEntry list" where
  "entries_of_txs nx txs = concat (map (to_consensus_entries nx) txs)"

definition ingest_protocol_batch ::
  "('s, 'p::ab_group_add) node_env \<Rightarrow> u64 \<Rightarrow> nat \<Rightarrow> ProtocolTxBatch \<Rightarrow> TxBatchP2pState \<Rightarrow> Store option
     \<Rightarrow> bool \<times> TxBatchP2pState \<times> Store option" where
  "ingest_protocol_batch nx now_ms max_entries b st storage =
     (if \<not> verify_hash nx b then (False, st, storage)
      else
        let cyc = pb_cycle b; pinned = pinned_commit st storage cyc in
        if (case pinned of Some cm \<Rightarrow> protocol_tx_batch_disagrees_with_commit b cm | None \<Rightarrow> False) then (False, st, storage)
        else
          (case storage of
             None \<Rightarrow> (False, st, storage)
           | Some s \<Rightarrow>
               let valid = validate_and_select_protocol_txs_for_construction nx s cyc (pb_txs b) max_entries now_ms in
               if valid = [] \<and> (case pinned of Some (_, c) \<Rightarrow> c > 0 | None \<Rightarrow> False) then (False, st, storage)
               else
                 let s1 = persist_cycle_txids nx cyc (map (mempool_txid nx) valid) s;
                     s2 = fold (\<lambda>tx. update_tx_meta_status_selected nx now_ms tx cyc) valid s1;
                     s3 = (case map_of (commit_ram st) cyc of
                             Some (h, c) \<Rightarrow> persist_tx_batch_commit_metadata cyc h c s2
                           | None \<Rightarrow> s2)
                 in (True, st\<lparr>tx_batches := hm_insert cyc (entries_of_txs nx valid) (tx_batches st)\<rparr>, Some s3)))"

definition ingest_legacy_batch :: "('s, 'p) node_env \<Rightarrow> TxBatch \<Rightarrow> TxBatchP2pState \<Rightarrow> bool \<times> TxBatchP2pState" where
  "ingest_legacy_batch nx b st =
     (if hash_data (blake2b (ext nx)) (serialize_vec ser_tentry) (tb_entries b) = tb_batch_hash b
      then (True, st\<lparr>tx_batches := hm_insert (tb_cycle b) (tb_entries b) (tx_batches st)\<rparr>) else (False, st))"

definition ingest_p2p_tx_batch_envelope ::
  "('s, 'p::ab_group_add) node_env \<Rightarrow> environment \<Rightarrow> batch_codec \<Rightarrow> MessageEnvelope \<Rightarrow> u64 \<Rightarrow> u64 \<Rightarrow> nat \<Rightarrow> TxBatchP2pState \<Rightarrow> Store option
     \<Rightarrow> bool \<times> TxBatchP2pState \<times> Store option" where
  "ingest_p2p_tx_batch_envelope nx env bc e now_ms gossip_cycle_ms max_entries st storage =
     (let slack = p2p_tx_batch_max_cycle_slack env;
          allowed = (\<lambda>cyc. p2p_tx_batch_cycle_allows_ingress cyc now_ms gossip_cycle_ms slack)
      in if message_type e = TransactionRequest then
           (case de_control bc (payload e) of
              Some (BatchCommit cyc h c) \<Rightarrow> if allowed cyc then (False, ingest_commit cyc h c st storage) else (False, st, storage)
            | _ \<Rightarrow> (False, st, storage))
         else if message_type e \<noteq> TransactionBatch then (False, st, storage)
         else
           (case de_protocol_batch bc (payload e) of
              Some b \<Rightarrow>
                if \<not> allowed (pb_cycle b) then (False, st, storage)
                else ingest_protocol_batch nx now_ms max_entries b st storage
            | None \<Rightarrow>
                (case extract_message de_tbatch e of
                   Inl _ \<Rightarrow> (False, st, storage)
                 | Inr b \<Rightarrow>
                     if \<not> allowed (tb_cycle b) then (False, st, storage)
                     else (case ingest_legacy_batch nx b st of (ok, st1) \<Rightarrow> (ok, st1, storage)))))"

section \<open>Recovery from metadata\<close>

definition raw_tx :: "('s, 'p) node_env \<Rightarrow> Store \<Rightarrow> Hash \<Rightarrow> Transaction option" where
  "raw_tx nx s txid =
     Option.bind (case metadata s (mempool_tx_key txid) of Some b \<Rightarrow> Some b | None \<Rightarrow> metadata s (tx_raw_key txid)) (de_tx nx)"

fun load_txs :: "('s, 'p) node_env \<Rightarrow> Store \<Rightarrow> Hash list \<Rightarrow> Transaction list option" where
  "load_txs nx s [] = Some []"
| "load_txs nx s (i # ids) =
     (case raw_tx nx s i of None \<Rightarrow> None | Some tx \<Rightarrow> map_option (Cons tx) (load_txs nx s ids))"

definition recover_entries_from_persisted_cycle_txs ::
  "('s, 'p::ab_group_add) node_env \<Rightarrow> Store \<Rightarrow> u64 \<Rightarrow> nat \<Rightarrow> u64 \<Rightarrow> TransactionEntry list option" where
  "recover_entries_from_persisted_cycle_txs nx s cyc max_entries now_ms =
     (let index_present = metadata s (cycle_txids_key cyc) \<noteq> None; txids = load_cycle_txids nx s cyc in
      if txids = [] then (if index_present then Some [] else None)
      else
        (case load_txs nx s txids of
           None \<Rightarrow> None
         | Some txs \<Rightarrow>
             let valid = validate_and_select_protocol_txs_for_construction nx s cyc txs max_entries now_ms;
                 expect = new_protocol_tx_batch nx cyc valid
             in (case read_tx_batch_commit s cyc of
                   Some (h, c) \<Rightarrow>
                     if h \<noteq> pb_batch_hash expect \<or> c \<noteq> of_nat (length (pb_txs expect)) then None
                     else Some (entries_of_txs nx valid)
                 | None \<Rightarrow> Some (entries_of_txs nx valid))))"

text \<open>The answer to a resync request: the commitment if it is known, and the batch if it can be rebuilt.\<close>

definition answer_resync ::
  "('s, 'p::ab_group_add) node_env \<Rightarrow> u64 \<Rightarrow> nat \<Rightarrow> u64 \<Rightarrow> TxBatchP2pState \<Rightarrow> Store option \<Rightarrow> TxBatchControl option \<times> ProtocolTxBatch option" where
  "answer_resync nx now_ms max_entries cyc st storage =
     (map_option (\<lambda>(h, c). BatchCommit cyc h c) (pinned_commit st storage cyc),
      Option.bind storage (\<lambda>s.
        let txids = load_cycle_txids nx s cyc in
        if txids = [] then None
        else map_option (\<lambda>txs. new_protocol_tx_batch nx cyc
               (validate_and_select_protocol_txs_for_construction nx s cyc txs max_entries now_ms)) (load_txs nx s txids)))"

section \<open>Waiting for the entries of a cycle\<close>

record observation =
  ob_now :: u64
  ob_state :: TxBatchP2pState
  ob_store :: "Store option"

record waiting =
  last_resync_ms :: u64
  resync_sent :: u32

definition available ::
  "('s, 'p::ab_group_add) node_env \<Rightarrow> u64 \<Rightarrow> nat \<Rightarrow> observation \<Rightarrow> TransactionEntry list option" where
  "available nx cyc max_entries obs =
     (case map_of (tx_batches (ob_state obs)) cyc of
        Some es \<Rightarrow> Some es
      | None \<Rightarrow> Option.bind (ob_store obs) (\<lambda>s. recover_entries_from_persisted_cycle_txs nx s cyc max_entries (ob_now obs)))"

text \<open>
  One of the two polling loops, up to \<open>stop\<close>, from observation \<open>i\<close> on: the entries, or the next
  observation once the clock has passed \<open>stop\<close>. The last component are the times of the resync
  requests that were sent.
\<close>

fun poll ::
  "('s, 'p::ab_group_add) node_env \<Rightarrow> u64 \<Rightarrow> nat \<Rightarrow> bool \<Rightarrow> u64 \<Rightarrow> u64 \<Rightarrow> u32 \<Rightarrow> (nat \<Rightarrow> observation) \<Rightarrow> nat \<Rightarrow> nat \<Rightarrow> waiting
     \<Rightarrow> (TransactionEntry list option \<times> nat \<times> waiting \<times> u64 list) option" where
  "poll nx cyc max_entries is_leader stop gap cap obs 0 i w = None"
| "poll nx cyc max_entries is_leader stop gap cap obs (Suc fuel) i w =
     (if stop \<le> ob_now (obs i) then Some (None, Suc i, w, [])
      else
        (case available nx cyc max_entries (obs i) of
           Some es \<Rightarrow> Some (Some es, Suc i, w, [])
         | None \<Rightarrow>
             if \<not> is_leader \<and> gap \<le> saturating_sub (ob_now (obs i)) (last_resync_ms w) \<and> resync_sent w < cap
             then map_option (\<lambda>(r, j, w', sent). (r, j, w', ob_now (obs i) # sent))
                    (poll nx cyc max_entries is_leader stop gap cap obs fuel (Suc i)
                      \<lparr>last_resync_ms = ob_now (obs i), resync_sent = saturating_add (resync_sent w) 1\<rparr>)
             else poll nx cyc max_entries is_leader stop gap cap obs fuel (Suc i) w))"

definition wait_for_tx_construction_entries ::
  "('s, 'p::ab_group_add) node_env \<Rightarrow> environment \<Rightarrow> u64 \<Rightarrow> u64 \<Rightarrow> bool \<Rightarrow> nat \<Rightarrow> (nat \<Rightarrow> observation) \<Rightarrow> nat
     \<Rightarrow> (TransactionEntry list option \<times> u64 list) option" where
  "wait_for_tx_construction_entries nx env cyc cycle_ms is_leader max_entries obs fuel =
     (let now_ms = ob_now (obs 0);
          deadline_ms = tx_batch_follower_deadline_ms now_ms cyc cycle_ms (tx_batch_follower_wait_budget_ms env cycle_ms);
          hard_stop = tx_batch_follower_hard_stop_ms cyc cycle_ms
      in
      (case poll nx cyc max_entries is_leader deadline_ms 600 48 obs fuel 1 \<lparr>last_resync_ms = 0, resync_sent = 0\<rparr> of
         None \<Rightarrow> None
       | Some (Some es, _, _, sent) \<Rightarrow> Some (Some es, sent)
       | Some (None, i, w, sent) \<Rightarrow>
           (case poll nx cyc max_entries is_leader hard_stop 400 96 obs fuel i w of
              None \<Rightarrow> None
            | Some (Some es, _, _, sent') \<Rightarrow> Some (Some es, sent @ sent')
            | Some (None, j, _, sent') \<Rightarrow>
                (case available nx cyc max_entries (obs j) of
                   Some es \<Rightarrow> Some (Some es, sent @ sent')
                 | None \<Rightarrow>
                     let commit = map_of (commit_ram (ob_state (obs j))) cyc;
                         commit_meta = (case ob_store (obs j) of
                                          Some s \<Rightarrow> (case read_tx_batch_commit s cyc of Some cm \<Rightarrow> Some cm | None \<Rightarrow> commit)
                                        | None \<Rightarrow> commit)
                     in (case resolve_empty_construction_takeaway commit_meta is_leader of
                           AgreedEmpty \<Rightarrow> Some (Some [], sent @ sent')
                         | _ \<Rightarrow> Some (None, sent @ sent'))))))"

section \<open>What batches guarantee\<close>

lemma abs_run_checked: "tx \<in> set (abs_run nx s max_entries now_secs txs v) \<Longrightarrow> passes_checks nx s now_secs tx \<and> tx \<in> set txs"
  by (induction txs arbitrary: v) (auto simp: abs_step_def split: option.splits if_splits)

lemma selected_checked:
  "tx \<in> set (validate_and_select_protocol_txs_for_construction nx s cyc txs max_entries now_ms) \<Longrightarrow>
     passes_checks nx s (now_ms div 1000) tx \<and> tx \<in> set txs"
  using abs_run_checked by (fastforce simp: selection_is_abs_run)


text \<open>Entries that come from transactions which passed every check against some state of the ledger.\<close>

definition checked :: "('s, 'p::ab_group_add) node_env \<Rightarrow> TxBatchP2pState \<Rightarrow> bool" where
  "checked nx st \<longleftrightarrow>
     (\<forall>cyc es. map_of (tx_batches st) cyc = Some es \<longrightarrow>
        (\<exists>s now_secs txs. es = entries_of_txs nx txs \<and> (\<forall>tx \<in> set txs. passes_checks nx s now_secs tx)))"

definition is_legacy :: "batch_codec \<Rightarrow> MessageEnvelope \<Rightarrow> bool" where
  "is_legacy bc e \<longleftrightarrow> message_type e = TransactionBatch \<and> de_protocol_batch bc (payload e) = None \<and> (\<exists>b. extract_message de_tbatch e = Inr b)"

lemma ingest_protocol_checked:
  assumes "checked nx st" and "ingest_protocol_batch nx now_ms max_entries b st storage = (ok, st', storage')"
  shows "checked nx st'"
proof -
  have "st' = st \<or> (\<exists>s. st' = st\<lparr>tx_batches := hm_insert (pb_cycle b) (entries_of_txs nx
      (validate_and_select_protocol_txs_for_construction nx s (pb_cycle b) (pb_txs b) max_entries now_ms)) (tx_batches st)\<rparr>)"
    using assms(2) by (auto simp: ingest_protocol_batch_def Let_def split: if_splits option.splits)
  then show ?thesis
  proof (elim disjE exE)
    fix s assume st': "st' = st\<lparr>tx_batches := hm_insert (pb_cycle b) (entries_of_txs nx
      (validate_and_select_protocol_txs_for_construction nx s (pb_cycle b) (pb_txs b) max_entries now_ms)) (tx_batches st)\<rparr>"
    have "\<forall>tx \<in> set (validate_and_select_protocol_txs_for_construction nx s (pb_cycle b) (pb_txs b) max_entries now_ms).
        passes_checks nx s (now_ms div 1000) tx"
      using selected_checked[of _ nx s] by blast
    then show ?thesis using assms(1) unfolding checked_def st' by (auto simp: map_of_hm_insert)
  qed (use assms(1) in simp)
qed

lemma ingest_checked:
  assumes "checked nx st" and "\<not> is_legacy bc e"
    and "ingest_p2p_tx_batch_envelope nx env bc e now_ms gossip_cycle_ms max_entries st storage = (ok, st', storage')"
  shows "checked nx st'"
proof -
  have "st' = st \<or> tx_batches st' = tx_batches st \<or> (\<exists>b. ingest_protocol_batch nx now_ms max_entries b st storage = (ok, st', storage'))"
    using assms(2,3)
    by (auto simp: ingest_p2p_tx_batch_envelope_def is_legacy_def ingest_commit_def Let_def split: if_splits option.splits sum.splits TxBatchControl.splits)
  then show ?thesis
    using assms(1) ingest_protocol_checked[OF assms(1)] by (auto simp: checked_def)
qed

text \<open>C39: what a legacy batch gets past. Without legacy batches, every sequence of messages from peers leaves only entries of transactions that
passed all checks. A legacy batch carries entries and its own hash of them, nothing else is asked of it: within the cycle window it replaces
the entries of the cycle by any entries whatsoever, also when a commitment to another batch is pinned.\<close>

theorem legacy_batch_bypasses_checks:
  "(list_all (\<lambda>(e, now_ms, storage). \<not> is_legacy bc e) msgs \<longrightarrow> checked nx st \<longrightarrow>
      checked nx (fold (\<lambda>(e, now_ms, storage) st. fst (snd (ingest_p2p_tx_batch_envelope nx env bc e now_ms gossip_cycle_ms max_entries st storage))) msgs st))
   \<and> (message_type e = TransactionBatch \<longrightarrow> tbatch_ok (new_tx_batch nx cyc es) \<longrightarrow> payload e = ser_tbatch (new_tx_batch nx cyc es) \<longrightarrow>
      de_protocol_batch bc (payload e) = None \<longrightarrow> p2p_tx_batch_cycle_allows_ingress cyc now_ms gossip_cycle_ms (p2p_tx_batch_max_cycle_slack env) \<longrightarrow>
      (\<exists>st'. ingest_p2p_tx_batch_envelope nx env bc e now_ms gossip_cycle_ms max_entries st storage = (True, st', storage)
         \<and> map_of (tx_batches st') cyc = Some es \<and> pinned_commit st' storage cyc = pinned_commit st storage cyc))"
proof (intro conjI impI)
  show "checked nx (fold (\<lambda>(e, now_ms, storage) st. fst (snd (ingest_p2p_tx_batch_envelope nx env bc e now_ms gossip_cycle_ms max_entries st storage))) msgs st)"
    if "list_all (\<lambda>(e, now_ms, storage). \<not> is_legacy bc e) msgs" "checked nx st"
    using that
  proof (induction msgs arbitrary: st)
    case (Cons x msgs)
    obtain e n r where x: "x = (e, n, r)" by (cases x)
    obtain ok st' r' where run: "ingest_p2p_tx_batch_envelope nx env bc e n gossip_cycle_ms max_entries st r = (ok, st', r')"
      by (cases "ingest_p2p_tx_batch_envelope nx env bc e n gossip_cycle_ms max_entries st r") auto
    then have "checked nx st'" using ingest_checked[OF Cons.prems(2)] Cons.prems(1) x by auto
    from Cons.IH[OF _ this] Cons.prems(1) run show ?case by (simp add: x)
  qed simp
  assume "message_type e = TransactionBatch" "tbatch_ok (new_tx_batch nx cyc es)" "payload e = ser_tbatch (new_tx_batch nx cyc es)"
    "de_protocol_batch bc (payload e) = None" "p2p_tx_batch_cycle_allows_ingress cyc now_ms gossip_cycle_ms (p2p_tx_batch_max_cycle_slack env)"
  moreover from this have "extract_message de_tbatch e = Inr (new_tx_batch nx cyc es)"
    using tbatchc.run_reader_enc[of "new_tx_batch nx cyc es" "[]"] by (simp add: extract_message_def)
  ultimately show "\<exists>st'. ingest_p2p_tx_batch_envelope nx env bc e now_ms gossip_cycle_ms max_entries st storage = (True, st', storage)
         \<and> map_of (tx_batches st') cyc = Some es \<and> pinned_commit st' storage cyc = pinned_commit st storage cyc"
    by (simp add: ingest_p2p_tx_batch_envelope_def Let_def ingest_legacy_batch_def new_tx_batch_def map_of_hm_insert pinned_commit_def)
qed

section \<open>What the wait guarantees\<close>

text \<open>The clock moves between two polls while it has not passed the limit of the wait.\<close>

definition clock_moves :: "u64 \<Rightarrow> (nat \<Rightarrow> observation) \<Rightarrow> bool" where
  "clock_moves stop obs \<longleftrightarrow> (\<forall>i. ob_now (obs i) < stop \<longrightarrow> ob_now (obs i) < ob_now (obs (Suc i)))"

lemma poll_returns:
  assumes "clock_moves stop obs" and "unat stop - unat (ob_now (obs i)) < fuel"
  shows "poll nx cyc max_entries is_leader stop gap cap obs fuel i w \<noteq> None"
  using assms(2)
proof (induction fuel arbitrary: i w)
  case (Suc fuel)
  show ?case
  proof (cases "stop \<le> ob_now (obs i)")
    case False
    then have "unat (ob_now (obs i)) < unat (ob_now (obs (Suc i)))" "unat (ob_now (obs i)) < unat stop"
      using assms(1) by (simp_all add: clock_moves_def word_less_nat_alt[symmetric])
    then have "unat stop - unat (ob_now (obs (Suc i))) < fuel" using Suc.prems by linarith
    with Suc.IH have "poll nx cyc max_entries is_leader stop gap cap obs fuel (Suc i) w' \<noteq> None" for w' by blast
    with False show ?thesis by (cases is_leader) (auto split: option.split)
  qed simp
qed simp

lemma poll_outcome:
  assumes "poll nx cyc max_entries is_leader stop gap cap obs fuel i w = Some (r, j, w', sent)" and "unat cap < 2 ^ 32 - 1"
  shows "(case r of Some es \<Rightarrow> \<exists>k. available nx cyc max_entries (obs k) = Some es | None \<Rightarrow> \<exists>k. stop \<le> ob_now (obs k))
    \<and> unat (resync_sent w') = unat (resync_sent w) + length sent \<and> (sent \<noteq> [] \<longrightarrow> resync_sent w' \<le> cap)
    \<and> (is_leader \<longrightarrow> sent = [])"
  using assms(1)
proof (induction fuel arbitrary: i w r j w' sent)
  case (Suc fuel)
  show ?case
  proof (cases "stop \<le> ob_now (obs i) \<or> available nx cyc max_entries (obs i) \<noteq> None")
    case False
    let ?send = "\<not> is_leader \<and> gap \<le> saturating_sub (ob_now (obs i)) (last_resync_ms w) \<and> resync_sent w < cap"
    let ?w = "\<lparr>last_resync_ms = ob_now (obs i), resync_sent = saturating_add (resync_sent w) 1\<rparr>"
    show ?thesis
    proof (cases ?send)
      case True
      with False Suc.prems obtain sent1 where rest: "poll nx cyc max_entries is_leader stop gap cap obs fuel (Suc i) ?w = Some (r, j, w', sent1)"
          and sent: "sent = ob_now (obs i) # sent1" by (auto split: option.splits)
      have "unat (resync_sent ?w) = Suc (unat (resync_sent w))" "resync_sent ?w \<le> cap"
        using True assms(2) by (auto simp: unat_saturating_add word_less_nat_alt word_le_nat_alt)
      with Suc.IH[OF rest] True show ?thesis by (auto simp: sent word_le_nat_alt split: option.splits)
    next
      case no: False
      with False Suc.prems have "poll nx cyc max_entries is_leader stop gap cap obs fuel (Suc i) w = Some (r, j, w', sent)"
        by (simp split: if_splits)
      from Suc.IH[OF this] show ?thesis .
    qed
  next
    case True
    show ?thesis
    proof (cases "stop \<le> ob_now (obs i)")
      case False
      with True obtain es where es: "available nx cyc max_entries (obs i) = Some es" by auto
      with False Suc.prems have "r = Some es" "w' = w" "sent = []" by simp_all
      with es show ?thesis by auto
    qed (use Suc.prems in auto)
  qed
qed simp

text \<open>C29: the wait for a batch ends and never guesses. As long as the clock moves, the wait returns, after at most 96 resync requests and none by the
leader. Entries it returns were in the shared map or recovered from the store at some poll, or they are empty and a commitment to zero
transactions was known at the end; otherwise it returns none.\<close>

theorem construction_wait_sound:
  assumes "clock_moves (tx_batch_follower_deadline_ms (ob_now (obs 0)) cyc cycle_ms (tx_batch_follower_wait_budget_ms env cycle_ms)) obs"
    and "clock_moves (tx_batch_follower_hard_stop_ms cyc cycle_ms) obs" and "2 ^ 64 \<le> fuel"
  shows "\<exists>r sent. wait_for_tx_construction_entries nx env cyc cycle_ms is_leader max_entries obs fuel = Some (r, sent)
    \<and> length sent \<le> 96 \<and> (is_leader \<longrightarrow> sent = [])
    \<and> (case r of
         None \<Rightarrow> \<exists>k. available nx cyc max_entries (obs k) = None
       | Some es \<Rightarrow> (\<exists>k. available nx cyc max_entries (obs k) = Some es)
           \<or> es = [] \<and> (\<exists>k h. map_of (commit_ram (ob_state (obs k))) cyc = Some (h, 0)
                            \<or> (\<exists>s. ob_store (obs k) = Some s \<and> read_tx_batch_commit s cyc = Some (h, 0))))"
proof -
  let ?d = "tx_batch_follower_deadline_ms (ob_now (obs 0)) cyc cycle_ms (tx_batch_follower_wait_budget_ms env cycle_ms)"
  let ?h = "tx_batch_follower_hard_stop_ms cyc cycle_ms"
  let ?w = "\<lparr>last_resync_ms = 0, resync_sent = 0\<rparr>"
  have enough: "unat (stop :: u64) - n < fuel" for stop n using assms(3) unat_below[of stop] by linarith
  obtain r1 i w1 sent1 where p1: "poll nx cyc max_entries is_leader ?d 600 48 obs fuel 1 ?w = Some (r1, i, w1, sent1)"
    using poll_returns[OF assms(1) enough, where i = 1 and gap = 600 and cap = 48 and w = ?w and nx = nx and cyc = cyc and max_entries = max_entries
        and is_leader = is_leader] by auto
  note o1 = poll_outcome[OF p1]
  have s1: "length sent1 \<le> 48" "unat (resync_sent w1) = length sent1"
    using o1 by (cases sent1; auto simp: word_le_nat_alt)+
  show ?thesis
  proof (cases r1)
    case (Some es)
    then show ?thesis using p1 o1 s1 by (simp add: wait_for_tx_construction_entries_def Let_def)
  next
    case None
    obtain r2 j w2 sent2 where p2: "poll nx cyc max_entries is_leader ?h 400 96 obs fuel i w1 = Some (r2, j, w2, sent2)"
      using poll_returns[OF assms(2) enough, where i = i and gap = 400 and cap = 96 and w = w1 and nx = nx and cyc = cyc and max_entries = max_entries
        and is_leader = is_leader] by auto
    note o2 = poll_outcome[OF p2]
    have s2: "length (sent1 @ sent2) \<le> 96" "is_leader \<longrightarrow> sent1 @ sent2 = []"
      using o1 o2 s1 by (cases sent2; auto simp: word_le_nat_alt)+
    show ?thesis
      using p1 p2 None o2 s2
      by (cases r2; cases "available nx cyc max_entries (obs j)")
        (auto simp: wait_for_tx_construction_entries_def Let_def resolve_empty_construction_takeaway_def split: option.splits if_splits)
  qed
qed

section \<open>Concrete runs\<close>

definition demo_codec :: batch_codec where
  "demo_codec = \<lparr>de_control = (\<lambda>_. None), de_protocol_batch = (\<lambda>_. None)\<rparr>"


theorem legacy_batch_bypasses_checks_witness:
  "let es = [\<lparr>te_public_key = replicate 32 1, te_amount = 1000000, te_signature = []\<rparr>];
       e = (new_envelope ''m'' 0 TransactionBatch ''peer'' None (ser_tbatch (new_tx_batch demo_env 7 es)))
   in \<exists>st'. ingest_p2p_tx_batch_envelope demo_env (\<lambda>_. None) demo_codec e 0 0 10
          \<lparr>tx_batches = [], commit_ram = [(7, replicate 32 0, 1)]\<rparr> None = (True, st', None) \<and> map_of (tx_batches st') 7 = Some es"
proof -
  let ?es = "[\<lparr>te_public_key = replicate 32 1, te_amount = 1000000, te_signature = []\<rparr>] :: TransactionEntry list"
  let ?e = "new_envelope ''m'' 0 TransactionBatch ''peer'' None (ser_tbatch (new_tx_batch demo_env 7 ?es))"
  have "tbatch_ok (new_tx_batch demo_env 7 ?es)"
    by (simp add: tbatch_ok_def new_tx_batch_def tentry_ok_def hash_data_def blake32_def demo_env_def)
  then show ?thesis
    using legacy_batch_bypasses_checks[where bc = demo_codec and nx = demo_env and e = ?e and cyc = 7 and es = ?es and now_ms = 0 and gossip_cycle_ms = 0
        and env = "\<lambda>_. None" and max_entries = 10 and st = "\<lparr>tx_batches = [], commit_ram = [(7, replicate 32 0, 1)]\<rparr>" and storage = None and msgs = "[]"]
    by (auto simp: new_envelope_def demo_codec_def p2p_tx_batch_cycle_allows_ingress_def Let_def)
qed

theorem construction_wait_sound_witness:
  "\<exists>r sent. wait_for_tx_construction_entries demo_env (\<lambda>_. None) 0 20000 False 10
      (\<lambda>i. \<lparr>ob_now = of_nat (min i 30000), ob_state = \<lparr>tx_batches = [], commit_ram = []\<rparr>, ob_store = None\<rparr>) (2 ^ 64) = Some (r, sent)
    \<and> length sent \<le> 96"
proof -
  let ?obs = "\<lambda>i. \<lparr>ob_now = of_nat (min i 30000), ob_state = \<lparr>tx_batches = [], commit_ram = []\<rparr>, ob_store = None\<rparr>"
  have moves: "clock_moves stop ?obs" if "stop \<le> 30000" for stop
    unfolding clock_moves_def
  proof (intro allI impI)
    fix i assume "ob_now (?obs i) < stop"
    then have "unat (of_nat (min i 30000) :: u64) < 30000" using that by (simp add: word_less_nat_alt word_le_nat_alt)
    then have "i < 30000" by (auto simp: unat_of_nat min_def split: if_splits)
    then show "ob_now (?obs i) < ob_now (?obs (Suc i))" by (simp add: word_less_nat_alt unat_of_nat min_def del: of_nat_Suc)
  qed
  have "tx_batch_follower_hard_stop_ms 0 20000 \<le> 30000" "tx_batch_follower_deadline_ms 0 0 20000 b \<le> 30000" for b
    by (simp_all add: tx_batch_follower_hard_stop_ms_def tx_batch_follower_deadline_ms_def saturating_sub_def saturating_mul_def saturating_add_def Let_def
        min_le_iff_disj)
  then show ?thesis
    using construction_wait_sound[of ?obs 0 20000 "\<lambda>_. None" "2 ^ 64" demo_env False 10] moves by (simp add: Let_def) blast
qed

end
