(* ===== verification/Spec2Isabelle.thy ===== *)
theory Spec2Isabelle
  imports Engine Snapshots Providers Bundles Batches
begin

text \<open>
  A verification library for the Catalyst network node.

  The node agrees once per cycle on a ledger state update (LSU): producers of the cycle build
  a partial update from the transactions, campaign for the majority hash, vote on the final
  update and synchronise its address. The theories follow the crates of the repository.

  \<^item> \<open>Prelude\<close>: machine integers, byte strings, ordered containers.
  \<^item> \<open>Codec\<close>: the wire codec of \<open>catalyst-utils/src/serialization.rs\<close>.
  \<^item> \<open>Wire_Tx\<close>: the protocol transaction of \<open>catalyst-core/src/protocol.rs\<close>.
\<close>

end
